(* ===== verification/Kvm_Prelude.thy ===== *)
theory Kvm_Prelude
  imports Main "HOL-Library.Word" "HOL-Library.Monad_Syntax"
begin

text \<open>
  Shared vocabulary of the development: the fixed-width integer types of the C code, little-endian
  byte encodings, the counted \<open>for\<close> loop as a fold in the option type, and the rule collections
  that the component theories add to.
\<close>

unbundle bit_operations_syntax

section \<open>Machine integers\<close>

type_synonym u8 = "8 word"
type_synonym u16 = "16 word"
type_synonym u32 = "32 word"
type_synonym u64 = "64 word"

named_theorems mem_simps \<open>reads after writes of guest memory\<close>
named_theorems dev_simps \<open>effect of a device operation on each field of the device state\<close>
named_theorems layout_defs \<open>addresses and sizes fixed by the source\<close>

lemma unat_less_2p32: "unat (x :: u32) < 2 ^ 32"
  using unsigned_less[of x] by simp

lemma unat_drop_div: "unat (drop_bit n x :: u32) = unat x div 2 ^ n"
proof -
  have "take_bit 32 (unat x) = unat x" by (rule take_bit_nat_eq_self[OF unat_less_2p32])
  then show ?thesis by (subst unsigned_drop_bit_eq) (simp add: drop_bit_eq_div)
qed

section \<open>Bytes and little-endian encodings\<close>

text \<open>
  An x86 store of an \<open>8 * n\<close> bit integer writes its bytes least significant first; a load
  assembles them in the same order.
\<close>

definition le_bytes :: "nat \<Rightarrow> 'a::len word \<Rightarrow> u8 list" where
  "le_bytes n w = map (\<lambda>i. ucast (drop_bit (8 * i) w)) [0..<n]"

fun from_le :: "u8 list \<Rightarrow> 'a::len word" where
  "from_le [] = 0"
| "from_le (b # bs) = ucast b OR push_bit 8 (from_le bs)"

lemma length_le_bytes [simp]: "length (le_bytes n w) = n"
  by (simp add: le_bytes_def)

lemma le_bytes_nth: "i < n \<Longrightarrow> le_bytes n w ! i = ucast (drop_bit (8 * i) w)"
  by (simp add: le_bytes_def)

lemma bit_from_le:
  "bit (from_le bs :: 'a::len word) k \<longleftrightarrow>
     k < LENGTH('a) \<and> k div 8 < length bs \<and> bit (bs ! (k div 8)) (k mod 8)"
proof (induction bs arbitrary: k)
  case Nil
  then show ?case by simp
next
  case (Cons b bs)
  show ?case
  proof (cases "k < 8")
    case True
    then show ?thesis
      by (auto simp: bit_or_iff bit_push_bit_iff bit_ucast_iff dest: bit_imp_le_length)
  next
    case False
    then obtain j where k: "k = j + 8" by (metis add.commute le_Suc_ex not_less)
    have "\<not> bit b k" using k by (auto dest: bit_imp_le_length)
    moreover have "(j + 8) div 8 = Suc (j div 8)" by simp
    ultimately show ?thesis
      using Cons.IH[of j] k
      by (auto simp del: div_add_self2 simp: bit_or_iff bit_push_bit_iff bit_ucast_iff)
  qed
qed

lemma from_le_le_bytes_take:
  "(from_le (le_bytes n (w :: 'a::len word)) :: 'b::len word) = ucast (take_bit (8 * n) w)"
proof (rule bit_word_eqI)
  fix k assume "k < LENGTH('b)"
  moreover have "k div 8 < n \<longleftrightarrow> k < 8 * n" by linarith
  ultimately show "bit (from_le (le_bytes n w) :: 'b word) k =
      bit (ucast (take_bit (8 * n) w) :: 'b word) k"
    by (auto simp: bit_from_le le_bytes_nth bit_ucast_iff bit_drop_bit_eq bit_take_bit_iff
        dest: bit_imp_le_length)
qed

lemma from_le_le_bytes:
  fixes w :: "'a::len word"
  assumes "LENGTH('a) \<le> 8 * n"
  shows "from_le (le_bytes n w) = w"
proof (rule bit_word_eqI)
  fix k assume k: "k < LENGTH('a)"
  with assms have "k div 8 < n" by linarith
  with k show "bit (from_le (le_bytes n w) :: 'a word) k = bit w k"
    by (simp add: bit_from_le le_bytes_nth bit_ucast_iff bit_drop_bit_eq)
qed

lemma le_bytes_from_le:
  assumes "8 * length bs \<le> LENGTH('a::len)"
  shows "le_bytes (length bs) (from_le bs :: 'a word) = bs"
proof (rule nth_equalityI)
  show "length (le_bytes (length bs) (from_le bs :: 'a word)) = length bs" by simp
next
  fix i assume "i < length (le_bytes (length bs) (from_le bs :: 'a word))"
  then have i: "i < length bs" by simp
  show "le_bytes (length bs) (from_le bs :: 'a word) ! i = bs ! i"
  proof (rule bit_word_eqI)
    fix k assume "k < LENGTH(8)"
    then have k: "k < 8" by simp
    have "8 * i + k < LENGTH('a)" using i k assms by linarith
    then show "bit (le_bytes (length bs) (from_le bs :: 'a word) ! i) k = bit (bs ! i) k"
      using i k by (simp add: le_bytes_nth bit_ucast_iff bit_drop_bit_eq bit_from_le)
  qed
qed

section \<open>Counted loops that may stop\<close>

text \<open>
  \<open>for_each [0..<n] body s\<close> is \<^verbatim>\<open>for (i = 0; i < n; i++) body\<close> over a state \<open>s\<close>; the
  result is \<open>None\<close> as soon as one iteration is undefined.
\<close>

fun for_each :: "'i list \<Rightarrow> ('i \<Rightarrow> 's \<Rightarrow> 's option) \<Rightarrow> 's \<Rightarrow> 's option" where
  "for_each [] body s = Some s"
| "for_each (i # is) body s = Option.bind (body i s) (for_each is body)"

lemma for_each_append:
  "for_each (xs @ ys) body s = Option.bind (for_each xs body s) (for_each ys body)"
  by (induction xs arbitrary: s) (auto split: bind_splits)

lemma for_each_upt_Suc:
  "for_each [0..<Suc n] body s = Option.bind (for_each [0..<n] body s) (body n)"
  by (cases "for_each [0..<n] body s") (auto simp: for_each_append split: bind_splits)

lemma for_each_inv:
  assumes "for_each is body s = Some t" and "P s"
    and "\<And>i s t. i \<in> set is \<Longrightarrow> P s \<Longrightarrow> body i s = Some t \<Longrightarrow> P t"
  shows "P t"
  using assms
proof (induction "is" arbitrary: s)
  case Nil
  then show ?case by simp
next
  case (Cons i "is")
  then obtain u where u: "body i s = Some u" "for_each is body u = Some t"
    by (auto simp: bind_eq_Some_conv)
  then show ?case using Cons.IH[OF u(2)] Cons.prems by auto
qed

text \<open>Characters of string literals as bytes.\<close>

definition ascii :: "string \<Rightarrow> u8 list" where
  "ascii s = map (\<lambda>c. word_of_nat (of_char c)) s"

lemma length_ascii [simp]: "length (ascii s) = length s"
  by (simp add: ascii_def)

lemma ascii_append [simp]: "ascii (s @ t) = ascii s @ ascii t"
  by (simp add: ascii_def)

section \<open>Decimal numbers\<close>

text \<open>The decimal digits that \<^verbatim>\<open>printf("%d")\<close> writes.\<close>

fun dec_nat :: "nat \<Rightarrow> u8 list" where
  "dec_nat n = (if n < 10 then [word_of_nat (48 + n)]
                else dec_nat (n div 10) @ [word_of_nat (48 + n mod 10)])"

declare dec_nat.simps [simp del]

definition dec_int :: "int \<Rightarrow> u8 list" where
  "dec_int i = (if i < 0 then ascii ''-'' @ dec_nat (nat (- i)) else dec_nat (nat i))"

section \<open>Hexadecimal numbers\<close>

definition hex_digit :: "nat \<Rightarrow> u8" where
  "hex_digit n = word_of_nat (if n < 10 then 48 + n else 87 + n)"

text \<open>The digits that \<^verbatim>\<open>printf("%x")\<close> writes, and those of a conversion with a field width.\<close>

fun hex_nat :: "nat \<Rightarrow> u8 list" where
  "hex_nat n = (if n < 16 then [hex_digit n] else hex_nat (n div 16) @ [hex_digit (n mod 16)])"

declare hex_nat.simps [simp del]

definition hex_pad :: "nat \<Rightarrow> nat \<Rightarrow> u8 list" where
  "hex_pad k n = replicate (k - length (hex_nat n)) (hex_digit 0) @ hex_nat n"

definition hex_value :: "u8 \<Rightarrow> nat" where
  "hex_value c = (if 48 \<le> unat c \<and> unat c \<le> 57 then unat c - 48 else unat c - 87)"

lemma unat_hex_digit: "n < 16 \<Longrightarrow> unat (hex_digit n) = (if n < 10 then 48 + n else 87 + n)"
  by (simp add: hex_digit_def unat_of_nat)

lemma hex_value_digit [simp]: "n < 16 \<Longrightarrow> hex_value (hex_digit n) = n"
  by (simp add: hex_value_def unat_hex_digit)

lemma set_hex_nat: "set (hex_nat n) \<subseteq> hex_digit ` {..<16}"
  by (induction n rule: hex_nat.induct) (subst hex_nat.simps, auto)

lemma set_hex_pad: "set (hex_pad k n) \<subseteq> hex_digit ` {..<16}"
  using set_hex_nat[of n] by (auto simp: hex_pad_def)

text \<open>A hexadecimal digit is none of the characters that separate numbers.\<close>

lemma hex_digit_not:
  assumes "c \<in> hex_digit ` {..<16}" and "unat d < 48 \<or> unat d = 58 \<or> 102 < unat d"
  shows "c \<noteq> d"
  using assms by (auto simp: unat_hex_digit split: if_splits)

lemma hex_pad_2:
  assumes "n < 256"
  shows "hex_pad 2 n = [hex_digit (n div 16), hex_digit (n mod 16)]"
proof (cases "n < 16")
  case True
  then show ?thesis by (simp add: hex_pad_def hex_nat.simps[of n])
next
  case False
  moreover have "n div 16 < 16" using assms by simp
  ultimately show ?thesis by (simp add: hex_pad_def hex_nat.simps[of n] hex_nat.simps[of "n div 16"])
qed

text \<open>Reading the digits back.\<close>

definition hex_read :: "u8 list \<Rightarrow> nat" where
  "hex_read cs = foldl (\<lambda>v c. v * 16 + hex_value c) 0 cs"

lemma hex_read_nat: "hex_read (hex_nat n) = n"
proof (induction n rule: hex_nat.induct)
  case (1 n)
  then show ?case by (subst hex_nat.simps) (auto simp: hex_read_def)
qed

lemma hex_read_pad: "hex_read (hex_pad k n) = n"
proof -
  have "foldl (\<lambda>v c. v * 16 + hex_value c) 0 (replicate j (hex_digit 0)) = 0" for j
    by (induction j) simp_all
  then show ?thesis using hex_read_nat[of n] by (simp add: hex_pad_def hex_read_def)
qed

section \<open>Transition systems\<close>

text \<open>
  What every run of a system preserves, from what one step does: \<open>step_preorder\<close> relates the states along a run,
  \<open>step_invariant\<close> is the case of a property that no step destroys.
\<close>

locale step_preorder =
  fixes step :: "'s \<Rightarrow> 's \<Rightarrow> bool"
    and rel :: "'s \<Rightarrow> 's \<Rightarrow> bool"
  assumes step_rel: "step s t \<Longrightarrow> rel s t"
    and rel_refl: "rel s s"
    and rel_trans: "rel s t \<Longrightarrow> rel t u \<Longrightarrow> rel s u"
begin

lemma run_rel: "step\<^sup>*\<^sup>* s t \<Longrightarrow> rel s t"
  by (induction rule: rtranclp_induct) (auto intro: rel_refl rel_trans step_rel)

end

locale step_invariant =
  fixes step :: "'s \<Rightarrow> 's \<Rightarrow> bool"
    and inv :: "'s \<Rightarrow> bool"
  assumes step_inv: "step s t \<Longrightarrow> inv s \<Longrightarrow> inv t"

sublocale step_invariant \<subseteq> preserves: step_preorder step "\<lambda>s t. inv s \<longrightarrow> inv t"
  by unfold_locales (use step_inv in blast)+

context step_invariant
begin

lemma run_inv: "step\<^sup>*\<^sup>* s t \<Longrightarrow> inv s \<Longrightarrow> inv t"
  using preserves.run_rel by blast

end

end
