(* ===== verification/Guest_Memory.thy ===== *)
theory Guest_Memory
  imports Kvm_Prelude
begin

text \<open>
  The memory of a guest: the host mapping \<^verbatim>\<open>ctx->guest_mem\<close> of \<^verbatim>\<open>ctx->mem_size\<close> bytes, addressed
  by offset. An access that leaves the mapping is undefined behaviour of the host program; it is
  the value \<open>None\<close> here, so a theorem that a routine returns \<open>Some\<close> says that all its accesses
  stay inside the mapping. The locale \<open>byte_memory\<close> is the interface the descriptor, page-table
  and loader code relies on; \<open>gmem\<close> is its model.
\<close>

section \<open>The memory and its accesses\<close>

record gmem =
  gm_size :: nat
  gm_data :: "nat \<Rightarrow> u8"

definition splice :: "(nat \<Rightarrow> u8) \<Rightarrow> nat \<Rightarrow> u8 list \<Rightarrow> (nat \<Rightarrow> u8)" where
  "splice f a bs = (\<lambda>x. if a \<le> x \<and> x < a + length bs then bs ! (x - a) else f x)"

definition gm_write :: "gmem \<Rightarrow> nat \<Rightarrow> u8 list \<Rightarrow> gmem option" where
  "gm_write m a bs =
     (if a + length bs \<le> gm_size m then Some (m\<lparr>gm_data := splice (gm_data m) a bs\<rparr>) else None)"

definition gm_read :: "gmem \<Rightarrow> nat \<Rightarrow> nat \<Rightarrow> u8 list option" where
  "gm_read m a n = (if a + n \<le> gm_size m then Some (map (gm_data m) [a..<a + n]) else None)"

text \<open>\<^verbatim>\<open>memset\<close> and the typed stores and loads of the C code.\<close>

definition gm_fill :: "gmem \<Rightarrow> nat \<Rightarrow> u8 \<Rightarrow> nat \<Rightarrow> gmem option" where
  "gm_fill m a c n = gm_write m a (replicate n c)"

definition store8 :: "gmem \<Rightarrow> nat \<Rightarrow> u8 \<Rightarrow> gmem option" where
  "store8 m a w = gm_write m a [w]"

definition store16 :: "gmem \<Rightarrow> nat \<Rightarrow> u16 \<Rightarrow> gmem option" where
  "store16 m a w = gm_write m a (le_bytes 2 w)"

definition store32 :: "gmem \<Rightarrow> nat \<Rightarrow> u32 \<Rightarrow> gmem option" where
  "store32 m a w = gm_write m a (le_bytes 4 w)"

definition store64 :: "gmem \<Rightarrow> nat \<Rightarrow> u64 \<Rightarrow> gmem option" where
  "store64 m a w = gm_write m a (le_bytes 8 w)"

definition load8 :: "gmem \<Rightarrow> nat \<Rightarrow> u8 option" where
  "load8 m a = map_option from_le (gm_read m a 1)"

definition load16 :: "gmem \<Rightarrow> nat \<Rightarrow> u16 option" where
  "load16 m a = map_option from_le (gm_read m a 2)"

definition load32 :: "gmem \<Rightarrow> nat \<Rightarrow> u32 option" where
  "load32 m a = map_option from_le (gm_read m a 4)"

definition load64 :: "gmem \<Rightarrow> nat \<Rightarrow> u64 option" where
  "load64 m a = map_option from_le (gm_read m a 8)"

text \<open>Part of a region that was read.\<close>

lemma gm_read_slice:
  "gm_read m a n = Some bs \<Longrightarrow> i + c \<le> n \<Longrightarrow> gm_read m (a + i) c = Some (take c (drop i bs))"
  by (auto simp: gm_read_def add.assoc intro!: nth_equalityI split: if_splits)

section \<open>The interface\<close>

locale byte_memory =
  fixes rd :: "'m \<Rightarrow> nat \<Rightarrow> nat \<Rightarrow> u8 list option"
    and wr :: "'m \<Rightarrow> nat \<Rightarrow> u8 list \<Rightarrow> 'm option"
    and sz :: "'m \<Rightarrow> nat"
  assumes wr_defined: "a + length bs \<le> sz m \<Longrightarrow> \<exists>m'. wr m a bs = Some m'"
    and wr_bounds: "wr m a bs = Some m' \<Longrightarrow> a + length bs \<le> sz m \<and> sz m' = sz m"
    and rd_wr_same: "wr m a bs = Some m' \<Longrightarrow> rd m' a (length bs) = Some bs"
    and rd_wr_other:
      "wr m a bs = Some m' \<Longrightarrow> a + length bs \<le> b \<or> b + n \<le> a \<Longrightarrow> rd m' b n = rd m b n"
begin

text \<open>
  A table of \<open>n\<close> entries of \<open>k\<close> bytes each, filled in index order: the shape of every page
  table, descriptor table and interrupt vector table of the source.
\<close>

definition fill :: "nat \<Rightarrow> nat \<Rightarrow> (nat \<Rightarrow> u8 list) \<Rightarrow> nat \<Rightarrow> 'm \<Rightarrow> 'm option" where
  "fill base k enc n m = for_each [0..<n] (\<lambda>i m. wr m (base + k * i) (enc i)) m"

lemma fill_defined:
  assumes "\<And>i. length (enc i) = k" and "base + k * n \<le> sz m"
  shows "\<exists>m'. fill base k enc n m = Some m' \<and> sz m' = sz m"
  using assms(2)
proof (induction n)
  case 0
  then show ?case by (simp add: fill_def)
next
  case (Suc n)
  then obtain u where u: "fill base k enc n m = Some u" "sz u = sz m" by auto
  have "base + k * n + length (enc n) \<le> sz u" using Suc.prems u assms(1) by simp
  then obtain v where "wr u (base + k * n) (enc n) = Some v" using wr_defined by blast
  then show ?case
    using u wr_bounds unfolding fill_def for_each_upt_Suc by fastforce
qed

lemma fill_frame:
  assumes "fill base k enc n m = Some m'" and "\<And>i. length (enc i) = k"
    and "b + l \<le> base \<or> base + k * n \<le> b"
  shows "rd m' b l = rd m b l"
  using assms(1,3)
proof (induction n arbitrary: m')
  case 0
  then show ?case by (simp add: fill_def)
next
  case (Suc n)
  then obtain u where u: "fill base k enc n m = Some u" "wr u (base + k * n) (enc n) = Some m'"
    unfolding fill_def for_each_upt_Suc by (auto simp: bind_eq_Some_conv)
  have "rd u b l = rd m b l" using Suc.IH[OF u(1)] Suc.prems(2) by auto
  moreover have "rd m' b l = rd u b l"
    by (rule rd_wr_other[OF u(2)]) (use Suc.prems(2) assms(2) in auto)
  ultimately show ?case by simp
qed

lemma fill_entry:
  assumes "fill base k enc n m = Some m'" and "\<And>i. length (enc i) = k" and "j < n"
  shows "rd m' (base + k * j) k = Some (enc j)"
  using assms(1,3)
proof (induction n arbitrary: m')
  case 0
  then show ?case by simp
next
  case (Suc n)
  then obtain u where u: "fill base k enc n m = Some u" "wr u (base + k * n) (enc n) = Some m'"
    unfolding fill_def for_each_upt_Suc by (auto simp: bind_eq_Some_conv)
  show ?case
  proof (cases "j = n")
    case True
    then show ?thesis using rd_wr_same[OF u(2)] assms(2) by simp
  next
    case False
    then have j: "j < n" using Suc.prems(2) by simp
    then have "base + k * j + k \<le> base + k * n"
      by (metis add_le_cancel_left add_mult_distrib2 add.assoc mult.right_neutral mult_le_mono2
          Suc_eq_plus1 Suc_leI)
    then have "rd m' (base + k * j) k = rd u (base + k * j) k"
      using rd_wr_other[OF u(2)] by blast
    then show ?thesis using Suc.IH[OF u(1) j] by simp
  qed
qed

lemma fill_size:
  assumes "fill base k enc n m = Some m'"
  shows "sz m' = sz m"
  using assms
proof (induction n arbitrary: m')
  case 0
  then show ?case by (simp add: fill_def)
next
  case (Suc n)
  then obtain u where "fill base k enc n m = Some u" "wr u (base + k * n) (enc n) = Some m'"
    unfolding fill_def for_each_upt_Suc by (auto simp: bind_eq_Some_conv)
  then show ?case using Suc.IH wr_bounds by fastforce
qed

end

section \<open>The model satisfies the interface\<close>

lemma gm_write_size: "gm_write m a bs = Some m' \<Longrightarrow> gm_size m' = gm_size m"
  by (auto simp: gm_write_def split: if_splits)

interpretation gm: byte_memory gm_read gm_write gm_size
proof unfold_locales
  fix a :: nat and bs :: "u8 list" and m :: gmem
  show "a + length bs \<le> gm_size m \<Longrightarrow> \<exists>m'. gm_write m a bs = Some m'"
    by (simp add: gm_write_def)
next
  fix m a bs m'
  assume "gm_write m a bs = Some m'"
  then show "a + length bs \<le> gm_size m \<and> gm_size m' = gm_size m"
    by (auto simp: gm_write_def split: if_splits)
next
  fix m a bs m'
  assume "gm_write m a bs = Some m'"
  then show "gm_read m' a (length bs) = Some bs"
    by (auto simp: gm_write_def gm_read_def splice_def intro!: nth_equalityI split: if_splits)
next
  fix m a bs m' b n
  assume "gm_write m a bs = Some m'" "a + length bs \<le> b \<or> b + n \<le> a"
  then show "gm_read m' b n = gm_read m b n"
    by (auto simp: gm_write_def gm_read_def splice_def split: if_splits)
qed

section \<open>Typed accesses\<close>

lemma gm_write_Some [simp]:
  "a + length bs \<le> gm_size m \<Longrightarrow> gm_write m a bs = Some (m\<lparr>gm_data := splice (gm_data m) a bs\<rparr>)"
  by (simp add: gm_write_def)

lemma load32_store32: "store32 m a w = Some m' \<Longrightarrow> load32 m' a = Some w"
  unfolding store32_def load32_def using gm.rd_wr_same[of m a "le_bytes 4 w" m']
  by (simp add: from_le_le_bytes)

lemma load64_store64: "store64 m a w = Some m' \<Longrightarrow> load64 m' a = Some w"
  unfolding store64_def load64_def using gm.rd_wr_same[of m a "le_bytes 8 w" m']
  by (simp add: from_le_le_bytes)

lemma load32_frame:
  "gm_write m a bs = Some m' \<Longrightarrow> a + length bs \<le> b \<or> b + 4 \<le> a \<Longrightarrow> load32 m' b = load32 m b"
  unfolding load32_def using gm.rd_wr_other[of m a bs m' b 4] by simp

lemma load64_frame:
  "gm_write m a bs = Some m' \<Longrightarrow> a + length bs \<le> b \<or> b + 8 \<le> a \<Longrightarrow> load64 m' b = load64 m b"
  unfolding load64_def using gm.rd_wr_other[of m a bs m' b 8] by simp

lemma load32_store32_other:
  "store32 m a w = Some m' \<Longrightarrow> a + 4 \<le> b \<or> b + 4 \<le> a \<Longrightarrow> load32 m' b = load32 m b"
  unfolding store32_def by (erule load32_frame) simp

lemma load64_store64_other:
  "store64 m a w = Some m' \<Longrightarrow> a + 8 \<le> b \<or> b + 8 \<le> a \<Longrightarrow> load64 m' b = load64 m b"
  unfolding store64_def by (erule load64_frame) simp

lemma store32_size: "store32 m a w = Some m' \<Longrightarrow> gm_size m' = gm_size m"
  and store64_size: "store64 m a v = Some m' \<Longrightarrow> gm_size m' = gm_size m"
  and gm_fill_size: "gm_fill m a c n = Some m' \<Longrightarrow> gm_size m' = gm_size m"
  by (auto simp: store32_def store64_def gm_fill_def gm_write_size)

lemma store_defined:
  "a + 4 \<le> gm_size m \<Longrightarrow> \<exists>m'. store32 m a w = Some m' \<and> gm_size m' = gm_size m"
  "a + 8 \<le> gm_size m \<Longrightarrow> \<exists>m'. store64 m a v = Some m' \<and> gm_size m' = gm_size m"
  "a + n \<le> gm_size m \<Longrightarrow> \<exists>m'. gm_fill m a c n = Some m' \<and> gm_size m' = gm_size m"
  by (simp_all add: store32_def store64_def gm_fill_def)

text \<open>Reads of any width after a typed store or a \<^verbatim>\<open>memset\<close> elsewhere.\<close>

lemma gm_fill_frame:
  "gm_fill m a c k = Some m' \<Longrightarrow> a + k \<le> b \<or> b + n \<le> a \<Longrightarrow> gm_read m' b n = gm_read m b n"
  using gm.rd_wr_other[of m a "replicate k c" m' b n] by (simp add: gm_fill_def)

lemma store_frame:
  "store8 m a u = Some m' \<Longrightarrow> a + 1 \<le> b \<or> b + n \<le> a \<Longrightarrow> gm_read m' b n = gm_read m b n"
  "store32 m a v = Some m' \<Longrightarrow> a + 4 \<le> b \<or> b + n \<le> a \<Longrightarrow> gm_read m' b n = gm_read m b n"
  "store64 m a w = Some m' \<Longrightarrow> a + 8 \<le> b \<or> b + n \<le> a \<Longrightarrow> gm_read m' b n = gm_read m b n"
  using gm.rd_wr_other[of m a "[u]" m' b n] gm.rd_wr_other[of m a "le_bytes 4 v" m' b n]
    gm.rd_wr_other[of m a "le_bytes 8 w" m' b n]
  by (simp_all add: store8_def store32_def store64_def)

lemma load8_store8: "store8 m a w = Some m' \<Longrightarrow> load8 m' a = Some w"
  unfolding store8_def load8_def using gm.rd_wr_same[of m a "[w]" m'] by simp

lemma store8_size: "store8 m a w = Some m' \<Longrightarrow> gm_size m' = gm_size m"
  by (auto simp: store8_def gm_write_size)

lemma load_defined:
  "load8 m a \<noteq> None \<longleftrightarrow> a + 1 \<le> gm_size m"
  "load32 m a \<noteq> None \<longleftrightarrow> a + 4 \<le> gm_size m"
  "load64 m a \<noteq> None \<longleftrightarrow> a + 8 \<le> gm_size m"
  by (simp_all add: load8_def load32_def load64_def gm_read_def)

text \<open>Words read from a region cleared by \<^verbatim>\<open>memset\<close>.\<close>

lemma from_le_zeros: "from_le (replicate n 0) = 0"
  by (induction n) simp_all

lemma gm_read_fill:
  assumes "gm_fill m a c n = Some m'" and "a \<le> b" and "b + k \<le> a + n"
  shows "gm_read m' b k = Some (replicate k c)"
proof -
  have "a + n \<le> gm_size m" "m' = m\<lparr>gm_data := splice (gm_data m) a (replicate n c)\<rparr>"
    using assms(1) by (auto simp: gm_fill_def gm_write_def split: if_splits)
  then show ?thesis
    using assms(2,3) by (auto simp: gm_read_def splice_def intro!: nth_equalityI)
qed

lemma load32_fill0:
  "gm_fill m a 0 n = Some m' \<Longrightarrow> a \<le> b \<Longrightarrow> b + 4 \<le> a + n \<Longrightarrow> load32 m' b = Some 0"
  by (simp add: load32_def gm_read_fill from_le_zeros)

lemma load64_fill0:
  "gm_fill m a 0 n = Some m' \<Longrightarrow> a \<le> b \<Longrightarrow> b + 8 \<le> a + n \<Longrightarrow> load64 m' b = Some 0"
  by (simp add: load64_def gm_read_fill from_le_zeros)

lemma load32_fill_other:
  "gm_fill m a c n = Some m' \<Longrightarrow> a + n \<le> b \<or> b + 4 \<le> a \<Longrightarrow> load32 m' b = load32 m b"
  unfolding gm_fill_def by (erule load32_frame) simp

lemma load64_fill_other:
  "gm_fill m a c n = Some m' \<Longrightarrow> a + n \<le> b \<or> b + 8 \<le> a \<Longrightarrow> load64 m' b = load64 m b"
  unfolding gm_fill_def by (erule load64_frame) simp

text \<open>Tables of 32-bit and 64-bit words, filled by a counted loop.\<close>

definition store32_table :: "nat \<Rightarrow> (nat \<Rightarrow> u32) \<Rightarrow> nat \<Rightarrow> gmem \<Rightarrow> gmem option" where
  "store32_table base f n m = for_each [0..<n] (\<lambda>i m. store32 m (base + 4 * i) (f i)) m"

definition store64_table :: "nat \<Rightarrow> (nat \<Rightarrow> u64) \<Rightarrow> nat \<Rightarrow> gmem \<Rightarrow> gmem option" where
  "store64_table base f n m = for_each [0..<n] (\<lambda>i m. store64 m (base + 8 * i) (f i)) m"

lemma store32_table_fill: "store32_table base f n m = gm.fill base 4 (\<lambda>i. le_bytes 4 (f i)) n m"
  by (simp add: store32_table_def gm.fill_def store32_def)

lemma store64_table_fill: "store64_table base f n m = gm.fill base 8 (\<lambda>i. le_bytes 8 (f i)) n m"
  by (simp add: store64_table_def gm.fill_def store64_def)

lemma table_defined:
  "base + 4 * n \<le> gm_size m \<Longrightarrow> \<exists>m'. store32_table base f n m = Some m' \<and> gm_size m' = gm_size m"
  "base + 8 * n \<le> gm_size m \<Longrightarrow> \<exists>m'. store64_table base g n m = Some m' \<and> gm_size m' = gm_size m"
  unfolding store32_table_fill store64_table_fill by (simp_all add: gm.fill_defined)

lemma store32_table_entry:
  "store32_table base f n m = Some m' \<Longrightarrow> j < n \<Longrightarrow> load32 m' (base + 4 * j) = Some (f j)"
  unfolding store32_table_fill load32_def
  using gm.fill_entry[of base 4 "\<lambda>i. le_bytes 4 (f i)" n m m' j] by (simp add: from_le_le_bytes)

lemma store64_table_entry:
  "store64_table base f n m = Some m' \<Longrightarrow> j < n \<Longrightarrow> load64 m' (base + 8 * j) = Some (f j)"
  unfolding store64_table_fill load64_def
  using gm.fill_entry[of base 8 "\<lambda>i. le_bytes 8 (f i)" n m m' j] by (simp add: from_le_le_bytes)

lemma store32_table_frame:
  "store32_table base f n m = Some m' \<Longrightarrow> b + l \<le> base \<or> base + 4 * n \<le> b \<Longrightarrow>
     gm_read m' b l = gm_read m b l"
  unfolding store32_table_fill
  using gm.fill_frame[of base 4 "\<lambda>i. le_bytes 4 (f i)" n m m' b l] by simp

lemma store64_table_frame:
  "store64_table base f n m = Some m' \<Longrightarrow> b + l \<le> base \<or> base + 8 * n \<le> b \<Longrightarrow>
     gm_read m' b l = gm_read m b l"
  unfolding store64_table_fill
  using gm.fill_frame[of base 8 "\<lambda>i. le_bytes 8 (f i)" n m m' b l] by simp

lemma load32_table_other:
  "store32_table base f n m = Some m' \<Longrightarrow> b + 4 \<le> base \<or> base + 4 * n \<le> b \<Longrightarrow>
     load32 m' b = load32 m b"
  unfolding load32_def using store32_table_frame[of base f n m m' b 4] by simp

lemma load64_table_other:
  "store64_table base f n m = Some m' \<Longrightarrow> b + 8 \<le> base \<or> base + 8 * n \<le> b \<Longrightarrow>
     load64 m' b = load64 m b"
  unfolding load64_def using store64_table_frame[of base f n m m' b 8] by simp

lemma store32_table_size: "store32_table base f n m = Some m' \<Longrightarrow> gm_size m' = gm_size m"
  and store64_table_size: "store64_table base g n m = Some m' \<Longrightarrow> gm_size m' = gm_size m"
  unfolding store32_table_fill store64_table_fill by (simp_all add: gm.fill_size)

end
