(* ===== verification/Keyboard.thy ===== *)
theory Keyboard
  imports Kvm_Prelude
begin

text \<open>
  The keyboard buffer of \<^verbatim>\<open>main.c\<close>: the ring that the stdin monitor thread fills and that the
  UART and the GETCHAR hypercall drain. Every operation of the code runs under
  \<^verbatim>\<open>keyboard_buffer.lock\<close>, so each is one atomic step here. The locale \<open>input_queue\<close> is what
  its clients rely on (a first-in first-out queue of bounded length whose \<open>pop\<close> answers -1 when
  empty); the ring is shown to provide it.
\<close>

section \<open>The ring\<close>

definition KEYBOARD_BUFFER_SIZE :: nat where
  "KEYBOARD_BUFFER_SIZE = 256"

text \<open>
  \<open>kb_head\<close> is the write position and \<open>kb_tail\<close> the read position; both only ever hold results of
  \<open>mod KEYBOARD_BUFFER_SIZE\<close>, so a \<open>nat\<close> loses nothing over the C \<^verbatim>\<open>int\<close>.
\<close>

record keyboard_buffer =
  kb_buffer :: "u8 list"
  kb_head :: nat
  kb_tail :: nat

definition keyboard_buffer_init :: keyboard_buffer where
  "keyboard_buffer_init =
     \<lparr>kb_buffer = replicate KEYBOARD_BUFFER_SIZE 0, kb_head = 0, kb_tail = 0\<rparr>"

definition keyboard_buffer_push :: "u8 \<Rightarrow> keyboard_buffer \<Rightarrow> keyboard_buffer" where
  "keyboard_buffer_push ch kb =
     (let next_head = (kb_head kb + 1) mod KEYBOARD_BUFFER_SIZE
      in if next_head \<noteq> kb_tail kb
         then kb\<lparr>kb_buffer := (kb_buffer kb)[kb_head kb := ch], kb_head := next_head\<rparr>
         else kb)"

text \<open>The result is the C \<^verbatim>\<open>int\<close>: -1 for an empty buffer, otherwise the byte as unsigned.\<close>

definition keyboard_buffer_pop :: "keyboard_buffer \<Rightarrow> int \<times> keyboard_buffer" where
  "keyboard_buffer_pop kb =
     (if kb_head kb = kb_tail kb then (- 1, kb)
      else (uint (kb_buffer kb ! kb_tail kb),
            kb\<lparr>kb_tail := (kb_tail kb + 1) mod KEYBOARD_BUFFER_SIZE\<rparr>))"

definition keyboard_buffer_has_data :: "keyboard_buffer \<Rightarrow> bool" where
  "keyboard_buffer_has_data kb \<longleftrightarrow> kb_head kb \<noteq> kb_tail kb"

section \<open>The queue interface\<close>

datatype queue_op = Push u8 | Pop

locale input_queue =
  fixes push :: "u8 \<Rightarrow> 'q \<Rightarrow> 'q"
    and pop :: "'q \<Rightarrow> int \<times> 'q"
    and has_data :: "'q \<Rightarrow> bool"
    and contents :: "'q \<Rightarrow> u8 list"
    and wf :: "'q \<Rightarrow> bool"
    and cap :: nat
  assumes wf_push: "wf q \<Longrightarrow> wf (push c q)"
    and wf_pop: "wf q \<Longrightarrow> wf (snd (pop q))"
    and contents_push: "wf q \<Longrightarrow>
      contents (push c q) = (if length (contents q) < cap then contents q @ [c] else contents q)"
    and pop_empty: "wf q \<Longrightarrow> contents q = [] \<Longrightarrow> pop q = (- 1, q)"
    and pop_first: "wf q \<Longrightarrow> contents q = c # cs \<Longrightarrow>
      fst (pop q) = uint c \<and> contents (snd (pop q)) = cs"
    and has_data_iff: "wf q \<Longrightarrow> has_data q \<longleftrightarrow> contents q \<noteq> []"
    and contents_cap: "wf q \<Longrightarrow> length (contents q) \<le> cap"
begin

text \<open>
  A run of operations, with the bytes handed out by \<open>pop\<close> and the bytes accepted by \<open>push\<close>.
\<close>

fun run :: "queue_op list \<Rightarrow> 'q \<Rightarrow> int list \<times> u8 list \<times> 'q" where
  "run [] q = ([], [], q)"
| "run (Push c # ops) q =
     (let (out, acc, q') = run ops (push c q)
      in (out, (if length (contents q) < cap then c # acc else acc), q'))"
| "run (Pop # ops) q =
     (let (out, acc, q') = run ops (snd (pop q))
      in (if contents q = [] then (out, acc, q') else (fst (pop q) # out, acc, q')))"

lemma run_wf: "wf q \<Longrightarrow> run ops q = (out, acc, q') \<Longrightarrow> wf q'"
  by (induction ops q arbitrary: out acc q' rule: run.induct)
    (auto simp: Let_def wf_push wf_pop split: prod.splits if_splits)

text \<open>Nothing is lost, duplicated or reordered between the accepted and the delivered bytes.\<close>

lemma run_conserves:
  "wf q \<Longrightarrow> run ops q = (out, acc, q') \<Longrightarrow>
     out @ map uint (contents q') = map uint (contents q @ acc)"
proof (induction ops q arbitrary: out acc q' rule: run.induct)
  case (1 q)
  then show ?case by simp
next
  case (2 c ops q)
  then show ?case
    by (auto simp: Let_def wf_push contents_push split: prod.splits if_splits)
next
  case (3 ops q)
  then show ?case
  proof (cases "contents q")
    case Nil
    with 3 show ?thesis by (auto simp: Let_def pop_empty split: prod.splits)
  next
    case (Cons c cs)
    with 3 show ?thesis
      using pop_first[of q c cs] by (fastforce simp: Let_def wf_pop split: prod.splits)
  qed
qed

lemma push_pop_single:
  assumes "wf q" and "contents q = []" and "0 < cap"
  shows "fst (pop (push c q)) = uint c" and "contents (snd (pop (push c q))) = []"
  using pop_first[of "push c q" c "[]"] assms by (auto simp: wf_push contents_push)

lemma pop_range: "wf q \<Longrightarrow> - 1 \<le> fst (pop q) \<and> fst (pop q) < 256"
proof (cases "contents q")
  case (Cons c cs)
  assume "wf q"
  then have "fst (pop q) = uint c" using Cons pop_first by blast
  moreover have "0 \<le> uint c" "uint c < 256" using uint_bounded[of c] by simp_all
  ultimately show ?thesis by linarith
qed (simp add: pop_empty)

lemma pop_minus_one: "wf q \<Longrightarrow> fst (pop q) = - 1 \<longleftrightarrow> contents q = []"
proof (cases "contents q")
  case (Cons c cs)
  assume "wf q"
  then have "fst (pop q) = uint c" using Cons pop_first by blast
  moreover have "0 \<le> uint c" by simp
  ultimately have "fst (pop q) \<noteq> - 1" by linarith
  then show ?thesis using Cons by simp
qed (simp add: pop_empty)

end

section \<open>The ring provides the interface\<close>

definition kb_count :: "keyboard_buffer \<Rightarrow> nat" where
  "kb_count kb = (kb_head kb + KEYBOARD_BUFFER_SIZE - kb_tail kb) mod KEYBOARD_BUFFER_SIZE"

definition kb_contents :: "keyboard_buffer \<Rightarrow> u8 list" where
  "kb_contents kb =
     map (\<lambda>i. kb_buffer kb ! ((kb_tail kb + i) mod KEYBOARD_BUFFER_SIZE)) [0..<kb_count kb]"

definition kb_wf :: "keyboard_buffer \<Rightarrow> bool" where
  "kb_wf kb \<longleftrightarrow> length (kb_buffer kb) = KEYBOARD_BUFFER_SIZE \<and>
     kb_head kb < KEYBOARD_BUFFER_SIZE \<and> kb_tail kb < KEYBOARD_BUFFER_SIZE"

lemma kb_wf_init: "kb_wf keyboard_buffer_init"
  by (simp add: kb_wf_def keyboard_buffer_init_def KEYBOARD_BUFFER_SIZE_def)

lemma kb_contents_init: "kb_contents keyboard_buffer_init = []"
  by (simp add: kb_contents_def kb_count_def keyboard_buffer_init_def KEYBOARD_BUFFER_SIZE_def)

lemma length_kb_contents [simp]: "length (kb_contents kb) = kb_count kb"
  by (simp add: kb_contents_def)

text \<open>One wrap at most: what \<^verbatim>\<open>% KEYBOARD_BUFFER_SIZE\<close> does to a sum of two positions.\<close>

lemma kb_wrap:
  "x < 2 * KEYBOARD_BUFFER_SIZE \<Longrightarrow>
     x mod KEYBOARD_BUFFER_SIZE = (if x < KEYBOARD_BUFFER_SIZE then x else x - KEYBOARD_BUFFER_SIZE)"
  by (simp add: KEYBOARD_BUFFER_SIZE_def mod_if)

lemma kb_count_eq:
  assumes "kb_wf kb"
  shows "kb_count kb = (if kb_tail kb \<le> kb_head kb then kb_head kb - kb_tail kb
           else kb_head kb + KEYBOARD_BUFFER_SIZE - kb_tail kb)"
  using assms by (auto simp: kb_wf_def kb_count_def kb_wrap)

lemma kb_count_zero: "kb_wf kb \<Longrightarrow> kb_count kb = 0 \<longleftrightarrow> kb_head kb = kb_tail kb"
  by (auto simp: kb_count_eq kb_wf_def)

lemma kb_next_head:
  "kb_wf kb \<Longrightarrow> (kb_head kb + 1) mod KEYBOARD_BUFFER_SIZE =
     (if kb_head kb = 255 then 0 else kb_head kb + 1)"
  by (auto simp: kb_wf_def KEYBOARD_BUFFER_SIZE_def)

lemma kb_count_full:
  "kb_wf kb \<Longrightarrow> (kb_head kb + 1) mod KEYBOARD_BUFFER_SIZE = kb_tail kb \<longleftrightarrow> \<not> kb_count kb < 255"
  unfolding kb_next_head
  by (auto simp: kb_count_eq kb_wf_def KEYBOARD_BUFFER_SIZE_def)

lemma kb_index_other:
  assumes "kb_wf kb" and "i < kb_count kb"
  shows "(kb_tail kb + i) mod KEYBOARD_BUFFER_SIZE \<noteq> kb_head kb"
proof -
  have "kb_tail kb + i < 2 * KEYBOARD_BUFFER_SIZE"
    using assms by (auto simp: kb_count_eq kb_wf_def split: if_splits)
  then show ?thesis
    using assms by (auto simp: kb_wrap kb_count_eq kb_wf_def split: if_splits)
qed

lemma kb_index_last:
  assumes "kb_wf kb"
  shows "(kb_tail kb + kb_count kb) mod KEYBOARD_BUFFER_SIZE = kb_head kb"
proof -
  have "kb_tail kb + kb_count kb < 2 * KEYBOARD_BUFFER_SIZE"
    using assms by (auto simp: kb_count_eq kb_wf_def split: if_splits)
  then show ?thesis
    using assms by (auto simp: kb_wrap kb_count_eq kb_wf_def split: if_splits)
qed

lemma kb_wf_push: "kb_wf kb \<Longrightarrow> kb_wf (keyboard_buffer_push c kb)"
  by (simp add: kb_wf_def keyboard_buffer_push_def Let_def KEYBOARD_BUFFER_SIZE_def)

lemma kb_wf_pop: "kb_wf kb \<Longrightarrow> kb_wf (snd (keyboard_buffer_pop kb))"
  by (simp add: kb_wf_def keyboard_buffer_pop_def KEYBOARD_BUFFER_SIZE_def)

lemma kb_count_push:
  assumes wf: "kb_wf kb" and "kb_count kb < 255"
  shows "kb_count (keyboard_buffer_push c kb) = Suc (kb_count kb)"
proof -
  let ?kb = "keyboard_buffer_push c kb"
  have "kb_head ?kb = (if kb_head kb = 255 then 0 else kb_head kb + 1)"
    and "kb_tail ?kb = kb_tail kb"
    using assms kb_count_full[OF wf] kb_next_head[OF wf]
    by (simp_all add: keyboard_buffer_push_def Let_def del: One_nat_def)
  then show ?thesis
    using assms kb_wf_push[OF wf, of c]
    by (auto simp: kb_count_eq kb_wf_def KEYBOARD_BUFFER_SIZE_def split: if_splits)
qed

lemma kb_count_pop:
  assumes wf: "kb_wf kb" and "kb_head kb \<noteq> kb_tail kb"
  shows "kb_count kb = Suc (kb_count (snd (keyboard_buffer_pop kb)))"
proof -
  let ?kb = "snd (keyboard_buffer_pop kb)"
  have "kb_tail ?kb = (if kb_tail kb = 255 then 0 else kb_tail kb + 1)"
    and "kb_head ?kb = kb_head kb"
    using assms by (auto simp: keyboard_buffer_pop_def kb_wf_def KEYBOARD_BUFFER_SIZE_def)
  then show ?thesis
    using assms kb_wf_pop[OF wf]
    by (auto simp: kb_count_eq kb_wf_def KEYBOARD_BUFFER_SIZE_def split: if_splits)
qed

lemma kb_contents_push:
  assumes wf: "kb_wf kb"
  shows "kb_contents (keyboard_buffer_push c kb) =
    (if length (kb_contents kb) < 255 then kb_contents kb @ [c] else kb_contents kb)"
proof (cases "kb_count kb < 255")
  case False
  then show ?thesis
    using kb_count_full[OF wf] by (simp add: keyboard_buffer_push_def)
next
  case True
  let ?kb = "keyboard_buffer_push c kb"
  have eq: "?kb = kb\<lparr>kb_buffer := (kb_buffer kb)[kb_head kb := c],
                   kb_head := (kb_head kb + 1) mod KEYBOARD_BUFFER_SIZE\<rparr>"
    using True kb_count_full[OF wf] by (simp add: keyboard_buffer_push_def)
  have cnt: "kb_count ?kb = Suc (kb_count kb)" by (rule kb_count_push[OF wf True])
  have bounds: "kb_head kb < length (kb_buffer kb)" using wf by (simp add: kb_wf_def)
  show ?thesis
    unfolding kb_contents_def[of ?kb] cnt
    using True bounds kb_index_other[OF wf, THEN not_sym] kb_index_last[OF wf]
    by (simp add: eq) (simp add: kb_contents_def)
qed

lemma kb_contents_pop:
  assumes wf: "kb_wf kb" and ne: "kb_head kb \<noteq> kb_tail kb"
  shows "kb_contents kb =
    kb_buffer kb ! kb_tail kb # kb_contents (snd (keyboard_buffer_pop kb))"
proof -
  let ?kb = "snd (keyboard_buffer_pop kb)"
  have eq: "?kb = kb\<lparr>kb_tail := (kb_tail kb + 1) mod KEYBOARD_BUFFER_SIZE\<rparr>"
    using ne by (simp add: keyboard_buffer_pop_def)
  have cnt: "kb_count kb = Suc (kb_count ?kb)" by (rule kb_count_pop[OF wf ne])
  have idx: "((kb_tail kb + 1) mod KEYBOARD_BUFFER_SIZE + i) mod KEYBOARD_BUFFER_SIZE =
             (kb_tail kb + Suc i) mod KEYBOARD_BUFFER_SIZE" for i
    by (simp add: mod_add_left_eq)
  have "kb_tail kb mod KEYBOARD_BUFFER_SIZE = kb_tail kb" using wf by (simp add: kb_wf_def)
  then have "kb_contents kb = kb_buffer kb ! kb_tail kb #
      map (\<lambda>i. kb_buffer kb ! ((kb_tail kb + Suc i) mod KEYBOARD_BUFFER_SIZE)) [0..<kb_count ?kb]"
    unfolding kb_contents_def cnt by (simp add: map_upt_Suc del: upt_Suc)
  also have "map (\<lambda>i. kb_buffer kb ! ((kb_tail kb + Suc i) mod KEYBOARD_BUFFER_SIZE))
      [0..<kb_count ?kb] = kb_contents ?kb"
    unfolding kb_contents_def by (simp add: eq idx del: One_nat_def add_Suc_right)
  finally show ?thesis .
qed

interpretation kbd: input_queue keyboard_buffer_push keyboard_buffer_pop keyboard_buffer_has_data
  kb_contents kb_wf 255
proof unfold_locales
  fix q c
  assume wf: "kb_wf q"
  show "kb_wf (keyboard_buffer_push c q)" by (rule kb_wf_push[OF wf])
  show "kb_wf (snd (keyboard_buffer_pop q))" by (rule kb_wf_pop[OF wf])
  show "kb_contents (keyboard_buffer_push c q) =
    (if length (kb_contents q) < 255 then kb_contents q @ [c] else kb_contents q)"
    by (rule kb_contents_push[OF wf])
  have "kb_count q < 256" by (simp add: kb_count_def KEYBOARD_BUFFER_SIZE_def)
  then show "length (kb_contents q) \<le> 255" by simp
  have empty: "kb_contents q = [] \<longleftrightarrow> kb_head q = kb_tail q"
    using kb_count_zero[OF wf] by (metis length_0_conv length_kb_contents)
  then show "keyboard_buffer_has_data q = (kb_contents q \<noteq> [])"
    by (simp add: keyboard_buffer_has_data_def)
  show "kb_contents q = [] \<Longrightarrow> keyboard_buffer_pop q = (- 1, q)"
    by (simp add: empty keyboard_buffer_pop_def)
  fix cs
  assume q: "kb_contents q = c # cs"
  then have "kb_head q \<noteq> kb_tail q" using empty by auto
  then show "fst (keyboard_buffer_pop q) = uint c \<and>
      kb_contents (snd (keyboard_buffer_pop q)) = cs"
    using kb_contents_pop[OF wf] q by (simp add: keyboard_buffer_pop_def)
qed

end
