(* ===== verification/Devices.thy ===== *)
theory Devices
  imports Keyboard "HOL-Library.Signed_Division"
begin

text \<open>
  The emulated devices of \<^verbatim>\<open>main.c\<close> that every vCPU shares: the COM1 UART (\<^verbatim>\<open>uart0\<close>), the
  legacy ports (A20 gate, CMOS index), the keyboard buffer, the guest-visible output written to
  standard output, and the interrupt line that is pulsed through KVM. The globals of the program
  are the fields of one record.
\<close>

section \<open>Colours of the vCPU output\<close>

definition MAX_VCPUS :: nat where
  "MAX_VCPUS = 4"

text \<open>
  \<^verbatim>\<open>hue_to_ansi256\<close>: C's \<^verbatim>\<open>%\<close> and \<^verbatim>\<open>/\<close> truncate towards zero (\<open>smod\<close>, \<open>sdiv\<close>).
\<close>

definition hue_to_ansi256 :: "int \<Rightarrow> int" where
  "hue_to_ansi256 hue0 =
     (let h1 = hue0 smod 360;
          hue = (if h1 < 0 then h1 + 360 else h1);
          sector = hue sdiv 60;
          offset = hue smod 60;
          x = offset * 5 sdiv 60;
          (r, g, b) =
            (if sector = 0 then (5, x, 0)
             else if sector = 1 then (5 - x, 5, 0)
             else if sector = 2 then (0, 5, x)
             else if sector = 3 then (0, 5 - x, 5)
             else if sector = 4 then (x, 0, 5)
             else (5, 0, 5 - x))
      in 16 + 36 * r + 6 * g + b)"

text \<open>
  The loop of \<^verbatim>\<open>init_vcpu_colors\<close> writes entry \<open>i\<close> for \<open>i < n\<close> and \<open>i < MAX_VCPUS\<close>; the other
  entries of the array keep their value.
\<close>

definition vcpu_hue :: "int \<Rightarrow> nat \<Rightarrow> int" where
  "vcpu_hue n i = 120 + (int i * 300) sdiv n"

definition init_vcpu_colors :: "int \<Rightarrow> int list \<Rightarrow> int list" where
  "init_vcpu_colors n colors =
     fold (\<lambda>i cs. if int i < n then cs[i := hue_to_ansi256 (vcpu_hue n i)] else cs)
       [0..<MAX_VCPUS] colors"

section \<open>Shared device state\<close>

record uart16550 =
  ier :: u8
  lcr :: u8
  mcr :: u8
  dll :: u8
  dlh :: u8

definition uart0_init :: uart16550 where
  "uart0_init = \<lparr>ier = 0x00, lcr = 0x03, mcr = 0x00, dll = 0x01, dlh = 0x00\<rparr>"

text \<open>
  \<open>irq_lines\<close> records the \<^verbatim>\<open>KVM_IRQ_LINE\<close> requests, as pairs of line and level, oldest first;
  \<open>console\<close> the bytes written to standard output on behalf of guests.
\<close>

record vmm_dev =
  keyboard_buffer :: keyboard_buffer
  linux_serial_input_enabled :: bool
  vm_fd :: int
  irq_lines :: "(u32 \<times> u32) list"
  uart0 :: uart16550
  cmos_index :: u8
  port92 :: u8
  console :: "u8 list"
  num_vcpus :: int
  vcpu_colors :: "int list"

definition vmm_dev_init :: vmm_dev where
  "vmm_dev_init =
     \<lparr>keyboard_buffer = keyboard_buffer_init, linux_serial_input_enabled = False, vm_fd = - 1,
      irq_lines = [], uart0 = uart0_init, cmos_index = 0, port92 = 0x02, console = [],
      num_vcpus = 0, vcpu_colors = replicate MAX_VCPUS 0\<rparr>"

definition pulse_irq_line :: "u32 \<Rightarrow> vmm_dev \<Rightarrow> vmm_dev" where
  "pulse_irq_line irq d =
     (if vm_fd d < 0 then d
      else d\<lparr>irq_lines := irq_lines d @ [(irq, 1), (irq, 0)]\<rparr>)"

definition host_putchar :: "u8 \<Rightarrow> vmm_dev \<Rightarrow> vmm_dev" where
  "host_putchar ch d = d\<lparr>console := console d @ [ch]\<rparr>"

definition kbd_pop :: "vmm_dev \<Rightarrow> int \<times> vmm_dev" where
  "kbd_pop d = (let (ch, kb) = keyboard_buffer_pop (keyboard_buffer d)
                in (ch, d\<lparr>keyboard_buffer := kb\<rparr>))"

section \<open>The UART\<close>

definition is_uart_port :: "u16 \<Rightarrow> bool" where
  "is_uart_port port \<longleftrightarrow> 0x3f8 \<le> port \<and> port \<le> 0x3ff"

definition dlab :: "vmm_dev \<Rightarrow> bool" where
  "dlab d \<longleftrightarrow> lcr (uart0 d) AND 0x80 \<noteq> 0"

definition uart_write :: "u16 \<Rightarrow> u8 \<Rightarrow> vmm_dev \<Rightarrow> vmm_dev" where
  "uart_write port data d =
     (let offset = port - 0x3f8 in
      if offset = 0 then
        (if dlab d then d\<lparr>uart0 := (uart0 d)\<lparr>dll := data\<rparr>\<rparr>
         else let d' = host_putchar data d in
              if linux_serial_input_enabled d' \<and> ier (uart0 d') AND 0x02 \<noteq> 0
              then pulse_irq_line 4 d' else d')
      else if offset = 1 then
        (if dlab d then d\<lparr>uart0 := (uart0 d)\<lparr>dlh := data\<rparr>\<rparr>
         else let d' = d\<lparr>uart0 := (uart0 d)\<lparr>ier := data\<rparr>\<rparr> in
              if linux_serial_input_enabled d' \<and> ier (uart0 d') AND 0x02 \<noteq> 0
              then pulse_irq_line 4 d' else d')
      else if offset = 3 then d\<lparr>uart0 := (uart0 d)\<lparr>lcr := data\<rparr>\<rparr>
      else if offset = 4 then d\<lparr>uart0 := (uart0 d)\<lparr>mcr := data\<rparr>\<rparr>
      else d)"

definition uart_read :: "u16 \<Rightarrow> vmm_dev \<Rightarrow> u8 \<times> vmm_dev" where
  "uart_read port d =
     (let offset = port - 0x3f8; u = uart0 d;
          has_data = keyboard_buffer_has_data (keyboard_buffer d) in
      if offset = 0 then
        (if dlab d then (dll u, d)
         else let (ch, d') = kbd_pop d in (if ch < 0 then 0x00 else word_of_int ch, d'))
      else if offset = 1 then (if dlab d then dlh u else ier u, d)
      else if offset = 2 then
        (if has_data \<and> ier u AND 0x01 \<noteq> 0 then 0x04
         else if ier u AND 0x02 \<noteq> 0 then 0x02
         else 0x01, d)
      else if offset = 3 then (lcr u, d)
      else if offset = 4 then (mcr u, d)
      else if offset = 5 then (if has_data then 0x60 OR 0x01 else 0x60, d)
      else (0x00, d))"

section \<open>Legacy ports\<close>

text \<open>Only the first byte of the access is looked at, whatever its size.\<close>

definition misc_port_out :: "u16 \<Rightarrow> u8 list \<Rightarrow> nat \<Rightarrow> vmm_dev \<Rightarrow> vmm_dev" where
  "misc_port_out port data sz d =
     (let value = data ! 0 in
      if port = 0x92 then d\<lparr>port92 := value OR 0x02\<rparr>
      else if port = 0x70 then d\<lparr>cmos_index := value\<rparr>
      else d)"

text \<open>\<^verbatim>\<open>memset(data, 0, size)\<close> on the data area of an I/O exit.\<close>

definition io_memset0 :: "u8 list \<Rightarrow> nat \<Rightarrow> u8 list" where
  "io_memset0 data sz = replicate sz 0 @ drop sz data"

definition misc_port_in :: "u16 \<Rightarrow> u8 list \<Rightarrow> nat \<Rightarrow> vmm_dev \<Rightarrow> u8 list" where
  "misc_port_in port data sz d =
     (let zeroed = io_memset0 data sz in
      if port = 0x92 then zeroed[0 := port92 d]
      else if port \<in> {0x64, 0x60, 0x71, 0x20, 0x21, 0xA0, 0xA1} then zeroed[0 := 0x00]
      else zeroed)"

section \<open>Effect of the operations\<close>

definition dev_wf :: "vmm_dev \<Rightarrow> bool" where
  "dev_wf d \<longleftrightarrow> kb_wf (keyboard_buffer d)"

definition rx_queue :: "vmm_dev \<Rightarrow> u8 list" where
  "rx_queue d = kb_contents (keyboard_buffer d)"

lemma pulse_irq_line_frame [dev_simps]:
  "keyboard_buffer (pulse_irq_line irq d) = keyboard_buffer d"
  "linux_serial_input_enabled (pulse_irq_line irq d) = linux_serial_input_enabled d"
  "vm_fd (pulse_irq_line irq d) = vm_fd d"
  "uart0 (pulse_irq_line irq d) = uart0 d"
  "cmos_index (pulse_irq_line irq d) = cmos_index d"
  "port92 (pulse_irq_line irq d) = port92 d"
  "console (pulse_irq_line irq d) = console d"
  by (simp_all add: pulse_irq_line_def)

lemma host_putchar_frame [dev_simps]:
  "keyboard_buffer (host_putchar c d) = keyboard_buffer d"
  "linux_serial_input_enabled (host_putchar c d) = linux_serial_input_enabled d"
  "vm_fd (host_putchar c d) = vm_fd d"
  "irq_lines (host_putchar c d) = irq_lines d"
  "uart0 (host_putchar c d) = uart0 d"
  "cmos_index (host_putchar c d) = cmos_index d"
  "port92 (host_putchar c d) = port92 d"
  "console (host_putchar c d) = console d @ [c]"
  by (simp_all add: host_putchar_def)

lemma kbd_pop_frame [dev_simps]:
  "linux_serial_input_enabled (snd (kbd_pop d)) = linux_serial_input_enabled d"
  "vm_fd (snd (kbd_pop d)) = vm_fd d"
  "irq_lines (snd (kbd_pop d)) = irq_lines d"
  "uart0 (snd (kbd_pop d)) = uart0 d"
  "cmos_index (snd (kbd_pop d)) = cmos_index d"
  "port92 (snd (kbd_pop d)) = port92 d"
  "console (snd (kbd_pop d)) = console d"
  by (simp_all add: kbd_pop_def split: prod.splits)

lemma kbd_pop_empty: "dev_wf d \<Longrightarrow> rx_queue d = [] \<Longrightarrow> kbd_pop d = (- 1, d)"
  using kbd.pop_empty[of "keyboard_buffer d"] by (simp add: dev_wf_def rx_queue_def kbd_pop_def)

lemma kbd_pop_first:
  "dev_wf d \<Longrightarrow> rx_queue d = c # cs \<Longrightarrow>
     fst (kbd_pop d) = uint c \<and> rx_queue (snd (kbd_pop d)) = cs"
  using kbd.pop_first[of "keyboard_buffer d" c cs]
  by (auto simp: dev_wf_def rx_queue_def kbd_pop_def split: prod.splits)

lemma kbd_pop_wf: "dev_wf d \<Longrightarrow> dev_wf (snd (kbd_pop d))"
  using kbd.wf_pop[of "keyboard_buffer d"] by (auto simp: dev_wf_def kbd_pop_def split: prod.splits)

lemma uart_write_wf: "dev_wf d \<Longrightarrow> dev_wf (uart_write port c d)"
  by (simp add: uart_write_def dev_wf_def Let_def dev_simps)

lemma uart_write_rx: "rx_queue (uart_write port c d) = rx_queue d"
  by (simp add: uart_write_def rx_queue_def Let_def dev_simps)

lemma misc_port_out_rx: "rx_queue (misc_port_out port data sz d) = rx_queue d"
  by (simp add: misc_port_out_def rx_queue_def Let_def)

lemma snd_uart_read:
  "snd (uart_read port d) = (if port = 0x3f8 \<and> \<not> dlab d then snd (kbd_pop d) else d)"
  by (simp add: uart_read_def Let_def split: prod.split)

lemma uart_read_wf: "dev_wf d \<Longrightarrow> dev_wf (snd (uart_read port d))"
  by (simp add: snd_uart_read kbd_pop_wf)

lemma uart_read_frame [dev_simps]:
  "linux_serial_input_enabled (snd (uart_read port d)) = linux_serial_input_enabled d"
  "vm_fd (snd (uart_read port d)) = vm_fd d"
  "irq_lines (snd (uart_read port d)) = irq_lines d"
  "uart0 (snd (uart_read port d)) = uart0 d"
  "cmos_index (snd (uart_read port d)) = cmos_index d"
  "port92 (snd (uart_read port d)) = port92 d"
  "console (snd (uart_read port d)) = console d"
  by (simp_all add: snd_uart_read dev_simps)

text \<open>Reading the receive register takes the oldest byte, or answers 0 when there is none.\<close>

lemma uart_read_rbr:
  assumes "dev_wf d" and "\<not> dlab d" and "rx_queue d = c # cs"
  shows "fst (uart_read 0x3f8 d) = c" and "rx_queue (snd (uart_read 0x3f8 d)) = cs"
proof -
  obtain d' where p: "kbd_pop d = (uint c, d')" "rx_queue d' = cs"
    using kbd_pop_first[OF assms(1,3)] by (metis prod.collapse)
  have "\<not> uint c < 0" by (simp add: not_less)
  then show "fst (uart_read 0x3f8 d) = c" and "rx_queue (snd (uart_read 0x3f8 d)) = cs"
    using p assms(2) by (simp_all add: uart_read_def)
qed

lemma uart_read_rbr_empty:
  "dev_wf d \<Longrightarrow> \<not> dlab d \<Longrightarrow> rx_queue d = [] \<Longrightarrow> uart_read 0x3f8 d = (0, d)"
  by (simp add: uart_read_def kbd_pop_empty)

lemma has_data_rx: "dev_wf d \<Longrightarrow> keyboard_buffer_has_data (keyboard_buffer d) \<longleftrightarrow> rx_queue d \<noteq> []"
  by (simp add: dev_wf_def rx_queue_def kbd.has_data_iff)

lemma uart_read_lsr: "dev_wf d \<Longrightarrow> uart_read 0x3fd d = (if rx_queue d \<noteq> [] then 0x61 else 0x60, d)"
  by (simp add: uart_read_def has_data_rx)

text \<open>
  The polled receive loop of a serial driver: while the line status register says data is ready,
  read the receive register. The fuel bounds the number of polls.
\<close>

fun uart_drain :: "nat \<Rightarrow> vmm_dev \<Rightarrow> u8 list \<times> vmm_dev" where
  "uart_drain 0 d = ([], d)"
| "uart_drain (Suc fuel) d =
     (if fst (uart_read 0x3fd d) AND 0x01 \<noteq> 0
      then let (c, d') = uart_read 0x3f8 d; (cs, d'') = uart_drain fuel d' in (c # cs, d'')
      else ([], d))"

lemma dlab_uart_read [dev_simps]: "dlab (snd (uart_read port d)) = dlab d"
  by (simp add: dlab_def dev_simps)

lemma uart_drain_all:
  assumes "dev_wf d" and "\<not> dlab d" and "length (rx_queue d) \<le> fuel"
  shows "fst (uart_drain fuel d) = rx_queue d \<and> rx_queue (snd (uart_drain fuel d)) = []"
  using assms
proof (induction fuel arbitrary: d)
  case 0
  then show ?case by simp
next
  case (Suc fuel)
  show ?case
  proof (cases "rx_queue d")
    case Nil
    with Suc.prems show ?thesis by (simp add: uart_read_lsr)
  next
    case (Cons c cs)
    let ?d = "snd (uart_read 0x3f8 d)"
    have "dev_wf ?d" "\<not> dlab ?d" "rx_queue ?d = cs" "fst (uart_read 0x3f8 d) = c"
      using uart_read_rbr[OF Suc.prems(1,2) Cons] Suc.prems
      by (simp_all add: uart_read_wf dev_simps)
    then have "fst (uart_drain fuel ?d) = cs \<and> rx_queue (snd (uart_drain fuel ?d)) = []"
      using Suc.IH[of ?d] Suc.prems(3) Cons by simp
    then show ?thesis
      using Suc.prems(1) Cons \<open>fst (uart_read 0x3f8 d) = c\<close>
      by (auto simp: uart_read_lsr split: prod.splits)
  qed
qed

section \<open>Invariant of the device state\<close>

text \<open>
  The ring is well formed, the A20 bit of port 0x92 is on, and every interrupt line the VMM raised
  is line 4 and was lowered again before the next request.
\<close>

fun all_pulsed :: "(u32 \<times> u32) list \<Rightarrow> bool" where
  "all_pulsed [] = True"
| "all_pulsed [_] = False"
| "all_pulsed (a # b # xs) = (a = (4, 1) \<and> b = (4, 0) \<and> all_pulsed xs)"

lemma all_pulsed_snoc: "all_pulsed xs \<Longrightarrow> all_pulsed (xs @ [(4, 1), (4, 0)])"
  by (induction xs rule: all_pulsed.induct) auto

definition dev_inv :: "vmm_dev \<Rightarrow> bool" where
  "dev_inv d \<longleftrightarrow> dev_wf d \<and> port92 d AND 0x02 \<noteq> 0 \<and> all_pulsed (irq_lines d) \<and>
     (irq_lines d \<noteq> [] \<longrightarrow> 0 \<le> vm_fd d)"

lemma dev_inv_init: "dev_inv vmm_dev_init"
  by (simp add: dev_inv_def dev_wf_def vmm_dev_init_def kb_wf_init)

lemma dev_inv_pulse [intro]: "dev_inv d \<Longrightarrow> dev_inv (pulse_irq_line 4 d)"
  by (auto simp: dev_inv_def dev_wf_def pulse_irq_line_def all_pulsed_snoc)

lemma dev_inv_putchar [intro]: "dev_inv d \<Longrightarrow> dev_inv (host_putchar c d)"
  by (simp add: dev_inv_def dev_wf_def dev_simps)

lemma dev_inv_pop [intro]: "dev_inv d \<Longrightarrow> dev_inv (snd (kbd_pop d))"
  by (simp add: dev_inv_def kbd_pop_wf dev_simps)

lemma dev_inv_uart_write [intro]: "dev_inv d \<Longrightarrow> dev_inv (uart_write port c d)"
  using dev_inv_pulse[of "host_putchar c d"] dev_inv_putchar[of d c]
    dev_inv_pulse[of "d\<lparr>uart0 := (uart0 d)\<lparr>ier := c\<rparr>\<rparr>"]
  by (auto simp: uart_write_def Let_def dev_inv_def dev_wf_def)

lemma dev_inv_uart_read [intro]: "dev_inv d \<Longrightarrow> dev_inv (snd (uart_read port d))"
  by (auto simp: snd_uart_read)

lemma or_two_bit: "(x OR 2) AND 2 \<noteq> (0 :: u8)"
  by (simp add: word_bw_comms word_bw_assocs word_ao_absorbs)

lemma dev_inv_misc_port_out [intro]: "dev_inv d \<Longrightarrow> dev_inv (misc_port_out port data sz d)"
  by (auto simp: misc_port_out_def Let_def dev_inv_def dev_wf_def or_two_bit)

section \<open>Serial input and colours\<close>

text \<open>
  A guest that polls the serial port gets all its input: reading the receive register while the
  line status register reports data yields exactly the queued bytes, in order, and empties the
  queue.
\<close>

theorem uart_drain_complete:
  assumes "dev_wf d" and "\<not> dlab d" and "length (rx_queue d) \<le> fuel"
  shows "fst (uart_drain fuel d) = rx_queue d \<and> rx_queue (snd (uart_drain fuel d)) = []"
  by (rule uart_drain_all[OF assms])

theorem uart_drain_complete_witness:
  "fst (uart_drain 3 (vmm_dev_init\<lparr>keyboard_buffer :=
     keyboard_buffer_push 0x42 (keyboard_buffer_push 0x41 keyboard_buffer_init)\<rparr>)) = [0x41, 0x42]"
proof -
  let ?kb = "keyboard_buffer_push 0x42 (keyboard_buffer_push 0x41 keyboard_buffer_init)"
  let ?d = "vmm_dev_init\<lparr>keyboard_buffer := ?kb\<rparr>"
  have wf: "kb_wf (keyboard_buffer_push 0x41 keyboard_buffer_init)" by (rule kbd.wf_push[OF kb_wf_init])
  have rx: "kb_contents ?kb = [0x41, 0x42]"
    by (simp add: kbd.contents_push[OF wf] kbd.contents_push[OF kb_wf_init] kb_contents_init
        del: length_kb_contents)
  have "dev_wf ?d" using kbd.wf_push[OF wf] by (simp add: dev_wf_def)
  moreover have "\<not> dlab ?d" by (simp add: dlab_def vmm_dev_init_def uart0_init_def)
  moreover have "rx_queue ?d = [0x41, 0x42]" using rx by (simp add: rx_queue_def)
  ultimately show ?thesis using uart_drain_complete[of ?d 3] by simp
qed

lemma hue_reduced:
  fixes h :: int
  assumes "0 \<le> h" and "h < 360"
  shows "h sdiv 60 = h div 60" and "h smod 60 = h mod 60" and "h mod 60 * 5 sdiv 60 = h mod 60 div 12"
proof -
  show "h sdiv 60 = h div 60" using assms by (cases "h = 0") (simp_all add: signed_divide_int_def)
  show "h smod 60 = h mod 60"
    using assms by (cases "h = 0") (simp_all add: signed_modulo_int_def)
  have "0 \<le> h mod 60" by simp
  then have "h mod 60 * 5 sdiv 60 = h mod 60 * 5 div 60"
    by (cases "h mod 60 = 0") (simp_all add: signed_divide_int_def)
  also have "\<dots> = h mod 60 * 5 div (12 * 5)" by simp
  also have "\<dots> = h mod 60 div 12" by (rule div_mult_mult2) simp
  finally show "h mod 60 * 5 sdiv 60 = h mod 60 div 12" .
qed

text \<open>Every hue, negative ones included, gives a colour of the 6 x 6 x 6 cube.\<close>

lemma hue_in_cube: "16 \<le> hue_to_ansi256 hue \<and> hue_to_ansi256 hue \<le> 231"
proof -
  let ?h1 = "hue smod 360"
  let ?h = "if ?h1 < 0 then ?h1 + 360 else ?h1"
  obtain x where x: "x = \<bar>hue\<bar> mod 360" by blast
  have m: "?h1 = sgn hue * x" by (simp add: signed_modulo_int_def x)
  have r: "0 \<le> x" "x < 360" unfolding x by simp_all
  have "- 360 < ?h1" "?h1 < 360"
    unfolding m using r by (cases hue "0 :: int" rule: linorder_cases; simp)+
  then obtain h where h: "h = ?h" "0 \<le> h" "h < 360" by simp
  obtain q where q: "q = h div 60" by blast
  obtain y where y: "y = h mod 60 div 12" by blast
  have "0 \<le> h div 60" "h div 60 < 6" "0 \<le> h mod 60 div 12" "h mod 60 div 12 < 5"
    using h(2,3) by simp_all
  then have b: "0 \<le> q" "q < 6" "0 \<le> y" "y < 5" unfolding q y by blast+
  show ?thesis
    unfolding hue_to_ansi256_def Let_def h(1)[symmetric] hue_reduced[OF h(2,3)] q[symmetric] y[symmetric]
    using b by auto
qed

lemma init_vcpu_colors_list:
  "init_vcpu_colors n [a, b, c, d] =
     [if 0 < n then hue_to_ansi256 (vcpu_hue n 0) else a,
      if 1 < n then hue_to_ansi256 (vcpu_hue n 1) else b,
      if 2 < n then hue_to_ansi256 (vcpu_hue n 2) else c,
      if 3 < n then hue_to_ansi256 (vcpu_hue n 3) else d]"
proof -
  have "[0..<MAX_VCPUS] = [0, 1, 2, 3]" by (simp add: MAX_VCPUS_def upt_rec)
  then show ?thesis by (simp add: init_vcpu_colors_def numeral_2_eq_2 numeral_3_eq_3)
qed

lemma vcpu_color_values:
  "map (\<lambda>i. hue_to_ansi256 (vcpu_hue 2 i)) [0, 1] = [46, 93]"
  "map (\<lambda>i. hue_to_ansi256 (vcpu_hue 3 i)) [0, 1, 2] = [46, 33, 200]"
  "map (\<lambda>i. hue_to_ansi256 (vcpu_hue 4 i)) [0, 1, 2, 3] = [46, 45, 93, 198]"
  by code_simp+

text \<open>
  The vCPUs get colours of the 256-colour cube that differ from each other, for every number of
  vCPUs that the VMM accepts.
\<close>

theorem vcpu_colors_distinct:
  assumes "1 \<le> n" and "n \<le> int MAX_VCPUS" and "length colors = MAX_VCPUS"
  shows "distinct (take (nat n) (init_vcpu_colors n colors)) \<and>
    (\<forall>c \<in> set (take (nat n) (init_vcpu_colors n colors)). 16 \<le> c \<and> c \<le> 231)"
proof -
  have "length colors = Suc (Suc (Suc (Suc 0)))" using assms(3) by (simp add: MAX_VCPUS_def)
  then obtain a b c d where colors: "colors = [a, b, c, d]" by (auto simp: length_Suc_conv)
  have "n = 1 \<or> n = 2 \<or> n = 3 \<or> n = 4" using assms(1,2) by (auto simp: MAX_VCPUS_def)
  then show ?thesis
    unfolding colors init_vcpu_colors_list
    by (elim disjE) (use hue_in_cube vcpu_color_values in \<open>simp_all add: numeral_eq_Suc\<close>)
qed

theorem vcpu_colors_distinct_witness:
  "distinct (take 4 (init_vcpu_colors 4 [0, 0, 0, 0]))"
  using vcpu_colors_distinct[of 4 "[0, 0, 0, 0]"] by (simp add: MAX_VCPUS_def)

end
