(* ===== verification/Vcpu.thy ===== *)
theory Vcpu
  imports Guest_Memory Devices
begin

text \<open>
  The register state that KVM exchanges with the VMM (\<^verbatim>\<open>struct kvm_regs\<close>, \<^verbatim>\<open>struct kvm_sregs\<close>: the
  fields the source reads or writes) and the per-vCPU context of \<^verbatim>\<open>main.c\<close>.
\<close>

section \<open>Registers\<close>

record kvm_regs =
  rax :: u64
  rbx :: u64
  rcx :: u64
  rdx :: u64
  rsi :: u64
  rdi :: u64
  rsp :: u64
  rbp :: u64
  rip :: u64
  rflags :: u64

text \<open>\<^verbatim>\<open>memset(&regs, 0, sizeof(regs))\<close>.\<close>

definition zero_regs :: kvm_regs where
  "zero_regs = \<lparr>rax = 0, rbx = 0, rcx = 0, rdx = 0, rsi = 0, rdi = 0, rsp = 0, rbp = 0,
                rip = 0, rflags = 0\<rparr>"

record kvm_segment =
  seg_base :: u64
  seg_limit :: u32
  seg_selector :: u16
  seg_type :: u8
  seg_present :: u8
  seg_dpl :: u8
  seg_db :: u8
  seg_s :: u8
  seg_l :: u8
  seg_g :: u8
  seg_avl :: u8

record kvm_dtable =
  dt_base :: u64
  dt_limit :: u16

record kvm_sregs =
  s_cs :: kvm_segment
  s_ds :: kvm_segment
  s_es :: kvm_segment
  s_fs :: kvm_segment
  s_gs :: kvm_segment
  s_ss :: kvm_segment
  s_gdt :: kvm_dtable
  s_idt :: kvm_dtable
  cr0 :: u64
  cr3 :: u64
  cr4 :: u64
  efer :: u64

section \<open>The vCPU context\<close>

datatype linux_entry_mode = LINUX_ENTRY_SETUP | LINUX_ENTRY_CODE32 | LINUX_ENTRY_BOOT64

datatype linux_rsi_mode = LINUX_RSI_BASE | LINUX_RSI_HDR

text \<open>The \<^verbatim>\<open>last_*\<close> fields, written together by the single-step handler.\<close>

record last_step =
  last_rip :: u64
  last_rsi :: u64
  last_rbx :: u64
  last_rdi :: u64
  last_rcx :: u64
  last_rsp :: u64
  last_rflags :: u64
  last_cr0 :: u64
  last_cs :: u16
  last_es :: u16
  last_es_base :: u64
  last_es_limit :: u32
  last_idt_base :: u64
  last_idt_limit :: u16
  last_bytes :: "u8 list"

definition zero_last_step :: last_step where
  "zero_last_step =
     \<lparr>last_rip = 0, last_rsi = 0, last_rbx = 0, last_rdi = 0, last_rcx = 0, last_rsp = 0,
      last_rflags = 0, last_cr0 = 0, last_cs = 0, last_es = 0, last_es_base = 0,
      last_es_limit = 0, last_idt_base = 0, last_idt_limit = 0, last_bytes = [0, 0, 0, 0]\<rparr>"

text \<open>
  \<open>vcpu_context\<close> is \<^verbatim>\<open>vcpu_context_t\<close> without its pointers: \<open>guest_mem\<close> is the mapping itself
  (an empty one before \<^verbatim>\<open>mmap\<close>), and \<open>guest_debug\<close> records, oldest first, the
  \<^verbatim>\<open>KVM_SET_GUEST_DEBUG\<close> requests issued for the vCPU (\<open>True\<close>: single-step on).
\<close>

record vcpu_context =
  vcpu_id :: nat
  vcpu_fd :: int
  guest_mem :: gmem
  mem_size :: nat
  guest_binary :: string
  vm_name :: string
  exit_count :: int
  running :: bool
  use_paging :: bool
  long_mode :: bool
  entry_point :: u32
  load_offset :: u32
  pending_getchar :: int
  getchar_result :: int
  linux_guest :: bool
  linux_entry :: linux_entry_mode
  linux_rsi :: linux_rsi_mode
  singlestep_remaining :: int
  singlestep_paused :: bool
  singlestep_exits :: int
  last_step :: last_step
  guest_debug :: "bool list"

definition no_mem :: gmem where
  "no_mem = \<lparr>gm_size = 0, gm_data = (\<lambda>_. 0)\<rparr>"

text \<open>\<^verbatim>\<open>memset(ctx, 0, sizeof(*ctx))\<close> followed by \<^verbatim>\<open>ctx->vcpu_fd = -1\<close>.\<close>

definition zero_context :: vcpu_context where
  "zero_context =
     \<lparr>vcpu_id = 0, vcpu_fd = - 1, guest_mem = no_mem, mem_size = 0, guest_binary = '''',
      vm_name = '''', exit_count = 0, running = False, use_paging = False, long_mode = False,
      entry_point = 0, load_offset = 0, pending_getchar = 0, getchar_result = 0,
      linux_guest = False, linux_entry = LINUX_ENTRY_SETUP, linux_rsi = LINUX_RSI_BASE,
      singlestep_remaining = 0, singlestep_paused = False, singlestep_exits = 0,
      last_step = zero_last_step, guest_debug = []\<rparr>"

section \<open>What KVM answers\<close>

text \<open>
  KVM is not part of the repository. The answers of its calls during one VM exit are a parameter:
  the registers that \<^verbatim>\<open>KVM_GET_REGS\<close> and \<^verbatim>\<open>KVM_GET_SREGS\<close> return (\<open>None\<close>: the call failed) and
  whether \<^verbatim>\<open>KVM_SET_GUEST_DEBUG\<close> succeeds.
\<close>

record kvm_env =
  env_regs :: "kvm_regs option"
  env_sregs :: "kvm_sregs option"
  env_debug_ok :: bool

text \<open>
  \<^verbatim>\<open>set_guest_singlestep\<close>: the request is issued in every case, the result is 0 or -1.
\<close>

definition set_guest_singlestep :: "kvm_env \<Rightarrow> bool \<Rightarrow> vcpu_context \<Rightarrow> int \<times> vcpu_context" where
  "set_guest_singlestep env enable ctx =
     (if env_debug_ok env then 0 else - 1, ctx\<lparr>guest_debug := guest_debug ctx @ [enable]\<rparr>)"

lemma snd_set_guest_singlestep [simp]:
  "snd (set_guest_singlestep env b ctx) = ctx\<lparr>guest_debug := guest_debug ctx @ [b]\<rparr>"
  by (simp add: set_guest_singlestep_def)

end
