(* ===== verification/Descriptors.thy ===== *)
theory Descriptors
  imports Vcpu
begin

text \<open>
  Descriptor tables in guest memory: the GDTs and IDTs of \<^verbatim>\<open>main.c\<close> (layouts of
  \<^verbatim>\<open>protected_mode.h\<close> and \<^verbatim>\<open>long_mode.h\<close>), the real-mode interrupt vector table for Linux, and
  the segment registers that the configuration code loads. \<open>segment_of_descriptor\<close> and
  \<open>gate_of_bytes\<close> decode the bytes as the x86 descriptor formats define them; they are the
  specification the tables are checked against.
\<close>

section \<open>Layouts and constants\<close>

record gdt_entry =
  limit_low :: u16
  base_low :: u16
  base_mid :: u8
  access :: u8
  limit_granular :: u8
  base_high :: u8

definition gdt_bytes :: "gdt_entry \<Rightarrow> u8 list" where
  "gdt_bytes e = le_bytes 2 (limit_low e) @ le_bytes 2 (base_low e) @
     [base_mid e, access e, limit_granular e, base_high e]"

record idt_entry =
  offset_low :: u16
  selector :: u16
  reserved :: u8
  flags :: u8
  offset_high :: u16

definition idt_bytes :: "idt_entry \<Rightarrow> u8 list" where
  "idt_bytes e = le_bytes 2 (offset_low e) @ le_bytes 2 (selector e) @
     [reserved e, flags e] @ le_bytes 2 (offset_high e)"

definition GDT_SIZE :: nat where "GDT_SIZE = 5"
definition GDT_TOTAL_SIZE :: nat where "GDT_TOTAL_SIZE = GDT_SIZE * 8"
definition GDT_ADDR :: nat where "GDT_ADDR = 0x500"
definition ACCESS_CODE_R :: u8 where "ACCESS_CODE_R = 0x9A"
definition ACCESS_DATA_W :: u8 where "ACCESS_DATA_W = 0x92"
definition LIMIT_GRAN :: u8 where "LIMIT_GRAN = 0xC0"
definition LINUX_BOOT_CS :: u16 where "LINUX_BOOT_CS = 0x10"
definition LINUX_BOOT_DS :: u16 where "LINUX_BOOT_DS = 0x18"

definition GDT_PRESENT :: u8 where "GDT_PRESENT = push_bit 7 1"
definition GDT_CODE_DATA :: u8 where "GDT_CODE_DATA = push_bit 4 1"
definition GDT_EXECUTABLE :: u8 where "GDT_EXECUTABLE = push_bit 3 1"
definition GDT_RW :: u8 where "GDT_RW = push_bit 1 1"
definition GDT_LONG_MODE :: u8 where "GDT_LONG_MODE = push_bit 5 1"
definition SELECTOR_KERNEL_CODE_64 :: u16 where "SELECTOR_KERNEL_CODE_64 = 0x08"
definition SELECTOR_KERNEL_DATA_64 :: u16 where "SELECTOR_KERNEL_DATA_64 = 0x10"

lemmas gdt_layout = GDT_SIZE_def GDT_TOTAL_SIZE_def GDT_ADDR_def
lemmas gdt_bits = ACCESS_CODE_R_def ACCESS_DATA_W_def LIMIT_GRAN_def LINUX_BOOT_CS_def
  LINUX_BOOT_DS_def GDT_PRESENT_def GDT_CODE_DATA_def GDT_EXECUTABLE_def GDT_RW_def
  GDT_LONG_MODE_def SELECTOR_KERNEL_CODE_64_def SELECTOR_KERNEL_DATA_64_def

section \<open>Building the tables\<close>

definition create_gdt_entry :: "u32 \<Rightarrow> u32 \<Rightarrow> u8 \<Rightarrow> u8 \<Rightarrow> gdt_entry" where
  "create_gdt_entry base limit acc fl =
     \<lparr>limit_low = ucast (limit AND 0xFFFF), base_low = ucast (base AND 0xFFFF),
      base_mid = ucast (drop_bit 16 base AND 0xFF), access = acc,
      limit_granular = ucast (drop_bit 16 limit AND 0x0F) OR (fl AND 0xF0),
      base_high = ucast (drop_bit 24 base AND 0xFF)\<rparr>"

text \<open>\<^verbatim>\<open>create_gdt_entry(&gdt[i], ...)\<close> writes all eight bytes of the entry.\<close>

definition store_gdt :: "gmem \<Rightarrow> nat \<Rightarrow> nat \<Rightarrow> gdt_entry \<Rightarrow> gmem option" where
  "store_gdt m gdt i e = gm_write m (gdt + 8 * i) (gdt_bytes e)"

definition setup_gdt :: "gmem \<Rightarrow> gmem option" where
  "setup_gdt m =
     do {
       m \<leftarrow> store_gdt m GDT_ADDR 0 (create_gdt_entry 0 0 0 0);
       m \<leftarrow> store_gdt m GDT_ADDR 1 (create_gdt_entry 0 0xFFFFF ACCESS_CODE_R LIMIT_GRAN);
       m \<leftarrow> store_gdt m GDT_ADDR 2 (create_gdt_entry 0 0xFFFFF ACCESS_DATA_W LIMIT_GRAN);
       m \<leftarrow> store_gdt m GDT_ADDR 3 (create_gdt_entry 0 0xFFFFF 0xFA LIMIT_GRAN);
       store_gdt m GDT_ADDR 4 (create_gdt_entry 0 0xFFFFF 0xF2 LIMIT_GRAN)
     }"

definition setup_linux_boot_gdt :: "gmem \<Rightarrow> gmem option" where
  "setup_linux_boot_gdt m =
     do {
       m \<leftarrow> gm_fill m GDT_ADDR 0 GDT_TOTAL_SIZE;
       m \<leftarrow> store_gdt m GDT_ADDR 0 (create_gdt_entry 0 0 0 0);
       m \<leftarrow> store_gdt m GDT_ADDR 1 (create_gdt_entry 0 0 0 0);
       m \<leftarrow> store_gdt m GDT_ADDR 2 (create_gdt_entry 0 0xFFFFF ACCESS_CODE_R LIMIT_GRAN);
       m \<leftarrow> store_gdt m GDT_ADDR 3 (create_gdt_entry 0 0xFFFFF ACCESS_DATA_W LIMIT_GRAN);
       store_gdt m GDT_ADDR 4 (create_gdt_entry 0 0 0 0)
     }"

definition setup_idt :: "gmem \<Rightarrow> gmem option" where
  "setup_idt m = gm_fill m (GDT_ADDR + GDT_TOTAL_SIZE) 0 (256 * 8)"

definition setup_gdt_64bit :: "gmem \<Rightarrow> nat \<Rightarrow> gmem option" where
  "setup_gdt_64bit m gdt_base =
     do {
       m \<leftarrow> gm_fill m gdt_base 0 (5 * 8);
       m \<leftarrow> gm_fill m gdt_base 0 8;
       m \<leftarrow> store_gdt m gdt_base 1
              \<lparr>limit_low = 0, base_low = 0, base_mid = 0,
               access = GDT_PRESENT OR GDT_CODE_DATA OR GDT_EXECUTABLE OR GDT_RW,
               limit_granular = GDT_LONG_MODE, base_high = 0\<rparr>;
       store_gdt m gdt_base 2
         \<lparr>limit_low = 0, base_low = 0, base_mid = 0,
          access = GDT_PRESENT OR GDT_CODE_DATA OR GDT_RW, limit_granular = 0, base_high = 0\<rparr>
     }"

text \<open>Here only the access byte (offset 5) and the granularity byte (offset 6) are stored.\<close>

definition setup_linux_boot_gdt_64bit :: "gmem \<Rightarrow> nat \<Rightarrow> gmem option" where
  "setup_linux_boot_gdt_64bit m gdt_base =
     do {
       m \<leftarrow> gm_fill m gdt_base 0 (5 * 8);
       m \<leftarrow> store8 m (gdt_base + 8 * 2 + 5)
              (GDT_PRESENT OR GDT_CODE_DATA OR GDT_EXECUTABLE OR GDT_RW);
       m \<leftarrow> store8 m (gdt_base + 8 * 2 + 6) GDT_LONG_MODE;
       m \<leftarrow> store8 m (gdt_base + 8 * 3 + 5) (GDT_PRESENT OR GDT_CODE_DATA OR GDT_RW);
       store8 m (gdt_base + 8 * 3 + 6) 0
     }"

text \<open>The loop body of \<^verbatim>\<open>setup_linux_ivt\<close> writes the four bytes of vector \<open>vec\<close>.\<close>

definition int_success_stub :: "u8 list" where
  "int_success_stub = [0x55, 0x89, 0xE5, 0x81, 0x66, 0x06, 0xFE, 0xFF, 0x31, 0xC0, 0x5D, 0xCF]"

definition int_fail_stub :: "u8 list" where
  "int_fail_stub = [0x55, 0x89, 0xE5, 0x81, 0x4E, 0x06, 0x01, 0x00, 0x31, 0xC0, 0x5D, 0xCF]"

definition ivt_offset :: "nat \<Rightarrow> u16" where
  "ivt_offset vec =
     (if vec = 0x15 \<or> vec = 0x10 \<or> vec = 0x16 \<or> vec = 0x1a then 0x1100
      else if vec = 0x13 then 0x1200 else 0x1000)"

definition ivt_vector :: "nat \<Rightarrow> u8 list" where
  "ivt_vector vec =
     (let off = ivt_offset vec; seg = 0x0000 :: u16
      in [ucast (off AND 0xFF), ucast (drop_bit 8 off AND 0xFF),
          ucast (seg AND 0xFF), ucast (drop_bit 8 seg AND 0xFF)])"

definition setup_linux_ivt :: "gmem \<Rightarrow> gmem option" where
  "setup_linux_ivt m =
     do {
       m \<leftarrow> store8 m 0x1000 0xCF;
       m \<leftarrow> gm_write m 0x1100 int_success_stub;
       m \<leftarrow> gm_write m 0x1200 int_fail_stub;
       for_each [0..<256] (\<lambda>vec m. gm_write m (4 * vec) (ivt_vector vec)) m
     }"

definition handler_addr :: u32 where "handler_addr = 0x7000"

definition handler_code :: "u8 list" where
  "handler_code =
     [0x50, 0x52, 0xBA, 0xF8, 0x03, 0x00, 0x00, 0xB0, 0x45, 0xEE, 0x5A, 0x58, 0xF4, 0xEB, 0xFE]"

definition linux_gate :: "idt_entry" where
  "linux_gate =
     \<lparr>offset_low = ucast (handler_addr AND 0xFFFF), selector = LINUX_BOOT_CS, reserved = 0,
      flags = 0x8E, offset_high = ucast (drop_bit 16 handler_addr AND 0xFFFF)\<rparr>"

definition setup_linux_prot_idt :: "gmem \<Rightarrow> gmem option" where
  "setup_linux_prot_idt m =
     do {
       m \<leftarrow> gm_write m (unat handler_addr) handler_code;
       for_each [0..<256]
         (\<lambda>vec m. gm_write m (GDT_ADDR + GDT_TOTAL_SIZE + 8 * vec) (idt_bytes linux_gate)) m
     }"

section \<open>Segment registers\<close>

definition REAL_MODE_KERNEL_ADDR :: nat where "REAL_MODE_KERNEL_ADDR = 0x10000"

text \<open>The assignments of one segment register and of \<^verbatim>\<open>es = fs = gs = ss = ds\<close>.\<close>

definition real_segment :: "u64 \<Rightarrow> u16 \<Rightarrow> u8 \<Rightarrow> kvm_segment" where
  "real_segment base sel ty =
     \<lparr>seg_base = base, seg_limit = 0xFFFF, seg_selector = sel, seg_type = ty, seg_present = 1,
      seg_dpl = 0, seg_db = 0, seg_s = 1, seg_l = 0, seg_g = 0, seg_avl = 0\<rparr>"

definition flat_segment :: "u16 \<Rightarrow> u8 \<Rightarrow> u8 \<Rightarrow> u8 \<Rightarrow> kvm_segment" where
  "flat_segment sel ty db l =
     \<lparr>seg_base = 0, seg_limit = 0xFFFFFFFF, seg_selector = sel, seg_type = ty, seg_present = 1,
      seg_dpl = 0, seg_db = db, seg_s = 1, seg_l = l, seg_g = 1, seg_avl = 0\<rparr>"

definition set_segments :: "kvm_segment \<Rightarrow> kvm_segment \<Rightarrow> kvm_sregs \<Rightarrow> kvm_sregs" where
  "set_segments code data sregs =
     sregs\<lparr>s_cs := code, s_ds := data, s_es := data, s_fs := data, s_gs := data, s_ss := data\<rparr>"

text \<open>
  \<^verbatim>\<open>cs_value = ctx->vcpu_id * (ctx->mem_size / 16)\<close> is truncated to 16 bits; \<^verbatim>\<open>cs_value * 16\<close> is
  \<^verbatim>\<open>int\<close> arithmetic on the promoted value.
\<close>

definition setup_realmode_segments :: "vcpu_context \<Rightarrow> kvm_sregs \<Rightarrow> kvm_sregs" where
  "setup_realmode_segments ctx sregs =
     (if linux_guest ctx then
        set_segments
          (real_segment (word_of_nat REAL_MODE_KERNEL_ADDR)
             (word_of_nat (REAL_MODE_KERNEL_ADDR div 16)) 0x9b)
          (real_segment (word_of_nat REAL_MODE_KERNEL_ADDR)
             (word_of_nat (REAL_MODE_KERNEL_ADDR div 16)) 0x93) sregs
      else
        (let cs_value = word_of_nat (vcpu_id ctx * (mem_size ctx div 16)) :: u16;
             base = word_of_nat (unat cs_value * 16)
         in set_segments (real_segment base cs_value 0x9b) (real_segment base cs_value 0x93) sregs))"

definition setup_protectedmode_segments :: "kvm_sregs \<Rightarrow> kvm_sregs" where
  "setup_protectedmode_segments =
     set_segments (flat_segment 0x08 0x0a 1 0) (flat_segment 0x10 0x02 1 0)"

definition setup_linux_boot_segments :: "kvm_sregs \<Rightarrow> kvm_sregs" where
  "setup_linux_boot_segments =
     set_segments (flat_segment LINUX_BOOT_CS 0x0a 1 0) (flat_segment LINUX_BOOT_DS 0x02 1 0)"

section \<open>The x86 descriptor formats\<close>

text \<open>A segment register loaded with selector \<open>sel\<close> from the eight bytes of its descriptor.\<close>

definition segment_of_descriptor :: "u16 \<Rightarrow> u8 list \<Rightarrow> kvm_segment" where
  "segment_of_descriptor sel d =
     (let limit = from_le [d ! 0, d ! 1, d ! 6 AND 0x0F] :: u32;
          granular = bit (d ! 6) 7
      in \<lparr>seg_base = from_le [d ! 2, d ! 3, d ! 4, d ! 7],
          seg_limit = (if granular then push_bit 12 limit OR 0xFFF else limit),
          seg_selector = sel, seg_type = d ! 5 AND 0x0F, seg_present = drop_bit 7 (d ! 5) AND 1,
          seg_dpl = drop_bit 5 (d ! 5) AND 3, seg_db = drop_bit 6 (d ! 6) AND 1,
          seg_s = drop_bit 4 (d ! 5) AND 1, seg_l = drop_bit 5 (d ! 6) AND 1,
          seg_g = drop_bit 7 (d ! 6) AND 1, seg_avl = drop_bit 4 (d ! 6) AND 1\<rparr>)"

definition descriptor_at :: "gmem \<Rightarrow> kvm_dtable \<Rightarrow> u16 \<Rightarrow> u8 list option" where
  "descriptor_at m gdtr sel = gm_read m (unat (dt_base gdtr) + 8 * (unat sel div 8)) 8"

text \<open>
  A gate of a 32-bit IDT: where it leads, and its type, privilege level and present bit. A present
  gate of type 0xE with the S bit clear is a 32-bit interrupt gate.
\<close>

record idt_gate =
  gate_offset :: u32
  gate_selector :: u16
  gate_type :: u8
  gate_s :: u8
  gate_dpl :: u8
  gate_present :: u8

definition gate_of_bytes :: "u8 list \<Rightarrow> idt_gate" where
  "gate_of_bytes d =
     \<lparr>gate_offset = from_le [d ! 0, d ! 1, d ! 6, d ! 7], gate_selector = from_le [d ! 2, d ! 3],
      gate_type = d ! 5 AND 0x0F, gate_s = drop_bit 4 (d ! 5) AND 1,
      gate_dpl = drop_bit 5 (d ! 5) AND 3, gate_present = drop_bit 7 (d ! 5) AND 1\<rparr>"

definition interrupt_gate32 :: "u32 \<Rightarrow> u16 \<Rightarrow> idt_gate" where
  "interrupt_gate32 handler sel =
     \<lparr>gate_offset = handler, gate_selector = sel, gate_type = 0xE, gate_s = 0, gate_dpl = 0, gate_present = 1\<rparr>"

section \<open>Correctness of the GDTs\<close>

lemma le_bytes_2: "le_bytes 2 w = [ucast w, ucast (drop_bit 8 w)]"
  by (simp add: le_bytes_def numeral_2_eq_2)

lemma length_gdt_bytes [simp]: "length (gdt_bytes e) = 8"
  by (simp add: gdt_bytes_def)

lemma length_idt_bytes [simp]: "length (idt_bytes e) = 8"
  by (simp add: idt_bytes_def)

lemma gdt_bytes_eq:
  "gdt_bytes e = [ucast (limit_low e), ucast (drop_bit 8 (limit_low e)), ucast (base_low e),
     ucast (drop_bit 8 (base_low e)), base_mid e, access e, limit_granular e, base_high e]"
  by (simp add: gdt_bytes_def le_bytes_2)

lemma byte_masks:
  "(0xFF :: u32) = mask 8" "(0xFFFF :: u32) = mask 16" "(0x0F :: u32) = mask 4"
  "(0x0F :: u8) = mask 4" "(0xF0 :: u8) = push_bit 4 (mask 4)" "(1 :: u8) = mask 1"
  by (simp_all add: mask_eq_exp_minus_1)

lemma gdt_bytes_create:
  "gdt_bytes (create_gdt_entry base limit acc fl) =
     [ucast limit, ucast (drop_bit 8 limit), ucast base, ucast (drop_bit 8 base),
      ucast (drop_bit 16 base), acc, ucast (drop_bit 16 limit AND 0x0F) OR (fl AND 0xF0),
      ucast (drop_bit 24 base)]"
proof -
  have "ucast (ucast (x AND 0xFFFF) :: u16) = (ucast x :: u8)"
    "ucast (drop_bit 8 (ucast (x AND 0xFFFF) :: u16)) = (ucast (drop_bit 8 x) :: u8)"
    "ucast (x AND 0xFF) = (ucast x :: u8)" for x :: u32
    unfolding byte_masks by (rule bit_word_eqI; auto simp: bit_simps)+
  then show ?thesis
    unfolding gdt_bytes_eq create_gdt_entry_def by simp
qed

lemma le_bytes_4:
  "le_bytes 4 w = [ucast w, ucast (drop_bit 8 w), ucast (drop_bit 16 w), ucast (drop_bit 24 w)]"
proof -
  have "[0..<4] = [0, 1, 2, 3 :: nat]" by (simp add: upt_rec)
  then show ?thesis by (simp add: le_bytes_def)
qed

lemma le_bytes_3: "le_bytes 3 w = [ucast w, ucast (drop_bit 8 w), ucast (drop_bit 16 w)]"
proof -
  have "[0..<3] = [0, 1, 2 :: nat]" by (simp add: upt_rec)
  then show ?thesis by (simp add: le_bytes_def)
qed

text \<open>The flags byte: low nibble from the limit, high nibble from the flags.\<close>

lemma flags_byte:
  fixes fl x :: u8
  assumes "drop_bit 4 x = 0"
  shows "(x OR (fl AND 0xF0)) AND 0x0F = x"
    and "bit (x OR (fl AND 0xF0)) 7 = bit fl 7"
    and "4 \<le> k \<Longrightarrow> drop_bit k (x OR (fl AND 0xF0)) = drop_bit k fl"
proof -
  have x: "\<not> bit x (n + 4)" for n
    using assms bit_drop_bit_eq[of 4 x] by (simp add: add.commute fun_eq_iff)
  have x': "bit x n \<Longrightarrow> n < 4" for n using x[of "n - 4"] by (cases "n < 4") auto
  show "(x OR (fl AND 0xF0)) AND 0x0F = x"
    unfolding byte_masks by (rule bit_word_eqI) (auto simp: bit_simps dest: x')
  show "bit (x OR (fl AND 0xF0)) 7 = bit fl 7"
    unfolding byte_masks by (auto simp: bit_simps dest: x')
  show "4 \<le> k \<Longrightarrow> drop_bit k (x OR (fl AND 0xF0)) = drop_bit k fl"
    unfolding byte_masks by (rule bit_word_eqI) (auto simp: bit_simps dest: bit_imp_le_length x')
qed

lemma limit_nibble:
  fixes limit :: u32
  shows "drop_bit 4 (ucast (drop_bit 16 limit AND 0x0F) :: u8) = 0"
    and "drop_bit 20 limit = 0 \<Longrightarrow>
      ucast (drop_bit 16 limit AND 0x0F) = (ucast (drop_bit 16 limit) :: u8)"
    and "drop_bit 20 limit = 0 \<Longrightarrow> take_bit 24 limit = limit"
proof -
  show "drop_bit 4 (ucast (drop_bit 16 limit AND 0x0F) :: u8) = 0"
    unfolding byte_masks by (rule bit_word_eqI) (simp add: bit_simps)
  assume "drop_bit 20 limit = 0"
  then have "\<not> bit limit (n + 20)" for n
    using bit_drop_bit_eq[of 20 limit] by (simp add: add.commute fun_eq_iff)
  then have l: "bit limit n \<Longrightarrow> n < 20" for n by (metis le_add_diff_inverse2 not_less)
  show "ucast (drop_bit 16 limit AND 0x0F) = (ucast (drop_bit 16 limit) :: u8)"
    unfolding byte_masks by (rule bit_word_eqI) (auto simp: bit_simps dest: l)
  show "take_bit 24 limit = limit"
    by (rule bit_word_eqI) (auto simp: bit_simps dest: l)
qed

text \<open>
  \<^verbatim>\<open>create_gdt_entry\<close> encodes what the processor decodes: for every base, 20-bit limit, access
  byte and flags nibble, loading the descriptor gives that base, the limit (in 4 KB units when the
  granularity flag is set), the type, privilege level and present bit of the access byte, and the
  size and long-mode flags.
\<close>

theorem gdt_entry_roundtrip:
  assumes "drop_bit 20 limit = 0"
  shows "segment_of_descriptor sel (gdt_bytes (create_gdt_entry base limit acc fl)) =
    \<lparr>seg_base = ucast base,
     seg_limit = (if bit fl 7 then push_bit 12 limit OR 0xFFF else limit),
     seg_selector = sel, seg_type = acc AND 0x0F, seg_present = drop_bit 7 acc AND 1,
     seg_dpl = drop_bit 5 acc AND 3, seg_db = drop_bit 6 fl AND 1, seg_s = drop_bit 4 acc AND 1,
     seg_l = drop_bit 5 fl AND 1, seg_g = drop_bit 7 fl AND 1, seg_avl = drop_bit 4 fl AND 1\<rparr>"
proof -
  let ?d = "gdt_bytes (create_gdt_entry base limit acc fl)"
  let ?x = "ucast (drop_bit 16 limit AND 0x0F) :: u8"
  note nib = flags_byte[OF limit_nibble(1)]
  have d: "?d ! 0 = ucast limit" "?d ! 1 = ucast (drop_bit 8 limit)" "?d ! 2 = ucast base"
    "?d ! 3 = ucast (drop_bit 8 base)" "?d ! 4 = ucast (drop_bit 16 base)" "?d ! 5 = acc"
    "?d ! 6 = ?x OR (fl AND 0xF0)" "?d ! 7 = ucast (drop_bit 24 base)"
    by (simp_all only: gdt_bytes_create) simp_all
  have limit: "from_le [?d ! 0, ?d ! 1, ?d ! 6 AND 0x0F] = limit"
  proof -
    have "?d ! 6 AND 0x0F = ucast (drop_bit 16 limit)"
      unfolding d nib(1) by (rule limit_nibble(2)[OF assms])
    then show ?thesis
      using from_le_le_bytes_take[of 3 limit, where 'b = 32] limit_nibble(3)[OF assms]
      by (simp only: d(1,2) le_bytes_3) simp
  qed
  have base: "(from_le [?d ! 2, ?d ! 3, ?d ! 4, ?d ! 7] :: u64) = ucast base"
    using from_le_le_bytes_take[of 4 base, where 'b = 64] take_bit_length_eq[of base]
    by (simp only: d le_bytes_4) simp
  show ?thesis
    unfolding segment_of_descriptor_def Let_def limit base
    by (simp only: d nib order.refl)
qed

lemma store_gdt_read:
  assumes "store_gdt m gdt i e = Some m'"
  shows "gm_read m' (gdt + 8 * j) 8 = (if i = j then Some (gdt_bytes e) else gm_read m (gdt + 8 * j) 8)"
proof (cases "i = j")
  case True
  then show ?thesis
    using gm.rd_wr_same[of m "gdt + 8 * i" "gdt_bytes e" m'] assms by (simp add: store_gdt_def)
next
  case False
  then have "gdt + 8 * i + 8 \<le> gdt + 8 * j \<or> gdt + 8 * j + 8 \<le> gdt + 8 * i" by linarith
  then show ?thesis
    using False gm.rd_wr_other[of m "gdt + 8 * i" "gdt_bytes e" m' "gdt + 8 * j" 8] assms
    by (simp add: store_gdt_def)
qed

lemma setup_gdt_entries:
  assumes "setup_gdt m = Some m'"
  shows "gm_read m' (GDT_ADDR + 8 * 1) 8 =
      Some (gdt_bytes (create_gdt_entry 0 0xFFFFF ACCESS_CODE_R LIMIT_GRAN))"
    and "gm_read m' (GDT_ADDR + 8 * 2) 8 =
      Some (gdt_bytes (create_gdt_entry 0 0xFFFFF ACCESS_DATA_W LIMIT_GRAN))"
proof -
  obtain m1 m2 m3 m4 where
    "store_gdt m GDT_ADDR 0 (create_gdt_entry 0 0 0 0) = Some m1"
    "store_gdt m1 GDT_ADDR 1 (create_gdt_entry 0 0xFFFFF ACCESS_CODE_R LIMIT_GRAN) = Some m2"
    "store_gdt m2 GDT_ADDR 2 (create_gdt_entry 0 0xFFFFF ACCESS_DATA_W LIMIT_GRAN) = Some m3"
    "store_gdt m3 GDT_ADDR 3 (create_gdt_entry 0 0xFFFFF 0xFA LIMIT_GRAN) = Some m4"
    "store_gdt m4 GDT_ADDR 4 (create_gdt_entry 0 0xFFFFF 0xF2 LIMIT_GRAN) = Some m'"
    using assms unfolding setup_gdt_def by (auto simp: bind_eq_Some_conv)
  note reads = this[THEN store_gdt_read]
  show "gm_read m' (GDT_ADDR + 8 * 1) 8 =
      Some (gdt_bytes (create_gdt_entry 0 0xFFFFF ACCESS_CODE_R LIMIT_GRAN))"
    using reads[of 1] by simp
  show "gm_read m' (GDT_ADDR + 8 * 2) 8 =
      Some (gdt_bytes (create_gdt_entry 0 0xFFFFF ACCESS_DATA_W LIMIT_GRAN))"
    using reads[of 2] by simp
qed

lemma setup_linux_boot_gdt_entries:
  assumes "setup_linux_boot_gdt m = Some m'"
  shows "gm_read m' (GDT_ADDR + 8 * 2) 8 =
      Some (gdt_bytes (create_gdt_entry 0 0xFFFFF ACCESS_CODE_R LIMIT_GRAN))"
    and "gm_read m' (GDT_ADDR + 8 * 3) 8 =
      Some (gdt_bytes (create_gdt_entry 0 0xFFFFF ACCESS_DATA_W LIMIT_GRAN))"
proof -
  obtain m1 m2 m3 m4 m5 where
    "store_gdt m1 GDT_ADDR 0 (create_gdt_entry 0 0 0 0) = Some m2"
    "store_gdt m2 GDT_ADDR 1 (create_gdt_entry 0 0 0 0) = Some m3"
    "store_gdt m3 GDT_ADDR 2 (create_gdt_entry 0 0xFFFFF ACCESS_CODE_R LIMIT_GRAN) = Some m4"
    "store_gdt m4 GDT_ADDR 3 (create_gdt_entry 0 0xFFFFF ACCESS_DATA_W LIMIT_GRAN) = Some m5"
    "store_gdt m5 GDT_ADDR 4 (create_gdt_entry 0 0 0 0) = Some m'"
    using assms unfolding setup_linux_boot_gdt_def by (auto simp: bind_eq_Some_conv)
  note reads = this[THEN store_gdt_read]
  show "gm_read m' (GDT_ADDR + 8 * 2) 8 =
      Some (gdt_bytes (create_gdt_entry 0 0xFFFFF ACCESS_CODE_R LIMIT_GRAN))"
    using reads[of 2] by simp
  show "gm_read m' (GDT_ADDR + 8 * 3) 8 =
      Some (gdt_bytes (create_gdt_entry 0 0xFFFFF ACCESS_DATA_W LIMIT_GRAN))"
    using reads[of 3] by simp
qed

lemma flat_descriptors:
  "segment_of_descriptor sel (gdt_bytes (create_gdt_entry 0 0xFFFFF ACCESS_CODE_R LIMIT_GRAN)) =
     flat_segment sel 0x0a 1 0"
  "segment_of_descriptor sel (gdt_bytes (create_gdt_entry 0 0xFFFFF ACCESS_DATA_W LIMIT_GRAN)) =
     flat_segment sel 0x02 1 0"
  by (simp_all add: gdt_bytes_eq create_gdt_entry_def segment_of_descriptor_def flat_segment_def
      gdt_bits bit_simps)

text \<open>
  The 64-bit code and data descriptors. In 64-bit mode the processor ignores the limit, the granularity
  and the D/B bit of a data segment, and it sets the accessed bit of a descriptor it loads; \<open>long_view\<close>
  is a segment register without these.
\<close>

definition long_view :: "kvm_segment \<Rightarrow> kvm_segment" where
  "long_view g = g\<lparr>seg_limit := 0, seg_g := 0, seg_type := seg_type g OR 1,
     seg_db := (if bit (seg_type g) 3 then seg_db g else 0)\<rparr>"

lemma setup_gdt_64bit_entries:
  assumes "setup_gdt_64bit m a = Some m'"
  shows "gm_read m' (a + 8 * 1) 8 = Some [0, 0, 0, 0, 0, 0x9A, 0x20, 0]"
    and "gm_read m' (a + 8 * 2) 8 = Some [0, 0, 0, 0, 0, 0x92, 0, 0]"
proof -
  obtain m1 m2 where
    "store_gdt m1 a 1 \<lparr>limit_low = 0, base_low = 0, base_mid = 0,
       access = GDT_PRESENT OR GDT_CODE_DATA OR GDT_EXECUTABLE OR GDT_RW,
       limit_granular = GDT_LONG_MODE, base_high = 0\<rparr> = Some m2"
    "store_gdt m2 a 2 \<lparr>limit_low = 0, base_low = 0, base_mid = 0,
       access = GDT_PRESENT OR GDT_CODE_DATA OR GDT_RW, limit_granular = 0, base_high = 0\<rparr> = Some m'"
    using assms unfolding setup_gdt_64bit_def by (auto simp: bind_eq_Some_conv)
  note reads = this[THEN store_gdt_read]
  show "gm_read m' (a + 8 * 1) 8 = Some [0, 0, 0, 0, 0, 0x9A, 0x20, 0]"
    using reads[of 1] by (simp add: gdt_bytes_eq gdt_bits)
  show "gm_read m' (a + 8 * 2) 8 = Some [0, 0, 0, 0, 0, 0x92, 0, 0]"
    using reads[of 2] by (simp add: gdt_bytes_eq gdt_bits)
qed

lemma setup_linux_boot_gdt_64bit_entries:
  assumes "setup_linux_boot_gdt_64bit m a = Some m'"
  shows "gm_read m' (a + 8 * 2) 8 = Some [0, 0, 0, 0, 0, 0x9A, 0x20, 0]"
    and "gm_read m' (a + 8 * 3) 8 = Some [0, 0, 0, 0, 0, 0x92, 0, 0]"
proof -
  have "a + 40 \<le> gm_size m" "gm_size m' = gm_size m" and
    d: "gm_data m' = splice (splice (splice (splice (splice (gm_data m) a (replicate 40 0))
        (21 + a) [0x9A]) (22 + a) [0x20]) (29 + a) [0x92]) (30 + a) [0]"
    using assms by (auto simp: setup_linux_boot_gdt_64bit_def gm_fill_def store8_def gm_write_def gdt_bits
        bind_eq_Some_conv split: if_splits)
  note fits = this(1,2)
  have data: "gm_data m' (a + k) = (if k = 21 then 0x9A else if k = 22 then 0x20 else if k = 29 then 0x92 else 0)"
    if "k < 40" for k
    using that by (simp add: d splice_def)
  have rd: "gm_read m' (a + i) 8 = Some (map (\<lambda>k. gm_data m' (a + (i + k))) [0..<8])" if "i + 8 \<le> 40" for i
    using that fits by (auto simp: gm_read_def add.assoc intro!: nth_equalityI)
  have eight: "[0..<8] = [0, 1, 2, 3, 4, 5, 6, 7 :: nat]" by (simp add: upt_rec)
  show "gm_read m' (a + 8 * 2) 8 = Some [0, 0, 0, 0, 0, 0x9A, 0x20, 0]"
    using rd[of 16] by (simp add: eight data)
  show "gm_read m' (a + 8 * 3) 8 = Some [0, 0, 0, 0, 0, 0x92, 0, 0]"
    using rd[of 24] by (simp add: eight data)
qed

lemma long_descriptors:
  "long_view (segment_of_descriptor sel [0, 0, 0, 0, 0, 0x9A, 0x20, 0]) = long_view (flat_segment sel 0xb 0 1)"
  "long_view (segment_of_descriptor sel [0, 0, 0, 0, 0, 0x92, 0, 0]) = long_view (flat_segment sel 0x3 1 0)"
  by (simp_all add: segment_of_descriptor_def flat_segment_def long_view_def bit_simps)

section \<open>Interrupt tables for Linux\<close>

definition ivt_handler :: "nat \<Rightarrow> u8 list" where
  "ivt_handler vec =
     (if vec \<in> {0x10, 0x15, 0x16, 0x1a} then int_success_stub
      else if vec = 0x13 then int_fail_stub else [0xCF])"

text \<open>The physical address of the real-mode far pointer \<open>segment:offset\<close> in the four bytes.\<close>

definition far_pointer :: "u8 list \<Rightarrow> nat" where
  "far_pointer bs = 16 * unat (from_le (drop 2 bs) :: u16) + unat (from_le (take 2 bs) :: u16)"

lemma far_pointer_ivt: "far_pointer (ivt_vector vec) = unat (ivt_offset vec)"
  by (simp add: far_pointer_def ivt_vector_def Let_def ivt_offset_def)

text \<open>
  After \<^verbatim>\<open>setup_linux_ivt\<close>, every real-mode interrupt vector points to intact code: the
  success stub for video, system, keyboard and time services (0x10, 0x15, 0x16, 0x1A), the failure
  stub for disk services (0x13), and an IRET for all others.
\<close>

theorem ivt_points_to_stubs:
  assumes "setup_linux_ivt m = Some m'" and "vec < 256"
  shows "\<exists>bs. gm_read m' (4 * vec) 4 = Some bs \<and>
    gm_read m' (far_pointer bs) (length (ivt_handler vec)) = Some (ivt_handler vec)"
proof -
  obtain m1 m2 m3 where s: "gm_write m 0x1000 [0xCF] = Some m1"
    "gm_write m1 0x1100 int_success_stub = Some m2" "gm_write m2 0x1200 int_fail_stub = Some m3"
    "gm.fill 0 4 ivt_vector 256 m3 = Some m'"
    using assms(1) unfolding setup_linux_ivt_def store8_def gm.fill_def
    by (auto simp: bind_eq_Some_conv)
  have len: "length (ivt_vector i) = 4" for i by (simp add: ivt_vector_def Let_def)
  have vec: "gm_read m' (4 * vec) 4 = Some (ivt_vector vec)"
    using gm.fill_entry[OF s(4) len assms(2)] by simp
  have above: "gm_read m' b n = gm_read m3 b n" if "0x400 \<le> b" for b n
    by (rule gm.fill_frame[OF s(4) len]) (use that in simp)
  have stubs: "length int_success_stub = 12" "length int_fail_stub = 12"
    by (simp_all add: int_success_stub_def int_fail_stub_def)
  have "gm_read m3 0x1000 1 = Some [0xCF]"
    using gm.rd_wr_other[OF s(3), of "0x1000" 1] gm.rd_wr_other[OF s(2), of "0x1000" 1]
      gm.rd_wr_same[OF s(1)] stubs by simp
  moreover have "gm_read m3 0x1100 12 = Some int_success_stub"
    using gm.rd_wr_other[OF s(3), of "0x1100" 12] gm.rd_wr_same[OF s(2)] stubs by simp
  moreover have "gm_read m3 0x1200 12 = Some int_fail_stub"
    using gm.rd_wr_same[OF s(3)] stubs by simp
  ultimately have "gm_read m' (unat (ivt_offset vec)) (length (ivt_handler vec)) =
      Some (ivt_handler vec)"
    unfolding ivt_offset_def ivt_handler_def using above stubs by auto
  then show ?thesis using vec far_pointer_ivt by auto
qed

lemma prot_idt_spec:
  assumes "setup_linux_prot_idt m1 = Some m2"
  shows "vec < 256 \<Longrightarrow> map_option gate_of_bytes (gm_read m2 (GDT_ADDR + GDT_TOTAL_SIZE + 8 * vec) 8) =
      Some (interrupt_gate32 handler_addr LINUX_BOOT_CS)"
    and "gm_read m2 (unat handler_addr) (length handler_code) = Some handler_code"
    and "i < 5 \<Longrightarrow> gm_read m2 (GDT_ADDR + 8 * i) 8 = gm_read m1 (GDT_ADDR + 8 * i) 8"
proof -
  obtain m3 where s: "gm_write m1 (unat handler_addr) handler_code = Some m3"
    "gm.fill (GDT_ADDR + GDT_TOTAL_SIZE) 8 (\<lambda>_. idt_bytes linux_gate) 256 m3 = Some m2"
    using assms unfolding setup_linux_prot_idt_def gm.fill_def
    by (auto simp: bind_eq_Some_conv)
  have len: "length (idt_bytes linux_gate) = 8" for i :: nat by simp
  have gate: "gate_of_bytes (idt_bytes linux_gate) = interrupt_gate32 handler_addr LINUX_BOOT_CS"
    by (simp add: gate_of_bytes_def interrupt_gate32_def idt_bytes_def linux_gate_def le_bytes_2 handler_addr_def
        LINUX_BOOT_CS_def)
  have code: "length handler_code = 15" by (simp add: handler_code_def)
  show "map_option gate_of_bytes (gm_read m2 (GDT_ADDR + GDT_TOTAL_SIZE + 8 * vec) 8) =
      Some (interrupt_gate32 handler_addr LINUX_BOOT_CS)" if "vec < 256"
    using gm.fill_entry[OF s(2) len that] gate by simp
  have "gm_read m2 (unat handler_addr) (length handler_code) =
      gm_read m3 (unat handler_addr) (length handler_code)"
    by (rule gm.fill_frame[OF s(2) len]) (simp add: gdt_layout handler_addr_def)
  then show "gm_read m2 (unat handler_addr) (length handler_code) = Some handler_code"
    using gm.rd_wr_same[OF s(1)] by simp
  show "gm_read m2 (GDT_ADDR + 8 * i) 8 = gm_read m1 (GDT_ADDR + 8 * i) 8" if "i < 5"
  proof -
    have "gm_read m2 (GDT_ADDR + 8 * i) 8 = gm_read m3 (GDT_ADDR + 8 * i) 8"
      by (rule gm.fill_frame[OF s(2) len]) (use that in \<open>simp add: gdt_layout\<close>)
    also have "\<dots> = gm_read m1 (GDT_ADDR + 8 * i) 8"
      by (rule gm.rd_wr_other[OF s(1)]) (use that in \<open>simp add: gdt_layout handler_addr_def\<close>)
    finally show ?thesis .
  qed
qed

text \<open>
  C32: After the Linux boot GDT and the protected-mode IDT are set up, every one of the 256 gates
  is a present 32-bit interrupt gate of privilege level 0 that leads to the intact handler code through
  a selector whose descriptor in the GDT is a present flat 32-bit code segment.
\<close>

theorem prot_idt_gates:
  assumes "setup_linux_boot_gdt m = Some m1" and "setup_linux_prot_idt m1 = Some m2"
    and "vec < 256"
  shows "map_option gate_of_bytes (gm_read m2 (GDT_ADDR + GDT_TOTAL_SIZE + 8 * vec) 8) =
      Some (interrupt_gate32 handler_addr LINUX_BOOT_CS) \<and>
    gm_read m2 (unat handler_addr) (length handler_code) = Some handler_code \<and>
    map_option (segment_of_descriptor LINUX_BOOT_CS)
      (gm_read m2 (GDT_ADDR + 8 * (unat LINUX_BOOT_CS div 8)) 8) =
      Some (flat_segment LINUX_BOOT_CS 0x0a 1 0)"
  using prot_idt_spec(1)[OF assms(2,3)] prot_idt_spec(2)[OF assms(2)]
    prot_idt_spec(3)[OF assms(2), of 2] setup_linux_boot_gdt_entries(1)[OF assms(1)]
  by (simp add: flat_descriptors LINUX_BOOT_CS_def)

section \<open>The builders stay inside the mapping\<close>

text \<open>The table builders succeed in a mapping that holds them.\<close>

lemma store_gdt_defined:
  "gdt + 8 * i + 8 \<le> gm_size m \<Longrightarrow> \<exists>m'. store_gdt m gdt i e = Some m' \<and> gm_size m' = gm_size m"
  by (simp add: store_gdt_def)

lemma setup_gdt_defined:
  assumes "0x528 \<le> gm_size m"
  shows "\<exists>m'. setup_gdt m = Some m' \<and> gm_size m' = gm_size m"
  using assms by (simp add: setup_gdt_def store_gdt_def gdt_layout)

lemma setup_linux_boot_gdt_defined:
  assumes "0x528 \<le> gm_size m"
  shows "\<exists>m'. setup_linux_boot_gdt m = Some m' \<and> gm_size m' = gm_size m"
  using assms by (simp add: setup_linux_boot_gdt_def store_gdt_def gm_fill_def gdt_layout)

lemma setup_idt_defined:
  "0xD28 \<le> gm_size m \<Longrightarrow> \<exists>m'. setup_idt m = Some m' \<and> gm_size m' = gm_size m"
  by (simp add: setup_idt_def gm_fill_def gdt_layout)

lemma setup_gdt_64bit_defined:
  "a + 40 \<le> gm_size m \<Longrightarrow> \<exists>m'. setup_gdt_64bit m a = Some m' \<and> gm_size m' = gm_size m"
  by (simp add: setup_gdt_64bit_def store_gdt_def gm_fill_def)

lemma setup_linux_boot_gdt_64bit_defined:
  "a + 40 \<le> gm_size m \<Longrightarrow> \<exists>m'. setup_linux_boot_gdt_64bit m a = Some m' \<and> gm_size m' = gm_size m"
  by (simp add: setup_linux_boot_gdt_64bit_def store8_def gm_fill_def)

lemma prot_idt_defined:
  assumes "0x8000 \<le> gm_size m"
  shows "\<exists>m'. setup_linux_prot_idt m = Some m' \<and> gm_size m' = gm_size m"
proof -
  obtain m1 where 1: "gm_write m (unat handler_addr) handler_code = Some m1" "gm_size m1 = gm_size m"
    using assms by (simp add: handler_addr_def handler_code_def)
  obtain m2 where "gm.fill (GDT_ADDR + GDT_TOTAL_SIZE) 8 (\<lambda>_. idt_bytes linux_gate) 256 m1 = Some m2"
    "gm_size m2 = gm_size m1"
    using gm.fill_defined[of "\<lambda>_. idt_bytes linux_gate" 8 "GDT_ADDR + GDT_TOTAL_SIZE" 256 m1] 1(2) assms
    by (auto simp: gdt_layout)
  then show ?thesis using 1 by (simp add: setup_linux_prot_idt_def gm.fill_def)
qed

lemma linux_ivt_defined:
  assumes "0x1300 \<le> gm_size m"
  shows "\<exists>m'. setup_linux_ivt m = Some m' \<and> gm_size m' = gm_size m"
proof -
  have stubs: "length int_success_stub = 12" "length int_fail_stub = 12"
    by (simp_all add: int_success_stub_def int_fail_stub_def)
  obtain m1 m2 m3 where m: "gm_write m 0x1000 [0xCF] = Some m1"
    "gm_write m1 0x1100 int_success_stub = Some m2" "gm_write m2 0x1200 int_fail_stub = Some m3"
    "gm_size m3 = gm_size m"
    using assms stubs by simp
  have "length (ivt_vector i) = 4" for i by (simp add: ivt_vector_def Let_def)
  then obtain m' where "gm.fill 0 4 ivt_vector 256 m3 = Some m'" "gm_size m' = gm_size m"
    using gm.fill_defined[of ivt_vector 4 0 256 m3] m(4) assms by auto
  then show ?thesis
    using m by (simp add: setup_linux_ivt_def store8_def gm.fill_def)
qed

section \<open>Worked instances\<close>

definition blank_mem :: gmem where
  "blank_mem = \<lparr>gm_size = 0x10000, gm_data = (\<lambda>_. 0)\<rparr>"

lemma blank_mem_size [simp]: "gm_size blank_mem = 0x10000"
  by (simp add: blank_mem_def)

theorem gdt_entry_roundtrip_witness:
  "segment_of_descriptor 8 (gdt_bytes (create_gdt_entry 0x12345678 0xFFFFF 0x9A 0xC0)) =
    \<lparr>seg_base = 0x12345678, seg_limit = 0xFFFFFFFF, seg_selector = 8, seg_type = 10,
     seg_present = 1, seg_dpl = 0, seg_db = 1, seg_s = 1, seg_l = 0, seg_g = 1, seg_avl = 0\<rparr>"
  using gdt_entry_roundtrip[of "0xFFFFF" 8 "0x12345678" "0x9A" "0xC0"]
  by (simp add: bit_numeral_rec)

theorem ivt_points_to_stubs_witness:
  "\<exists>m' bs. setup_linux_ivt blank_mem = Some m' \<and> gm_read m' 0x4C 4 = Some bs \<and>
     gm_read m' (far_pointer bs) (length (ivt_handler 0x13)) = Some (ivt_handler 0x13)"
proof -
  obtain m' where m: "setup_linux_ivt blank_mem = Some m'"
    using linux_ivt_defined[of blank_mem] by auto
  from ivt_points_to_stubs[OF this, of "0x13"] m show ?thesis by auto
qed

theorem prot_idt_gates_witness:
  "\<exists>m1 m2. setup_linux_boot_gdt blank_mem = Some m1 \<and> setup_linux_prot_idt m1 = Some m2 \<and>
     map_option gate_of_bytes (gm_read m2 (GDT_ADDR + GDT_TOTAL_SIZE + 8 * 14) 8) =
       Some (interrupt_gate32 handler_addr LINUX_BOOT_CS)"
proof -
  obtain m1 where 1: "setup_linux_boot_gdt blank_mem = Some m1" "gm_size m1 = 0x10000"
    using setup_linux_boot_gdt_defined[of blank_mem] by auto
  obtain m2 where 2: "setup_linux_prot_idt m1 = Some m2"
    using prot_idt_defined[of m1] 1(2) by auto
  from prot_idt_gates[OF 1(1) 2, of 14] 1(1) 2 show ?thesis by auto
qed

end
