(* ===== verification/Paging32.thy ===== *)
theory Paging32
  imports Vcpu
begin

text \<open>
  Two-level 32-bit paging: the tables that \<^verbatim>\<open>setup_page_tables\<close> (\<^verbatim>\<open>main.c\<close>) builds for the
  1K OS guest, and the walk of \<^verbatim>\<open>walk_page_tables_32bit\<close> (\<^verbatim>\<open>debug.c\<close>), which reads them the way
  the processor does.
\<close>

section \<open>The walk\<close>

datatype walk_result = Not_Present | Physical u32

definition pd_index :: "u32 \<Rightarrow> nat" where
  "pd_index va = unat (drop_bit 22 va AND 0x3FF)"

definition pt_index :: "u32 \<Rightarrow> nat" where
  "pt_index va = unat (drop_bit 12 va AND 0x3FF)"

text \<open>
  The result is \<open>None\<close> when an entry lies outside the mapping: the C code has no bounds check there.
\<close>

definition walk_page_tables_32bit :: "gmem \<Rightarrow> u32 \<Rightarrow> u32 \<Rightarrow> walk_result option" where
  "walk_page_tables_32bit m cr3_v virt_addr =
     do {
       let pd_base = cr3_v AND NOT 0xFFF;
       let offset = virt_addr AND 0xFFF;
       pde \<leftarrow> load32 m (unat pd_base + 4 * pd_index virt_addr);
       if pde AND 1 = 0 then Some Not_Present
       else if pde AND 0x80 \<noteq> 0
       then Some (Physical ((pde AND 0xFFC00000) OR (virt_addr AND 0x3FFFFF)))
       else do {
         let pt_base = pde AND NOT 0xFFF;
         pte \<leftarrow> load32 m (unat pt_base + 4 * pt_index virt_addr);
         if pte AND 1 = 0 then Some Not_Present
         else Some (Physical ((pte AND NOT 0xFFF) OR offset))
       }
     }"

text \<open>The offset in memory an access of the guest reaches; \<open>None\<close> is a page fault.\<close>

definition translate :: "gmem \<Rightarrow> u32 \<Rightarrow> u32 \<Rightarrow> nat option" where
  "translate m cr3_v va =
     (case walk_page_tables_32bit m cr3_v va of Some (Physical pa) \<Rightarrow> Some (unat pa) | _ \<Rightarrow> None)"

text \<open>A walk reads at most two words.\<close>

lemma walk_cong:
  assumes "load32 m' (unat (c AND NOT 0xFFF) + 4 * pd_index va) = load32 m (unat (c AND NOT 0xFFF) + 4 * pd_index va)"
    and "\<And>pde. load32 m (unat (c AND NOT 0xFFF) + 4 * pd_index va) = Some pde \<Longrightarrow> pde AND 1 \<noteq> 0 \<Longrightarrow>
      load32 m' (unat (pde AND NOT 0xFFF) + 4 * pt_index va) = load32 m (unat (pde AND NOT 0xFFF) + 4 * pt_index va)"
  shows "walk_page_tables_32bit m' c va = walk_page_tables_32bit m c va"
  using assms unfolding walk_page_tables_32bit_def Let_def
  by (cases "load32 m (unat (c AND NOT 0xFFF) + 4 * pd_index va)") simp_all

section \<open>Building the tables\<close>

definition page_dir_offset :: u32 where "page_dir_offset = 0x00100000"
definition page_table_0_offset :: u32 where "page_table_0_offset = 0x00101000"
definition page_table_512_offset :: u32 where "page_table_512_offset = 0x00102000"

lemmas page_offsets = page_dir_offset_def page_table_0_offset_def page_table_512_offset_def

text \<open>The result is the offset for CR3, or -1; \<open>i << 12\<close> is on the C \<^verbatim>\<open>int\<close> loop counter.\<close>

definition setup_page_tables :: "vcpu_context \<Rightarrow> (int \<times> vcpu_context) option" where
  "setup_page_tables ctx =
     (if mem_size ctx \<le> unat (page_table_512_offset + 4096) then Some (- 1, ctx)
      else do {
        m \<leftarrow> gm_fill (guest_mem ctx) (unat page_dir_offset) 0 4096;
        m \<leftarrow> gm_fill m (unat page_table_0_offset) 0 4096;
        m \<leftarrow> gm_fill m (unat page_table_512_offset) 0 4096;
        m \<leftarrow> store32 m (unat page_dir_offset + 4 * 0) (page_table_0_offset OR 0x03);
        m \<leftarrow> store32 m (unat page_dir_offset + 4 * 512) (page_table_512_offset OR 0x03);
        m \<leftarrow> store32_table (unat page_table_0_offset)
               (\<lambda>i. push_bit 12 (word_of_nat i) OR 0x03) 1024 m;
        m \<leftarrow> store32_table (unat page_table_512_offset)
               (\<lambda>i. push_bit 12 (word_of_nat i) OR 0x03) 1024 m;
        Some (uint page_dir_offset, ctx\<lparr>guest_mem := m\<rparr>)
      })"

section \<open>Correctness of the tables\<close>

lemma unat_take10: "unat (x AND 0x3FF :: u32) = unat x mod 1024"
proof -
  have "x AND 0x3FF = take_bit 10 x" by (simp add: take_bit_eq_mask mask_eq_exp_minus_1)
  then show ?thesis by (simp only: unsigned_take_bit_eq) (simp add: take_bit_eq_mod)
qed

lemma unat_take22: "unat (take_bit 22 va :: u32) = unat va mod 2 ^ 22"
  by (subst unsigned_take_bit_eq) (simp add: take_bit_eq_mod)

lemma pd_index_eq: "pd_index va = unat va div 2 ^ 22"
proof -
  have "unat va div 2 ^ 22 < 1024" using unat_less_2p32[of va] by simp
  then show ?thesis unfolding pd_index_def unat_take10 unat_drop_div by simp
qed

lemma pt_index_eq: "pt_index va = unat va div 2 ^ 12 mod 1024"
  unfolding pt_index_def unat_take10 unat_drop_div ..

lemma pd_index_less: "pd_index va < 1024"
  using unat_less_2p32[of va] by (simp add: pd_index_eq)

lemma pt_index_less: "pt_index va < 1024"
  by (simp add: pt_index_eq)

text \<open>A page entry \<open>page | flags\<close> with page-aligned \<open>page\<close> and 12 bits of flags.\<close>

lemma page_entry_flags:
  fixes p f k :: u32
  assumes "p AND 0xFFF = 0"
  shows "(p OR f) AND (k AND 0xFFF) = f AND (k AND 0xFFF)"
proof -
  have "p AND (k AND 0xFFF) = 0" using assms by (metis and.assoc and.commute and_zero_eq)
  then show ?thesis by (simp add: bit.conj_disj_distrib2)
qed

lemma page_entry_page:
  fixes p f k :: "'a::len word"
  assumes "p AND k = 0" and "f AND NOT k = 0"
  shows "(p OR f) AND NOT k = p"
  using assms by (auto simp: bit_eq_iff bit_simps)

lemma mask12: "(0xFFF :: u32) = mask 12"
  by (simp add: mask_eq_exp_minus_1)

lemma page_shift_aligned: "push_bit 12 i AND 0xFFF = (0 :: u32)"
  unfolding mask12 by (rule bit_word_eqI) (auto simp: bit_simps)

text \<open>The page an entry points to, joined with the page offset of an address in the same page.\<close>

lemma page_join:
  fixes va :: u32
  shows "push_bit 12 (drop_bit 12 va AND 0x3FF) OR (va AND 0xFFF) = take_bit 22 va"
proof -
  have "push_bit 12 (drop_bit 12 va AND mask 10) OR (va AND mask 12) = take_bit 22 va"
    by (intro bit_word_eqI) (auto simp: bit_simps)
  moreover have "(0x3FF :: u32) = mask 10" "(0xFFF :: u32) = mask 12"
    by (simp_all add: mask_eq_exp_minus_1)
  ultimately show ?thesis by simp
qed

text \<open>A walk that finds a page table with a present entry.\<close>

lemma walk_mapped:
  fixes pt page flags :: u32
  assumes "load32 m (unat (cr3_v AND NOT 0xFFF) + 4 * pd_index va) = Some (pt OR f1)"
    and "load32 m (unat pt + 4 * pt_index va) = Some (page OR f2)"
    and "pt AND 0xFFF = 0" and "f1 AND NOT 0xFFF = 0" and "f1 AND 1 \<noteq> 0" and "f1 AND 0x80 = 0"
    and "page AND 0xFFF = 0" and "f2 AND NOT 0xFFF = 0" and "f2 AND 1 \<noteq> 0"
  shows "walk_page_tables_32bit m cr3_v va = Some (Physical (page OR (va AND 0xFFF)))"
proof -
  have flags: "(pt OR f1) AND 1 = f1 AND 1" "(pt OR f1) AND 0x80 = f1 AND 0x80"
    "(page OR f2) AND 1 = f2 AND 1"
    using page_entry_flags[OF assms(3), of f1 1] page_entry_flags[OF assms(3), of f1 "0x80"]
      page_entry_flags[OF assms(7), of f2 1] by simp_all
  have pages: "(pt OR f1) AND NOT 0xFFF = pt" "(page OR f2) AND NOT 0xFFF = page"
    using page_entry_page assms by blast+
  show ?thesis
    unfolding walk_page_tables_32bit_def Let_def
    by (simp only: assms(1,2) flags pages bind.bind_lunit assms(5,6,9) if_False not_not
        simp_thms)
qed

lemma walk_absent:
  assumes "load32 m (unat (cr3_v AND NOT 0xFFF) + 4 * pd_index va) = Some 0"
  shows "walk_page_tables_32bit m cr3_v va = Some Not_Present"
  unfolding walk_page_tables_32bit_def Let_def using assms by simp

text \<open>What the built tables hold: entries 0 and 512 of the directory, and two full tables.\<close>

lemma setup_page_tables_contents:
  assumes "setup_page_tables ctx = Some (r, ctx')" and "\<not> mem_size ctx \<le> 0x103000"
    and "i < 1024"
  defines "m \<equiv> guest_mem ctx'"
  shows "load32 m (0x100000 + 4 * i) =
      Some (if i = 0 then 0x101003 else if i = 512 then 0x102003 else 0)"
    and "load32 m (0x101000 + 4 * i) = Some (push_bit 12 (word_of_nat i) OR 3)"
    and "load32 m (0x102000 + 4 * i) = Some (push_bit 12 (word_of_nat i) OR 3)"
proof -
  obtain m1 m2 m3 m4 m5 m6 m7 where
    steps: "gm_fill (guest_mem ctx) 0x100000 0 4096 = Some m1" "gm_fill m1 0x101000 0 4096 = Some m2"
      "gm_fill m2 0x102000 0 4096 = Some m3" "store32 m3 0x100000 0x101003 = Some m4"
      "store32 m4 (0x100000 + 2048) 0x102003 = Some m5"
      "store32_table 0x101000 (\<lambda>i. push_bit 12 (word_of_nat i) OR 3) 1024 m5 = Some m6"
      "store32_table 0x102000 (\<lambda>i. push_bit 12 (word_of_nat i) OR 3) 1024 m6 = Some m7"
    and m: "m = m7"
    using assms(1,2) unfolding m_def setup_page_tables_def page_offsets
    by (auto simp: bind_eq_Some_conv)
  show "load32 m (0x102000 + 4 * i) = Some (push_bit 12 (word_of_nat i) OR 3)"
    unfolding m by (rule store32_table_entry[OF steps(7) assms(3)])
  have "load32 m7 (0x101000 + 4 * i) = load32 m6 (0x101000 + 4 * i)"
    by (rule load32_table_other[OF steps(7)]) (use assms(3) in simp)
  then show "load32 m (0x101000 + 4 * i) = Some (push_bit 12 (word_of_nat i) OR 3)"
    unfolding m using store32_table_entry[OF steps(6) assms(3)] by simp
  have "load32 m7 (0x100000 + 4 * i) = load32 m6 (0x100000 + 4 * i)"
    by (rule load32_table_other[OF steps(7)]) (use assms(3) in simp)
  also have "\<dots> = load32 m5 (0x100000 + 4 * i)"
    by (rule load32_table_other[OF steps(6)]) (use assms(3) in simp)
  also have "\<dots> = Some (if i = 0 then 0x101003 else if i = 512 then 0x102003 else 0)"
  proof (cases "i = 512")
    case True
    then show ?thesis using load32_store32[OF steps(5)] by simp
  next
    case False
    then have "load32 m5 (0x100000 + 4 * i) = load32 m4 (0x100000 + 4 * i)"
      by (intro load32_store32_other[OF steps(5)]) linarith
    moreover have "load32 m4 (0x100000 + 4 * i) = Some (if i = 0 then 0x101003 else 0)"
    proof (cases "i = 0")
      case True
      then show ?thesis using load32_store32[OF steps(4)] by simp
    next
      case False
      then have "load32 m4 (0x100000 + 4 * i) = load32 m3 (0x100000 + 4 * i)"
        by (intro load32_store32_other[OF steps(4)]) linarith
      also have "\<dots> = load32 m2 (0x100000 + 4 * i)"
        by (rule load32_fill_other[OF steps(3)]) (use assms(3) in simp)
      also have "\<dots> = load32 m1 (0x100000 + 4 * i)"
        by (rule load32_fill_other[OF steps(2)]) (use assms(3) in simp)
      also have "\<dots> = Some 0" by (rule load32_fill0[OF steps(1)]) (use assms(3) in simp_all)
      finally show ?thesis using False by simp
    qed
    ultimately show ?thesis using False by simp
  qed
  finally show "load32 m (0x100000 + 4 * i) =
      Some (if i = 0 then 0x101003 else if i = 512 then 0x102003 else 0)" unfolding m .
qed

lemma setup_page_tables_frame:
  assumes "setup_page_tables ctx = Some (r, ctx')"
    and "b + n \<le> 0x100000 \<or> 0x103000 \<le> b"
  shows "gm_read (guest_mem ctx') b n = gm_read (guest_mem ctx) b n"
proof (cases "mem_size ctx \<le> 0x103000")
  case True
  then show ?thesis using assms(1) by (simp add: setup_page_tables_def page_offsets)
next
  case False
  obtain m1 m2 m3 m4 m5 m6 m7 where
    steps: "gm_fill (guest_mem ctx) 0x100000 0 4096 = Some m1" "gm_fill m1 0x101000 0 4096 = Some m2"
      "gm_fill m2 0x102000 0 4096 = Some m3" "store32 m3 0x100000 0x101003 = Some m4"
      "store32 m4 (0x100000 + 2048) 0x102003 = Some m5"
      "store32_table 0x101000 (\<lambda>i. push_bit 12 (word_of_nat i) OR 3) 1024 m5 = Some m6"
      "store32_table 0x102000 (\<lambda>i. push_bit 12 (word_of_nat i) OR 3) 1024 m6 = Some m7"
    and m: "guest_mem ctx' = m7"
    using assms(1) False unfolding setup_page_tables_def page_offsets
    by (auto simp: bind_eq_Some_conv)
  have "gm_read m1 b n = gm_read (guest_mem ctx) b n"
    by (rule gm_fill_frame[OF steps(1)]) (use assms(2) in auto)
  moreover have "gm_read m2 b n = gm_read m1 b n"
    by (rule gm_fill_frame[OF steps(2)]) (use assms(2) in auto)
  moreover have "gm_read m3 b n = gm_read m2 b n"
    by (rule gm_fill_frame[OF steps(3)]) (use assms(2) in auto)
  moreover have "gm_read m4 b n = gm_read m3 b n"
    by (rule store_frame(2)[OF steps(4)]) (use assms(2) in auto)
  moreover have "gm_read m5 b n = gm_read m4 b n"
    by (rule store_frame(2)[OF steps(5)]) (use assms(2) in auto)
  moreover have "gm_read m6 b n = gm_read m5 b n"
    by (rule store32_table_frame[OF steps(6)]) (use assms(2) in auto)
  moreover have "gm_read m7 b n = gm_read m6 b n"
    by (rule store32_table_frame[OF steps(7)]) (use assms(2) in auto)
  ultimately show ?thesis unfolding m by simp
qed

lemma setup_page_tables_defined:
  assumes "gm_size (guest_mem ctx) = mem_size ctx"
  shows "\<exists>r ctx'. setup_page_tables ctx = Some (r, ctx')"
proof (cases "mem_size ctx \<le> 0x103000")
  case True
  then show ?thesis by (simp add: setup_page_tables_def page_offsets)
next
  case False
  let ?m = "guest_mem ctx"
  have sz: "0x103000 \<le> gm_size ?m" using False assms by simp
  obtain m1 where 1: "gm_fill ?m 0x100000 0 4096 = Some m1" "gm_size m1 = gm_size ?m"
    using store_defined(3)[of "0x100000" 4096 ?m 0] sz by auto
  obtain m2 where 2: "gm_fill m1 0x101000 0 4096 = Some m2" "gm_size m2 = gm_size ?m"
    using store_defined(3)[of "0x101000" 4096 m1 0] sz 1 by auto
  obtain m3 where 3: "gm_fill m2 0x102000 0 4096 = Some m3" "gm_size m3 = gm_size ?m"
    using store_defined(3)[of "0x102000" 4096 m2 0] sz 2 by auto
  obtain m4 where 4: "store32 m3 0x100000 0x101003 = Some m4" "gm_size m4 = gm_size ?m"
    using store_defined(1)[of "0x100000" m3] sz 3 by auto
  obtain m5 where 5: "store32 m4 0x100800 0x102003 = Some m5" "gm_size m5 = gm_size ?m"
    using store_defined(1)[of "0x100800" m4] sz 4 by auto
  let ?f = "\<lambda>i. push_bit 12 (word_of_nat i) OR 3 :: u32"
  obtain m6 where 6: "store32_table 0x101000 ?f 1024 m5 = Some m6" "gm_size m6 = gm_size ?m"
    using table_defined(1)[of "0x101000" 1024 m5 ?f] sz 5 by auto
  obtain m7 where 7: "store32_table 0x102000 ?f 1024 m6 = Some m7"
    using table_defined(1)[of "0x102000" 1024 m6 ?f] sz 6 by auto
  show ?thesis
    using False 1(1) 2(1) 3(1) 4(1) 5(1) 6(1) 7
    by (simp add: setup_page_tables_def page_offsets)
qed

lemma take22_low: "unat va < 0x400000 \<Longrightarrow> take_bit 22 va = (va :: u32)"
  by (rule word_unat_eq_iff[THEN iffD2]) (simp add: unat_take22)

lemma take22_high:
  fixes va :: u32
  assumes "0x80000000 \<le> unat va" and "unat va < 0x80400000"
  shows "take_bit 22 va = va - 0x80000000"
proof -
  have "unat (va - 0x80000000) = unat va - 0x80000000"
    using assms(1) by (simp add: unat_sub word_le_nat_alt)
  moreover have "unat va mod 2 ^ 22 = unat va - 0x80000000"
  proof -
    obtain k where "unat va = 0x80000000 + k" using assms(1) le_Suc_ex by blast
    then have "unat va = k + 512 * 2 ^ 22" "k < 2 ^ 22" using assms(2) by simp_all
    then show ?thesis by (simp only: mod_mult_self1 mod_less) simp
  qed
  ultimately show ?thesis by (simp only: word_unat_eq_iff unat_take22)
qed

lemma boot_tables_walk:
  assumes "setup_page_tables ctx = Some (r, ctx')" and "0 \<le> r"
  shows "walk_page_tables_32bit (guest_mem ctx') (word_of_int r) va =
    Some (if va < 0x400000 then Physical va
          else if 0x80000000 \<le> va \<and> va < 0x80400000 then Physical (va - 0x80000000)
          else Not_Present)"
proof -
  have r: "\<not> mem_size ctx \<le> 0x103000" "word_of_int r = (0x100000 :: u32)"
    using assms by (auto simp: setup_page_tables_def page_offsets bind_eq_Some_conv split: if_splits)
  have cr3: "(0x100000 :: u32) AND NOT 0xFFF = 0x100000" by simp
  let ?walk = "walk_page_tables_32bit (guest_mem ctx') 0x100000 va"
  note contents = setup_page_tables_contents[OF assms(1) r(1)]
  have tab: "push_bit 12 (word_of_nat (pt_index va)) OR (va AND 0xFFF) = take_bit 22 va"
    using page_join[of va] by (simp add: pt_index_def)
  have low: "?walk = Some (Physical (take_bit 22 va))" if "pd_index va = 0"
    using walk_mapped[of "guest_mem ctx'" "0x100000" va "0x101000" 3
        "push_bit 12 (word_of_nat (pt_index va))" 3]
      contents(1)[OF pd_index_less[of va]] contents(2)[OF pt_index_less[of va]] that cr3
    by (simp add: page_shift_aligned tab)
  have high: "?walk = Some (Physical (take_bit 22 va))" if "pd_index va = 512"
    using walk_mapped[of "guest_mem ctx'" "0x100000" va "0x102000" 3
        "push_bit 12 (word_of_nat (pt_index va))" 3]
      contents(1)[OF pd_index_less[of va]] contents(3)[OF pt_index_less[of va]] that cr3
    by (simp add: page_shift_aligned tab)
  have none: "?walk = Some Not_Present" if "pd_index va \<noteq> 0" "pd_index va \<noteq> 512"
    using walk_absent[of "guest_mem ctx'" "0x100000" va] contents(1)[OF pd_index_less[of va]] that cr3
    by simp
  have split: "pd_index va = 0 \<longleftrightarrow> unat va < 0x400000"
    "pd_index va = 512 \<longleftrightarrow> 0x80000000 \<le> unat va \<and> unat va < 0x80400000"
    unfolding pd_index_eq by auto
  note val = take22_low and val' = take22_high
  have le: "va < 0x400000 \<longleftrightarrow> unat va < 0x400000"
    "0x80000000 \<le> va \<longleftrightarrow> 0x80000000 \<le> unat va" "va < 0x80400000 \<longleftrightarrow> unat va < 0x80400000"
    by (simp_all add: word_less_nat_alt word_le_nat_alt)
  consider "unat va < 0x400000" | "0x80000000 \<le> unat va \<and> unat va < 0x80400000"
    | "\<not> unat va < 0x400000" "\<not> (0x80000000 \<le> unat va \<and> unat va < 0x80400000)" by blast
  then show ?thesis
  proof cases
    case 1
    then show ?thesis using low split(1) val unfolding le r(2) by simp
  next
    case 2
    then show ?thesis using high split(2) val' unfolding le r(2) by simp
  next
    case 3
    then show ?thesis using none split unfolding le r(2) by simp
  qed
qed

text \<open>The two mapped ranges, by offset.\<close>

lemma boot_tables_kernel:
  assumes "setup_page_tables ctx = Some (r, ctx')" and "0 \<le> r" and "va < (0x400000 :: u32)"
  shows "walk_page_tables_32bit (guest_mem ctx') (word_of_int r) va = Some (Physical va)"
    and "walk_page_tables_32bit (guest_mem ctx') (word_of_int r) (va + 0x80000000) = Some (Physical va)"
proof -
  show "walk_page_tables_32bit (guest_mem ctx') (word_of_int r) va = Some (Physical va)"
    using boot_tables_walk[OF assms(1,2), of va] assms(3) by simp
  have "unat va < 0x400000" using assms(3) by (simp add: word_less_nat_alt)
  then have u: "unat (va + 0x80000000) = unat va + 0x80000000" by (simp add: unat_word_ariths)
  have "\<not> va + 0x80000000 < 0x400000" "0x80000000 \<le> va + 0x80000000" "va + 0x80000000 < 0x80400000"
    using \<open>unat va < 0x400000\<close> by (simp_all add: word_less_nat_alt word_le_nat_alt u)
  then show "walk_page_tables_32bit (guest_mem ctx') (word_of_int r) (va + 0x80000000) =
      Some (Physical va)"
    using boot_tables_walk[OF assms(1,2), of "va + 0x80000000"] by simp
qed

text \<open>
  C9: After \<^verbatim>\<open>setup_page_tables\<close> succeeds, the walk from the returned CR3 translates every 32-bit
  address: the low 4 MB map to themselves, 0x80000000-0x803FFFFF to the same low 4 MB, and every
  other address is not present.
\<close>

theorem boot_page_tables_translate:
  assumes "setup_page_tables ctx = Some (r, ctx')" and "0 \<le> r"
  shows "walk_page_tables_32bit (guest_mem ctx') (word_of_int r) va =
    Some (if va < 0x400000 then Physical va
          else if 0x80000000 \<le> va \<and> va < 0x80400000 then Physical (va - 0x80000000)
          else Not_Present)"
  by (rule boot_tables_walk[OF assms])

section \<open>A worked instance\<close>

text \<open>The zeroed 4 MB mapping of a paging guest.\<close>

definition boot_ctx :: vcpu_context where
  "boot_ctx = zero_context\<lparr>mem_size := 0x400000,
     guest_mem := \<lparr>gm_size = 0x400000, gm_data = (\<lambda>_. 0)\<rparr>\<rparr>"

theorem boot_page_tables_translate_witness:
  "\<exists>r ctx'. setup_page_tables boot_ctx = Some (r, ctx') \<and>
     walk_page_tables_32bit (guest_mem ctx') (word_of_int r) 0x80001234 = Some (Physical 0x1234)"
proof -
  obtain r ctx' where run: "setup_page_tables boot_ctx = Some (r, ctx')"
    using setup_page_tables_defined[of boot_ctx] by (auto simp: boot_ctx_def)
  then have "0 \<le> r"
    by (auto simp: setup_page_tables_def page_offsets boot_ctx_def bind_eq_Some_conv)
  from boot_page_tables_translate[OF run this, of "0x80001234"] run show ?thesis by simp
qed

end
