(* ===== verification/Paging64.thy ===== *)
theory Paging64
  imports Guest_Memory
begin

text \<open>
  Four-level long-mode paging (\<^verbatim>\<open>paging_64.c\<close>, constants of \<^verbatim>\<open>long_mode.h\<close>): the identity
  mapping with 2 MB pages, its variant with a mirrored kernel range, and the walk of
  \<^verbatim>\<open>verify_page_tables_64bit\<close>.
\<close>

section \<open>Constants\<close>

definition PTE_PRESENT :: u64 where "PTE_PRESENT = push_bit 0 1"
definition PTE_WRITE :: u64 where "PTE_WRITE = push_bit 1 1"
definition PTE_USER :: u64 where "PTE_USER = push_bit 2 1"
definition PTE_PSE :: u64 where "PTE_PSE = push_bit 7 1"
definition PTE_ADDR_MASK :: u64 where "PTE_ADDR_MASK = 0x000FFFFFFFFFF000"
definition PT_ENTRIES :: nat where "PT_ENTRIES = 512"
definition GUEST_64_PML4_ADDR :: u64 where "GUEST_64_PML4_ADDR = 0x2000"
definition GUEST_64_PDPT_ADDR :: u64 where "GUEST_64_PDPT_ADDR = 0x3000"
definition GUEST_64_PD_ADDR :: u64 where "GUEST_64_PD_ADDR = 0x4000"

lemmas pte_defs = PTE_PRESENT_def PTE_WRITE_def PTE_USER_def PTE_PSE_def PTE_ADDR_MASK_def
lemmas guest64_defs = GUEST_64_PML4_ADDR_def GUEST_64_PDPT_ADDR_def GUEST_64_PD_ADDR_def

definition VA_PML4_INDEX :: "u64 \<Rightarrow> u64" where "VA_PML4_INDEX va = drop_bit 39 va AND 0x1FF"
definition VA_PDPT_INDEX :: "u64 \<Rightarrow> u64" where "VA_PDPT_INDEX va = drop_bit 30 va AND 0x1FF"
definition VA_PD_INDEX :: "u64 \<Rightarrow> u64" where "VA_PD_INDEX va = drop_bit 21 va AND 0x1FF"

section \<open>Building the tables\<close>

text \<open>\<^verbatim>\<open>(mem_size + (2 << 20) - 1) / (2 << 20)\<close> in \<^verbatim>\<open>size_t\<close> arithmetic.\<close>

definition num_pages_2mb :: "u64 \<Rightarrow> u64" where
  "num_pages_2mb mem_sz = (mem_sz + push_bit 20 2 - 1) div push_bit 20 2"

definition pd_entry :: "nat \<Rightarrow> u64" where
  "pd_entry i = (word_of_nat i * push_bit 20 2) OR PTE_PRESENT OR PTE_WRITE OR PTE_USER OR PTE_PSE"

text \<open>The result is the value for CR3.\<close>

definition setup_page_tables_64bit :: "gmem \<Rightarrow> u64 \<Rightarrow> (u64 \<times> gmem) option" where
  "setup_page_tables_64bit m mem_sz =
     do {
       m \<leftarrow> gm_fill m (unat GUEST_64_PML4_ADDR) 0 0x4000;
       m \<leftarrow> store64 m (unat GUEST_64_PML4_ADDR)
              (GUEST_64_PDPT_ADDR OR PTE_PRESENT OR PTE_WRITE OR PTE_USER);
       m \<leftarrow> store64 m (unat GUEST_64_PDPT_ADDR)
              (GUEST_64_PD_ADDR OR PTE_PRESENT OR PTE_WRITE OR PTE_USER);
       m \<leftarrow> store64_table (unat GUEST_64_PD_ADDR) pd_entry
              (min (unat (num_pages_2mb mem_sz)) PT_ENTRIES) m;
       Some (GUEST_64_PML4_ADDR, m)
     }"

definition setup_page_tables_64bit_kernel :: "gmem \<Rightarrow> u64 \<Rightarrow> u64 \<Rightarrow> (u64 \<times> gmem) option" where
  "setup_page_tables_64bit_kernel m mem_sz kernel_virt_base =
     do {
       m \<leftarrow> gm_fill m (unat GUEST_64_PML4_ADDR) 0 0x4000;
       m \<leftarrow> store64 m (unat GUEST_64_PML4_ADDR)
              (GUEST_64_PDPT_ADDR OR PTE_PRESENT OR PTE_WRITE OR PTE_USER);
       m \<leftarrow> store64 m (unat GUEST_64_PDPT_ADDR)
              (GUEST_64_PD_ADDR OR PTE_PRESENT OR PTE_WRITE OR PTE_USER);
       m \<leftarrow> store64_table (unat GUEST_64_PD_ADDR) pd_entry
              (min (unat (num_pages_2mb mem_sz)) PT_ENTRIES) m;
       let pml4_index = VA_PML4_INDEX kernel_virt_base;
       let pdpt_index = VA_PDPT_INDEX kernel_virt_base;
       m \<leftarrow> store64 m (unat GUEST_64_PML4_ADDR + 8 * unat pml4_index)
              (GUEST_64_PDPT_ADDR OR PTE_PRESENT OR PTE_WRITE);
       m \<leftarrow> store64 m (unat GUEST_64_PDPT_ADDR + 8 * unat pdpt_index)
              (GUEST_64_PD_ADDR OR PTE_PRESENT OR PTE_WRITE);
       Some (GUEST_64_PML4_ADDR, m)
     }"

section \<open>The walk\<close>

text \<open>
  The outcome that \<^verbatim>\<open>verify_page_tables_64bit\<close> reports; \<open>None\<close> when an entry lies outside the
  mapping. The walk always starts at \<open>GUEST_64_PML4_ADDR\<close>.
\<close>

datatype walk64_result =
    PML4_Not_Present
  | PDPT_Not_Present
  | PD_Not_Present
  | Page_2M u64
  | Page_4K_Not_Implemented

definition verify_page_tables_64bit :: "gmem \<Rightarrow> u64 \<Rightarrow> walk64_result option" where
  "verify_page_tables_64bit m test_va =
     do {
       let offset = test_va AND 0x1FFFFF;
       pml4e \<leftarrow> load64 m (unat GUEST_64_PML4_ADDR + 8 * unat (VA_PML4_INDEX test_va));
       if pml4e AND PTE_PRESENT = 0 then Some PML4_Not_Present
       else do {
         pdpte \<leftarrow> load64 m (unat (pml4e AND PTE_ADDR_MASK) + 8 * unat (VA_PDPT_INDEX test_va));
         if pdpte AND PTE_PRESENT = 0 then Some PDPT_Not_Present
         else do {
           pde \<leftarrow> load64 m (unat (pdpte AND PTE_ADDR_MASK) + 8 * unat (VA_PD_INDEX test_va));
           if pde AND PTE_PRESENT = 0 then Some PD_Not_Present
           else if pde AND PTE_PSE \<noteq> 0
           then Some (Page_2M ((pde AND NOT 0x1FFFFF) OR offset))
           else Some Page_4K_Not_Implemented
         }
       }
     }"

section \<open>Correctness\<close>

lemma unat_take9: "unat (x AND 0x1FF :: u64) = unat x mod 512"
proof -
  have "x AND 0x1FF = take_bit 9 x" by (simp add: take_bit_eq_mask mask_eq_exp_minus_1)
  then show ?thesis by (simp only: unsigned_take_bit_eq) (simp add: take_bit_eq_mod)
qed

lemma unat_less_2p64: "unat (x :: u64) < 2 ^ 64"
  using unsigned_less[of x] by simp

lemma unat_drop_div64: "unat (drop_bit n x :: u64) = unat x div 2 ^ n"
proof -
  have "take_bit 64 (unat x) = unat x" by (rule take_bit_nat_eq_self[OF unat_less_2p64])
  then show ?thesis by (subst unsigned_drop_bit_eq) (simp add: drop_bit_eq_div)
qed

lemma va_index_less:
  "unat (VA_PML4_INDEX va) < 512" "unat (VA_PDPT_INDEX va) < 512" "unat (VA_PD_INDEX va) < 512"
  by (simp_all add: VA_PML4_INDEX_def VA_PDPT_INDEX_def VA_PD_INDEX_def unat_take9)

text \<open>A 2 MB page entry for the page of an address, as the walk reads it.\<close>

lemma pd_entry_page:
  fixes i :: u64
  assumes "i = drop_bit 21 va AND mask 9"
  shows "((i * push_bit 20 2) OR PTE_PRESENT OR PTE_WRITE OR PTE_USER OR PTE_PSE) AND NOT 0x1FFFFF
           OR (va AND 0x1FFFFF) = take_bit 30 va"
proof -
  have "i * push_bit 20 2 = push_bit 21 i"
    by (simp add: push_bit_eq_mult)
  moreover have "(push_bit 21 i OR 1 OR 2 OR 4 OR 0x80) AND NOT (mask 21) OR (va AND mask 21)
      = take_bit 30 va"
  proof -
    have "(push_bit 21 i OR (1 OR 2 OR 4 OR 0x80)) AND NOT (mask 21) = push_bit 21 i"
    proof -
      have a: "push_bit 21 i AND mask 21 = (0 :: u64)"
        by (rule bit_word_eqI) (simp add: bit_simps)
      have b: "(1 OR 2 OR 4 OR 0x80) AND NOT (mask 21) = (0 :: u64)"
        by (simp add: mask_eq_exp_minus_1)
      have "(p OR f) AND NOT k = p" if "p AND k = 0" "f AND NOT k = 0" for p f k :: u64
        using that by (auto simp: bit_eq_iff bit_simps)
      from this[OF a b] show ?thesis .
    qed
    moreover have "push_bit 21 i OR (va AND mask 21) = take_bit 30 va"
      unfolding assms by (intro bit_word_eqI) (auto simp: bit_simps)
    ultimately show ?thesis by (simp add: or.assoc)
  qed
  moreover have "(0x1FFFFF :: u64) = mask 21" by (simp add: mask_eq_exp_minus_1)
  ultimately show ?thesis by (simp add: pte_defs)
qed

lemma flags_kept: "f AND k = k \<Longrightarrow> (x OR f) AND k = (k :: u64)"
  by (auto simp: bit_eq_iff bit_simps)

lemma pd_entry_flags: "pd_entry i AND PTE_PRESENT \<noteq> 0" "pd_entry i AND PTE_PSE \<noteq> 0"
proof -
  have "pd_entry i AND PTE_PRESENT = PTE_PRESENT" "pd_entry i AND PTE_PSE = PTE_PSE"
    unfolding pd_entry_def by (rule flags_kept; simp add: pte_defs)+
  then show "pd_entry i AND PTE_PRESENT \<noteq> 0" "pd_entry i AND PTE_PSE \<noteq> 0"
    by (simp_all add: pte_defs)
qed

lemma pd_entry_walk:
  "(pd_entry (unat (VA_PD_INDEX va)) AND NOT 0x1FFFFF) OR (va AND 0x1FFFFF) = take_bit 30 va"
proof -
  have "VA_PD_INDEX va = drop_bit 21 va AND mask 9"
    by (simp add: VA_PD_INDEX_def mask_eq_exp_minus_1)
  from pd_entry_page[OF this] show ?thesis by (simp add: pd_entry_def)
qed

text \<open>
  The walk over tables of this shape: every used entry of the two upper levels points to the one
  table of the next level, and the first \<open>n\<close> directory entries are 2 MB pages.
\<close>

definition tables64 :: "gmem \<Rightarrow> (nat \<Rightarrow> u64) \<Rightarrow> (nat \<Rightarrow> u64) \<Rightarrow> nat \<Rightarrow> bool" where
  "tables64 m p4 p3 n \<longleftrightarrow>
     (\<forall>i<512. load64 m (0x2000 + 8 * i) = Some (p4 i) \<and> load64 m (0x3000 + 8 * i) = Some (p3 i) \<and>
        load64 m (0x4000 + 8 * i) = Some (if i < n then pd_entry i else 0) \<and>
        p4 i \<in> {0, 0x3003, 0x3007} \<and> p3 i \<in> {0, 0x4003, 0x4007})"

lemma walk_tables64:
  assumes "tables64 m p4 p3 n"
  shows "verify_page_tables_64bit m va =
    Some (if p4 (unat (VA_PML4_INDEX va)) = 0 then PML4_Not_Present
          else if p3 (unat (VA_PDPT_INDEX va)) = 0 then PDPT_Not_Present
          else if unat (VA_PD_INDEX va) < n then Page_2M (take_bit 30 va)
          else PD_Not_Present)"
proof -
  let ?i = "unat (VA_PML4_INDEX va)" and ?j = "unat (VA_PDPT_INDEX va)" and ?k = "unat (VA_PD_INDEX va)"
  have l: "load64 m (unat GUEST_64_PML4_ADDR + 8 * ?i) = Some (p4 ?i)"
    "load64 m (0x3000 + 8 * ?j) = Some (p3 ?j)"
    "load64 m (0x4000 + 8 * ?k) = Some (if ?k < n then pd_entry ?k else 0)"
    "p4 ?i \<in> {0, 0x3003, 0x3007}" "p3 ?j \<in> {0, 0x4003, 0x4007}"
    using assms va_index_less[of va] by (simp_all add: tables64_def GUEST_64_PML4_ADDR_def)
  have p4: "p4 ?i AND PTE_PRESENT = 0 \<longleftrightarrow> p4 ?i = 0"
    "p4 ?i \<noteq> 0 \<Longrightarrow> unat (p4 ?i AND PTE_ADDR_MASK) = 0x3000"
    and p3: "p3 ?j AND PTE_PRESENT = 0 \<longleftrightarrow> p3 ?j = 0"
    "p3 ?j \<noteq> 0 \<Longrightarrow> unat (p3 ?j AND PTE_ADDR_MASK) = 0x4000"
    using l(4,5) by (auto simp: pte_defs)
  show ?thesis
    unfolding verify_page_tables_64bit_def
    using l(1-3) p4 p3 pd_entry_flags pd_entry_walk[of va] by (simp add: Let_def)
qed

lemma setup64_contents:
  assumes "gm_fill m (unat GUEST_64_PML4_ADDR) 0 0x4000 = Some m1"
    and "store64 m1 (unat GUEST_64_PML4_ADDR)
           (GUEST_64_PDPT_ADDR OR PTE_PRESENT OR PTE_WRITE OR PTE_USER) = Some m2"
    and "store64 m2 (unat GUEST_64_PDPT_ADDR)
           (GUEST_64_PD_ADDR OR PTE_PRESENT OR PTE_WRITE OR PTE_USER) = Some m3"
    and "store64_table (unat GUEST_64_PD_ADDR) pd_entry (min n PT_ENTRIES) m3 = Some m4"
  shows "tables64 m4 (\<lambda>i. if i = 0 then 0x3007 else 0) (\<lambda>i. if i = 0 then 0x4007 else 0) (min n 512)"
proof -
  have s: "gm_fill m 0x2000 0 0x4000 = Some m1" "store64 m1 0x2000 0x3007 = Some m2"
    "store64 m2 0x3000 0x4007 = Some m3" "store64_table 0x4000 pd_entry (min n 512) m3 = Some m4"
    using assms by (simp_all add: guest64_defs pte_defs PT_ENTRIES_def)
  have zero: "load64 m1 b = Some 0" if "0x2000 \<le> b" "b + 8 \<le> 0x6000" for b
    by (rule load64_fill0[OF s(1)]) (use that in simp_all)
  have m2: "load64 m2 b = (if b = 0x2000 then Some 0x3007 else Some 0)"
    if "0x2000 \<le> b" "b + 8 \<le> 0x6000" "b = 0x2000 \<or> 0x2008 \<le> b" for b
    using that zero load64_store64[OF s(2)] load64_store64_other[OF s(2), of b] by auto
  have m3: "load64 m3 b = (if b = 0x3000 then Some 0x4007 else load64 m2 b)"
    if "b = 0x3000 \<or> b + 8 \<le> 0x3000 \<or> 0x3008 \<le> b" for b
    using that load64_store64[OF s(3)] load64_store64_other[OF s(3), of b] by auto
  have m4: "load64 m4 b = load64 m3 b" if "b + 8 \<le> 0x4000 \<or> 0x4000 + 8 * min n 512 \<le> b" for b
    by (rule load64_table_other[OF s(4)]) (use that in simp)
  show ?thesis
    unfolding tables64_def
  proof (intro allI impI conjI)
    fix i :: nat assume i: "i < 512"
    show "load64 m4 (0x2000 + 8 * i) = Some (if i = 0 then 0x3007 else 0)"
      using i m4[of "0x2000 + 8 * i"] m3[of "0x2000 + 8 * i"] m2[of "0x2000 + 8 * i"]
      by (cases i) simp_all
    show "load64 m4 (0x3000 + 8 * i) = Some (if i = 0 then 0x4007 else 0)"
      using i m4[of "0x3000 + 8 * i"] m3[of "0x3000 + 8 * i"] m2[of "0x3000 + 8 * i"]
      by (cases i) simp_all
    show "load64 m4 (0x4000 + 8 * i) = Some (if i < min n 512 then pd_entry i else 0)"
    proof (cases "i < min n 512")
      case True
      then show ?thesis using store64_table_entry[OF s(4) True] by simp
    next
      case False
      then show ?thesis
        using i m4[of "0x4000 + 8 * i"] m3[of "0x4000 + 8 * i"] m2[of "0x4000 + 8 * i"] by simp
    qed
  qed simp_all
qed

text \<open>The number of pages is the guest memory rounded up to 2 MB.\<close>

lemma num_pages_2mb_eq:
  assumes "unat n + 0x1FFFFF < 2 ^ 64"
  shows "unat (num_pages_2mb n) = (unat n + 0x1FFFFF) div 0x200000"
proof -
  have two: "push_bit 20 2 = (0x200000 :: u64)" by simp
  have "n + 0x200000 - 1 = n + 0x1FFFFF" by simp
  moreover have "unat (n + 0x1FFFFF) = unat n + 0x1FFFFF"
    using assms by (simp add: unat_word_ariths)
  moreover have "unat (0x200000 :: u64) = 0x200000" by simp
  ultimately show ?thesis unfolding num_pages_2mb_def two unat_div by (simp only:)
qed

lemma va_indices:
  "unat (VA_PML4_INDEX va) = unat va div 2 ^ 39 mod 512"
  "unat (VA_PDPT_INDEX va) = unat va div 2 ^ 30 mod 512"
  "unat (VA_PD_INDEX va) = unat va div 2 ^ 21 mod 512"
  unfolding VA_PML4_INDEX_def VA_PDPT_INDEX_def VA_PD_INDEX_def unat_take9 unat_drop_div64 by simp_all

lemma low_1g:
  assumes "unat va < 2 ^ 30"
  shows "unat (VA_PML4_INDEX va) = 0" "unat (VA_PDPT_INDEX va) = 0"
    "unat (VA_PD_INDEX va) = unat va div 2 ^ 21" "take_bit 30 va = va"
proof -
  show "unat (VA_PML4_INDEX va) = 0" "unat (VA_PDPT_INDEX va) = 0"
    using assms by (simp_all add: va_indices)
  have "unat va div 2 ^ 21 < 512" using assms by simp
  then show "unat (VA_PD_INDEX va) = unat va div 2 ^ 21" by (simp add: va_indices)
  show "take_bit 30 va = va"
    using assms by (simp only: word_unat_eq_iff unsigned_take_bit_eq) (simp add: take_bit_eq_mod)
qed

lemma upper_indices:
  assumes "unat va < 2 ^ 48" and "unat (VA_PML4_INDEX va) = 0" and "unat (VA_PDPT_INDEX va) = 0"
  shows "unat va < 2 ^ 30"
proof -
  have "unat va div 2 ^ 39 < 512" using assms(1) by simp
  then have "unat va div 2 ^ 39 = 0" using assms(2) by (simp add: va_indices)
  then have "unat va < 2 ^ 39" by simp
  then have "unat va div 2 ^ 30 < 512" by simp
  then have "unat va div 2 ^ 30 = 0" using assms(3) by (simp add: va_indices)
  then show ?thesis by simp
qed

text \<open>
  C20: The long-mode tables map every address of the guest memory below 1 GB to itself, and an
  address of the 48-bit space from the next 2 MB boundary on is not present at the directory, the
  pointer table or the top level.
\<close>

theorem longmode_identity_map:
  assumes "setup_page_tables_64bit m mem_sz = Some (cr3_v, m')" and "unat mem_sz \<le> 2 ^ 48"
    and "unat va < 2 ^ 48"
  shows "(unat va < unat mem_sz \<and> unat va < 2 ^ 30 \<longrightarrow>
            verify_page_tables_64bit m' va = Some (Page_2M va)) \<and>
         ((unat mem_sz + 0x1FFFFF) div 0x200000 * 0x200000 \<le> unat va \<longrightarrow>
            verify_page_tables_64bit m' va
              \<in> {Some PML4_Not_Present, Some PDPT_Not_Present, Some PD_Not_Present})"
proof -
  let ?n = "unat (num_pages_2mb mem_sz)"
  obtain m1 m2 m3 where "gm_fill m (unat GUEST_64_PML4_ADDR) 0 0x4000 = Some m1"
    "store64 m1 (unat GUEST_64_PML4_ADDR)
       (GUEST_64_PDPT_ADDR OR PTE_PRESENT OR PTE_WRITE OR PTE_USER) = Some m2"
    "store64 m2 (unat GUEST_64_PDPT_ADDR)
       (GUEST_64_PD_ADDR OR PTE_PRESENT OR PTE_WRITE OR PTE_USER) = Some m3"
    "store64_table (unat GUEST_64_PD_ADDR) pd_entry (min ?n PT_ENTRIES) m3 = Some m'"
    using assms(1) unfolding setup_page_tables_64bit_def by (auto simp: bind_eq_Some_conv)
  note walk = walk_tables64[OF setup64_contents[OF this], of va]
  have n: "?n = (unat mem_sz + 0x1FFFFF) div 0x200000"
    by (rule num_pages_2mb_eq) (use assms(2) in simp)
  have "verify_page_tables_64bit m' va = Some (Page_2M va)"
    if "unat va < unat mem_sz" "unat va < 2 ^ 30"
  proof -
    have "unat va div 2 ^ 21 < ?n" "unat va div 2 ^ 21 < 512"
      unfolding n using that by (simp_all add: div_less_iff_less_mult less_mult_imp_div_less)
    then show ?thesis unfolding walk using low_1g[OF that(2)] by simp
  qed
  moreover have "\<not> (unat (VA_PML4_INDEX va) = 0 \<and> unat (VA_PDPT_INDEX va) = 0 \<and>
      unat (VA_PD_INDEX va) < min ?n 512)" if "(unat mem_sz + 0x1FFFFF) div 0x200000 * 0x200000 \<le> unat va"
  proof -
    have "?n \<le> unat va div 2 ^ 21"
      using div_le_mono[OF that, of "2 ^ 21"] n by simp
    then show ?thesis using low_1g(3)[OF upper_indices[OF assms(3)]] by auto
  qed
  ultimately show ?thesis unfolding walk by auto
qed

section \<open>The kernel range\<close>

lemma tables64_upper:
  assumes "tables64 m p4 p3 n" and "store64 m (0x2000 + 8 * k) 0x3003 = Some m'" and "k < 512"
  shows "tables64 m' (p4(k := 0x3003)) p3 n"
proof -
  have "load64 m' (0x2000 + 8 * i) = (if i = k then Some 0x3003 else load64 m (0x2000 + 8 * i))"
    for i
  proof (cases "i = k")
    case False
    then have "0x2000 + 8 * k + 8 \<le> 0x2000 + 8 * i \<or> 0x2000 + 8 * i + 8 \<le> 0x2000 + 8 * k"
      by linarith
    from load64_store64_other[OF assms(2) this] False show ?thesis by simp
  qed (use load64_store64[OF assms(2)] in simp)
  moreover have "load64 m' b = load64 m b" if "0x3000 \<le> b" for b
    by (rule load64_store64_other[OF assms(2)]) (use that assms(3) in simp)
  ultimately show ?thesis using assms(1) by (auto simp: tables64_def)
qed

lemma tables64_pointer:
  assumes "tables64 m p4 p3 n" and "store64 m (0x3000 + 8 * k) 0x4003 = Some m'" and "k < 512"
  shows "tables64 m' p4 (p3(k := 0x4003)) n"
proof -
  have "load64 m' (0x3000 + 8 * i) = (if i = k then Some 0x4003 else load64 m (0x3000 + 8 * i))"
    for i
  proof (cases "i = k")
    case False
    then have "0x3000 + 8 * k + 8 \<le> 0x3000 + 8 * i \<or> 0x3000 + 8 * i + 8 \<le> 0x3000 + 8 * k"
      by linarith
    from load64_store64_other[OF assms(2) this] False show ?thesis by simp
  qed (use load64_store64[OF assms(2)] in simp)
  moreover have "load64 m' b = load64 m b" if "b + 8 \<le> 0x3000 \<or> 0x4000 \<le> b" for b
    by (rule load64_store64_other[OF assms(2)]) (use that assms(3) in auto)
  ultimately show ?thesis using assms(1) by (auto simp: tables64_def)
qed

lemma kernel_range:
  fixes base off :: u64
  assumes "take_bit 30 base = 0" and "unat off < 2 ^ 30"
  shows "unat (base + off) = unat base + unat off"
    and "VA_PML4_INDEX (base + off) = VA_PML4_INDEX base"
    and "VA_PDPT_INDEX (base + off) = VA_PDPT_INDEX base"
    and "unat (VA_PD_INDEX (base + off)) = unat off div 2 ^ 21"
    and "take_bit 30 (base + off) = off"
proof -
  have "unat base mod 2 ^ 30 = 0"
    using assms(1) by (simp only: word_unat_eq_iff unsigned_take_bit_eq) (simp add: take_bit_eq_mod)
  then obtain k where k: "unat base = k * 2 ^ 30" by (metis mod_0_imp_dvd dvd_def mult.commute)
  have "k * 2 ^ 30 < 2 ^ 64" using unat_less_2p64[of base] k by simp
  then have "k < 2 ^ 34" by simp
  then have "k * 2 ^ 30 + unat off < 2 ^ 64" using assms(2) by simp
  then show sum: "unat (base + off) = unat base + unat off"
    using k by (simp add: unat_word_ariths)
  have div30: "(k * 2 ^ 30 + unat off) div 2 ^ 30 = k" using assms(2) by simp
  have div39: "(k * 2 ^ 30 + unat off) div 2 ^ 39 = k div 2 ^ 9"
    using div30 div_mult2_eq[of "k * 2 ^ 30 + unat off" "2 ^ 30" "2 ^ 9"] by simp
  have base39: "k * 2 ^ 30 div 2 ^ 39 = k div 2 ^ 9"
    using div_mult2_eq[of "k * 2 ^ 30" "2 ^ 30" "2 ^ 9"] by simp
  show "VA_PML4_INDEX (base + off) = VA_PML4_INDEX base"
    unfolding word_unat_eq_iff va_indices sum k div39 base39 ..
  have "k * 2 ^ 30 div 2 ^ 30 = k" by simp
  then show "VA_PDPT_INDEX (base + off) = VA_PDPT_INDEX base"
    unfolding word_unat_eq_iff va_indices sum k div30 by simp
  have "(k * 2 ^ 30 + unat off) div 2 ^ 21 mod 512 = unat off div 2 ^ 21"
  proof -
    have "k * 2 ^ 30 + unat off = unat off + 2 ^ 21 * (512 * k)" by simp
    then have "(k * 2 ^ 30 + unat off) div 2 ^ 21 = 512 * k + unat off div 2 ^ 21"
      by (simp only: div_mult_self2) simp
    moreover have "unat off div 2 ^ 21 < 512" using assms(2) by simp
    ultimately show ?thesis by simp
  qed
  then show "unat (VA_PD_INDEX (base + off)) = unat off div 2 ^ 21"
    unfolding va_indices sum k .
  have "(k * 2 ^ 30 + unat off) mod 2 ^ 30 = unat off" using assms(2) by simp
  then show "take_bit 30 (base + off) = off"
    by (simp only: word_unat_eq_iff unsigned_take_bit_eq sum k) (simp add: take_bit_eq_mod)
qed

text \<open>
  The kernel tables mirror the guest memory at a kernel base aligned to 1 GB: base plus an
  offset inside the guest memory below 1 GB translates to the offset, and the offset itself still
  translates to itself.
\<close>

theorem kernel_tables_mirror:
  assumes "setup_page_tables_64bit_kernel m mem_sz base = Some (cr3_v, m')"
    and "take_bit 30 base = 0" and "unat mem_sz \<le> 2 ^ 48"
    and "unat off < unat mem_sz" and "unat off < 2 ^ 30"
  shows "verify_page_tables_64bit m' (base + off) = Some (Page_2M off) \<and>
         verify_page_tables_64bit m' off = Some (Page_2M off)"
proof -
  let ?n = "unat (num_pages_2mb mem_sz)"
  obtain m1 m2 m3 m4 m5 where s: "gm_fill m (unat GUEST_64_PML4_ADDR) 0 0x4000 = Some m1"
    "store64 m1 (unat GUEST_64_PML4_ADDR)
       (GUEST_64_PDPT_ADDR OR PTE_PRESENT OR PTE_WRITE OR PTE_USER) = Some m2"
    "store64 m2 (unat GUEST_64_PDPT_ADDR)
       (GUEST_64_PD_ADDR OR PTE_PRESENT OR PTE_WRITE OR PTE_USER) = Some m3"
    "store64_table (unat GUEST_64_PD_ADDR) pd_entry (min ?n PT_ENTRIES) m3 = Some m4"
    and t: "store64 m4 (unat GUEST_64_PML4_ADDR + 8 * unat (VA_PML4_INDEX base))
       (GUEST_64_PDPT_ADDR OR PTE_PRESENT OR PTE_WRITE) = Some m5"
    "store64 m5 (unat GUEST_64_PDPT_ADDR + 8 * unat (VA_PDPT_INDEX base))
       (GUEST_64_PD_ADDR OR PTE_PRESENT OR PTE_WRITE) = Some m'"
    using assms(1) unfolding setup_page_tables_64bit_kernel_def Let_def
    by (auto simp: bind_eq_Some_conv)
  have t': "store64 m4 (0x2000 + 8 * unat (VA_PML4_INDEX base)) 0x3003 = Some m5"
    "store64 m5 (0x3000 + 8 * unat (VA_PDPT_INDEX base)) 0x4003 = Some m'"
    using t by (simp_all add: guest64_defs pte_defs)
  note walk = walk_tables64[OF tables64_pointer[OF tables64_upper[OF setup64_contents[OF s] t'(1)
      va_index_less(1)] t'(2) va_index_less(2)]]
  have n: "?n = (unat mem_sz + 0x1FFFFF) div 0x200000"
    by (rule num_pages_2mb_eq) (use assms(3) in simp)
  have pd: "unat off div 2 ^ 21 < min ?n 512"
    unfolding n using assms(4,5) by (simp add: div_less_iff_less_mult less_mult_imp_div_less)
  have "verify_page_tables_64bit m' (base + off) = Some (Page_2M off)"
    unfolding walk using kernel_range[OF assms(2,5)] pd by simp
  moreover have "verify_page_tables_64bit m' off = Some (Page_2M off)"
    unfolding walk using low_1g[OF assms(5)] pd by simp
  ultimately show ?thesis by simp
qed

section \<open>The builders stay inside the mapping\<close>

lemma paging64_defined:
  assumes "0x6000 \<le> gm_size m"
  shows "\<exists>c m'. setup_page_tables_64bit m n = Some (c, m') \<and> gm_size m' = gm_size m"
proof -
  obtain m1 where 1: "gm_fill m (unat GUEST_64_PML4_ADDR) 0 0x4000 = Some m1" "gm_size m1 = gm_size m"
    using store_defined(3)[of "unat GUEST_64_PML4_ADDR" "0x4000" m 0] assms by (auto simp: guest64_defs)
  obtain m2 where 2: "store64 m1 (unat GUEST_64_PML4_ADDR)
       (GUEST_64_PDPT_ADDR OR PTE_PRESENT OR PTE_WRITE OR PTE_USER) = Some m2" "gm_size m2 = gm_size m"
    using store_defined(2)[of "unat GUEST_64_PML4_ADDR" m1] assms 1(2) by (auto simp: guest64_defs)
  obtain m3 where 3: "store64 m2 (unat GUEST_64_PDPT_ADDR)
       (GUEST_64_PD_ADDR OR PTE_PRESENT OR PTE_WRITE OR PTE_USER) = Some m3" "gm_size m3 = gm_size m"
    using store_defined(2)[of "unat GUEST_64_PDPT_ADDR" m2] assms 2(2) by (auto simp: guest64_defs)
  have "unat GUEST_64_PD_ADDR + 8 * min (unat (num_pages_2mb n)) PT_ENTRIES \<le> gm_size m3"
    using assms 3(2) by (simp add: guest64_defs PT_ENTRIES_def)
  from table_defined(2)[OF this, of pd_entry] 3(2) show ?thesis
    unfolding setup_page_tables_64bit_def by (auto simp: 1(1) 2(1) 3(1))
qed

lemma kernel_paging64_defined:
  assumes "0x6000 \<le> gm_size m"
  shows "\<exists>c m'. setup_page_tables_64bit_kernel m n base = Some (c, m')"
proof -
  obtain c m1 where 1: "setup_page_tables_64bit m n = Some (c, m1)" "gm_size m1 = gm_size m"
    using paging64_defined[OF assms] by blast
  obtain m2 where 2: "store64 m1 (unat GUEST_64_PML4_ADDR + 8 * unat (VA_PML4_INDEX base))
       (GUEST_64_PDPT_ADDR OR PTE_PRESENT OR PTE_WRITE) = Some m2" "gm_size m2 = gm_size m"
    using store_defined(2)[of "unat GUEST_64_PML4_ADDR + 8 * unat (VA_PML4_INDEX base)" m1]
      assms 1(2) va_index_less(1)[of base] by (auto simp: guest64_defs)
  obtain m3 where 3: "store64 m2 (unat GUEST_64_PDPT_ADDR + 8 * unat (VA_PDPT_INDEX base))
       (GUEST_64_PD_ADDR OR PTE_PRESENT OR PTE_WRITE) = Some m3"
    using store_defined(2)[of "unat GUEST_64_PDPT_ADDR + 8 * unat (VA_PDPT_INDEX base)" m2]
      assms 2(2) va_index_less(2)[of base] by (auto simp: guest64_defs)
  show ?thesis
    using 1(1) 2(1) 3
    by (auto simp: setup_page_tables_64bit_kernel_def setup_page_tables_64bit_def bind_eq_Some_conv)
qed

section \<open>Worked instances\<close>

definition longmode_mem :: gmem where
  "longmode_mem = \<lparr>gm_size = 0x400000, gm_data = (\<lambda>_. 0)\<rparr>"

lemma longmode_mem_size: "0x6000 \<le> gm_size longmode_mem"
  by (simp add: longmode_mem_def)

theorem longmode_identity_map_witness:
  "\<exists>c m'. setup_page_tables_64bit longmode_mem 0x400000 = Some (c, m') \<and>
     verify_page_tables_64bit m' 0x3FFFFF = Some (Page_2M 0x3FFFFF) \<and>
     verify_page_tables_64bit m' 0x400000 \<in> {Some PML4_Not_Present, Some PDPT_Not_Present, Some PD_Not_Present}"
proof -
  obtain c m' where run: "setup_page_tables_64bit longmode_mem 0x400000 = Some (c, m')"
    using paging64_defined[OF longmode_mem_size] by blast
  from longmode_identity_map[OF run, of "0x3FFFFF"] longmode_identity_map[OF run, of "0x400000"] run
  show ?thesis by simp
qed

theorem kernel_tables_mirror_witness:
  "\<exists>c m'. setup_page_tables_64bit_kernel longmode_mem 0x400000 0xFFFFFFFF80000000 = Some (c, m') \<and>
     verify_page_tables_64bit m' 0xFFFFFFFF80001234 = Some (Page_2M 0x1234)"
proof -
  obtain c m' where run:
    "setup_page_tables_64bit_kernel longmode_mem 0x400000 0xFFFFFFFF80000000 = Some (c, m')"
    using kernel_paging64_defined[OF longmode_mem_size] by blast
  have "take_bit 30 (0xFFFFFFFF80000000 :: u64) = 0" by simp
  from kernel_tables_mirror[OF run this, of "0x1234"] run show ?thesis by simp
qed

end
