(* ===== verification/Cpuid_Msr.thy ===== *)
theory Cpuid_Msr
  imports Kvm_Prelude
begin

text \<open>
  CPUID emulation (\<^verbatim>\<open>cpuid.c\<close>) and MSR setup (\<^verbatim>\<open>msr.c\<close>), with the feature bits of
  \<^verbatim>\<open>long_mode.h\<close>. The answers of KVM are arguments: the supported entries that
  \<^verbatim>\<open>KVM_GET_SUPPORTED_CPUID\<close> returns (\<open>None\<close>: it failed), whether \<^verbatim>\<open>KVM_SET_CPUID2\<close> succeeds, and
  the results of \<^verbatim>\<open>KVM_SET_MSRS\<close> and \<^verbatim>\<open>KVM_GET_MSRS\<close>.
\<close>

section \<open>CPUID\<close>

record cpuid_entry =
  cpuid_function :: u32
  cpuid_index :: u32
  cpuid_eax :: u32
  cpuid_ebx :: u32
  cpuid_ecx :: u32
  cpuid_edx :: u32

definition CPUID_FEAT_FPU :: u32 where "CPUID_FEAT_FPU = push_bit 0 1"
definition CPUID_FEAT_PSE :: u32 where "CPUID_FEAT_PSE = push_bit 3 1"
definition CPUID_FEAT_TSC :: u32 where "CPUID_FEAT_TSC = push_bit 4 1"
definition CPUID_FEAT_MSR :: u32 where "CPUID_FEAT_MSR = push_bit 5 1"
definition CPUID_FEAT_PAE :: u32 where "CPUID_FEAT_PAE = push_bit 6 1"
definition CPUID_FEAT_APIC :: u32 where "CPUID_FEAT_APIC = push_bit 9 1"
definition CPUID_FEAT_SEP :: u32 where "CPUID_FEAT_SEP = push_bit 11 1"
definition CPUID_FEAT_MTRR :: u32 where "CPUID_FEAT_MTRR = push_bit 12 1"
definition CPUID_FEAT_PGE :: u32 where "CPUID_FEAT_PGE = push_bit 13 1"
definition CPUID_FEAT_CMOV :: u32 where "CPUID_FEAT_CMOV = push_bit 15 1"
definition CPUID_FEAT_PAT :: u32 where "CPUID_FEAT_PAT = push_bit 16 1"
definition CPUID_FEAT_CLFLUSH :: u32 where "CPUID_FEAT_CLFLUSH = push_bit 19 1"
definition CPUID_FEAT_MMX :: u32 where "CPUID_FEAT_MMX = push_bit 23 1"
definition CPUID_FEAT_FXSR :: u32 where "CPUID_FEAT_FXSR = push_bit 24 1"
definition CPUID_FEAT_SSE :: u32 where "CPUID_FEAT_SSE = push_bit 25 1"
definition CPUID_FEAT_SSE2 :: u32 where "CPUID_FEAT_SSE2 = push_bit 26 1"
definition CPUID_FEAT_SSE3 :: u32 where "CPUID_FEAT_SSE3 = push_bit 0 1"
definition CPUID_FEAT_SSSE3 :: u32 where "CPUID_FEAT_SSSE3 = push_bit 9 1"
definition CPUID_FEAT_CX16 :: u32 where "CPUID_FEAT_CX16 = push_bit 13 1"
definition CPUID_FEAT_SSE41 :: u32 where "CPUID_FEAT_SSE41 = push_bit 19 1"
definition CPUID_FEAT_SSE42 :: u32 where "CPUID_FEAT_SSE42 = push_bit 20 1"
definition CPUID_FEAT_POPCNT :: u32 where "CPUID_FEAT_POPCNT = push_bit 23 1"
definition CPUID_EXT_SYSCALL :: u32 where "CPUID_EXT_SYSCALL = push_bit 11 1"
definition CPUID_EXT_NX :: u32 where "CPUID_EXT_NX = push_bit 20 1"
definition CPUID_EXT_PDPE1GB :: u32 where "CPUID_EXT_PDPE1GB = push_bit 26 1"
definition CPUID_EXT_RDTSCP :: u32 where "CPUID_EXT_RDTSCP = push_bit 27 1"
definition CPUID_EXT_LM :: u32 where "CPUID_EXT_LM = push_bit 29 1"
definition CPUID_EXT_LAHF :: u32 where "CPUID_EXT_LAHF = push_bit 0 1"

text \<open>\<^verbatim>\<open>entry->edx |= f\<close> and \<^verbatim>\<open>entry->ecx |= f\<close> for a list of features, in order.\<close>

definition or_edx :: "u32 list \<Rightarrow> cpuid_entry \<Rightarrow> cpuid_entry" where
  "or_edx fs e = fold (\<lambda>f e. e\<lparr>cpuid_edx := cpuid_edx e OR f\<rparr>) fs e"

definition or_ecx :: "u32 list \<Rightarrow> cpuid_entry \<Rightarrow> cpuid_entry" where
  "or_ecx fs e = fold (\<lambda>f e. e\<lparr>cpuid_ecx := cpuid_ecx e OR f\<rparr>) fs e"

definition features_edx :: "u32 list" where
  "features_edx =
     [CPUID_FEAT_FPU, CPUID_FEAT_PSE, CPUID_FEAT_TSC, CPUID_FEAT_MSR, CPUID_FEAT_PAE,
      CPUID_FEAT_APIC, CPUID_FEAT_SEP, CPUID_FEAT_MTRR, CPUID_FEAT_PGE, CPUID_FEAT_CMOV,
      CPUID_FEAT_PAT, CPUID_FEAT_CLFLUSH, CPUID_FEAT_MMX, CPUID_FEAT_FXSR, CPUID_FEAT_SSE,
      CPUID_FEAT_SSE2]"

definition features_ecx :: "u32 list" where
  "features_ecx =
     [CPUID_FEAT_SSE3, CPUID_FEAT_SSSE3, CPUID_FEAT_CX16, CPUID_FEAT_SSE41, CPUID_FEAT_SSE42,
      CPUID_FEAT_POPCNT]"

definition ext_features_edx :: "u32 list" where
  "ext_features_edx =
     [CPUID_EXT_SYSCALL, CPUID_EXT_NX, CPUID_EXT_PDPE1GB, CPUID_EXT_RDTSCP, CPUID_EXT_LM]"

definition modify_entry :: "cpuid_entry \<Rightarrow> cpuid_entry" where
  "modify_entry e =
     (if cpuid_function e = 0x1 then or_ecx features_ecx (or_edx features_edx e)
      else if cpuid_function e = 0x80000001
      then or_ecx [CPUID_EXT_LAHF] (or_edx ext_features_edx e)
      else e)"

text \<open>
  \<^verbatim>\<open>setup_cpuid\<close>: the result is the number of entries set or -1; the second component is the
  table handed to \<^verbatim>\<open>KVM_SET_CPUID2\<close>, if that call is reached.
\<close>

definition setup_cpuid :: "cpuid_entry list option \<Rightarrow> bool \<Rightarrow> int \<times> cpuid_entry list option" where
  "setup_cpuid supported set_ok =
     (case supported of
        None \<Rightarrow> (- 1, None)
      | Some entries \<Rightarrow>
          (let table = map modify_entry entries
           in (if set_ok then int (length table) else - 1, Some table)))"

section \<open>MSRs\<close>

definition MSR_EFER :: u32 where "MSR_EFER = 0xC0000080"
definition MSR_STAR :: u32 where "MSR_STAR = 0xC0000081"
definition MSR_LSTAR :: u32 where "MSR_LSTAR = 0xC0000082"
definition MSR_CSTAR :: u32 where "MSR_CSTAR = 0xC0000083"
definition MSR_FMASK :: u32 where "MSR_FMASK = 0xC0000084"
definition MSR_FS_BASE :: u32 where "MSR_FS_BASE = 0xC0000100"
definition MSR_GS_BASE :: u32 where "MSR_GS_BASE = 0xC0000101"
definition MSR_KERNEL_GS_BASE :: u32 where "MSR_KERNEL_GS_BASE = 0xC0000102"
definition MSR_APIC_BASE :: u32 where "MSR_APIC_BASE = 0x0000001B"
definition MSR_X2APIC_START :: u32 where "MSR_X2APIC_START = 0x00000800"
definition MSR_X2APIC_END :: u32 where "MSR_X2APIC_END = 0x000008FF"

lemmas msr_numbers = MSR_EFER_def MSR_STAR_def MSR_LSTAR_def MSR_CSTAR_def MSR_FMASK_def
  MSR_FS_BASE_def MSR_GS_BASE_def MSR_KERNEL_GS_BASE_def MSR_APIC_BASE_def
  MSR_X2APIC_START_def MSR_X2APIC_END_def

definition EFER_SCE :: u64 where "EFER_SCE = push_bit 0 1"
definition EFER_LME :: u64 where "EFER_LME = push_bit 8 1"
definition EFER_LMA :: u64 where "EFER_LMA = push_bit 10 1"
definition EFER_NXE :: u64 where "EFER_NXE = push_bit 11 1"

lemmas efer_defs = EFER_SCE_def EFER_LME_def EFER_LMA_def EFER_NXE_def

record kvm_msr_entry =
  msr_index :: u32
  msr_data :: u64

text \<open>The entries that \<^verbatim>\<open>setup_msrs_64bit\<close> appends, in order.\<close>

definition msrs_64bit :: "kvm_msr_entry list" where
  "msrs_64bit =
     [\<lparr>msr_index = MSR_EFER, msr_data = EFER_LME OR EFER_SCE OR EFER_NXE\<rparr>,
      \<lparr>msr_index = MSR_STAR, msr_data = 0\<rparr>,
      \<lparr>msr_index = MSR_LSTAR, msr_data = 0\<rparr>,
      \<lparr>msr_index = MSR_CSTAR, msr_data = 0\<rparr>,
      \<lparr>msr_index = MSR_FMASK, msr_data = 0\<rparr>,
      \<lparr>msr_index = MSR_FS_BASE, msr_data = 0\<rparr>,
      \<lparr>msr_index = MSR_GS_BASE, msr_data = 0\<rparr>,
      \<lparr>msr_index = MSR_KERNEL_GS_BASE, msr_data = 0\<rparr>]"

text \<open>\<open>set_msrs\<close> is the result of \<^verbatim>\<open>KVM_SET_MSRS\<close>: the number of entries KVM processed, or -1.\<close>

definition setup_msrs_64bit :: "(kvm_msr_entry list \<Rightarrow> int) \<Rightarrow> int" where
  "setup_msrs_64bit set_msrs =
     (if set_msrs msrs_64bit < 0 then - 1 else int (length msrs_64bit))"

definition write_msr :: "(kvm_msr_entry list \<Rightarrow> int) \<Rightarrow> u32 \<Rightarrow> u64 \<Rightarrow> int" where
  "write_msr set_msrs index v =
     (if set_msrs [\<lparr>msr_index = index, msr_data = v\<rparr>] < 0 then - 1 else 0)"

text \<open>
  \<open>get_msrs\<close> is the result of \<^verbatim>\<open>KVM_GET_MSRS\<close> with the entries it leaves in the buffer, whose
  data field the initialiser of \<^verbatim>\<open>read_msr\<close> sets to 0.
\<close>

definition read_msr ::
  "(kvm_msr_entry list \<Rightarrow> int \<times> kvm_msr_entry list) \<Rightarrow> u32 \<Rightarrow> u64 \<Rightarrow> int \<times> u64" where
  "read_msr get_msrs index old =
     (let (r, entries) = get_msrs [\<lparr>msr_index = index, msr_data = 0\<rparr>] in
      if r < 0 then (- 1, old) else (0, msr_data (entries ! 0)))"

definition get_msr_name :: "u32 \<Rightarrow> string" where
  "get_msr_name index =
     (if index = MSR_EFER then ''EFER''
      else if index = MSR_STAR then ''STAR''
      else if index = MSR_LSTAR then ''LSTAR''
      else if index = MSR_CSTAR then ''CSTAR''
      else if index = MSR_FMASK then ''FMASK''
      else if index = MSR_FS_BASE then ''FS_BASE''
      else if index = MSR_GS_BASE then ''GS_BASE''
      else if index = MSR_KERNEL_GS_BASE then ''KERNEL_GS_BASE''
      else if index = MSR_APIC_BASE then ''APIC_BASE''
      else if MSR_X2APIC_START \<le> index \<and> index \<le> MSR_X2APIC_END then ''X2APIC''
      else ''UNKNOWN'')"

section \<open>Properties\<close>

lemma or_edx_eq: "or_edx fs e = e\<lparr>cpuid_edx := fold (\<lambda>f x. x OR f) fs (cpuid_edx e)\<rparr>"
  unfolding or_edx_def by (induction fs arbitrary: e) simp_all

lemma or_ecx_eq: "or_ecx fs e = e\<lparr>cpuid_ecx := fold (\<lambda>f x. x OR f) fs (cpuid_ecx e)\<rparr>"
  unfolding or_ecx_def by (induction fs arbitrary: e) simp_all

text \<open>A fold of ORs keeps every bit of the start value and has every bit of its arguments.\<close>

lemma bit_fold_or:
  "bit (fold (\<lambda>f x. x OR f) fs (x :: 'a::len word)) n \<longleftrightarrow> bit x n \<or> (\<exists>f \<in> set fs. bit f n)"
  by (induction fs arbitrary: x) (auto simp: bit_or_iff)

lemma bit_feature: "bit (push_bit k 1 :: 'a::len word) n \<longleftrightarrow> n = k \<and> n < LENGTH('a)"
  by (auto simp: bit_exp_iff)

lemma bit_feature_list:
  "\<forall>k \<in> set ks. k < 32 \<Longrightarrow> (\<exists>f \<in> set (map (\<lambda>k. push_bit k 1 :: u32) ks). bit f n) \<longleftrightarrow> n \<in> set ks"
  unfolding set_map bex_simps(7) bit_feature by auto

lemma modify_entry_frame:
  "cpuid_function (modify_entry e) = cpuid_function e"
  "cpuid_index (modify_entry e) = cpuid_index e"
  "cpuid_eax (modify_entry e) = cpuid_eax e"
  "cpuid_ebx (modify_entry e) = cpuid_ebx e"
  by (simp_all add: modify_entry_def or_edx_eq or_ecx_eq)

lemma features_edx_bit: "(\<exists>f \<in> set features_edx. bit f n) \<longleftrightarrow>
    n \<in> {0, 3, 4, 5, 6, 9, 11, 12, 13, 15, 16, 19, 23, 24, 25, 26}"
proof -
  have "features_edx = map (\<lambda>k. push_bit k 1)
      [0, 3, 4, 5, 6, 9, 11, 12, 13, 15, 16, 19, 23, 24, 25, 26]"
    unfolding features_edx_def CPUID_FEAT_FPU_def CPUID_FEAT_PSE_def CPUID_FEAT_TSC_def
      CPUID_FEAT_MSR_def CPUID_FEAT_PAE_def CPUID_FEAT_APIC_def CPUID_FEAT_SEP_def
      CPUID_FEAT_MTRR_def CPUID_FEAT_PGE_def CPUID_FEAT_CMOV_def CPUID_FEAT_PAT_def
      CPUID_FEAT_CLFLUSH_def CPUID_FEAT_MMX_def CPUID_FEAT_FXSR_def CPUID_FEAT_SSE_def
      CPUID_FEAT_SSE2_def list.map ..
  then show ?thesis using bit_feature_list[of
      "[0, 3, 4, 5, 6, 9, 11, 12, 13, 15, 16, 19, 23, 24, 25, 26]" n] by (simp only: list.set) simp
qed

lemma features_ecx_bit: "(\<exists>f \<in> set features_ecx. bit f n) \<longleftrightarrow> n \<in> {0, 9, 13, 19, 20, 23}"
proof -
  have "features_ecx = map (\<lambda>k. push_bit k 1) [0, 9, 13, 19, 20, 23]"
    unfolding features_ecx_def CPUID_FEAT_SSE3_def CPUID_FEAT_SSSE3_def
      CPUID_FEAT_CX16_def CPUID_FEAT_SSE41_def CPUID_FEAT_SSE42_def CPUID_FEAT_POPCNT_def
      list.map ..
  then show ?thesis using bit_feature_list[of "[0, 9, 13, 19, 20, 23]" n]
    by (simp only: list.set) simp
qed

lemma ext_features_edx_bit:
  "(\<exists>f \<in> set ext_features_edx. bit f n) \<longleftrightarrow> n \<in> {11, 20, 26, 27, 29}"
proof -
  have "ext_features_edx = map (\<lambda>k. push_bit k 1) [11, 20, 26, 27, 29]"
    unfolding ext_features_edx_def CPUID_EXT_SYSCALL_def CPUID_EXT_NX_def
      CPUID_EXT_PDPE1GB_def CPUID_EXT_RDTSCP_def CPUID_EXT_LM_def list.map ..
  then show ?thesis using bit_feature_list[of "[11, 20, 26, 27, 29]" n]
    by (simp only: list.set) simp
qed

lemma ext_features_ecx_bit: "(\<exists>f \<in> set [CPUID_EXT_LAHF]. bit f n) \<longleftrightarrow> n = 0"
  unfolding CPUID_EXT_LAHF_def list.set bex_simps bit_feature by auto

lemma modify_entry_edx:
  "bit (cpuid_edx (modify_entry e)) n \<longleftrightarrow> bit (cpuid_edx e) n \<or>
     cpuid_function e = 1 \<and> n \<in> {0, 3, 4, 5, 6, 9, 11, 12, 13, 15, 16, 19, 23, 24, 25, 26} \<or>
     cpuid_function e = 0x80000001 \<and> n \<in> {11, 20, 26, 27, 29}"
  unfolding features_edx_bit[symmetric] ext_features_edx_bit[symmetric]
  by (simp add: modify_entry_def or_edx_eq or_ecx_eq bit_fold_or del: fold.simps fold_simps list.set)

lemma modify_entry_ecx:
  "bit (cpuid_ecx (modify_entry e)) n \<longleftrightarrow> bit (cpuid_ecx e) n \<or>
     cpuid_function e = 1 \<and> n \<in> {0, 9, 13, 19, 20, 23} \<or>
     cpuid_function e = 0x80000001 \<and> n = 0"
  unfolding features_ecx_bit[symmetric] ext_features_ecx_bit[symmetric]
  by (simp add: modify_entry_def or_edx_eq or_ecx_eq bit_fold_or del: fold.simps fold_simps list.set)

text \<open>
  C34: \<^verbatim>\<open>setup_cpuid\<close> sets exactly one entry per supported entry, in the same order and with the
  same function, index, EAX and EBX; a feature bit of the result is one that KVM supports or one
  of the bits the VMM forces (leaves 1 and 0x80000001 only), so in particular no supported feature
  is taken away.
\<close>

theorem setup_cpuid_bits:
  assumes "setup_cpuid (Some entries) ok = (r, Some table)" and "i < length entries"
  shows "length table = length entries \<and> r = (if ok then int (length entries) else - 1) \<and>
    cpuid_function (table ! i) = cpuid_function (entries ! i) \<and>
    cpuid_index (table ! i) = cpuid_index (entries ! i) \<and>
    cpuid_eax (table ! i) = cpuid_eax (entries ! i) \<and>
    cpuid_ebx (table ! i) = cpuid_ebx (entries ! i) \<and>
    (bit (cpuid_edx (table ! i)) n \<longleftrightarrow> bit (cpuid_edx (entries ! i)) n \<or>
       cpuid_function (entries ! i) = 1 \<and>
         n \<in> {0, 3, 4, 5, 6, 9, 11, 12, 13, 15, 16, 19, 23, 24, 25, 26} \<or>
       cpuid_function (entries ! i) = 0x80000001 \<and> n \<in> {11, 20, 26, 27, 29}) \<and>
    (bit (cpuid_ecx (table ! i)) n \<longleftrightarrow> bit (cpuid_ecx (entries ! i)) n \<or>
       cpuid_function (entries ! i) = 1 \<and> n \<in> {0, 9, 13, 19, 20, 23} \<or>
       cpuid_function (entries ! i) = 0x80000001 \<and> n = 0)"
proof -
  have "table = map modify_entry entries" "r = (if ok then int (length entries) else - 1)"
    using assms(1) by (auto simp: setup_cpuid_def Let_def)
  then show ?thesis
    using assms(2) by (simp only: nth_map length_map modify_entry_frame modify_entry_edx
        modify_entry_ecx simp_thms)
qed

section \<open>A worked instance\<close>

theorem setup_cpuid_bits_witness:
  "let e = \<lparr>cpuid_function = 1, cpuid_index = 0, cpuid_eax = 7, cpuid_ebx = 8, cpuid_ecx = 0,
            cpuid_edx = 2\<rparr>;
       table = the (snd (setup_cpuid (Some [e]) True))
   in bit (cpuid_edx (table ! 0)) 6 \<and> bit (cpuid_edx (table ! 0)) 1"
proof -
  let ?e = "\<lparr>cpuid_function = 1, cpuid_index = 0, cpuid_eax = 7, cpuid_ebx = 8, cpuid_ecx = 0,
             cpuid_edx = 2\<rparr>"
  obtain table where "setup_cpuid (Some [?e]) True = (1, Some table)"
    by (simp add: setup_cpuid_def)
  from setup_cpuid_bits[OF this, of 0 6] setup_cpuid_bits[OF this, of 0 1] this show ?thesis
    by (simp add: Let_def bit_numeral_rec)
qed

end
