(* ===== verification/Vcpu_Setup.thy ===== *)
theory Vcpu_Setup
  imports Descriptors Paging32 Paging64 Cpuid_Msr
begin

text \<open>
  Creation and configuration of a vCPU (\<^verbatim>\<open>main.c\<close>): its memory region, the real-mode, protected-mode,
  long-mode and Linux entry states, and \<^verbatim>\<open>setup_vcpu_context\<close>. The host is a parameter: the
  predicate \<open>k_fails\<close> says which of the successive system calls fail. What KVM stores on success is
  the documented effect of the call. The value \<open>None\<close> stands for an access outside the guest
  mapping; \<^verbatim>\<open>verbose\<close> output and the calls it makes are not modelled.
\<close>

section \<open>The host\<close>

record kvm_vcpu =
  k_calls :: nat
  k_fails :: "nat \<Rightarrow> bool"
  k_new_fd :: int
  k_supported :: "cpuid_entry list"
  k_sregs :: kvm_sregs
  k_regs :: kvm_regs
  k_cpuid :: "cpuid_entry list option"
  k_msrs :: "kvm_msr_entry list"
  k_runnable :: bool

record vm =
  vm_ctx :: vcpu_context
  vm_kvm :: kvm_vcpu

text \<open>One system call: it fails with -1, or has its effect.\<close>

definition ioctl :: "(kvm_vcpu \<Rightarrow> kvm_vcpu) \<Rightarrow> vm \<Rightarrow> int \<times> vm" where
  "ioctl eff s =
     (let k = vm_kvm s; k' = k\<lparr>k_calls := k_calls k + 1\<rparr> in
      if k_fails k (k_calls k) then (- 1, s\<lparr>vm_kvm := k'\<rparr>) else (0, s\<lparr>vm_kvm := eff k'\<rparr>))"

definition KVM_GET_SREGS :: "vm \<Rightarrow> int \<times> vm" where
  "KVM_GET_SREGS = ioctl id"

definition KVM_SET_SREGS :: "kvm_sregs \<Rightarrow> vm \<Rightarrow> int \<times> vm" where
  "KVM_SET_SREGS sregs = ioctl (\<lambda>k. k\<lparr>k_sregs := sregs\<rparr>)"

definition KVM_SET_REGS :: "kvm_regs \<Rightarrow> vm \<Rightarrow> int \<times> vm" where
  "KVM_SET_REGS regs = ioctl (\<lambda>k. k\<lparr>k_regs := regs\<rparr>)"

definition KVM_SET_MP_STATE_runnable :: "vm \<Rightarrow> int \<times> vm" where
  "KVM_SET_MP_STATE_runnable = ioctl (\<lambda>k. k\<lparr>k_runnable := True\<rparr>)"

text \<open>\<^verbatim>\<open>if (call < 0) return -1;\<close> followed by the rest of the function.\<close>

definition on_ok :: "int \<times> vm \<Rightarrow> (vm \<Rightarrow> (int \<times> vm) option) \<Rightarrow> (int \<times> vm) option" where
  "on_ok r rest = (if fst r < 0 then Some (- 1, snd r) else rest (snd r))"

text \<open>\<^verbatim>\<open>setup_cpuid\<close> with its two calls.\<close>

definition call_setup_cpuid :: "vm \<Rightarrow> int \<times> vm" where
  "call_setup_cpuid s =
     (let k = vm_kvm s;
          supported = (if k_fails k (k_calls k) then None else Some (k_supported k));
          set_ok = (\<not> k_fails k (k_calls k + 1));
          (r, table) = setup_cpuid supported set_ok
      in (r, s\<lparr>vm_kvm := k\<lparr>k_calls := k_calls k + (if supported = None then 1 else 2),
                          k_cpuid := (if r < 0 then k_cpuid k else table)\<rparr>\<rparr>))"

text \<open>\<^verbatim>\<open>setup_msrs_64bit\<close>: \<open>k_msrs\<close> is the list of the accepted request; its result is ignored.\<close>

definition call_setup_msrs :: "vm \<Rightarrow> vm" where
  "call_setup_msrs s = snd (ioctl (\<lambda>k. k\<lparr>k_msrs := msrs_64bit\<rparr>) s)"

section \<open>Memory regions\<close>

record mem_region =
  region_slot :: nat
  guest_phys_addr :: u64
  region_memory_size :: u64

definition vcpu_mem_size :: "vcpu_context \<Rightarrow> nat" where
  "vcpu_mem_size ctx =
     (if linux_guest ctx then 256 * 1024 * 1024
      else if use_paging ctx then 4 * 1024 * 1024 else 256 * 1024)"

text \<open>
  \<^verbatim>\<open>setup_vcpu_memory\<close>; \<open>mmap_ok\<close> and \<open>set_ok\<close> are the outcomes of \<^verbatim>\<open>mmap\<close> (which returns zeroed
  memory) and of \<^verbatim>\<open>KVM_SET_USER_MEMORY_REGION\<close>. The region is the one handed to KVM.
\<close>

definition setup_vcpu_memory ::
  "bool \<Rightarrow> bool \<Rightarrow> vcpu_context \<Rightarrow> int \<times> vcpu_context \<times> mem_region option" where
  "setup_vcpu_memory mmap_ok set_ok ctx0 =
     (let ctx = ctx0\<lparr>mem_size := vcpu_mem_size ctx0\<rparr> in
      if \<not> mmap_ok then (- 1, ctx, None)
      else
        (let ctx = ctx\<lparr>guest_mem := \<lparr>gm_size = mem_size ctx, gm_data = (\<lambda>_. 0)\<rparr>\<rparr>;
             region = \<lparr>region_slot = vcpu_id ctx,
                       guest_phys_addr = word_of_nat (vcpu_id ctx) * word_of_nat (mem_size ctx),
                       region_memory_size = word_of_nat (mem_size ctx)\<rparr>
         in (if set_ok then 0 else - 1, ctx, Some region)))"

section \<open>Protected mode\<close>

definition configure_protected_mode :: "vm \<Rightarrow> (int \<times> vm) option" where
  "configure_protected_mode s0 =
     do {
       m \<leftarrow> setup_gdt (guest_mem (vm_ctx s0));
       m \<leftarrow> setup_idt m;
       (pd, ctx) \<leftarrow> setup_page_tables ((vm_ctx s0)\<lparr>guest_mem := m\<rparr>);
       let s = s0\<lparr>vm_ctx := ctx\<rparr>;
       if pd < 0 then Some (- 1, s)
       else on_ok (KVM_GET_SREGS s) (\<lambda>s.
         let sregs = setup_protectedmode_segments
               ((k_sregs (vm_kvm s))
                \<lparr>s_gdt := \<lparr>dt_base = word_of_nat GDT_ADDR, dt_limit = word_of_nat (GDT_TOTAL_SIZE - 1)\<rparr>,
                 s_idt := \<lparr>dt_base = word_of_nat (GDT_ADDR + GDT_TOTAL_SIZE),
                           dt_limit = word_of_nat (256 * 8 - 1)\<rparr>,
                 cr3 := word_of_int pd, cr0 := 0x80000011, cr4 := 0\<rparr>) in
         on_ok (KVM_SET_SREGS sregs s) (\<lambda>s.
         on_ok (KVM_SET_REGS (zero_regs\<lparr>rip := ucast (entry_point (vm_ctx s)), rflags := 0x2\<rparr>) s)
           (\<lambda>s. Some (0, s))))
     }"

section \<open>Long mode\<close>

definition CR0_LONG :: u64 where
  "CR0_LONG = push_bit 0 1 OR push_bit 4 1 OR push_bit 5 1 OR push_bit 31 1"

definition longmode_sregs :: "u64 \<Rightarrow> u64 \<Rightarrow> u64 \<Rightarrow> u16 \<Rightarrow> u16 \<Rightarrow> kvm_sregs \<Rightarrow> kvm_sregs" where
  "longmode_sregs gdt_base idt_base cr3_v code_sel data_sel sregs =
     (let ds = flat_segment data_sel 0x3 1 0 in
      sregs\<lparr>s_gdt := \<lparr>dt_base = gdt_base, dt_limit = 5 * 8 - 1\<rparr>,
            s_idt := \<lparr>dt_base = idt_base, dt_limit = 0\<rparr>,
            cr3 := cr3_v, cr4 := push_bit 5 1, cr0 := CR0_LONG, efer := EFER_LME OR EFER_LMA,
            s_cs := flat_segment code_sel 0xb 0 1, s_ds := ds, s_es := ds, s_ss := ds,
            s_fs := ds, s_gs := ds\<rparr>)"

definition setup_vcpu_longmode :: "vm \<Rightarrow> (int \<times> vm) option" where
  "setup_vcpu_longmode s0 =
     do {
       (cr3_v, m) \<leftarrow> setup_page_tables_64bit (guest_mem (vm_ctx s0)) (word_of_nat (mem_size (vm_ctx s0)));
       m \<leftarrow> setup_gdt_64bit m 0x5000;
       let s = s0\<lparr>vm_ctx := (vm_ctx s0)\<lparr>guest_mem := m\<rparr>\<rparr>;
       on_ok (call_setup_cpuid s) (\<lambda>s.
       on_ok (KVM_GET_SREGS s) (\<lambda>s.
       on_ok (KVM_SET_SREGS (longmode_sregs 0x5000 0x6000 cr3_v SELECTOR_KERNEL_CODE_64
                SELECTOR_KERNEL_DATA_64 (k_sregs (vm_kvm s))) s) (\<lambda>s.
       on_ok (KVM_SET_REGS
                (zero_regs\<lparr>rip := ucast (load_offset (vm_ctx s)), rflags := 0x2, rsp := 0x8000\<rparr>) s)
         (\<lambda>s. Some (0, call_setup_msrs s)))))
     }"

section \<open>Linux entry states\<close>

definition LINUX_BOOT_PARAMS_ADDR :: u32 where "LINUX_BOOT_PARAMS_ADDR = 0x90000"

definition configure_linux_boot64_entry :: "vm \<Rightarrow> (int \<times> vm) option" where
  "configure_linux_boot64_entry s0 =
     do {
       (cr3_v, m) \<leftarrow> setup_page_tables_64bit (guest_mem (vm_ctx s0)) (word_of_nat (mem_size (vm_ctx s0)));
       m \<leftarrow> setup_linux_boot_gdt_64bit m 0x5000;
       let s = s0\<lparr>vm_ctx := (vm_ctx s0)\<lparr>guest_mem := m\<rparr>\<rparr>;
       on_ok (call_setup_cpuid s) (\<lambda>s.
       on_ok (KVM_GET_SREGS s) (\<lambda>s.
       on_ok (KVM_SET_SREGS (longmode_sregs 0x5000 0 cr3_v LINUX_BOOT_CS LINUX_BOOT_DS
                (k_sregs (vm_kvm s))) s) (\<lambda>s.
       on_ok (KVM_SET_REGS
                (zero_regs\<lparr>rip := ucast (entry_point (vm_ctx s)), rsi := ucast LINUX_BOOT_PARAMS_ADDR,
                           rsp := 0x9ff00, rflags := 0x2\<rparr>) s) (\<lambda>s.
       on_ok (KVM_SET_MP_STATE_runnable (call_setup_msrs s)) (\<lambda>s. Some (0, s))))))
     }"

definition configure_linux_code32_entry :: "u32 \<Rightarrow> vm \<Rightarrow> (int \<times> vm) option" where
  "configure_linux_code32_entry boot_params_addr s0 =
     do {
       m \<leftarrow> setup_linux_boot_gdt (guest_mem (vm_ctx s0));
       m \<leftarrow> setup_linux_prot_idt m;
       let s = s0\<lparr>vm_ctx := (vm_ctx s0)\<lparr>guest_mem := m\<rparr>\<rparr>;
       on_ok (KVM_GET_SREGS s) (\<lambda>s.
       let sregs = setup_linux_boot_segments
             ((k_sregs (vm_kvm s))
              \<lparr>s_gdt := \<lparr>dt_base = word_of_nat GDT_ADDR, dt_limit = word_of_nat (GDT_TOTAL_SIZE - 1)\<rparr>,
               s_idt := \<lparr>dt_base = word_of_nat (GDT_ADDR + GDT_TOTAL_SIZE),
                         dt_limit = word_of_nat (256 * 8 - 1)\<rparr>,
               cr0 := 0x11, cr3 := 0, cr4 := 0, efer := 0\<rparr>) in
       on_ok (KVM_SET_SREGS sregs s) (\<lambda>s.
       on_ok (call_setup_cpuid s) (\<lambda>s.
       let rsi_v = (if linux_rsi (vm_ctx s) = LINUX_RSI_HDR then boot_params_addr + 0x1f1
                    else boot_params_addr) in
       on_ok (KVM_SET_REGS
                (zero_regs\<lparr>rip := ucast (entry_point (vm_ctx s)), rsi := ucast rsi_v,
                           rsp := 0x9ff00, rflags := 0x2\<rparr>) s) (\<lambda>s.
       on_ok (KVM_SET_MP_STATE_runnable s) (\<lambda>s. Some (0, s))))))
     }"

text \<open>The branch of \<^verbatim>\<open>setup_vcpu_context\<close> that enters the real-mode setup code of a bzImage.\<close>

definition configure_linux_setup_entry :: "kvm_sregs \<Rightarrow> vm \<Rightarrow> (int \<times> vm) option" where
  "configure_linux_setup_entry sregs0 s =
     (let sregs = setup_realmode_segments (vm_ctx s)
                    (sregs0\<lparr>cr0 := 0x10, cr3 := 0, cr4 := 0, efer := 0\<rparr>) in
      on_ok (KVM_SET_SREGS sregs s) (\<lambda>s.
      on_ok (call_setup_cpuid s) (\<lambda>s.
      on_ok (KVM_SET_REGS
               (zero_regs\<lparr>rip := 0x200, rsp := 0x9ff00, rbp := 0x9ff00, rsi := 0, rflags := 0x2\<rparr>) s)
        (\<lambda>s. on_ok (KVM_SET_MP_STATE_runnable s) (\<lambda>s. Some (0, s))))))"

section \<open>Creating the vCPU\<close>

definition GUEST_LOAD_ADDR :: u64 where "GUEST_LOAD_ADDR = 0x0"

text \<open>\<^verbatim>\<open>ctx->vcpu_fd = ioctl(vm_fd, KVM_CREATE_VCPU, id)\<close>: the descriptor is stored in both cases.\<close>

definition create_vcpu :: "vm \<Rightarrow> int \<times> vm" where
  "create_vcpu s =
     (let (r, s') = ioctl id s;
          fd = (if r < 0 then - 1 else k_new_fd (vm_kvm s))
      in (r, s'\<lparr>vm_ctx := (vm_ctx s')\<lparr>vcpu_fd := fd\<rparr>\<rparr>))"

definition finish_vcpu :: "vm \<Rightarrow> (int \<times> vm) option" where
  "finish_vcpu s = Some (0, s\<lparr>vm_ctx := (vm_ctx s)\<lparr>running := True, exit_count := 0\<rparr>\<rparr>)"

definition bind_ok :: "(int \<times> vm) option \<Rightarrow> (vm \<Rightarrow> (int \<times> vm) option) \<Rightarrow> (int \<times> vm) option" where
  "bind_ok r rest = Option.bind r (\<lambda>r. on_ok r rest)"

definition enter_linux :: "kvm_sregs \<Rightarrow> vm \<Rightarrow> (int \<times> vm) option" where
  "enter_linux sregs s =
     bind_ok (case linux_entry (vm_ctx s) of
                LINUX_ENTRY_BOOT64 \<Rightarrow> configure_linux_boot64_entry s
              | LINUX_ENTRY_CODE32 \<Rightarrow> configure_linux_code32_entry LINUX_BOOT_PARAMS_ADDR s
              | LINUX_ENTRY_SETUP \<Rightarrow> configure_linux_setup_entry sregs s)
       finish_vcpu"

definition enter_guest :: "kvm_sregs \<Rightarrow> vm \<Rightarrow> (int \<times> vm) option" where
  "enter_guest sregs s =
     on_ok (KVM_SET_SREGS (setup_realmode_segments (vm_ctx s) sregs) s) (\<lambda>s.
     on_ok (call_setup_cpuid s) (\<lambda>s.
     on_ok (KVM_SET_REGS (zero_regs\<lparr>rip := GUEST_LOAD_ADDR, rflags := 0x2\<rparr>) s) (\<lambda>s.
     on_ok (KVM_SET_MP_STATE_runnable s) (\<lambda>s.
     bind_ok (if long_mode (vm_ctx s) then setup_vcpu_longmode s
              else if use_paging (vm_ctx s) then configure_protected_mode s
              else Some (0, s))
       finish_vcpu))))"

text \<open>
  \<^verbatim>\<open>setup_vcpu_context\<close>: the three calls that create the vCPU and map its \<^verbatim>\<open>kvm_run\<close> area, then the
  entry state. In the second half of the C function \<^verbatim>\<open>ctx->linux_guest\<close> is false, so its tests
  there are decided.
\<close>

definition setup_vcpu_context :: "vm \<Rightarrow> (int \<times> vm) option" where
  "setup_vcpu_context s =
     on_ok (create_vcpu s) (\<lambda>s.
     on_ok (ioctl id s) (\<lambda>s.
     on_ok (ioctl id s) (\<lambda>s.
     on_ok (KVM_GET_SREGS s) (\<lambda>s.
       if linux_guest (vm_ctx s) then enter_linux (k_sregs (vm_kvm s)) s
       else enter_guest (k_sregs (vm_kvm s)) s))))"

section \<open>Success and failure\<close>

text \<open>
  A chain of calls returns 0 exactly when every call succeeds; each step then has its effect. The
  collection \<open>setup_ok\<close> unwinds a successful chain.
\<close>

lemma on_ok_zero:
  "on_ok (ioctl eff s) rest = Some (0, t) \<longleftrightarrow>
     \<not> k_fails (vm_kvm s) (k_calls (vm_kvm s)) \<and>
     rest (s\<lparr>vm_kvm := eff ((vm_kvm s)\<lparr>k_calls := k_calls (vm_kvm s) + 1\<rparr>)\<rparr>) = Some (0, t)"
  by (simp add: on_ok_def ioctl_def Let_def)

lemma on_ok_ioctl_zero:
  "on_ok (ioctl eff s) rest = Some (0, t) \<Longrightarrow>
     \<exists>u n. rest u = Some (0, t) \<and> vm_ctx u = vm_ctx s \<and> vm_kvm u = eff ((vm_kvm s)\<lparr>k_calls := n\<rparr>)"
  unfolding on_ok_zero by force

lemma on_ok_cpuid_zero:
  "on_ok (call_setup_cpuid s) rest = Some (0, t) \<Longrightarrow>
     \<exists>u. rest u = Some (0, t) \<and> vm_ctx u = vm_ctx s \<and> k_sregs (vm_kvm u) = k_sregs (vm_kvm s) \<and>
       k_regs (vm_kvm u) = k_regs (vm_kvm s) \<and> k_runnable (vm_kvm u) = k_runnable (vm_kvm s) \<and>
       k_cpuid (vm_kvm u) = Some (map modify_entry (k_supported (vm_kvm u)))"
  by (auto simp: on_ok_def call_setup_cpuid_def setup_cpuid_def Let_def split: if_splits)

lemma call_setup_msrs_keeps [simp]:
  "vm_ctx (call_setup_msrs s) = vm_ctx s"
  "k_sregs (vm_kvm (call_setup_msrs s)) = k_sregs (vm_kvm s)"
  "k_regs (vm_kvm (call_setup_msrs s)) = k_regs (vm_kvm s)"
  "k_runnable (vm_kvm (call_setup_msrs s)) = k_runnable (vm_kvm s)"
  by (simp_all add: call_setup_msrs_def ioctl_def Let_def)

lemma ioctl_ctx [simp]: "vm_ctx (snd (ioctl eff s)) = vm_ctx s"
  by (simp add: ioctl_def Let_def)

lemma on_ok_result:
  assumes "on_ok r rest = Some (x, t)" and "vm_ctx (snd r) = c"
    and "\<And>u. vm_ctx u = c \<Longrightarrow> rest u = Some (x, t) \<Longrightarrow> P x t"
    and "vm_ctx t = c \<Longrightarrow> P (- 1) t"
  shows "P x t"
  using assms by (auto simp: on_ok_def split: if_splits)

lemma cpuid_ctx [simp]: "vm_ctx (snd (call_setup_cpuid s)) = vm_ctx s"
  by (simp add: call_setup_cpuid_def Let_def split: prod.splits)

lemmas kvm_calls = KVM_GET_SREGS_def KVM_SET_SREGS_def KVM_SET_REGS_def
  KVM_SET_MP_STATE_runnable_def

text \<open>The configuration of the segment registers is untouched by the CPUID and MSR calls.\<close>

lemma bind_ok_zero:
  "bind_ok r finish_vcpu = Some (0, t) \<longleftrightarrow>
     (\<exists>i u. r = Some (i, u) \<and> 0 \<le> i \<and>
        t = u\<lparr>vm_ctx := (vm_ctx u)\<lparr>running := True, exit_count := 0\<rparr>\<rparr>)"
  by (cases r) (auto simp: bind_ok_def on_ok_def finish_vcpu_def)

section \<open>Where a configuration writes\<close>

lemma setup_gdt_frame:
  assumes "setup_gdt m = Some m'" and "GDT_ADDR + GDT_TOTAL_SIZE \<le> b \<or> b + n \<le> GDT_ADDR"
  shows "gm_read m' b n = gm_read m b n" and "gm_size m' = gm_size m"
proof -
  have step: "gm_read v b n = gm_read u b n \<and> gm_size v = gm_size u"
    if "store_gdt u GDT_ADDR i e = Some v" "i < 5" for u v i e
  proof -
    have "gm_write u (GDT_ADDR + 8 * i) (gdt_bytes e) = Some v" using that(1) by (simp add: store_gdt_def)
    then show ?thesis
      using gm.rd_wr_other[of u "GDT_ADDR + 8 * i" "gdt_bytes e" v b n] gm_write_size assms(2) that(2)
      by (auto simp: gdt_layout)
  qed
  obtain m1 m2 m3 m4 where
    "store_gdt m GDT_ADDR 0 (create_gdt_entry 0 0 0 0) = Some m1"
    "store_gdt m1 GDT_ADDR 1 (create_gdt_entry 0 0xFFFFF ACCESS_CODE_R LIMIT_GRAN) = Some m2"
    "store_gdt m2 GDT_ADDR 2 (create_gdt_entry 0 0xFFFFF ACCESS_DATA_W LIMIT_GRAN) = Some m3"
    "store_gdt m3 GDT_ADDR 3 (create_gdt_entry 0 0xFFFFF 0xFA LIMIT_GRAN) = Some m4"
    "store_gdt m4 GDT_ADDR 4 (create_gdt_entry 0 0xFFFFF 0xF2 LIMIT_GRAN) = Some m'"
    using assms(1) unfolding setup_gdt_def by (auto simp: bind_eq_Some_conv)
  from this[THEN step] show "gm_read m' b n = gm_read m b n" "gm_size m' = gm_size m" by simp_all
qed

lemma setup_idt_frame:
  assumes "setup_idt m = Some m'" and "0xD28 \<le> b \<or> b + n \<le> 0x528"
  shows "gm_read m' b n = gm_read m b n" and "gm_size m' = gm_size m"
  using assms gm.rd_wr_other[of m "0x528" "replicate 2048 0" m' b n] gm_write_size[of m "0x528" _ m']
  by (auto simp: setup_idt_def gm_fill_def gdt_layout)

lemma setup_page_tables_ctx:
  assumes "setup_page_tables ctx = Some (r, ctx')"
  shows "ctx' = ctx\<lparr>guest_mem := guest_mem ctx'\<rparr>" and "0 \<le> r \<Longrightarrow> r = 0x100000" and "r < 0 \<Longrightarrow> r = - 1"
  using assms by (auto simp: setup_page_tables_def page_offsets bind_eq_Some_conv split: if_splits)

lemma protected_mode_frame:
  assumes "configure_protected_mode s = Some (r, t)"
    and "0xD28 \<le> b \<and> b + n \<le> 0x100000 \<or> 0x103000 \<le> b \<or> b + n \<le> 0x500"
  shows "gm_read (guest_mem (vm_ctx t)) b n = gm_read (guest_mem (vm_ctx s)) b n"
proof -
  obtain m1 m2 pd ctx where m: "setup_gdt (guest_mem (vm_ctx s)) = Some m1" "setup_idt m1 = Some m2"
    "setup_page_tables ((vm_ctx s)\<lparr>guest_mem := m2\<rparr>) = Some (pd, ctx)" and t: "vm_ctx t = ctx"
    using assms(1) unfolding configure_protected_mode_def kvm_calls bind_eq_Some_conv Let_def
    by (fastforce simp: on_ok_def ioctl_def Let_def split: if_splits)
  have "gm_read (guest_mem ctx) b n = gm_read m2 b n"
    using setup_page_tables_frame[OF m(3)] assms(2) by auto
  also have "\<dots> = gm_read m1 b n" using setup_idt_frame(1)[OF m(2)] assms(2) by auto
  also have "\<dots> = gm_read (guest_mem (vm_ctx s)) b n"
    using setup_gdt_frame(1)[OF m(1)] assms(2) by (auto simp: gdt_layout)
  finally show ?thesis unfolding t .
qed

text \<open>
  Protected-mode setup writes only the descriptor tables (0x500-0xD27) and the page tables
  (0x100000-0x102FFF): everything else of the guest memory, in particular an image loaded at
  0x1000 of up to 0xFF000 bytes, is unchanged whether the setup succeeds or fails.
\<close>

theorem protected_mode_keeps_image:
  assumes "configure_protected_mode s = Some (r, t)"
    and "0xD28 \<le> b \<and> b + n \<le> 0x100000 \<or> 0x103000 \<le> b \<or> b + n \<le> 0x500"
  shows "gm_read (guest_mem (vm_ctx t)) b n = gm_read (guest_mem (vm_ctx s)) b n"
  by (rule protected_mode_frame[OF assms])

section \<open>Protected mode is ready\<close>

lemma protected_mode_zero:
  assumes "configure_protected_mode s = Some (0, t)"
  obtains m1 m2 ctx pd sregs where
    "setup_gdt (guest_mem (vm_ctx s)) = Some m1" "setup_idt m1 = Some m2"
    "setup_page_tables ((vm_ctx s)\<lparr>guest_mem := m2\<rparr>) = Some (pd, ctx)" "0 \<le> pd" "vm_ctx t = ctx"
    "k_sregs (vm_kvm t) = setup_protectedmode_segments
       (sregs\<lparr>s_gdt := \<lparr>dt_base = word_of_nat GDT_ADDR, dt_limit = word_of_nat (GDT_TOTAL_SIZE - 1)\<rparr>,
              s_idt := \<lparr>dt_base = word_of_nat (GDT_ADDR + GDT_TOTAL_SIZE),
                        dt_limit = word_of_nat (256 * 8 - 1)\<rparr>,
              cr3 := word_of_int pd, cr0 := 0x80000011, cr4 := 0\<rparr>)"
    "k_regs (vm_kvm t) = zero_regs\<lparr>rip := ucast (entry_point ctx), rflags := 0x2\<rparr>"
    "k_runnable (vm_kvm t) = k_runnable (vm_kvm s)"
  using assms unfolding configure_protected_mode_def bind_eq_Some_conv kvm_calls Let_def
  by (auto simp: on_ok_zero split: if_splits)

text \<open>
  What a vCPU in protected mode with paging relies on: control registers, tables and segment
  registers agree.
\<close>

definition protected_ready :: "vm \<Rightarrow> bool" where
  "protected_ready t \<longleftrightarrow>
     (let sr = k_sregs (vm_kvm t); m = guest_mem (vm_ctx t) in
      cr0 sr = 0x80000011 \<and> cr4 sr = 0 \<and>
      map_option (segment_of_descriptor (seg_selector (s_cs sr)))
        (descriptor_at m (s_gdt sr) (seg_selector (s_cs sr))) = Some (s_cs sr) \<and>
      map_option (segment_of_descriptor (seg_selector (s_ds sr)))
        (descriptor_at m (s_gdt sr) (seg_selector (s_ds sr))) = Some (s_ds sr) \<and>
      s_es sr = s_ds sr \<and> s_ss sr = s_ds sr \<and> s_fs sr = s_ds sr \<and> s_gs sr = s_ds sr \<and>
      (\<forall>va. va < 0x400000 \<longrightarrow>
         walk_page_tables_32bit m (ucast (cr3 sr)) va = Some (Physical va) \<and>
         walk_page_tables_32bit m (ucast (cr3 sr)) (va + 0x80000000) = Some (Physical va)))"

lemma protected_mode_tables:
  assumes "configure_protected_mode s = Some (0, t)"
  shows "protected_ready t" and "rip (k_regs (vm_kvm t)) = ucast (entry_point (vm_ctx s))"
    and "k_runnable (vm_kvm t) = k_runnable (vm_kvm s)" and "cr3 (k_sregs (vm_kvm t)) = 0x100000"
proof -
  obtain m1 m2 ctx pd sregs where
    m: "setup_gdt (guest_mem (vm_ctx s)) = Some m1" "setup_idt m1 = Some m2"
      "setup_page_tables ((vm_ctx s)\<lparr>guest_mem := m2\<rparr>) = Some (pd, ctx)" "0 \<le> pd"
    and t: "vm_ctx t = ctx"
    and sr: "k_sregs (vm_kvm t) = setup_protectedmode_segments
       (sregs\<lparr>s_gdt := \<lparr>dt_base = word_of_nat GDT_ADDR, dt_limit = word_of_nat (GDT_TOTAL_SIZE - 1)\<rparr>,
              s_idt := \<lparr>dt_base = word_of_nat (GDT_ADDR + GDT_TOTAL_SIZE),
                        dt_limit = word_of_nat (256 * 8 - 1)\<rparr>,
              cr3 := word_of_int pd, cr0 := 0x80000011, cr4 := 0\<rparr>)"
    and regs: "k_regs (vm_kvm t) = zero_regs\<lparr>rip := ucast (entry_point ctx), rflags := 0x2\<rparr>"
    and run: "k_runnable (vm_kvm t) = k_runnable (vm_kvm s)"
    using assms by (rule protected_mode_zero) blast
  show "k_runnable (vm_kvm t) = k_runnable (vm_kvm s)" by (rule run)
  have pd: "pd = 0x100000" by (rule setup_page_tables_ctx(2)[OF m(3,4)])
  show "cr3 (k_sregs (vm_kvm t)) = 0x100000"
    by (simp add: sr pd setup_protectedmode_segments_def set_segments_def)
  have "entry_point ctx = entry_point (vm_ctx s)"
    using setup_page_tables_ctx(1)[OF m(3)] by (metis vcpu_context.simps(11) vcpu_context.surjective
        vcpu_context.update_convs(3))
  then show "rip (k_regs (vm_kvm t)) = ucast (entry_point (vm_ctx s))" by (simp add: regs)
  have keep: "gm_read (guest_mem ctx) b 8 = gm_read m1 b 8" if "b + 8 \<le> 0x528" for b
  proof -
    have "gm_read (guest_mem ctx) b 8 = gm_read m2 b 8"
      using setup_page_tables_frame[OF m(3)] that by simp
    then show ?thesis using setup_idt_frame(1)[OF m(2)] that by simp
  qed
  have gdt: "gm_read (guest_mem ctx) (GDT_ADDR + 8 * 1) 8 =
      Some (gdt_bytes (create_gdt_entry 0 0xFFFFF ACCESS_CODE_R LIMIT_GRAN))"
    "gm_read (guest_mem ctx) (GDT_ADDR + 8 * 2) 8 =
      Some (gdt_bytes (create_gdt_entry 0 0xFFFFF ACCESS_DATA_W LIMIT_GRAN))"
    using setup_gdt_entries[OF m(1)] keep[of "GDT_ADDR + 8 * 1"] keep[of "GDT_ADDR + 8 * 2"]
    by (simp_all add: gdt_layout)
  have walk: "walk_page_tables_32bit (guest_mem ctx) 0x100000 va = Some (Physical va) \<and>
      walk_page_tables_32bit (guest_mem ctx) 0x100000 (va + 0x80000000) = Some (Physical va)"
    if "va < 0x400000" for va
    using boot_tables_kernel[OF m(3,4) that] by (simp add: pd)
  show "protected_ready t"
    unfolding protected_ready_def Let_def t sr
    using gdt walk by (simp add: pd setup_protectedmode_segments_def set_segments_def
        flat_segment_def[of 8] flat_segment_def[of 16] descriptor_at_def gdt_layout
        flat_descriptors)
qed

section \<open>Unwinding a successful creation\<close>

lemma create_zero:
  assumes "setup_vcpu_context s = Some (0, t)"
  obtains u fd where "vm_ctx u = (vm_ctx s)\<lparr>vcpu_fd := fd\<rparr>"
    "(if linux_guest (vm_ctx s) then enter_linux (k_sregs (vm_kvm u)) u
      else enter_guest (k_sregs (vm_kvm u)) u) = Some (0, t)"
proof -
  let ?u = "s\<lparr>vm_ctx := (vm_ctx s)\<lparr>vcpu_fd := k_new_fd (vm_kvm s)\<rparr>,
              vm_kvm := (vm_kvm s)\<lparr>k_calls := Suc (Suc (Suc (Suc (k_calls (vm_kvm s)))))\<rparr>\<rparr>"
  have "(if linux_guest (vm_ctx s) then enter_linux (k_sregs (vm_kvm ?u)) ?u
      else enter_guest (k_sregs (vm_kvm ?u)) ?u) = Some (0, t)"
    using assms unfolding setup_vcpu_context_def kvm_calls
    by (auto simp: on_ok_def create_vcpu_def ioctl_def Let_def split: if_splits)
  then show thesis by (rule that[rotated]) simp
qed

lemma enter_guest_zero:
  assumes "enter_guest sregs s = Some (0, t)"
  obtains u where "vm_ctx u = vm_ctx s"
    "k_sregs (vm_kvm u) = setup_realmode_segments (vm_ctx s) sregs"
    "k_regs (vm_kvm u) = zero_regs\<lparr>rip := GUEST_LOAD_ADDR, rflags := 0x2\<rparr>" "k_runnable (vm_kvm u)"
    "bind_ok (if long_mode (vm_ctx u) then setup_vcpu_longmode u
              else if use_paging (vm_ctx u) then configure_protected_mode u
              else Some (0, u)) finish_vcpu = Some (0, t)"
proof -
  obtain u1 n1 where 1: "vm_ctx u1 = vm_ctx s"
    "vm_kvm u1 = (vm_kvm s)\<lparr>k_calls := n1, k_sregs := setup_realmode_segments (vm_ctx s) sregs\<rparr>"
    "on_ok (call_setup_cpuid u1) (\<lambda>s.
     on_ok (KVM_SET_REGS (zero_regs\<lparr>rip := GUEST_LOAD_ADDR, rflags := 0x2\<rparr>) s) (\<lambda>s.
     on_ok (KVM_SET_MP_STATE_runnable s) (\<lambda>s.
     bind_ok (if long_mode (vm_ctx s) then setup_vcpu_longmode s
              else if use_paging (vm_ctx s) then configure_protected_mode s
              else Some (0, s))
       finish_vcpu))) = Some (0, t)"
    using assms unfolding enter_guest_def KVM_SET_SREGS_def by (blast dest: on_ok_ioctl_zero)
  obtain u2 where 2: "vm_ctx u2 = vm_ctx s" "k_sregs (vm_kvm u2) = k_sregs (vm_kvm u1)"
    "on_ok (KVM_SET_REGS (zero_regs\<lparr>rip := GUEST_LOAD_ADDR, rflags := 0x2\<rparr>) u2) (\<lambda>s.
     on_ok (KVM_SET_MP_STATE_runnable s) (\<lambda>s.
     bind_ok (if long_mode (vm_ctx s) then setup_vcpu_longmode s
              else if use_paging (vm_ctx s) then configure_protected_mode s
              else Some (0, s))
       finish_vcpu)) = Some (0, t)"
    using on_ok_cpuid_zero[OF 1(3)] 1(1) by auto
  obtain u3 n3 where 3: "vm_ctx u3 = vm_ctx s"
    "vm_kvm u3 = (vm_kvm u2)\<lparr>k_calls := n3, k_regs := zero_regs\<lparr>rip := GUEST_LOAD_ADDR, rflags := 0x2\<rparr>\<rparr>"
    "on_ok (KVM_SET_MP_STATE_runnable u3) (\<lambda>s.
     bind_ok (if long_mode (vm_ctx s) then setup_vcpu_longmode s
              else if use_paging (vm_ctx s) then configure_protected_mode s
              else Some (0, s))
       finish_vcpu) = Some (0, t)"
    using on_ok_ioctl_zero[OF 2(3)[unfolded KVM_SET_REGS_def]] 2(1) by auto
  obtain u4 n4 where 4: "vm_ctx u4 = vm_ctx s" "vm_kvm u4 = (vm_kvm u3)\<lparr>k_calls := n4, k_runnable := True\<rparr>"
    "bind_ok (if long_mode (vm_ctx u4) then setup_vcpu_longmode u4
              else if use_paging (vm_ctx u4) then configure_protected_mode u4
              else Some (0, u4)) finish_vcpu = Some (0, t)"
    using on_ok_ioctl_zero[OF 3(3)[unfolded KVM_SET_MP_STATE_runnable_def]] 3(1) by auto
  show thesis
    by (rule that[OF 4(1) _ _ _ 4(3)]) (simp_all add: 4(2) 3(2) 2(2) 1(2))
qed

lemma create_guest_zero:
  assumes "setup_vcpu_context s = Some (0, t)" and "\<not> linux_guest (vm_ctx s)"
  obtains u fd sregs v i where "vm_ctx u = (vm_ctx s)\<lparr>vcpu_fd := fd\<rparr>"
    "k_sregs (vm_kvm u) = setup_realmode_segments (vm_ctx u) sregs"
    "k_regs (vm_kvm u) = zero_regs\<lparr>rip := GUEST_LOAD_ADDR, rflags := 0x2\<rparr>" "k_runnable (vm_kvm u)"
    "(if long_mode (vm_ctx s) then setup_vcpu_longmode u
      else if use_paging (vm_ctx s) then configure_protected_mode u
      else Some (0, u)) = Some (i, v)" "0 \<le> i"
    "t = v\<lparr>vm_ctx := (vm_ctx v)\<lparr>running := True, exit_count := 0\<rparr>\<rparr>"
proof -
  obtain u0 fd where u0: "vm_ctx u0 = (vm_ctx s)\<lparr>vcpu_fd := fd\<rparr>"
    "enter_guest (k_sregs (vm_kvm u0)) u0 = Some (0, t)"
    using assms(2) by (auto intro: create_zero[OF assms(1)])
  show thesis
  proof (rule enter_guest_zero[OF u0(2)])
    fix u assume u: "vm_ctx u = vm_ctx u0"
      "k_sregs (vm_kvm u) = setup_realmode_segments (vm_ctx u0) (k_sregs (vm_kvm u0))"
      "k_regs (vm_kvm u) = zero_regs\<lparr>rip := GUEST_LOAD_ADDR, rflags := 0x2\<rparr>" "k_runnable (vm_kvm u)"
      "bind_ok (if long_mode (vm_ctx u) then setup_vcpu_longmode u
              else if use_paging (vm_ctx u) then configure_protected_mode u
              else Some (0, u)) finish_vcpu = Some (0, t)"
    obtain i v where v: "(if long_mode (vm_ctx s) then setup_vcpu_longmode u
        else if use_paging (vm_ctx s) then configure_protected_mode u
        else Some (0, u)) = Some (i, v)" "0 \<le> i"
      "t = v\<lparr>vm_ctx := (vm_ctx v)\<lparr>running := True, exit_count := 0\<rparr>\<rparr>"
    proof -
      have "long_mode (vm_ctx u) = long_mode (vm_ctx s)" "use_paging (vm_ctx u) = use_paging (vm_ctx s)"
        by (simp_all add: u(1) u0(1))
      with u(5) show ?thesis unfolding bind_ok_zero by (auto intro: that)
    qed
    show thesis by (rule that[OF _ _ u(3,4) v]) (simp_all add: u(1,2) u0(1))
  qed
qed

lemma protected_mode_result: "configure_protected_mode s = Some (r, t) \<Longrightarrow> r = 0 \<or> r = - 1"
  unfolding configure_protected_mode_def bind_eq_Some_conv Let_def
  by (auto simp: on_ok_def split: if_splits)

lemma paging_created:
  assumes "setup_vcpu_context s = Some (0, t)"
    and "\<not> linux_guest (vm_ctx s)" and "\<not> long_mode (vm_ctx s)" and "use_paging (vm_ctx s)"
  obtains u v fd where "vm_ctx u = (vm_ctx s)\<lparr>vcpu_fd := fd\<rparr>" "configure_protected_mode u = Some (0, v)"
    "k_runnable (vm_kvm u)" "t = v\<lparr>vm_ctx := (vm_ctx v)\<lparr>running := True, exit_count := 0\<rparr>\<rparr>"
proof (rule create_guest_zero[OF assms(1,2)])
  fix u fd sregs v i
  assume u: "vm_ctx u = (vm_ctx s)\<lparr>vcpu_fd := fd\<rparr>" "k_runnable (vm_kvm u)"
    "(if long_mode (vm_ctx s) then setup_vcpu_longmode u
      else if use_paging (vm_ctx s) then configure_protected_mode u
      else Some (0, u)) = Some (i, v)" "0 \<le> i"
    "t = v\<lparr>vm_ctx := (vm_ctx v)\<lparr>running := True, exit_count := 0\<rparr>\<rparr>"
  then have "configure_protected_mode u = Some (i, v)" using assms(3,4) by simp
  with u protected_mode_result[OF this] show thesis by (intro that) auto
qed

text \<open>
  When \<^verbatim>\<open>setup_vcpu_context\<close> succeeds for a paging guest, the vCPU is runnable at the entry point
  in protected mode with paging: CR3 leads to tables that map the low 4 MB and the kernel half, the
  cached segments match the GDT in memory, and the guest is marked running with no exits counted.
\<close>

theorem paging_vcpu_ready:
  assumes "setup_vcpu_context s = Some (0, t)"
    and "\<not> linux_guest (vm_ctx s)" and "\<not> long_mode (vm_ctx s)" and "use_paging (vm_ctx s)"
  shows "protected_ready t \<and> rip (k_regs (vm_kvm t)) = ucast (entry_point (vm_ctx s)) \<and>
    k_runnable (vm_kvm t) \<and> running (vm_ctx t) \<and> exit_count (vm_ctx t) = 0"
proof (rule paging_created[OF assms])
  fix u v fd
  assume u: "vm_ctx u = (vm_ctx s)\<lparr>vcpu_fd := fd\<rparr>" "configure_protected_mode u = Some (0, v)"
    "k_runnable (vm_kvm u)" "t = v\<lparr>vm_ctx := (vm_ctx v)\<lparr>running := True, exit_count := 0\<rparr>\<rparr>"
  show ?thesis
    using protected_mode_tables[OF u(2)] u(1,3) by (simp add: u(4) protected_ready_def)
qed

lemma setup_vcpu_memory_ok:
  assumes "setup_vcpu_memory True True ctx = (0, ctx', Some region)"
  shows "ctx' = ctx\<lparr>mem_size := vcpu_mem_size ctx,
                   guest_mem := \<lparr>gm_size = vcpu_mem_size ctx, gm_data = (\<lambda>_. 0)\<rparr>\<rparr>"
    and "region_slot region = vcpu_id ctx"
    and "guest_phys_addr region = word_of_nat (vcpu_id ctx) * word_of_nat (vcpu_mem_size ctx)"
    and "region_memory_size region = word_of_nat (vcpu_mem_size ctx)"
  using assms by (auto simp: setup_vcpu_memory_def Let_def)

lemma region_base:
  assumes "vcpu_id ctx < MAX_VCPUS"
  shows "unat (word_of_nat (vcpu_id ctx) * word_of_nat (vcpu_mem_size ctx) :: u64) =
           vcpu_id ctx * vcpu_mem_size ctx"
    and "unat (word_of_nat (vcpu_mem_size ctx) :: u64) = vcpu_mem_size ctx"
    and "vcpu_id ctx * vcpu_mem_size ctx < 2 ^ 32"
proof -
  have id: "vcpu_id ctx < 4" using assms by (simp add: MAX_VCPUS_def)
  have sz: "vcpu_mem_size ctx \<le> 2 ^ 28" by (simp add: vcpu_mem_size_def)
  then have "vcpu_id ctx * vcpu_mem_size ctx \<le> 3 * 2 ^ 28" using id by (intro mult_mono) simp_all
  then show lt: "vcpu_id ctx * vcpu_mem_size ctx < 2 ^ 32" by simp
  show "unat (word_of_nat (vcpu_mem_size ctx) :: u64) = vcpu_mem_size ctx"
    using sz by (simp add: unat_of_nat)
  have "unat (word_of_nat (vcpu_id ctx * vcpu_mem_size ctx) :: u64) = vcpu_id ctx * vcpu_mem_size ctx"
    using lt by (simp add: unat_of_nat del: of_nat_mult)
  then show "unat (word_of_nat (vcpu_id ctx) * word_of_nat (vcpu_mem_size ctx) :: u64) =
      vcpu_id ctx * vcpu_mem_size ctx" by simp
qed

text \<open>
  A real-mode vCPU starts at the first byte of its own memory region: with an id below
  \<open>MAX_VCPUS\<close> and 256 KB of memory, all its segments have base 16 times their selector, and
  CS base plus IP is the guest-physical address at which its region was registered.
\<close>

theorem realmode_vcpu_starts_in_region:
  assumes "setup_vcpu_memory True True ctx = (0, ctx', Some region)"
    and "vm_ctx s = ctx'" and "setup_vcpu_context s = Some (0, t)"
    and "\<not> linux_guest ctx" and "\<not> long_mode ctx" and "\<not> use_paging ctx" and "vcpu_id ctx < MAX_VCPUS"
  shows "let sr = k_sregs (vm_kvm t) in
    seg_base (s_cs sr) + rip (k_regs (vm_kvm t)) = guest_phys_addr region \<and>
    (\<forall>g \<in> {s_cs sr, s_ds sr, s_es sr, s_fs sr, s_gs sr, s_ss sr}.
       unat (seg_base g) = 16 * unat (seg_selector g)) \<and>
    running (vm_ctx t)"
proof -
  note mem = setup_vcpu_memory_ok[OF assms(1)]
  have flags: "\<not> linux_guest (vm_ctx s)" "\<not> long_mode (vm_ctx s)" "\<not> use_paging (vm_ctx s)"
    using assms(2,4-6) mem(1) by simp_all
  obtain u fd sregs where u: "vm_ctx u = (vm_ctx s)\<lparr>vcpu_fd := fd\<rparr>"
    "k_sregs (vm_kvm u) = setup_realmode_segments (vm_ctx u) sregs"
    "k_regs (vm_kvm u) = zero_regs\<lparr>rip := GUEST_LOAD_ADDR, rflags := 0x2\<rparr>"
    "t = u\<lparr>vm_ctx := (vm_ctx u)\<lparr>running := True, exit_count := 0\<rparr>\<rparr>"
    by (rule create_guest_zero[OF assms(3) flags(1)]) (use flags in auto)
  let ?i = "vcpu_id ctx"
  have i: "?i < 4" using assms(7) by (simp add: MAX_VCPUS_def)
  have sz: "mem_size (vm_ctx u) = 262144" "vcpu_id (vm_ctx u) = ?i" "\<not> linux_guest (vm_ctx u)"
    using u(1) assms(2,4,6) mem(1) by (simp_all add: vcpu_mem_size_def)
  have cs: "unat (word_of_nat (?i * 16384) :: u16) = ?i * 16384"
    using i by (simp add: unat_of_nat del: of_nat_mult)
  have base: "unat (word_of_nat (?i * 16384 * 16) :: u64) = ?i * 262144"
    using i by (simp add: unat_of_nat del: of_nat_mult)
  have gpa: "guest_phys_addr region = word_of_nat (?i * 16384 * 16)"
    using mem(3) assms(4,6) by (simp add: vcpu_mem_size_def)
  have segs: "k_sregs (vm_kvm u) =
      set_segments (real_segment (word_of_nat (?i * 16384 * 16)) (word_of_nat (?i * 16384)) 0x9b)
        (real_segment (word_of_nat (?i * 16384 * 16)) (word_of_nat (?i * 16384)) 0x93) sregs"
    unfolding u(2) setup_realmode_segments_def Let_def using sz cs by (simp del: of_nat_mult)
  show ?thesis
    using u(3) gpa cs base
    by (simp add: Let_def u(4) segs set_segments_def real_segment_def GUEST_LOAD_ADDR_def
        zero_regs_def del: of_nat_mult)
qed

text \<open>
  The memory regions of two different vCPUs of the same kind are disjoint and use different
  slots, and each region has the size of the host mapping behind it.
\<close>

theorem vcpu_regions_disjoint:
  assumes "setup_vcpu_memory True True c1 = (0, c1', Some r1)"
    and "setup_vcpu_memory True True c2 = (0, c2', Some r2)"
    and "linux_guest c1 = linux_guest c2" and "use_paging c1 = use_paging c2"
    and "vcpu_id c1 < vcpu_id c2" and "vcpu_id c2 < MAX_VCPUS"
  shows "region_slot r1 \<noteq> region_slot r2 \<and>
    unat (guest_phys_addr r1) + unat (region_memory_size r1) \<le> unat (guest_phys_addr r2) \<and>
    unat (region_memory_size r1) = gm_size (guest_mem c1') \<and>
    unat (region_memory_size r2) = gm_size (guest_mem c2')"
proof -
  note m1 = setup_vcpu_memory_ok[OF assms(1)] and m2 = setup_vcpu_memory_ok[OF assms(2)]
  have id: "vcpu_id c1 < MAX_VCPUS" using assms(5,6) by simp
  have sz: "vcpu_mem_size c1 = vcpu_mem_size c2" using assms(3,4) by (simp add: vcpu_mem_size_def)
  have "vcpu_id c1 * vcpu_mem_size c1 + vcpu_mem_size c1 \<le> vcpu_id c2 * vcpu_mem_size c2"
    using assms(5) sz by (metis Suc_leI add.commute mult_Suc mult_le_mono1)
  then show ?thesis
    using assms(5) region_base[OF id] region_base[OF assms(6)] m1 m2 by simp
qed

text \<open>
  The page directory of a paging vCPU other than vCPU 0 is not in its own memory region: CR3
  holds an offset into the vCPU's mapping, which as a guest-physical address lies in the region of
  vCPU 0.
\<close>

theorem paging_cr3_outside_region:
  assumes "setup_vcpu_memory True True ctx = (0, ctx', Some region)"
    and "vm_ctx s = ctx'" and "setup_vcpu_context s = Some (0, t)"
    and "\<not> linux_guest ctx" and "\<not> long_mode ctx" and "use_paging ctx"
    and "0 < vcpu_id ctx" and "vcpu_id ctx < MAX_VCPUS"
  shows "cr3 (k_sregs (vm_kvm t)) < guest_phys_addr region \<and>
    unat (cr3 (k_sregs (vm_kvm t))) < vcpu_mem_size ctx"
proof -
  note mem = setup_vcpu_memory_ok[OF assms(1)]
  have flags: "\<not> linux_guest (vm_ctx s)" "\<not> long_mode (vm_ctx s)" "use_paging (vm_ctx s)"
    using assms(2,4-6) mem(1) by simp_all
  obtain u v where "configure_protected_mode u = Some (0, v)"
    "t = v\<lparr>vm_ctx := (vm_ctx v)\<lparr>running := True, exit_count := 0\<rparr>\<rparr>"
    by (rule paging_created[OF assms(3) flags])
  then have cr3: "cr3 (k_sregs (vm_kvm t)) = 0x100000" using protected_mode_tables(4) by simp
  have sz: "vcpu_mem_size ctx = 4194304" using assms(4,6) by (simp add: vcpu_mem_size_def)
  have "unat (guest_phys_addr region) = vcpu_id ctx * 4194304"
    using mem(3) region_base(1)[OF assms(8)] sz by simp
  then show ?thesis using assms(7) cr3 sz by (simp add: word_less_nat_alt)
qed

section \<open>Long mode\<close>

lemma setup_gdt_64bit_frame:
  assumes "setup_gdt_64bit m a = Some m'" and "b + n \<le> a \<or> a + 40 \<le> b"
  shows "gm_read m' b n = gm_read m b n"
proof -
  obtain m1 m2 m3 e1 e2 where s: "gm_fill m a 0 40 = Some m1" "gm_fill m1 a 0 8 = Some m2"
    "store_gdt m2 a 1 e1 = Some m3" "store_gdt m3 a 2 e2 = Some m'"
    using assms(1) unfolding setup_gdt_64bit_def by (auto simp: bind_eq_Some_conv)
  have "gm_read m3 b n = gm_read m2 b n"
    using gm.rd_wr_other[OF s(3)[unfolded store_gdt_def], of b n] assms(2) by auto
  moreover have "gm_read m' b n = gm_read m3 b n"
    using gm.rd_wr_other[OF s(4)[unfolded store_gdt_def], of b n] assms(2) by auto
  moreover have "gm_read m1 b n = gm_read m b n"
    by (rule gm_fill_frame[OF s(1)]) (use assms(2) in auto)
  moreover have "gm_read m2 b n = gm_read m1 b n"
    by (rule gm_fill_frame[OF s(2)]) (use assms(2) in auto)
  ultimately show ?thesis by simp
qed

lemma longmode_memory:
  assumes "setup_vcpu_longmode s = Some (r, t)"
  obtains c m1 m2 where
    "setup_page_tables_64bit (guest_mem (vm_ctx s)) (word_of_nat (mem_size (vm_ctx s))) = Some (c, m1)"
    "setup_gdt_64bit m1 0x5000 = Some m2" "vm_ctx t = (vm_ctx s)\<lparr>guest_mem := m2\<rparr>"
proof -
  obtain c m1 m2 where m:
    "setup_page_tables_64bit (guest_mem (vm_ctx s)) (word_of_nat (mem_size (vm_ctx s))) = Some (c, m1)"
    "setup_gdt_64bit m1 0x5000 = Some m2"
    and rest: "on_ok (call_setup_cpuid (s\<lparr>vm_ctx := (vm_ctx s)\<lparr>guest_mem := m2\<rparr>\<rparr>)) (\<lambda>s.
       on_ok (KVM_GET_SREGS s) (\<lambda>s.
       on_ok (KVM_SET_SREGS (longmode_sregs 0x5000 0x6000 c SELECTOR_KERNEL_CODE_64
                SELECTOR_KERNEL_DATA_64 (k_sregs (vm_kvm s))) s) (\<lambda>s.
       on_ok (KVM_SET_REGS
                (zero_regs\<lparr>rip := ucast (load_offset (vm_ctx s)), rflags := 0x2, rsp := 0x8000\<rparr>) s)
         (\<lambda>s. Some (0, call_setup_msrs s))))) = Some (r, t)"
    using assms unfolding setup_vcpu_longmode_def Let_def
    by (auto simp: bind_eq_Some_conv)
  have "vm_ctx t = (vm_ctx s)\<lparr>guest_mem := m2\<rparr>"
    using rest by (auto simp: on_ok_def kvm_calls split: if_splits)
  then show thesis by (rule that[OF m])
qed

lemma longmode_zeroes:
  assumes "setup_vcpu_longmode s = Some (r, t)"
  shows "gm_read (guest_mem (vm_ctx t)) 0x2008 0xFF8 = Some (replicate 0xFF8 0)"
proof (rule longmode_memory[OF assms])
  fix c m1 m2
  assume m: "setup_page_tables_64bit (guest_mem (vm_ctx s)) (word_of_nat (mem_size (vm_ctx s))) = Some (c, m1)"
    "setup_gdt_64bit m1 0x5000 = Some m2" "vm_ctx t = (vm_ctx s)\<lparr>guest_mem := m2\<rparr>"
  obtain k n a1 a2 a3 where p: "gm_fill k 0x2000 0 0x4000 = Some a1" "store64 a1 0x2000 0x3007 = Some a2"
    "store64 a2 0x3000 0x4007 = Some a3" "store64_table 0x4000 pd_entry n a3 = Some m1"
    using m(1) unfolding setup_page_tables_64bit_def
    by (auto simp: bind_eq_Some_conv guest64_defs pte_defs)
  have "gm_read m2 0x2008 0xFF8 = gm_read m1 0x2008 0xFF8"
    by (rule setup_gdt_64bit_frame[OF m(2)]) simp
  also have "\<dots> = gm_read a3 0x2008 0xFF8" by (rule store64_table_frame[OF p(4)]) simp
  also have "\<dots> = gm_read a2 0x2008 0xFF8"
    by (rule gm.rd_wr_other[OF p(3)[unfolded store64_def]]) simp
  also have "\<dots> = gm_read a1 0x2008 0xFF8"
    by (rule gm.rd_wr_other[OF p(2)[unfolded store64_def]]) simp
  also have "\<dots> = Some (replicate 0xFF8 0)" by (rule gm_read_fill[OF p(1)]) simp_all
  finally show ?thesis using m(3) by simp
qed

text \<open>
  C36: Long-mode setup overwrites a guest image: whatever was loaded there, the bytes 0x2008-0x2FFF
  of the guest memory are zero afterwards. An image at the load offset 0x1000 loses its content
  from offset 0x1008 on.
\<close>

theorem longmode_overwrites_image:
  assumes "setup_vcpu_longmode s = Some (r, t)"
  shows "gm_read (guest_mem (vm_ctx t)) 0x2008 0xFF8 = Some (replicate 0xFF8 0)"
  by (rule longmode_zeroes[OF assms])

section \<open>Linux 32-bit entry\<close>

lemma linux_code32_zero:
  assumes "configure_linux_code32_entry bp s = Some (0, t)"
  obtains m1 m2 sregs where "setup_linux_boot_gdt (guest_mem (vm_ctx s)) = Some m1"
    "setup_linux_prot_idt m1 = Some m2" "vm_ctx t = (vm_ctx s)\<lparr>guest_mem := m2\<rparr>"
    "k_sregs (vm_kvm t) = setup_linux_boot_segments
       (sregs\<lparr>s_gdt := \<lparr>dt_base = word_of_nat GDT_ADDR, dt_limit = word_of_nat (GDT_TOTAL_SIZE - 1)\<rparr>,
              s_idt := \<lparr>dt_base = word_of_nat (GDT_ADDR + GDT_TOTAL_SIZE),
                        dt_limit = word_of_nat (256 * 8 - 1)\<rparr>,
              cr0 := 0x11, cr3 := 0, cr4 := 0, efer := 0\<rparr>)"
    "k_regs (vm_kvm t) =
       zero_regs\<lparr>rip := ucast (entry_point (vm_ctx s)),
         rsi := ucast (if linux_rsi (vm_ctx s) = LINUX_RSI_HDR then bp + 0x1f1 else bp),
         rsp := 0x9ff00, rflags := 0x2\<rparr>"
    "k_runnable (vm_kvm t)"
proof -
  obtain m1 m2 where m: "setup_linux_boot_gdt (guest_mem (vm_ctx s)) = Some m1"
    "setup_linux_prot_idt m1 = Some m2"
    using assms unfolding configure_linux_code32_entry_def by (auto simp: bind_eq_Some_conv)
  let ?sr = "setup_linux_boot_segments
       ((k_sregs (vm_kvm s))
        \<lparr>s_gdt := \<lparr>dt_base = word_of_nat GDT_ADDR, dt_limit = word_of_nat (GDT_TOTAL_SIZE - 1)\<rparr>,
         s_idt := \<lparr>dt_base = word_of_nat (GDT_ADDR + GDT_TOTAL_SIZE),
                   dt_limit = word_of_nat (256 * 8 - 1)\<rparr>,
         cr0 := 0x11, cr3 := 0, cr4 := 0, efer := 0\<rparr>)"
  let ?ctx = "(vm_ctx s)\<lparr>guest_mem := m2\<rparr>"
  let ?rg = "zero_regs\<lparr>rip := ucast (entry_point (vm_ctx s)),
         rsi := ucast (if linux_rsi (vm_ctx s) = LINUX_RSI_HDR then bp + 0x1f1 else bp),
         rsp := 0x9ff00, rflags := 0x2\<rparr>"
  let ?rest = "\<lambda>s. on_ok (KVM_SET_REGS
                (zero_regs\<lparr>rip := ucast (entry_point (vm_ctx s)),
                   rsi := ucast (if linux_rsi (vm_ctx s) = LINUX_RSI_HDR then bp + 0x1f1 else bp),
                   rsp := 0x9ff00, rflags := 0x2\<rparr>) s) (\<lambda>s.
       on_ok (KVM_SET_MP_STATE_runnable s) (\<lambda>s. Some (0, s)))"
  let ?chain = "\<lambda>s. let sregs = setup_linux_boot_segments
             ((k_sregs (vm_kvm s))
              \<lparr>s_gdt := \<lparr>dt_base = word_of_nat GDT_ADDR, dt_limit = word_of_nat (GDT_TOTAL_SIZE - 1)\<rparr>,
               s_idt := \<lparr>dt_base = word_of_nat (GDT_ADDR + GDT_TOTAL_SIZE),
                         dt_limit = word_of_nat (256 * 8 - 1)\<rparr>,
               cr0 := 0x11, cr3 := 0, cr4 := 0, efer := 0\<rparr>) in
       on_ok (KVM_SET_SREGS sregs s) (\<lambda>s. on_ok (call_setup_cpuid s) ?rest)"
  have "on_ok (ioctl id (s\<lparr>vm_ctx := ?ctx\<rparr>)) ?chain = Some (0, t)"
    using assms unfolding configure_linux_code32_entry_def Let_def KVM_GET_SREGS_def
    by (simp only: m bind.bind_lunit)
  from on_ok_ioctl_zero[OF this] obtain w where 0: "vm_ctx w = ?ctx"
    "k_sregs (vm_kvm w) = k_sregs (vm_kvm s)" "?chain w = Some (0, t)" by auto
  from 0(3) have "on_ok (ioctl (\<lambda>k. k\<lparr>k_sregs := ?sr\<rparr>) w) (\<lambda>s. on_ok (call_setup_cpuid s) ?rest) = Some (0, t)"
    unfolding Let_def KVM_SET_SREGS_def 0(2) .
  from on_ok_ioctl_zero[OF this] obtain u where 1: "vm_ctx u = ?ctx" "k_sregs (vm_kvm u) = ?sr"
    "on_ok (call_setup_cpuid u) ?rest = Some (0, t)" using 0(1) by auto
  obtain v where 2: "vm_ctx v = ?ctx" "k_sregs (vm_kvm v) = ?sr" "?rest v = Some (0, t)"
    using on_ok_cpuid_zero[OF 1(3)] 1(1,2) by auto
  let ?mp = "\<lambda>s. on_ok (ioctl (\<lambda>k. k\<lparr>k_runnable := True\<rparr>) s) (\<lambda>s. Some (0, s))"
  have "on_ok (ioctl (\<lambda>k. k\<lparr>k_regs := ?rg\<rparr>) v) ?mp = Some (0, t)"
    using 2(3) unfolding KVM_SET_REGS_def KVM_SET_MP_STATE_runnable_def by (simp add: 2(1))
  from on_ok_ioctl_zero[OF this] obtain x where 3: "vm_ctx x = ?ctx" "k_sregs (vm_kvm x) = ?sr"
    "k_regs (vm_kvm x) = ?rg" "?mp x = Some (0, t)" using 2(1,2) by auto
  from on_ok_ioctl_zero[OF 3(4)] have "vm_ctx t = ?ctx" "k_sregs (vm_kvm t) = ?sr"
    "k_regs (vm_kvm t) = ?rg" "k_runnable (vm_kvm t)" using 3(1-3) by auto
  then show thesis by (rule that[OF m])
qed

lemma code32_created:
  assumes "setup_vcpu_context s = Some (0, t)"
    and "linux_guest (vm_ctx s)" and "linux_entry (vm_ctx s) = LINUX_ENTRY_CODE32"
  obtains m1 m2 sregs where "setup_linux_boot_gdt (guest_mem (vm_ctx s)) = Some m1"
    "setup_linux_prot_idt m1 = Some m2" "guest_mem (vm_ctx t) = m2"
    "rip (k_regs (vm_kvm t)) = ucast (entry_point (vm_ctx s))"
    "rsi (k_regs (vm_kvm t)) = (if linux_rsi (vm_ctx s) = LINUX_RSI_HDR then 0x901f1 else 0x90000)"
    "rbp (k_regs (vm_kvm t)) = 0" "rdi (k_regs (vm_kvm t)) = 0" "rbx (k_regs (vm_kvm t)) = 0"
    "k_sregs (vm_kvm t) = setup_linux_boot_segments
       (sregs\<lparr>s_gdt := \<lparr>dt_base = word_of_nat GDT_ADDR, dt_limit = word_of_nat (GDT_TOTAL_SIZE - 1)\<rparr>,
              s_idt := \<lparr>dt_base = word_of_nat (GDT_ADDR + GDT_TOTAL_SIZE),
                        dt_limit = word_of_nat (256 * 8 - 1)\<rparr>,
              cr0 := 0x11, cr3 := 0, cr4 := 0, efer := 0\<rparr>)"
    "k_runnable (vm_kvm t)" "running (vm_ctx t)"
proof -
  obtain u fd where u: "vm_ctx u = (vm_ctx s)\<lparr>vcpu_fd := fd\<rparr>"
    "enter_linux (k_sregs (vm_kvm u)) u = Some (0, t)"
    using assms(2) by (auto intro: create_zero[OF assms(1)])
  obtain v i where v: "configure_linux_code32_entry LINUX_BOOT_PARAMS_ADDR u = Some (i, v)" "0 \<le> i"
    "t = v\<lparr>vm_ctx := (vm_ctx v)\<lparr>running := True, exit_count := 0\<rparr>\<rparr>"
    using u(2) assms(3) unfolding enter_linux_def bind_ok_zero by (auto simp: u(1))
  have "i = 0 \<or> i = - 1"
    using v(1) unfolding configure_linux_code32_entry_def bind_eq_Some_conv Let_def
    by (auto simp: on_ok_def split: if_splits)
  then have "configure_linux_code32_entry LINUX_BOOT_PARAMS_ADDR u = Some (0, v)" using v by auto
  then obtain m1 m2 sregs where c: "setup_linux_boot_gdt (guest_mem (vm_ctx u)) = Some m1"
    "setup_linux_prot_idt m1 = Some m2" "vm_ctx v = (vm_ctx u)\<lparr>guest_mem := m2\<rparr>"
    "k_sregs (vm_kvm v) = setup_linux_boot_segments
       (sregs\<lparr>s_gdt := \<lparr>dt_base = word_of_nat GDT_ADDR, dt_limit = word_of_nat (GDT_TOTAL_SIZE - 1)\<rparr>,
              s_idt := \<lparr>dt_base = word_of_nat (GDT_ADDR + GDT_TOTAL_SIZE),
                        dt_limit = word_of_nat (256 * 8 - 1)\<rparr>,
              cr0 := 0x11, cr3 := 0, cr4 := 0, efer := 0\<rparr>)"
    "k_regs (vm_kvm v) =
       zero_regs\<lparr>rip := ucast (entry_point (vm_ctx u)),
         rsi := ucast (if linux_rsi (vm_ctx u) = LINUX_RSI_HDR then LINUX_BOOT_PARAMS_ADDR + 0x1f1
                       else LINUX_BOOT_PARAMS_ADDR),
         rsp := 0x9ff00, rflags := 0x2\<rparr>" "k_runnable (vm_kvm v)"
    by (rule linux_code32_zero)
  show thesis
    by (rule that[of m1 m2 sregs])
      (use c u(1) in \<open>simp_all add: v(3) LINUX_BOOT_PARAMS_ADDR_def zero_regs_def\<close>)
qed

text \<open>
  When \<^verbatim>\<open>setup_vcpu_context\<close> succeeds for the 32-bit Linux entry, the vCPU is runnable at the
  entry point as the boot protocol asks: protected mode with paging off, RSI at the boot
  parameters (or at the setup header inside them), EBP, EDI and EBX zero, flat code and data
  segments that match the GDT in memory, and every IDT gate leading to the handler.
\<close>

theorem linux_code32_ready:
  assumes "setup_vcpu_context s = Some (0, t)"
    and "linux_guest (vm_ctx s)" and "linux_entry (vm_ctx s) = LINUX_ENTRY_CODE32"
  shows "let sr = k_sregs (vm_kvm t); rg = k_regs (vm_kvm t); m = guest_mem (vm_ctx t) in
    cr0 sr = 0x11 \<and> cr4 sr = 0 \<and> efer sr = 0 \<and>
    rip rg = ucast (entry_point (vm_ctx s)) \<and>
    rsi rg = (if linux_rsi (vm_ctx s) = LINUX_RSI_HDR then 0x901f1 else 0x90000) \<and>
    rbp rg = 0 \<and> rdi rg = 0 \<and> rbx rg = 0 \<and>
    map_option (segment_of_descriptor LINUX_BOOT_CS) (descriptor_at m (s_gdt sr) LINUX_BOOT_CS) =
      Some (s_cs sr) \<and>
    map_option (segment_of_descriptor LINUX_BOOT_DS) (descriptor_at m (s_gdt sr) LINUX_BOOT_DS) =
      Some (s_ds sr) \<and>
    (\<forall>vec<256. map_option gate_of_bytes (gm_read m (unat (dt_base (s_idt sr)) + 8 * vec) 8) =
      Some (interrupt_gate32 handler_addr LINUX_BOOT_CS)) \<and>
    k_runnable (vm_kvm t) \<and> running (vm_ctx t)"
proof (rule code32_created[OF assms])
  fix m1 m2 sregs
  assume c: "setup_linux_boot_gdt (guest_mem (vm_ctx s)) = Some m1"
    "setup_linux_prot_idt m1 = Some m2" "guest_mem (vm_ctx t) = m2"
    "k_sregs (vm_kvm t) = setup_linux_boot_segments
       (sregs\<lparr>s_gdt := \<lparr>dt_base = word_of_nat GDT_ADDR, dt_limit = word_of_nat (GDT_TOTAL_SIZE - 1)\<rparr>,
              s_idt := \<lparr>dt_base = word_of_nat (GDT_ADDR + GDT_TOTAL_SIZE),
                        dt_limit = word_of_nat (256 * 8 - 1)\<rparr>,
              cr0 := 0x11, cr3 := 0, cr4 := 0, efer := 0\<rparr>)"
    and regs: "rip (k_regs (vm_kvm t)) = ucast (entry_point (vm_ctx s))"
    "rsi (k_regs (vm_kvm t)) = (if linux_rsi (vm_ctx s) = LINUX_RSI_HDR then 0x901f1 else 0x90000)"
    "rbp (k_regs (vm_kvm t)) = 0" "rdi (k_regs (vm_kvm t)) = 0" "rbx (k_regs (vm_kvm t)) = 0"
    and run: "k_runnable (vm_kvm t)" "running (vm_ctx t)"
  have gdt: "gm_read m2 (GDT_ADDR + 8 * 2) 8 =
      Some (gdt_bytes (create_gdt_entry 0 0xFFFFF ACCESS_CODE_R LIMIT_GRAN))"
    "gm_read m2 (GDT_ADDR + 8 * 3) 8 =
      Some (gdt_bytes (create_gdt_entry 0 0xFFFFF ACCESS_DATA_W LIMIT_GRAN))"
    using setup_linux_boot_gdt_entries[OF c(1)] prot_idt_spec(3)[OF c(2), of 2]
      prot_idt_spec(3)[OF c(2), of 3] by simp_all
  show ?thesis
    unfolding Let_def
    using prot_idt_spec(1)[OF c(2)] gdt regs run
    by (simp add: c(3,4) setup_linux_boot_segments_def set_segments_def descriptor_at_def
        flat_descriptors gdt_layout LINUX_BOOT_CS_def LINUX_BOOT_DS_def)
qed

section \<open>Failure\<close>

definition quiet :: "vm \<Rightarrow> int \<times> vm \<Rightarrow> bool" where
  "quiet s r \<longleftrightarrow> (fst r = 0 \<or> fst r = - 1) \<and> running (vm_ctx (snd r)) = running (vm_ctx s)"

lemma on_ok_quiet:
  assumes "on_ok r rest = Some q" and "vm_ctx (snd r) = c" and "running c = running (vm_ctx s)"
    and "\<And>u. vm_ctx u = c \<Longrightarrow> rest u = Some q \<Longrightarrow> quiet s q"
  shows "quiet s q"
  using assms by (auto simp: bind_eq_Some_conv on_ok_def quiet_def split: if_splits)

lemma configure_quiet:
  "configure_protected_mode s = Some q \<Longrightarrow> quiet s q"
  "setup_vcpu_longmode s = Some q \<Longrightarrow> quiet s q"
  "configure_linux_boot64_entry s = Some q \<Longrightarrow> quiet s q"
  "configure_linux_code32_entry bp s = Some q \<Longrightarrow> quiet s q"
  "configure_linux_setup_entry sr s = Some q \<Longrightarrow> quiet s q"
proof -
  have ctx: "running c' = running c" if "setup_page_tables c = Some (r, c')" for r c c'
    using setup_page_tables_ctx(1)[OF that] by (metis vcpu_context.surjective vcpu_context.update_convs(3)
        vcpu_context.select_convs(8))
  show "configure_protected_mode s = Some q \<Longrightarrow> quiet s q"
    unfolding configure_protected_mode_def kvm_calls Let_def bind_eq_Some_conv
    by (auto simp: bind_eq_Some_conv on_ok_def quiet_def dest!: ctx split: if_splits)
  show "setup_vcpu_longmode s = Some q \<Longrightarrow> quiet s q"
    unfolding setup_vcpu_longmode_def kvm_calls Let_def bind_eq_Some_conv
    by (auto simp: bind_eq_Some_conv on_ok_def quiet_def split: if_splits)
  show "configure_linux_boot64_entry s = Some q \<Longrightarrow> quiet s q"
    unfolding configure_linux_boot64_entry_def kvm_calls Let_def bind_eq_Some_conv
    by (auto simp: bind_eq_Some_conv on_ok_def quiet_def split: if_splits)
  show "configure_linux_code32_entry bp s = Some q \<Longrightarrow> quiet s q"
    unfolding configure_linux_code32_entry_def kvm_calls Let_def bind_eq_Some_conv
    by (auto simp: bind_eq_Some_conv on_ok_def quiet_def split: if_splits)
  show "configure_linux_setup_entry sr s = Some q \<Longrightarrow> quiet s q"
    unfolding configure_linux_setup_entry_def kvm_calls Let_def
    by (auto simp: bind_eq_Some_conv on_ok_def quiet_def split: if_splits)
qed

text \<open>Ends of the creation: the guest runs exactly when the result is 0.\<close>

definition outcome :: "bool \<Rightarrow> int \<times> vm \<Rightarrow> bool" where
  "outcome was r \<longleftrightarrow>
     fst r = 0 \<and> running (vm_ctx (snd r)) \<and> exit_count (vm_ctx (snd r)) = 0 \<or>
     fst r = - 1 \<and> running (vm_ctx (snd r)) = was"

lemma bind_ok_outcome:
  assumes "bind_ok r finish_vcpu = Some q" and "\<And>p. r = Some p \<Longrightarrow> quiet s p"
  shows "outcome (running (vm_ctx s)) q"
proof -
  obtain p where p: "r = Some p" "on_ok p finish_vcpu = Some q"
    using assms(1) by (auto simp: bind_ok_def bind_eq_Some_conv)
  have "quiet s p" by (rule assms(2)[OF p(1)])
  then show ?thesis
    using p(2) by (auto simp: on_ok_def finish_vcpu_def quiet_def outcome_def split: if_splits)
qed

lemma on_ok_outcome:
  assumes "on_ok r rest = Some q" and "vm_ctx (snd r) = c" and "running c = w"
    and "\<And>u. vm_ctx u = c \<Longrightarrow> rest u = Some q \<Longrightarrow> outcome w q"
  shows "outcome w q"
  using assms by (auto simp: on_ok_def outcome_def split: if_splits)

lemma enter_linux_outcome: "enter_linux sr s = Some q \<Longrightarrow> outcome (running (vm_ctx s)) q"
  unfolding enter_linux_def
  by (erule bind_ok_outcome) (auto intro: configure_quiet split: linux_entry_mode.splits)

lemma enter_guest_outcome:
  assumes "enter_guest sr s = Some q"
  shows "outcome (running (vm_ctx s)) q"
proof -
  have last: "outcome (running (vm_ctx s)) q"
    if "bind_ok (if long_mode (vm_ctx u) then setup_vcpu_longmode u
        else if use_paging (vm_ctx u) then configure_protected_mode u
        else Some (0, u)) finish_vcpu = Some q" "vm_ctx u = vm_ctx s" for u
  proof -
    have "quiet u p" if "(if long_mode (vm_ctx u) then setup_vcpu_longmode u
        else if use_paging (vm_ctx u) then configure_protected_mode u
        else Some (0, u)) = Some p" for p
    proof -
      have "quiet u (0, u)" by (simp add: quiet_def)
      then show ?thesis using that by (auto split: if_splits intro: configure_quiet)
    qed
    from bind_ok_outcome[OF that(1) this] that(2) show ?thesis by simp
  qed
  show ?thesis
    using assms unfolding enter_guest_def kvm_calls
    by (elim on_ok_outcome) (use last in \<open>auto simp del: call_setup_msrs_keeps\<close>)
qed

lemma setup_vcpu_result:
  assumes "setup_vcpu_context s = Some (r, t)"
  shows "outcome (running (vm_ctx s)) (r, t)"
  using assms unfolding setup_vcpu_context_def kvm_calls
  by (auto simp: on_ok_def create_vcpu_def ioctl_def Let_def outcome_def split: if_splits
      dest!: enter_linux_outcome enter_guest_outcome)

text \<open>
  \<^verbatim>\<open>setup_vcpu_context\<close> answers 0 or -1, the guest is marked running exactly when the answer is
  0 (and is otherwise left as it was), and a failure of the first call leaves the context without
  a vCPU descriptor.
\<close>

theorem setup_vcpu_outcome:
  assumes "setup_vcpu_context s = Some (r, t)"
  shows "(r = 0 \<and> running (vm_ctx t) \<and> exit_count (vm_ctx t) = 0 \<or>
          r = - 1 \<and> running (vm_ctx t) = running (vm_ctx s)) \<and>
         (k_fails (vm_kvm s) (k_calls (vm_kvm s)) \<longrightarrow> r = - 1 \<and> vcpu_fd (vm_ctx t) = - 1)"
proof -
  have "outcome (running (vm_ctx s)) (r, t)" by (rule setup_vcpu_result[OF assms])
  moreover have "k_fails (vm_kvm s) (k_calls (vm_kvm s)) \<Longrightarrow> r = - 1 \<and> vcpu_fd (vm_ctx t) = - 1"
    using assms unfolding setup_vcpu_context_def
    by (auto simp: on_ok_def create_vcpu_def ioctl_def Let_def)
  ultimately show ?thesis by (auto simp: outcome_def)
qed

section \<open>Success\<close>

text \<open>A host on which no call fails.\<close>

definition healthy :: "vm \<Rightarrow> bool" where
  "healthy s \<longleftrightarrow> k_fails (vm_kvm s) = (\<lambda>_. False)"

definition succeeds :: "(int \<times> vm) option \<Rightarrow> bool" where
  "succeeds r \<longleftrightarrow> (\<exists>t. r = Some (0, t) \<and> healthy t)"

lemma ioctl_healthy:
  assumes "healthy s" and "\<And>k. k_fails (eff k) = k_fails k"
    and "\<And>u. healthy u \<Longrightarrow> vm_ctx u = vm_ctx s \<Longrightarrow> succeeds (rest u)"
  shows "succeeds (on_ok (ioctl eff s) rest)"
  using assms(1,2) assms(3)[of "snd (ioctl eff s)"]
  by (simp add: on_ok_def ioctl_def healthy_def Let_def)

lemma cpuid_healthy:
  assumes "healthy s" and "\<And>u. healthy u \<Longrightarrow> vm_ctx u = vm_ctx s \<Longrightarrow> succeeds (rest u)"
  shows "succeeds (on_ok (call_setup_cpuid s) rest)"
  using assms(1) assms(2)[of "snd (call_setup_cpuid s)"]
  by (simp add: on_ok_def call_setup_cpuid_def setup_cpuid_def healthy_def Let_def)

lemma on_ok_done: "on_ok (0, u) rest = rest u"
  by (simp add: on_ok_def)

lemma msrs_healthy: "healthy s \<Longrightarrow> healthy (call_setup_msrs s)"
  by (simp add: call_setup_msrs_def ioctl_def healthy_def Let_def)

lemma done_healthy: "healthy s \<Longrightarrow> succeeds (Some (0, s))"
  by (simp add: succeeds_def)

lemma finish_healthy: "healthy s \<Longrightarrow> succeeds (finish_vcpu s)"
  by (simp add: succeeds_def finish_vcpu_def healthy_def)

lemma bind_ok_healthy: "succeeds r \<Longrightarrow> (\<And>u. healthy u \<Longrightarrow> succeeds (rest u)) \<Longrightarrow> succeeds (bind_ok r rest)"
  by (auto simp: succeeds_def bind_ok_def on_ok_def)

lemma healthy_ctx [simp]: "healthy (s\<lparr>vm_ctx := c\<rparr>) = healthy s"
  by (simp add: healthy_def)

lemmas healthy_intros = ioctl_healthy cpuid_healthy done_healthy finish_healthy bind_ok_healthy
  msrs_healthy

lemma protected_mode_succeeds:
  assumes "healthy s" and "gm_size (guest_mem (vm_ctx s)) = mem_size (vm_ctx s)"
    and "0x103000 < mem_size (vm_ctx s)"
  shows "succeeds (configure_protected_mode s)"
proof -
  let ?m = "guest_mem (vm_ctx s)"
  obtain m1 where 1: "setup_gdt ?m = Some m1" "gm_size m1 = gm_size ?m"
    using setup_gdt_defined[of ?m] assms by auto
  obtain m2 where 2: "setup_idt m1 = Some m2" "gm_size m2 = gm_size ?m"
    using setup_idt_defined[of m1] assms 1 by auto
  obtain pd ctx where 3: "setup_page_tables ((vm_ctx s)\<lparr>guest_mem := m2\<rparr>) = Some (pd, ctx)"
    using setup_page_tables_defined[of "(vm_ctx s)\<lparr>guest_mem := m2\<rparr>"] assms(2) 2(2) by auto
  have pd: "\<not> pd < 0"
    using 3 assms(3) by (auto simp: setup_page_tables_def page_offsets bind_eq_Some_conv)
  show ?thesis
    unfolding configure_protected_mode_def Let_def kvm_calls
    by (simp add: 1(1) 2(1) 3 pd)
      (intro healthy_intros; simp add: assms(1))
qed

lemma longmode_succeeds:
  assumes "healthy s" and "0x6000 \<le> gm_size (guest_mem (vm_ctx s))"
  shows "succeeds (setup_vcpu_longmode s)"
proof -
  obtain c m1 where 1: "setup_page_tables_64bit (guest_mem (vm_ctx s)) (word_of_nat (mem_size (vm_ctx s))) =
      Some (c, m1)" "gm_size m1 = gm_size (guest_mem (vm_ctx s))"
    using paging64_defined[OF assms(2)] by blast
  obtain m2 where 2: "setup_gdt_64bit m1 0x5000 = Some m2"
    using setup_gdt_64bit_defined[of "0x5000" m1] 1(2) assms(2) by auto
  show ?thesis
    unfolding setup_vcpu_longmode_def Let_def kvm_calls
    by (simp add: 1(1) 2) (intro healthy_intros; simp add: assms(1))
qed

lemma boot64_succeeds:
  assumes "healthy s" and "0x6000 \<le> gm_size (guest_mem (vm_ctx s))"
  shows "succeeds (configure_linux_boot64_entry s)"
proof -
  obtain c m1 where 1: "setup_page_tables_64bit (guest_mem (vm_ctx s)) (word_of_nat (mem_size (vm_ctx s))) =
      Some (c, m1)" "gm_size m1 = gm_size (guest_mem (vm_ctx s))"
    using paging64_defined[OF assms(2)] by blast
  obtain m2 where 2: "setup_linux_boot_gdt_64bit m1 0x5000 = Some m2"
    using setup_linux_boot_gdt_64bit_defined[of "0x5000" m1] 1(2) assms(2) by auto
  show ?thesis
    unfolding configure_linux_boot64_entry_def Let_def kvm_calls
    by (simp add: 1(1) 2) (intro healthy_intros; simp add: assms(1))
qed

lemma code32_succeeds:
  assumes "healthy s" and "0x8000 \<le> gm_size (guest_mem (vm_ctx s))"
  shows "succeeds (configure_linux_code32_entry bp s)"
proof -
  obtain m1 where 1: "setup_linux_boot_gdt (guest_mem (vm_ctx s)) = Some m1"
    "gm_size m1 = gm_size (guest_mem (vm_ctx s))"
    using setup_linux_boot_gdt_defined[of "guest_mem (vm_ctx s)"] assms(2) by auto
  obtain m2 where 2: "setup_linux_prot_idt m1 = Some m2"
    using prot_idt_defined[of m1] 1(2) assms(2) by auto
  show ?thesis
    unfolding configure_linux_code32_entry_def Let_def kvm_calls
    by (simp add: 1(1) 2) (intro healthy_intros; simp add: assms(1))
qed

lemma linux_setup_succeeds: "healthy s \<Longrightarrow> succeeds (configure_linux_setup_entry sr s)"
  unfolding configure_linux_setup_entry_def Let_def kvm_calls by (intro healthy_intros; simp)

text \<open>The vCPU context after \<^verbatim>\<open>setup_vcpu_memory\<close> and loading has a mapping of its memory size.\<close>

definition ctx_ready :: "vcpu_context \<Rightarrow> bool" where
  "ctx_ready ctx \<longleftrightarrow> mem_size ctx = vcpu_mem_size ctx \<and> gm_size (guest_mem ctx) = mem_size ctx"

lemma setup_vcpu_succeeds:
  assumes "healthy s" and "ctx_ready (vm_ctx s)"
  shows "succeeds (setup_vcpu_context s)"
proof -
  have big: "0x40000 \<le> gm_size (guest_mem (vm_ctx s))"
    using assms(2) by (simp add: ctx_ready_def vcpu_mem_size_def)
  have linux: "succeeds (enter_linux sr u)" if "healthy u" "guest_mem (vm_ctx u) = guest_mem (vm_ctx s)" for sr u
    unfolding enter_linux_def
    by (rule bind_ok_healthy[OF _ finish_healthy])
      (use that big in \<open>auto intro: boot64_succeeds code32_succeeds linux_setup_succeeds
        split: linux_entry_mode.split\<close>)
  have guest: "succeeds (enter_guest sr u)"
    if h: "healthy u" and same: "guest_mem (vm_ctx u) = guest_mem (vm_ctx s)"
      "mem_size (vm_ctx u) = mem_size (vm_ctx s)" "use_paging (vm_ctx u) = use_paging (vm_ctx s)"
      "\<not> linux_guest (vm_ctx s)" for sr u
  proof -
    have "succeeds (if long_mode (vm_ctx w) then setup_vcpu_longmode w
        else if use_paging (vm_ctx w) then configure_protected_mode w else Some (0, w))"
      if "healthy w" "vm_ctx w = vm_ctx u" for w
      using that same big assms(2)
      by (auto intro!: longmode_succeeds protected_mode_succeeds done_healthy
          simp: ctx_ready_def vcpu_mem_size_def)
    then show ?thesis
      unfolding enter_guest_def kvm_calls
      by (intro ioctl_healthy cpuid_healthy bind_ok_healthy[OF _ finish_healthy]) (simp_all add: h)
  qed
  obtain u where u: "create_vcpu s = (0, u)" "healthy u"
    "vm_ctx u = (vm_ctx s)\<lparr>vcpu_fd := k_new_fd (vm_kvm s)\<rparr>"
    using assms(1) by (simp add: create_vcpu_def ioctl_def healthy_def Let_def)
  have "succeeds (if linux_guest (vm_ctx w) then enter_linux (k_sregs (vm_kvm w)) w
      else enter_guest (k_sregs (vm_kvm w)) w)" if "healthy w" "vm_ctx w = vm_ctx u" for w
    using that linux guest u(3) by auto
  then show ?thesis
    unfolding setup_vcpu_context_def kvm_calls
    unfolding u(1) on_ok_done by (intro ioctl_healthy; simp add: u(2))
qed

text \<open>
  C27: Setting up a vCPU works whatever its mode and whatever is loaded in its memory: when no host call
  fails and the context has a mapping of the size that \<^verbatim>\<open>setup_vcpu_memory\<close> chose for its kind, with any
  contents, \<^verbatim>\<open>setup_vcpu_context\<close> returns 0, stays inside the guest memory and marks the vCPU running.
\<close>

theorem setup_vcpu_total:
  assumes "k_fails (vm_kvm s) = (\<lambda>_. False)"
    and "mem_size (vm_ctx s) = vcpu_mem_size (vm_ctx s)"
    and "gm_size (guest_mem (vm_ctx s)) = vcpu_mem_size (vm_ctx s)"
  shows "\<exists>t. setup_vcpu_context s = Some (0, t) \<and> running (vm_ctx t)"
proof -
  have "succeeds (setup_vcpu_context s)"
    using setup_vcpu_succeeds[of s] assms by (simp add: healthy_def ctx_ready_def)
  then obtain t where t: "setup_vcpu_context s = Some (0, t)" by (auto simp: succeeds_def)
  have "running (vm_ctx t)" using setup_vcpu_result[OF t] by (simp add: outcome_def)
  then show ?thesis using t by blast
qed

section \<open>The segment registers and the tables in memory\<close>

definition segment_registers :: "kvm_sregs \<Rightarrow> kvm_segment list" where
  "segment_registers sr = [s_cs sr, s_ds sr, s_es sr, s_fs sr, s_gs sr, s_ss sr]"

text \<open>
  \<open>reloads view t\<close>: loading any segment register anew from its selector gives what it holds, as far as
  \<open>view\<close> shows.
\<close>

definition reloads :: "(kvm_segment \<Rightarrow> kvm_segment) \<Rightarrow> vm \<Rightarrow> bool" where
  "reloads view t \<longleftrightarrow> (\<forall>g \<in> set (segment_registers (k_sregs (vm_kvm t))).
     map_option (\<lambda>d. view (segment_of_descriptor (seg_selector g) d))
       (descriptor_at (guest_mem (vm_ctx t)) (s_gdt (k_sregs (vm_kvm t))) (seg_selector g)) = Some (view g))"

lemma on_ok_chain:
  "on_ok (KVM_GET_SREGS s) rest = Some (0, t) \<Longrightarrow>
     \<exists>u. rest u = Some (0, t) \<and> vm_ctx u = vm_ctx s"
  "on_ok (KVM_SET_SREGS sr s) rest = Some (0, t) \<Longrightarrow>
     \<exists>u. rest u = Some (0, t) \<and> vm_ctx u = vm_ctx s \<and> k_sregs (vm_kvm u) = sr"
  "on_ok (KVM_SET_REGS rg s) rest = Some (0, t) \<Longrightarrow>
     \<exists>u. rest u = Some (0, t) \<and> vm_ctx u = vm_ctx s \<and> k_sregs (vm_kvm u) = k_sregs (vm_kvm s)"
  "on_ok (KVM_SET_MP_STATE_runnable s) rest = Some (0, t) \<Longrightarrow>
     \<exists>u. rest u = Some (0, t) \<and> vm_ctx u = vm_ctx s \<and> k_sregs (vm_kvm u) = k_sregs (vm_kvm s)"
  "on_ok (call_setup_cpuid s) rest = Some (0, t) \<Longrightarrow> \<exists>u. rest u = Some (0, t) \<and> vm_ctx u = vm_ctx s"
  unfolding kvm_calls by (auto dest!: on_ok_ioctl_zero on_ok_cpuid_zero)

lemma flat_selector: "seg_selector (flat_segment sel ty db l) = sel"
  by (simp add: flat_segment_def)

lemma longmode_reloads:
  assumes "setup_vcpu_longmode s = Some (0, t)"
  shows "reloads long_view t"
proof -
  obtain c m1 m2 where m: "setup_gdt_64bit m1 0x5000 = Some m2"
    and rest: "on_ok (call_setup_cpuid (s\<lparr>vm_ctx := (vm_ctx s)\<lparr>guest_mem := m2\<rparr>\<rparr>)) (\<lambda>s.
       on_ok (KVM_GET_SREGS s) (\<lambda>s.
       on_ok (KVM_SET_SREGS (longmode_sregs 0x5000 0x6000 c SELECTOR_KERNEL_CODE_64
                SELECTOR_KERNEL_DATA_64 (k_sregs (vm_kvm s))) s) (\<lambda>s.
       on_ok (KVM_SET_REGS
                (zero_regs\<lparr>rip := ucast (load_offset (vm_ctx s)), rflags := 0x2, rsp := 0x8000\<rparr>) s)
         (\<lambda>s. Some (0, call_setup_msrs s))))) = Some (0, t)"
    using assms unfolding setup_vcpu_longmode_def Let_def by (auto simp: bind_eq_Some_conv)
  obtain sr where t: "guest_mem (vm_ctx t) = m2"
    "k_sregs (vm_kvm t) = longmode_sregs 0x5000 0x6000 c SELECTOR_KERNEL_CODE_64 SELECTOR_KERNEL_DATA_64 sr"
    using rest by (auto dest!: on_ok_chain)
  show ?thesis
    using setup_gdt_64bit_entries[OF m]
    by (simp add: reloads_def segment_registers_def t longmode_sregs_def Let_def descriptor_at_def
        flat_selector gdt_bits long_descriptors)
qed

lemma boot64_reloads:
  assumes "configure_linux_boot64_entry s = Some (0, t)"
  shows "reloads long_view t"
proof -
  obtain c m1 m2 where m: "setup_linux_boot_gdt_64bit m1 0x5000 = Some m2"
    and rest: "on_ok (call_setup_cpuid (s\<lparr>vm_ctx := (vm_ctx s)\<lparr>guest_mem := m2\<rparr>\<rparr>)) (\<lambda>s.
       on_ok (KVM_GET_SREGS s) (\<lambda>s.
       on_ok (KVM_SET_SREGS (longmode_sregs 0x5000 0 c LINUX_BOOT_CS LINUX_BOOT_DS
                (k_sregs (vm_kvm s))) s) (\<lambda>s.
       on_ok (KVM_SET_REGS
                (zero_regs\<lparr>rip := ucast (entry_point (vm_ctx s)), rsi := ucast LINUX_BOOT_PARAMS_ADDR,
                           rsp := 0x9ff00, rflags := 0x2\<rparr>) s) (\<lambda>s.
       on_ok (KVM_SET_MP_STATE_runnable (call_setup_msrs s)) (\<lambda>s. Some (0, s)))))) = Some (0, t)"
    using assms unfolding configure_linux_boot64_entry_def Let_def by (auto simp: bind_eq_Some_conv)
  obtain sr where t: "guest_mem (vm_ctx t) = m2"
    "k_sregs (vm_kvm t) = longmode_sregs 0x5000 0 c LINUX_BOOT_CS LINUX_BOOT_DS sr"
    using rest by (auto dest!: on_ok_chain)
  show ?thesis
    using setup_linux_boot_gdt_64bit_entries[OF m]
    by (simp add: reloads_def segment_registers_def t longmode_sregs_def Let_def descriptor_at_def
        flat_selector gdt_bits long_descriptors)
qed

lemma reloads_ctx: "reloads view (v\<lparr>vm_ctx := (vm_ctx v)\<lparr>running := b, exit_count := n\<rparr>\<rparr>) = reloads view v"
  by (simp add: reloads_def)

lemma boot64_result: "configure_linux_boot64_entry s = Some (r, t) \<Longrightarrow> r = 0 \<or> r = - 1"
  "setup_vcpu_longmode s = Some (r, t) \<Longrightarrow> r = 0 \<or> r = - 1"
  unfolding configure_linux_boot64_entry_def setup_vcpu_longmode_def Let_def
  by (auto simp: bind_eq_Some_conv on_ok_def split: if_splits)

lemma protected_reloads:
  assumes "setup_vcpu_context s = Some (0, t)" and "\<not> linux_guest (vm_ctx s)" "\<not> long_mode (vm_ctx s)" "use_paging (vm_ctx s)"
  shows "reloads id t"
proof (rule paging_created[OF assms])
  fix u v fd
  assume u: "configure_protected_mode u = Some (0, v)" "t = v\<lparr>vm_ctx := (vm_ctx v)\<lparr>running := True, exit_count := 0\<rparr>\<rparr>"
  have "reloads id v"
    using protected_mode_tables(1)[OF u(1)]
    by (simp add: reloads_def protected_ready_def segment_registers_def Let_def)
  then show ?thesis unfolding u(2) reloads_ctx .
qed

lemma code32_reloads:
  assumes "setup_vcpu_context s = Some (0, t)"
    and "linux_guest (vm_ctx s)" "linux_entry (vm_ctx s) = LINUX_ENTRY_CODE32"
  shows "reloads id t"
proof (rule code32_created[OF assms])
  fix m1 m2 sregs
  assume c: "setup_linux_boot_gdt (guest_mem (vm_ctx s)) = Some m1"
    "setup_linux_prot_idt m1 = Some m2" "guest_mem (vm_ctx t) = m2"
    "k_sregs (vm_kvm t) = setup_linux_boot_segments
       (sregs\<lparr>s_gdt := \<lparr>dt_base = word_of_nat GDT_ADDR, dt_limit = word_of_nat (GDT_TOTAL_SIZE - 1)\<rparr>,
              s_idt := \<lparr>dt_base = word_of_nat (GDT_ADDR + GDT_TOTAL_SIZE),
                        dt_limit = word_of_nat (256 * 8 - 1)\<rparr>,
              cr0 := 0x11, cr3 := 0, cr4 := 0, efer := 0\<rparr>)"
  have gdt: "gm_read m2 (GDT_ADDR + 8 * 2) 8 =
      Some (gdt_bytes (create_gdt_entry 0 0xFFFFF ACCESS_CODE_R LIMIT_GRAN))"
    "gm_read m2 (GDT_ADDR + 8 * 3) 8 =
      Some (gdt_bytes (create_gdt_entry 0 0xFFFFF ACCESS_DATA_W LIMIT_GRAN))"
    using setup_linux_boot_gdt_entries[OF c(1)] prot_idt_spec(3)[OF c(2), of 2]
      prot_idt_spec(3)[OF c(2), of 3] by simp_all
  show ?thesis
    using gdt by (simp add: reloads_def segment_registers_def c(3,4) setup_linux_boot_segments_def set_segments_def
        descriptor_at_def flat_selector flat_descriptors gdt_layout LINUX_BOOT_CS_def LINUX_BOOT_DS_def)
qed

lemma longmode_created_reloads:
  assumes "setup_vcpu_context s = Some (0, t)" and "\<not> linux_guest (vm_ctx s)" "long_mode (vm_ctx s)"
  shows "reloads long_view t"
proof (rule create_guest_zero[OF assms(1,2)])
  fix u v i
  assume u: "(if long_mode (vm_ctx s) then setup_vcpu_longmode u
      else if use_paging (vm_ctx s) then configure_protected_mode u else Some (0, u)) = Some (i, v)" "0 \<le> i"
    "t = v\<lparr>vm_ctx := (vm_ctx v)\<lparr>running := True, exit_count := 0\<rparr>\<rparr>"
  then have l: "setup_vcpu_longmode u = Some (i, v)" using assms(3) by simp
  then have "i = 0" using boot64_result(2)[OF l] u(2) by simp
  then show ?thesis using longmode_reloads[of u v] l unfolding u(3) reloads_ctx by simp
qed

lemma boot64_created_reloads:
  assumes "setup_vcpu_context s = Some (0, t)"
    and "linux_guest (vm_ctx s)" "linux_entry (vm_ctx s) = LINUX_ENTRY_BOOT64"
  shows "reloads long_view t"
proof -
  obtain u fd where u: "vm_ctx u = (vm_ctx s)\<lparr>vcpu_fd := fd\<rparr>"
    "enter_linux (k_sregs (vm_kvm u)) u = Some (0, t)"
    using assms(2) by (auto intro: create_zero[OF assms(1)])
  obtain v i where v: "configure_linux_boot64_entry u = Some (i, v)" "0 \<le> i"
    "t = v\<lparr>vm_ctx := (vm_ctx v)\<lparr>running := True, exit_count := 0\<rparr>\<rparr>"
    using u(2) assms(3) unfolding enter_linux_def bind_ok_zero by (auto simp: u(1))
  then have "i = 0" using boot64_result(1)[OF v(1)] by simp
  then show ?thesis using boot64_reloads[of u v] v(1) unfolding v(3) reloads_ctx by simp
qed


section \<open>Worked instances\<close>

text \<open>A host on which no call fails, and a vCPU with the zeroed memory of its kind.\<close>

definition reset_sregs :: kvm_sregs where
  "reset_sregs =
     (let seg = flat_segment 0 0x3 0 0; dt = \<lparr>dt_base = 0, dt_limit = 0xFFFF\<rparr> in
      \<lparr>s_cs = seg, s_ds = seg, s_es = seg, s_fs = seg, s_gs = seg, s_ss = seg, s_gdt = dt,
       s_idt = dt, cr0 = 0x60000010, cr3 = 0, cr4 = 0, efer = 0\<rparr>)"

definition sample_host :: kvm_vcpu where
  "sample_host =
     \<lparr>k_calls = 0, k_fails = (\<lambda>_. False), k_new_fd = 7, k_supported = [], k_sregs = reset_sregs,
      k_regs = zero_regs, k_cpuid = None, k_msrs = [], k_runnable = False\<rparr>"

definition sample_vm :: "vcpu_context \<Rightarrow> vm" where
  "sample_vm ctx = \<lparr>vm_ctx = fst (snd (setup_vcpu_memory True True ctx)), vm_kvm = sample_host\<rparr>"

lemma sample_vm_ctx [simp]:
  "vm_ctx (sample_vm ctx) = ctx\<lparr>mem_size := vcpu_mem_size ctx,
     guest_mem := \<lparr>gm_size = vcpu_mem_size ctx, gm_data = (\<lambda>_. 0)\<rparr>\<rparr>"
  by (simp add: sample_vm_def setup_vcpu_memory_def Let_def)

lemma sample_vm_memory:
  "\<exists>region. setup_vcpu_memory True True ctx = (0, vm_ctx (sample_vm ctx), Some region)"
  by (simp add: setup_vcpu_memory_def Let_def)

lemma sample_vm_runs: "\<exists>t. setup_vcpu_context (sample_vm ctx) = Some (0, t)"
proof -
  have "healthy (sample_vm ctx)" by (simp add: healthy_def sample_vm_def sample_host_def)
  moreover have "ctx_ready (vm_ctx (sample_vm ctx))" by (simp add: ctx_ready_def vcpu_mem_size_def)
  ultimately have "succeeds (setup_vcpu_context (sample_vm ctx))" by (rule setup_vcpu_succeeds)
  then show ?thesis by (auto simp: succeeds_def)
qed

definition paging_ctx :: "nat \<Rightarrow> vcpu_context" where
  "paging_ctx i = zero_context\<lparr>vcpu_id := i, use_paging := True, entry_point := 0x80001000\<rparr>"

definition code32_ctx :: vcpu_context where
  "code32_ctx = zero_context\<lparr>linux_guest := True, linux_entry := LINUX_ENTRY_CODE32,
     entry_point := 0x100000\<rparr>"

definition long_ctx :: vcpu_context where
  "long_ctx = zero_context\<lparr>use_paging := True, long_mode := True, load_offset := 0x1000\<rparr>"

lemmas sample_ctx_defs = paging_ctx_def code32_ctx_def long_ctx_def zero_context_def

theorem protected_mode_keeps_image_witness:
  "\<exists>t. configure_protected_mode (sample_vm (paging_ctx 0)) = Some (0, t) \<and>
     gm_read (guest_mem (vm_ctx t)) 0x1000 16 =
     gm_read (guest_mem (vm_ctx (sample_vm (paging_ctx 0)))) 0x1000 16"
proof -
  have "succeeds (configure_protected_mode (sample_vm (paging_ctx 0)))"
    by (rule protected_mode_succeeds)
      (simp_all add: healthy_def sample_vm_def sample_host_def setup_vcpu_memory_def Let_def
        vcpu_mem_size_def sample_ctx_defs)
  then obtain t where run: "configure_protected_mode (sample_vm (paging_ctx 0)) = Some (0, t)"
    by (auto simp: succeeds_def)
  from protected_mode_keeps_image[OF run, of "0x1000" 16] run show ?thesis by auto
qed

theorem paging_vcpu_ready_witness:
  "\<exists>t. setup_vcpu_context (sample_vm (paging_ctx 0)) = Some (0, t) \<and> protected_ready t \<and>
     rip (k_regs (vm_kvm t)) = 0x80001000"
proof -
  obtain t where run: "setup_vcpu_context (sample_vm (paging_ctx 0)) = Some (0, t)"
    using sample_vm_runs by blast
  from paging_vcpu_ready[OF run] run show ?thesis by (simp add: sample_ctx_defs)
qed

theorem realmode_vcpu_starts_in_region_witness:
  "\<exists>t. setup_vcpu_context (sample_vm (zero_context\<lparr>vcpu_id := 2\<rparr>)) = Some (0, t) \<and>
     seg_base (s_cs (k_sregs (vm_kvm t))) + rip (k_regs (vm_kvm t)) = 0x80000"
proof -
  let ?ctx = "zero_context\<lparr>vcpu_id := 2\<rparr>"
  have mem: "setup_vcpu_memory True True ?ctx = (0, vm_ctx (sample_vm ?ctx),
      Some \<lparr>region_slot = 2, guest_phys_addr = 0x80000, region_memory_size = 0x40000\<rparr>)"
    by (simp add: setup_vcpu_memory_def Let_def vcpu_mem_size_def zero_context_def)
  obtain t where run: "setup_vcpu_context (sample_vm ?ctx) = Some (0, t)"
    using sample_vm_runs by blast
  from realmode_vcpu_starts_in_region[OF mem refl run] run show ?thesis
    by (simp add: zero_context_def MAX_VCPUS_def Let_def)
qed

theorem vcpu_regions_disjoint_witness:
  "\<exists>r1 r2 c1 c2. setup_vcpu_memory True True (paging_ctx 0) = (0, c1, Some r1) \<and>
     setup_vcpu_memory True True (paging_ctx 1) = (0, c2, Some r2) \<and>
     unat (guest_phys_addr r1) + unat (region_memory_size r1) \<le> unat (guest_phys_addr r2)"
proof -
  obtain r1 r2 where
    m: "setup_vcpu_memory True True (paging_ctx 0) = (0, vm_ctx (sample_vm (paging_ctx 0)), Some r1)"
      "setup_vcpu_memory True True (paging_ctx 1) = (0, vm_ctx (sample_vm (paging_ctx 1)), Some r2)"
    using sample_vm_memory by metis
  from vcpu_regions_disjoint[OF m] m show ?thesis
    by (simp add: sample_ctx_defs MAX_VCPUS_def)
qed

theorem paging_cr3_outside_region_witness:
  "\<exists>t. setup_vcpu_context (sample_vm (paging_ctx 1)) = Some (0, t) \<and>
     cr3 (k_sregs (vm_kvm t)) < 0x400000"
proof -
  have mem: "setup_vcpu_memory True True (paging_ctx 1) = (0, vm_ctx (sample_vm (paging_ctx 1)),
      Some \<lparr>region_slot = 1, guest_phys_addr = 0x400000, region_memory_size = 0x400000\<rparr>)"
    by (simp add: setup_vcpu_memory_def Let_def vcpu_mem_size_def sample_ctx_defs)
  obtain t where run: "setup_vcpu_context (sample_vm (paging_ctx 1)) = Some (0, t)"
    using sample_vm_runs by blast
  from paging_cr3_outside_region[OF mem refl run] run show ?thesis
    by (simp add: sample_ctx_defs MAX_VCPUS_def)
qed

theorem longmode_overwrites_image_witness:
  "\<exists>t. setup_vcpu_longmode (sample_vm long_ctx) = Some (0, t) \<and>
     gm_read (guest_mem (vm_ctx t)) 0x2008 0xFF8 = Some (replicate 0xFF8 0)"
proof -
  have "succeeds (setup_vcpu_longmode (sample_vm long_ctx))"
    by (rule longmode_succeeds)
      (simp_all add: healthy_def sample_vm_def sample_host_def setup_vcpu_memory_def Let_def
        vcpu_mem_size_def sample_ctx_defs)
  then obtain t where run: "setup_vcpu_longmode (sample_vm long_ctx) = Some (0, t)"
    by (auto simp: succeeds_def)
  from longmode_overwrites_image[OF run] run show ?thesis by blast
qed

theorem linux_code32_ready_witness:
  "\<exists>t. setup_vcpu_context (sample_vm code32_ctx) = Some (0, t) \<and>
     rsi (k_regs (vm_kvm t)) = 0x90000 \<and> rip (k_regs (vm_kvm t)) = 0x100000"
proof -
  obtain t where run: "setup_vcpu_context (sample_vm code32_ctx) = Some (0, t)"
    using sample_vm_runs by blast
  from linux_code32_ready[OF run] run show ?thesis
    by (simp add: sample_ctx_defs Let_def)
qed

theorem setup_vcpu_outcome_witness:
  "\<exists>t. setup_vcpu_context (sample_vm long_ctx) = Some (0, t) \<and> running (vm_ctx t)"
proof -
  obtain t where run: "setup_vcpu_context (sample_vm long_ctx) = Some (0, t)"
    using sample_vm_runs by blast
  from setup_vcpu_outcome[OF run] run show ?thesis by simp
qed

text \<open>A context whose memory holds code everywhere.\<close>

theorem setup_vcpu_total_witness:
  "\<exists>t. setup_vcpu_context \<lparr>vm_ctx = code32_ctx\<lparr>mem_size := 0x10000000,
       guest_mem := \<lparr>gm_size = 0x10000000, gm_data = (\<lambda>_. 0xCC)\<rparr>\<rparr>, vm_kvm = sample_host\<rparr> = Some (0, t) \<and>
     running (vm_ctx t)"
  by (rule setup_vcpu_total) (simp_all add: sample_host_def vcpu_mem_size_def sample_ctx_defs)


end
