(* ===== verification/Linux_Boot.thy ===== *)
theory Linux_Boot
  imports Guest_Memory
begin

text \<open>
  The Linux boot protocol (\<^verbatim>\<open>linux_boot.c\<close>, \<^verbatim>\<open>linux_boot.h\<close>): the zero page with its E820 map, and
  the placement of the bzImage and of the initrd in guest memory. \<^verbatim>\<open>struct boot_params\<close> lives in
  guest memory, so it is an address \<open>bp\<close> here and its packed fields are loads and stores at their
  offsets. A file is its list of bytes (\<open>None\<close>: it cannot be opened); \<^verbatim>\<open>read\<close> returns what is left
  of it. Allocation failures of the host are not modelled.
\<close>

section \<open>Constants\<close>

definition LINUX_BOOT_SIGNATURE :: u32 where "LINUX_BOOT_SIGNATURE = 0x53726448"
definition LOADER_TYPE_UNDEFINED :: u8 where "LOADER_TYPE_UNDEFINED = 0xFF"
definition KERNEL_LOAD_ADDR :: nat where "KERNEL_LOAD_ADDR = 0x100000"
definition REAL_MODE_ADDR :: nat where "REAL_MODE_ADDR = 0x10000"
definition COMMAND_LINE_ADDR :: nat where "COMMAND_LINE_ADDR = 0x20000"
definition INITRD_ADDR_MAX :: u32 where "INITRD_ADDR_MAX = 0x37FFFFFF"
definition LOADED_HIGH :: u8 where "LOADED_HIGH = push_bit 0 1"
definition XLF_KERNEL_64 :: u16 where "XLF_KERNEL_64 = push_bit 0 1"
definition E820_RAM :: u32 where "E820_RAM = 1"
definition E820_RESERVED :: u32 where "E820_RESERVED = 2"

text \<open>Offsets inside the zero page; the setup header is the 119 bytes from 0x1f1 to 0x267.\<close>

definition off_e820_entries :: nat where "off_e820_entries = 0x1e8"
definition off_hdr :: nat where "off_hdr = 0x1f1"
definition hdr_size :: nat where "hdr_size = 119"
definition off_boot_flag :: nat where "off_boot_flag = 0x1fe"
definition off_header :: nat where "off_header = 0x202"
definition off_type_of_loader :: nat where "off_type_of_loader = 0x210"
definition off_loadflags :: nat where "off_loadflags = 0x211"
definition off_code32_start :: nat where "off_code32_start = 0x214"
definition off_ramdisk_image :: nat where "off_ramdisk_image = 0x218"
definition off_ramdisk_size :: nat where "off_ramdisk_size = 0x21c"
definition off_cmd_line_ptr :: nat where "off_cmd_line_ptr = 0x228"
definition off_initrd_addr_max :: nat where "off_initrd_addr_max = 0x22c"
definition off_xloadflags :: nat where "off_xloadflags = 0x236"
definition off_init_size :: nat where "off_init_size = 0x260"
definition off_e820_map :: nat where "off_e820_map = 0x2d0"
definition boot_params_size :: nat where "boot_params_size = 4096"

lemmas boot_offsets = off_e820_entries_def off_hdr_def hdr_size_def off_boot_flag_def
  off_header_def off_type_of_loader_def off_loadflags_def off_code32_start_def
  off_ramdisk_image_def off_ramdisk_size_def off_cmd_line_ptr_def off_initrd_addr_max_def
  off_xloadflags_def off_init_size_def off_e820_map_def boot_params_size_def
lemmas boot_addrs = KERNEL_LOAD_ADDR_def REAL_MODE_ADDR_def COMMAND_LINE_ADDR_def

section \<open>The zero page\<close>

definition add_e820_entry :: "nat \<Rightarrow> u64 \<Rightarrow> u64 \<Rightarrow> u32 \<Rightarrow> gmem \<Rightarrow> gmem option" where
  "add_e820_entry bp addr size_v type m =
     do {
       n \<leftarrow> load8 m (bp + off_e820_entries);
       if 128 \<le> n then Some m
       else do {
         let entry = bp + off_e820_map + unat n * 20;
         m \<leftarrow> store64 m entry addr;
         m \<leftarrow> store64 m (entry + 8) size_v;
         m \<leftarrow> store32 m (entry + 16) type;
         store8 m (bp + off_e820_entries) (n + 1)
       }
     }"

text \<open>\<open>has_cmdline\<close> is \<^verbatim>\<open>cmdline != NULL\<close>; the string itself is only printed.\<close>

definition setup_linux_boot_params :: "nat \<Rightarrow> nat \<Rightarrow> bool \<Rightarrow> gmem \<Rightarrow> gmem option" where
  "setup_linux_boot_params bp mem_sz has_cmdline m =
     do {
       saved_hdr \<leftarrow> gm_read m (bp + off_hdr) hdr_size;
       m \<leftarrow> gm_fill m bp 0 boot_params_size;
       m \<leftarrow> gm_write m (bp + off_hdr) saved_hdr;
       m \<leftarrow> add_e820_entry bp 0 (640 * 1024) E820_RAM m;
       m \<leftarrow> add_e820_entry bp (640 * 1024) (384 * 1024) E820_RESERVED m;
       m \<leftarrow> (if 1024 * 1024 < mem_sz
             then add_e820_entry bp (1024 * 1024) (word_of_nat (mem_sz - 1024 * 1024)) E820_RAM m
             else Some m);
       m \<leftarrow> (if has_cmdline
             then store32 m (bp + off_cmd_line_ptr) (word_of_nat COMMAND_LINE_ADDR)
             else Some m);
       m \<leftarrow> store8 m (bp + off_type_of_loader) LOADER_TYPE_UNDEFINED;
       store32 m (bp + off_initrd_addr_max) INITRD_ADDR_MAX
     }"

section \<open>Loading the kernel\<close>

text \<open>
  The first 4096 bytes of the file; \<open>junk\<close> is the content of the fresh buffer, which shows behind
  a shorter file.
\<close>

definition setup_buffer :: "u8 list \<Rightarrow> u8 list \<Rightarrow> u8 list" where
  "setup_buffer file junk = take 4096 file @ drop (length (take 4096 file)) junk"

definition hdr_u8 :: "u8 list \<Rightarrow> nat \<Rightarrow> u8" where
  "hdr_u8 buf off = buf ! off"

definition hdr_u16 :: "u8 list \<Rightarrow> nat \<Rightarrow> u16" where
  "hdr_u16 buf off = from_le (take 2 (drop off buf))"

definition hdr_u32 :: "u8 list \<Rightarrow> nat \<Rightarrow> u32" where
  "hdr_u32 buf off = from_le (take 4 (drop off buf))"

definition bzimage_setup_size :: "u8 \<Rightarrow> nat" where
  "bzimage_setup_size setup_sects =
     (if setup_sects = 0 then 4 * 512 else (unat setup_sects + 1) * 512)"

definition load_linux_kernel ::
  "u8 list option \<Rightarrow> u8 list \<Rightarrow> nat \<Rightarrow> nat \<Rightarrow> gmem \<Rightarrow> (int \<times> gmem) option" where
  "load_linux_kernel file_opt junk mem_sz bp m =
     (case file_opt of
        None \<Rightarrow> Some (- 1, m)
      | Some file \<Rightarrow>
          (let buf = setup_buffer file junk in
           if length (take 4096 file) < 512 then Some (- 1, m)
           else if hdr_u16 buf off_boot_flag \<noteq> 0xAA55 then Some (- 1, m)
           else if hdr_u32 buf off_header \<noteq> LINUX_BOOT_SIGNATURE then Some (- 1, m)
           else if hdr_u8 buf off_loadflags AND LOADED_HIGH = 0 then Some (- 1, m)
           else do {
             let setup_size = bzimage_setup_size (hdr_u8 buf off_hdr);
             m \<leftarrow> gm_write m (bp + off_hdr) (take hdr_size (drop off_hdr buf));
             if length file < setup_size then Some (- 1, m)
             else if REAL_MODE_ADDR + setup_size > mem_sz then Some (- 1, m)
             else do {
               m \<leftarrow> gm_write m REAL_MODE_ADDR (take setup_size file);
               let kernel = drop setup_size file;
               if KERNEL_LOAD_ADDR + length kernel > mem_sz then Some (- 1, m)
               else do {
                 m \<leftarrow> gm_write m KERNEL_LOAD_ADDR kernel;
                 start \<leftarrow> load32 m (bp + off_code32_start);
                 m \<leftarrow> (if start = 0 then store32 m (bp + off_code32_start) (word_of_nat KERNEL_LOAD_ADDR)
                       else Some m);
                 Some (0, m)
               }
             }
           }))"

section \<open>Loading the initrd\<close>

text \<open>
  The 64-bit sums of the source do not wrap: the header fields have 32 bits and the memory size
  is below 2^63, so they are natural numbers here. \<open>path\<close> is \<open>None\<close> for a null pointer.
\<close>

definition load_initrd ::
  "u8 list option option \<Rightarrow> nat \<Rightarrow> nat \<Rightarrow> gmem \<Rightarrow> (int \<times> gmem) option" where
  "load_initrd path mem_sz bp m =
     (case path of
        None \<Rightarrow> Some (0, m)
      | Some None \<Rightarrow> Some (- 1, m)
      | Some (Some file) \<Rightarrow>
          (let st_size = length file in
           if st_size = 0 then Some (- 1, m)
           else if st_size > mem_sz then Some (- 1, m)
           else do {
             addr_max \<leftarrow> load32 m (bp + off_initrd_addr_max);
             let max_end = (if unat addr_max \<ge> mem_sz then mem_sz - 1 else unat addr_max);
             if st_size > max_end + 1 then Some (- 1, m)
             else do {
               let desired_start = (max_end + 1 - st_size) div 0x1000 * 0x1000;
               init_size \<leftarrow> load32 m (bp + off_init_size);
               let kernel_end = KERNEL_LOAD_ADDR + unat init_size;
               if desired_start < kernel_end then Some (- 1, m)
               else do {
                 m \<leftarrow> gm_write m desired_start file;
                 m \<leftarrow> store32 m (bp + off_ramdisk_image) (word_of_nat desired_start);
                 m \<leftarrow> store32 m (bp + off_ramdisk_size) (word_of_nat st_size);
                 m \<leftarrow> store32 m (bp + off_initrd_addr_max) INITRD_ADDR_MAX;
                 Some (0, m)
               }
             }
           }))"

section \<open>The E820 map\<close>

text \<open>Entry \<open>i\<close> of the map: base, length and type.\<close>

definition e820_entry :: "gmem \<Rightarrow> nat \<Rightarrow> nat \<Rightarrow> (u64 \<times> u64 \<times> u32) option" where
  "e820_entry m bp i =
     do {
       addr \<leftarrow> load64 m (bp + off_e820_map + i * 20);
       len \<leftarrow> load64 m (bp + off_e820_map + i * 20 + 8);
       type \<leftarrow> load32 m (bp + off_e820_map + i * 20 + 16);
       Some (addr, len, type)
     }"

lemma load_cong:
  "gm_read m' a 1 = gm_read m a 1 \<Longrightarrow> load8 m' a = load8 m a"
  "gm_read m' a 4 = gm_read m a 4 \<Longrightarrow> load32 m' a = load32 m a"
  "gm_read m' a 8 = gm_read m a 8 \<Longrightarrow> load64 m' a = load64 m a"
  "gm_read m' a 2 = gm_read m a 2 \<Longrightarrow> load16 m' a = load16 m a"
  by (simp_all add: load8_def load32_def load64_def load16_def)

lemma add_e820_spec:
  assumes "load8 m (bp + off_e820_entries) = Some n" and "n < 128"
    and "add_e820_entry bp addr len type m = Some m'"
  shows "load8 m' (bp + off_e820_entries) = Some (n + 1)"
    and "e820_entry m' bp (unat n) = Some (addr, len, type)"
    and "i \<noteq> unat n \<Longrightarrow> e820_entry m' bp i = e820_entry m bp i"
    and "b + k \<le> bp + 0x1e8 \<or> bp + 0x1e9 \<le> b \<and> b + k \<le> bp + 0x2d0 \<Longrightarrow>
      gm_read m' b k = gm_read m b k"
    and "gm_size m' = gm_size m"
    and "bp + boot_params_size \<le> b \<Longrightarrow> gm_read m' b k = gm_read m b k"
proof -
  let ?e = "bp + off_e820_map + unat n * 20"
  obtain m1 m2 m3 where s: "store64 m ?e addr = Some m1" "store64 m1 (?e + 8) len = Some m2"
    "store32 m2 (?e + 16) type = Some m3" "store8 m3 (bp + off_e820_entries) (n + 1) = Some m'"
    using assms unfolding add_e820_entry_def
    by (auto simp: bind_eq_Some_conv Let_def linorder_not_le[symmetric])
  show "load8 m' (bp + off_e820_entries) = Some (n + 1)" by (rule load8_store8[OF s(4)])
  show "gm_size m' = gm_size m"
    using store8_size[OF s(4)] store32_size[OF s(3)] store64_size[OF s(2)] store64_size[OF s(1)] by simp
  have frame: "gm_read m' b k = gm_read m b k"
    if "b + k \<le> bp + 0x1e8 \<or> bp + 0x1e9 \<le> b" "b + k \<le> ?e \<or> ?e + 20 \<le> b" for b k
    using store_frame(1)[OF s(4), of b k] store_frame(2)[OF s(3), of b k]
      store_frame(3)[OF s(2), of b k] store_frame(3)[OF s(1), of b k] that
    by (auto simp: off_e820_entries_def)
  show "gm_read m' b k = gm_read m b k"
    if "b + k \<le> bp + 0x1e8 \<or> bp + 0x1e9 \<le> b \<and> b + k \<le> bp + 0x2d0"
    using frame[of b k] that by (auto simp: off_e820_map_def)
  have "unat n * 20 \<le> 127 * 20" using assms(2) by (simp add: word_less_nat_alt)
  then show "gm_read m' b k = gm_read m b k" if "bp + boot_params_size \<le> b"
    by (intro frame) (use that in \<open>auto simp: boot_offsets\<close>)
  have last: "gm_read m' b k = gm_read m3 b k" if "?e \<le> b" for b k
    by (rule store_frame(1)[OF s(4)]) (use that in \<open>simp add: boot_offsets\<close>)
  have "load32 m' (?e + 16) = Some type"
    using load_cong(2)[OF last] load32_store32[OF s(3)] by simp
  moreover have "load64 m' (?e + 8) = Some len"
    using load_cong(3)[OF last] load64_frame[OF s(3)[unfolded store32_def], of "?e + 8"]
      load64_store64[OF s(2)] by simp
  moreover have "load64 m' ?e = Some addr"
    using load_cong(3)[OF last[OF order.refl]] load64_frame[OF s(3)[unfolded store32_def], of ?e]
      load64_frame[OF s(2)[unfolded store64_def], of ?e] load64_store64[OF s(1)] by simp
  ultimately show "e820_entry m' bp (unat n) = Some (addr, len, type)" by (simp add: e820_entry_def)
  show "e820_entry m' bp i = e820_entry m bp i" if "i \<noteq> unat n"
  proof -
    have "i * 20 + 20 \<le> unat n * 20 \<or> unat n * 20 + 20 \<le> i * 20" using that by linarith
    then have "gm_read m' (bp + off_e820_map + i * 20 + d) k =
        gm_read m (bp + off_e820_map + i * 20 + d) k" if "d + k \<le> 20" for d k
      by (intro frame) (use that in \<open>auto simp: boot_offsets\<close>)
    from this[of 0 8] this[of 8 8] this[of 16 4] show ?thesis
      unfolding e820_entry_def by (simp add: load64_def load32_def)
  qed
qed

lemma header_copy:
  assumes "gm_read m (bp + off_hdr) hdr_size = Some h" and "gm_fill m bp 0 boot_params_size = Some m1"
    and "gm_write m1 (bp + off_hdr) h = Some m2"
  shows "load8 m2 (bp + off_e820_entries) = Some 0"
    and "gm_read m2 (bp + off_hdr) hdr_size = gm_read m (bp + off_hdr) hdr_size"
    and "gm_size m2 = gm_size m"
proof -
  have h: "length h = hdr_size" using assms(1) by (auto simp: gm_read_def split: if_splits)
  have "gm_read m2 (bp + off_e820_entries) 1 = gm_read m1 (bp + off_e820_entries) 1"
    by (rule gm.rd_wr_other[OF assms(3)]) (simp add: boot_offsets)
  also have "\<dots> = Some [0]" using gm_read_fill[OF assms(2), of "bp + off_e820_entries" 1]
    by (simp add: boot_offsets)
  finally show "load8 m2 (bp + off_e820_entries) = Some 0" by (simp add: load8_def)
  show "gm_read m2 (bp + off_hdr) hdr_size = gm_read m (bp + off_hdr) hdr_size"
    using gm.rd_wr_same[OF assms(3)] h assms(1) by simp
  show "gm_size m2 = gm_size m" using gm_write_size[OF assms(3)] gm_fill_size[OF assms(2)] by simp
qed

text \<open>The stores that follow the map change only three fields of the setup header.\<close>

definition outside_map :: "nat \<Rightarrow> nat \<Rightarrow> nat \<Rightarrow> bool" where
  "outside_map bp b k \<longleftrightarrow> b + k \<le> bp + 0x1e8 \<or> bp + 0x1e9 \<le> b \<and> b + k \<le> bp + 0x2d0"

lemma boot_params_tail:
  assumes "(if has_cmdline then store32 m (bp + off_cmd_line_ptr) (word_of_nat COMMAND_LINE_ADDR)
            else Some m) = Some m1"
    and "store8 m1 (bp + off_type_of_loader) LOADER_TYPE_UNDEFINED = Some m2"
    and "store32 m2 (bp + off_initrd_addr_max) INITRD_ADDR_MAX = Some m3"
    and "b + k \<le> bp + 0x210 \<or> bp + 0x211 \<le> b \<and> b + k \<le> bp + 0x228 \<or> bp + 0x230 \<le> b"
  shows "gm_read m3 b k = gm_read m b k"
proof -
  have "gm_read m3 b k = gm_read m2 b k"
    by (rule store_frame(2)[OF assms(3)]) (use assms(4) in \<open>auto simp: boot_offsets\<close>)
  also have "\<dots> = gm_read m1 b k"
    by (rule store_frame(1)[OF assms(2)]) (use assms(4) in \<open>auto simp: boot_offsets\<close>)
  also have "\<dots> = gm_read m b k"
  proof (cases has_cmdline)
    case True
    then have "store32 m (bp + off_cmd_line_ptr) (word_of_nat COMMAND_LINE_ADDR) = Some m1"
      using assms(1) by simp
    then show ?thesis
      by (rule store_frame(2)) (use assms(4) in \<open>auto simp: boot_offsets\<close>)
  qed (use assms(1) in simp)
  finally show ?thesis .
qed

lemma tail_e820:
  assumes "\<And>b k. bp + 0x2d0 \<le> b \<Longrightarrow> gm_read m' b k = gm_read m b k"
  shows "e820_entry m' bp i = e820_entry m bp i"
  using assms[of "bp + off_e820_map + i * 20" 8] assms[of "bp + off_e820_map + i * 20 + 8" 8]
    assms[of "bp + off_e820_map + i * 20 + 16" 4]
  by (simp add: e820_entry_def load64_def load32_def boot_offsets)

lemma gm_read_sub:
  assumes "gm_read m' a n = gm_read m a n" and "gm_read m a n = Some h"
    and "a \<le> b" and "b + k \<le> a + n"
  shows "gm_read m' b k = gm_read m b k"
proof -
  have sz: "a + n \<le> gm_size m" "a + n \<le> gm_size m'" using assms(1,2)
    by (auto simp: gm_read_def split: if_splits)
  then have "map (gm_data m') [a..<a + n] = map (gm_data m) [a..<a + n]"
    using assms(1) by (simp add: gm_read_def)
  then have "gm_data m' x = gm_data m x" if "a \<le> x" "x < a + n" for x using that by simp
  then show ?thesis using sz assms(3,4) by (simp add: gm_read_def)
qed

lemma boot_params_steps:
  assumes "setup_linux_boot_params bp mem_sz has_cmdline m = Some m'"
  obtains m2 m3 m4 m5 where "load8 m2 (bp + off_e820_entries) = Some 0"
    "gm_read m2 (bp + off_hdr) hdr_size = gm_read m (bp + off_hdr) hdr_size"
    "gm_read m (bp + off_hdr) hdr_size \<noteq> None"
    "add_e820_entry bp 0 (640 * 1024) E820_RAM m2 = Some m3"
    "add_e820_entry bp (640 * 1024) (384 * 1024) E820_RESERVED m3 = Some m4"
    "(if 1024 * 1024 < mem_sz
      then add_e820_entry bp (1024 * 1024) (word_of_nat (mem_sz - 1024 * 1024)) E820_RAM m4
      else Some m4) = Some m5"
    "\<And>b k. b + k \<le> bp + 0x210 \<or> bp + 0x211 \<le> b \<and> b + k \<le> bp + 0x228 \<or> bp + 0x230 \<le> b \<Longrightarrow>
      gm_read m' b k = gm_read m5 b k"
    "load32 m' (bp + off_initrd_addr_max) = Some INITRD_ADDR_MAX"
    "\<And>b k. bp + boot_params_size \<le> b \<or> b + k \<le> bp \<Longrightarrow> gm_read m2 b k = gm_read m b k"
    "\<And>b k. bp \<le> b \<and> b + k \<le> bp + 0x1f1 \<or> bp + 0x268 \<le> b \<and> b + k \<le> bp + 0x1000 \<Longrightarrow>
      gm_read m2 b k = Some (replicate k 0)"
    "load8 m' (bp + off_type_of_loader) = Some LOADER_TYPE_UNDEFINED"
    "load32 m' (bp + off_cmd_line_ptr) =
      (if has_cmdline then Some (word_of_nat COMMAND_LINE_ADDR) else load32 m5 (bp + off_cmd_line_ptr))"
proof -
  obtain h m1 m2 m3 m4 m5 m6 m7 where s: "gm_read m (bp + off_hdr) hdr_size = Some h"
    "gm_fill m bp 0 boot_params_size = Some m1" "gm_write m1 (bp + off_hdr) h = Some m2"
    and e: "add_e820_entry bp 0 (640 * 1024) E820_RAM m2 = Some m3"
    "add_e820_entry bp (640 * 1024) (384 * 1024) E820_RESERVED m3 = Some m4"
    "(if 1024 * 1024 < mem_sz
      then add_e820_entry bp (1024 * 1024) (word_of_nat (mem_sz - 1024 * 1024)) E820_RAM m4
      else Some m4) = Some m5"
    and t: "(if has_cmdline then store32 m5 (bp + off_cmd_line_ptr) (word_of_nat COMMAND_LINE_ADDR)
      else Some m5) = Some m6"
    "store8 m6 (bp + off_type_of_loader) LOADER_TYPE_UNDEFINED = Some m7"
    "store32 m7 (bp + off_initrd_addr_max) INITRD_ADDR_MAX = Some m'"
    using assms unfolding setup_linux_boot_params_def bind_eq_Some_conv by blast
  have h: "length h = hdr_size" using s(1) by (auto simp: gm_read_def split: if_splits)
  have above: "gm_read m2 b k = gm_read m b k" if "bp + boot_params_size \<le> b \<or> b + k \<le> bp" for b k
    using gm.rd_wr_other[OF s(3), of b k] gm_fill_frame[OF s(2), of b k] that h
    by (auto simp: boot_offsets)
  have zero: "gm_read m2 b k = Some (replicate k 0)"
    if "bp \<le> b \<and> b + k \<le> bp + 0x1f1 \<or> bp + 0x268 \<le> b \<and> b + k \<le> bp + 0x1000" for b k
    using gm.rd_wr_other[OF s(3), of b k] gm_read_fill[OF s(2), of b k] that h
    by (auto simp: boot_offsets)
  have ty: "load8 m' (bp + off_type_of_loader) = Some LOADER_TYPE_UNDEFINED"
    using load_cong(1)[OF store_frame(2)[OF t(3), of "bp + off_type_of_loader" 1]] load8_store8[OF t(2)]
    by (simp add: boot_offsets)
  have "load32 m' (bp + off_cmd_line_ptr) = load32 m7 (bp + off_cmd_line_ptr)"
    by (rule load_cong(2)[OF store_frame(2)[OF t(3)]]) (simp add: boot_offsets)
  also have "\<dots> = load32 m6 (bp + off_cmd_line_ptr)"
    by (rule load_cong(2)[OF store_frame(1)[OF t(2)]]) (simp add: boot_offsets)
  also have "\<dots> = (if has_cmdline then Some (word_of_nat COMMAND_LINE_ADDR) else load32 m5 (bp + off_cmd_line_ptr))"
    using t(1) by (cases has_cmdline) (auto dest: load32_store32)
  finally have cl: "load32 m' (bp + off_cmd_line_ptr) =
      (if has_cmdline then Some (word_of_nat COMMAND_LINE_ADDR) else load32 m5 (bp + off_cmd_line_ptr))" .
  show thesis
    by (rule that[OF header_copy(1,2)[OF s] _ e boot_params_tail[OF t] load32_store32[OF t(3)] above zero ty cl])
      (use s(1) in simp_all)
qed

lemma boot_params_spec:
  assumes "setup_linux_boot_params bp mem_sz has_cmdline m = Some m'"
  shows "load8 m' (bp + off_e820_entries) = Some (if 0x100000 < mem_sz then 3 else 2) \<and>
    e820_entry m' bp 0 = Some (0, 0xA0000, E820_RAM) \<and>
    e820_entry m' bp 1 = Some (0xA0000, 0x60000, E820_RESERVED) \<and>
    (0x100000 < mem_sz \<longrightarrow>
       e820_entry m' bp 2 = Some (0x100000, word_of_nat (mem_sz - 0x100000), E820_RAM)) \<and>
    (\<forall>b k. bp + 0x1f1 \<le> b \<and> b + k \<le> bp + 0x210 \<or> bp + 0x211 \<le> b \<and> b + k \<le> bp + 0x228 \<or>
        bp + 0x230 \<le> b \<and> b + k \<le> bp + 0x268 \<longrightarrow> gm_read m' b k = gm_read m b k) \<and>
    load8 m' (bp + off_type_of_loader) = Some LOADER_TYPE_UNDEFINED \<and>
    load32 m' (bp + off_cmd_line_ptr) =
      (if has_cmdline then Some (word_of_nat COMMAND_LINE_ADDR) else load32 m (bp + off_cmd_line_ptr)) \<and>
    load32 m' (bp + off_initrd_addr_max) = Some INITRD_ADDR_MAX \<and>
    (\<forall>b k. bp \<le> b \<and> b + k \<le> bp + 0x1e8 \<or> bp + 0x1e9 \<le> b \<and> b + k \<le> bp + 0x1f1 \<or>
        bp + 0x268 \<le> b \<and> b + k \<le> bp + 0x2d0 \<longrightarrow> gm_read m' b k = Some (replicate k 0))"
proof (rule boot_params_steps[OF assms])
  fix m2 m3 m4 m5
  assume c0: "load8 m2 (bp + off_e820_entries) = Some 0"
    and h: "gm_read m2 (bp + off_hdr) hdr_size = gm_read m (bp + off_hdr) hdr_size"
      "gm_read m (bp + off_hdr) hdr_size \<noteq> None"
    and e1: "add_e820_entry bp 0 (640 * 1024) E820_RAM m2 = Some m3"
    and e2: "add_e820_entry bp (640 * 1024) (384 * 1024) E820_RESERVED m3 = Some m4"
    and e3: "(if 1024 * 1024 < mem_sz
      then add_e820_entry bp (1024 * 1024) (word_of_nat (mem_sz - 1024 * 1024)) E820_RAM m4
      else Some m4) = Some m5"
    and tail: "\<And>b k. b + k \<le> bp + 0x210 \<or> bp + 0x211 \<le> b \<and> b + k \<le> bp + 0x228 \<or>
      bp + 0x230 \<le> b \<Longrightarrow> gm_read m' b k = gm_read m5 b k"
    and last: "load32 m' (bp + off_initrd_addr_max) = Some INITRD_ADDR_MAX"
    and zero: "\<And>b k. bp \<le> b \<and> b + k \<le> bp + 0x1f1 \<or> bp + 0x268 \<le> b \<and> b + k \<le> bp + 0x1000 \<Longrightarrow>
      gm_read m2 b k = Some (replicate k 0)"
    and ty: "load8 m' (bp + off_type_of_loader) = Some LOADER_TYPE_UNDEFINED"
    and cl: "load32 m' (bp + off_cmd_line_ptr) =
      (if has_cmdline then Some (word_of_nat COMMAND_LINE_ADDR) else load32 m5 (bp + off_cmd_line_ptr))"
  note s1 = add_e820_spec[OF c0 _ e1, simplified]
  note s2 = add_e820_spec[OF s1(1) _ e2, simplified]
  have e820: "e820_entry m' bp i = e820_entry m5 bp i" for i by (rule tail_e820) (rule tail, simp)
  have cnt: "load8 m' (bp + off_e820_entries) = load8 m5 (bp + off_e820_entries)"
    by (rule load_cong(1), rule tail) (simp add: boot_offsets)
  have m5: "load8 m5 (bp + off_e820_entries) = Some (if 0x100000 < mem_sz then 3 else 2) \<and>
      e820_entry m5 bp 0 = e820_entry m4 bp 0 \<and> e820_entry m5 bp 1 = e820_entry m4 bp 1 \<and>
      (0x100000 < mem_sz \<longrightarrow>
         e820_entry m5 bp 2 = Some (0x100000, word_of_nat (mem_sz - 0x100000), E820_RAM)) \<and>
      (\<forall>b k. b + k \<le> bp + 0x1e8 \<or> bp + 0x1e9 \<le> b \<and> b + k \<le> bp + 0x2d0 \<longrightarrow> gm_read m5 b k = gm_read m4 b k)"
  proof (cases "1024 * 1024 < mem_sz")
    case True
    then have e3': "add_e820_entry bp (1024 * 1024) (word_of_nat (mem_sz - 1024 * 1024)) E820_RAM m4 = Some m5"
      using e3 by simp
    note s3 = add_e820_spec[OF s2(1) _ e3', simplified]
    show ?thesis using s3(1,2) s3(3)[of 0] s3(3)[of 1] s3(4) True by simp
  next
    case False
    then show ?thesis using e3 s2(1) by simp
  qed
  have keep: "gm_read m5 b k = gm_read m2 b k"
    if "b + k \<le> bp + 0x1e8 \<or> bp + 0x1e9 \<le> b \<and> b + k \<le> bp + 0x2d0" for b k
    using m5 s2(4)[OF that] s1(4)[OF that] that by auto
  have old: "gm_read m2 b k = gm_read m b k" if "bp + 0x1f1 \<le> b \<and> b + k \<le> bp + 0x268" for b k
    using h gm_read_sub[OF h(1), of _ b k] that by (fastforce simp: boot_offsets)
  have hdr: "gm_read m' b k = gm_read m b k"
    if "bp + 0x1f1 \<le> b \<and> b + k \<le> bp + 0x210 \<or> bp + 0x211 \<le> b \<and> b + k \<le> bp + 0x228 \<or>
      bp + 0x230 \<le> b \<and> b + k \<le> bp + 0x268" for b k
    using tail[of b k] keep[of b k] old[of b k] that by auto
  have rest: "gm_read m' b k = Some (replicate k 0)"
    if "bp \<le> b \<and> b + k \<le> bp + 0x1e8 \<or> bp + 0x1e9 \<le> b \<and> b + k \<le> bp + 0x1f1 \<or>
      bp + 0x268 \<le> b \<and> b + k \<le> bp + 0x2d0" for b k
    using tail[of b k] keep[of b k] zero[of b k] that by auto
  have "load32 m5 (bp + off_cmd_line_ptr) = load32 m (bp + off_cmd_line_ptr)"
    using keep[of "bp + off_cmd_line_ptr" 4] old[of "bp + off_cmd_line_ptr" 4]
    by (intro load_cong) (simp add: boot_offsets)
  then show ?thesis
    using e820 cnt m5 last ty cl hdr rest s1(2) s2(2) s2(3)[of 0] by simp
qed

lemma boot_params_header:
  assumes "setup_linux_boot_params bp mem_sz has_cmdline m = Some m'"
  shows "load32 m' (bp + off_code32_start) = load32 m (bp + off_code32_start)"
proof (rule load_cong(2))
  show "gm_read m' (bp + off_code32_start) 4 = gm_read m (bp + off_code32_start) 4"
    using boot_params_spec[OF assms] by (simp add: boot_offsets)
qed

text \<open>
  C19: The zero page describes exactly the guest memory: the E820 map has the low 640 KB as RAM, the
  384 KB up to 1 MB as reserved, and, if there is more memory, the rest from 1 MB up to the memory
  size as RAM, consecutive and without overlap. Every byte of the setup header is kept but the loader
  type, the command line pointer, which is set if there is a command line, and the initrd limit; around
  the header, up to the map, the page is zero.
\<close>

theorem boot_params_e820:
  assumes "setup_linux_boot_params bp mem_sz has_cmdline m = Some m'"
  shows "load8 m' (bp + off_e820_entries) = Some (if 0x100000 < mem_sz then 3 else 2) \<and>
    e820_entry m' bp 0 = Some (0, 0xA0000, E820_RAM) \<and>
    e820_entry m' bp 1 = Some (0xA0000, 0x60000, E820_RESERVED) \<and>
    (0x100000 < mem_sz \<longrightarrow>
       e820_entry m' bp 2 = Some (0x100000, word_of_nat (mem_sz - 0x100000), E820_RAM)) \<and>
    (\<forall>b k. bp + 0x1f1 \<le> b \<and> b + k \<le> bp + 0x210 \<or> bp + 0x211 \<le> b \<and> b + k \<le> bp + 0x228 \<or>
        bp + 0x230 \<le> b \<and> b + k \<le> bp + 0x268 \<longrightarrow> gm_read m' b k = gm_read m b k) \<and>
    load8 m' (bp + off_type_of_loader) = Some LOADER_TYPE_UNDEFINED \<and>
    load32 m' (bp + off_cmd_line_ptr) =
      (if has_cmdline then Some (word_of_nat COMMAND_LINE_ADDR) else load32 m (bp + off_cmd_line_ptr)) \<and>
    load32 m' (bp + off_initrd_addr_max) = Some INITRD_ADDR_MAX \<and>
    (\<forall>b k. bp \<le> b \<and> b + k \<le> bp + 0x1e8 \<or> bp + 0x1e9 \<le> b \<and> b + k \<le> bp + 0x1f1 \<or>
        bp + 0x268 \<le> b \<and> b + k \<le> bp + 0x2d0 \<longrightarrow> gm_read m' b k = Some (replicate k 0))"
  by (rule boot_params_spec[OF assms])

lemma boot_params_above:
  assumes "setup_linux_boot_params bp mem_sz has_cmdline m = Some m'" and "bp + boot_params_size \<le> b"
  shows "gm_read m' b k = gm_read m b k"
proof (rule boot_params_steps[OF assms(1)])
  fix m2 m3 m4 m5
  assume c0: "load8 m2 (bp + off_e820_entries) = Some 0"
    and e1: "add_e820_entry bp 0 (640 * 1024) E820_RAM m2 = Some m3"
    and e2: "add_e820_entry bp (640 * 1024) (384 * 1024) E820_RESERVED m3 = Some m4"
    and e3: "(if 1024 * 1024 < mem_sz
      then add_e820_entry bp (1024 * 1024) (word_of_nat (mem_sz - 1024 * 1024)) E820_RAM m4
      else Some m4) = Some m5"
    and tail: "\<And>b k. b + k \<le> bp + 0x210 \<or> bp + 0x211 \<le> b \<and> b + k \<le> bp + 0x228 \<or>
      bp + 0x230 \<le> b \<Longrightarrow> gm_read m' b k = gm_read m5 b k"
    and above: "\<And>b k. bp + boot_params_size \<le> b \<or> b + k \<le> bp \<Longrightarrow> gm_read m2 b k = gm_read m b k"
  note s1 = add_e820_spec[OF c0 _ e1, simplified]
  note s2 = add_e820_spec[OF s1(1) _ e2, simplified]
  have "gm_read m5 b k = gm_read m4 b k"
  proof (cases "1024 * 1024 < mem_sz")
    case True
    then have "add_e820_entry bp (1024 * 1024) (word_of_nat (mem_sz - 1024 * 1024)) E820_RAM m4 = Some m5"
      using e3 by simp
    from add_e820_spec(6)[OF s2(1) _ this assms(2)] show ?thesis by simp
  qed (use e3 in simp)
  moreover have "gm_read m' b k = gm_read m5 b k"
    by (rule tail) (use assms(2) in \<open>simp add: boot_offsets\<close>)
  ultimately show ?thesis using s1(6)[OF assms(2)] s2(6)[OF assms(2)] above[OF disjI1[OF assms(2)]] by simp
qed

section \<open>The kernel image\<close>

definition bzimage_header_ok :: "u8 list \<Rightarrow> u8 list \<Rightarrow> bool" where
  "bzimage_header_ok file junk \<longleftrightarrow>
     (let buf = setup_buffer file junk in
      512 \<le> length file \<and> hdr_u16 buf off_boot_flag = 0xAA55 \<and>
      hdr_u32 buf off_header = LINUX_BOOT_SIGNATURE \<and> hdr_u8 buf off_loadflags AND LOADED_HIGH \<noteq> 0)"

definition setup_bytes :: "u8 list \<Rightarrow> u8 list \<Rightarrow> nat" where
  "setup_bytes file junk = bzimage_setup_size (hdr_u8 (setup_buffer file junk) off_hdr)"

definition bzimage_fits :: "u8 list \<Rightarrow> u8 list \<Rightarrow> nat \<Rightarrow> bool" where
  "bzimage_fits file junk mem_sz \<longleftrightarrow>
     setup_bytes file junk \<le> length file \<and> REAL_MODE_ADDR + setup_bytes file junk \<le> mem_sz \<and>
     KERNEL_LOAD_ADDR + (length file - setup_bytes file junk) \<le> mem_sz"

lemma setup_size_bound: "512 \<le> bzimage_setup_size n" "bzimage_setup_size n \<le> 0x20000"
proof -
  have "unat n < 256" using unsigned_less[of n] by simp
  then show "512 \<le> bzimage_setup_size n" "bzimage_setup_size n \<le> 0x20000"
    by (auto simp: bzimage_setup_size_def)
qed

lemma length_setup_buffer:
  assumes "length junk = 4096"
  shows "length (setup_buffer file junk) = 4096"
  using assms by (auto simp: setup_buffer_def)

text \<open>The stages of a run, with the memory after each copy.\<close>

lemma load_linux_kernel_cases:
  assumes "load_linux_kernel (Some file) junk mem_sz bp m = Some (r, m')"
  obtains (header) "\<not> bzimage_header_ok file junk" "r = - 1" "m' = m"
    | (size) "bzimage_header_ok file junk" "\<not> bzimage_fits file junk mem_sz" "r = - 1"
    | (loaded) m1 m2 m3 start where "bzimage_header_ok file junk" "bzimage_fits file junk mem_sz" "r = 0"
      "gm_write m (bp + off_hdr) (take hdr_size (drop off_hdr (setup_buffer file junk))) = Some m1"
      "gm_write m1 REAL_MODE_ADDR (take (setup_bytes file junk) file) = Some m2"
      "gm_write m2 KERNEL_LOAD_ADDR (drop (setup_bytes file junk) file) = Some m3"
      "load32 m3 (bp + off_code32_start) = Some start"
      "(if start = 0 then store32 m3 (bp + off_code32_start) (word_of_nat KERNEL_LOAD_ADDR)
        else Some m3) = Some m'"
proof -
  let ?buf = "setup_buffer file junk"
  have len: "length (take 4096 file) < 512 \<longleftrightarrow> \<not> 512 \<le> length file" by auto
  show thesis
  proof (cases "bzimage_header_ok file junk")
    case False
    then have "r = - 1 \<and> m' = m"
      using assms unfolding load_linux_kernel_def bzimage_header_ok_def Let_def option.case len
      by (auto split: if_splits)
    then show thesis using False by (intro header) auto
  next
    case True
    then have run: "do {
        m \<leftarrow> gm_write m (bp + off_hdr) (take hdr_size (drop off_hdr ?buf));
        if length file < setup_bytes file junk then Some (- 1, m)
        else if REAL_MODE_ADDR + setup_bytes file junk > mem_sz then Some (- 1, m)
        else do {
          m \<leftarrow> gm_write m REAL_MODE_ADDR (take (setup_bytes file junk) file);
          if KERNEL_LOAD_ADDR + length (drop (setup_bytes file junk) file) > mem_sz then Some (- 1, m)
          else do {
            m \<leftarrow> gm_write m KERNEL_LOAD_ADDR (drop (setup_bytes file junk) file);
            start \<leftarrow> load32 m (bp + off_code32_start);
            m \<leftarrow> (if start = 0 then store32 m (bp + off_code32_start) (word_of_nat KERNEL_LOAD_ADDR)
                  else Some m);
            Some (0, m)
          }
        }
      } = Some (r, m')"
      using assms unfolding load_linux_kernel_def bzimage_header_ok_def Let_def option.case len
        setup_bytes_def by simp
    show thesis
    proof (cases "bzimage_fits file junk mem_sz")
      case False
      then have "r = - 1"
        using run unfolding bzimage_fits_def by (auto simp: bind_eq_Some_conv not_le split: if_splits)
      then show thesis using True False by (intro size) auto
    next
      case fits: True
      obtain m1 m2 m3 start where
        "gm_write m (bp + off_hdr) (take hdr_size (drop off_hdr ?buf)) = Some m1"
        "gm_write m1 REAL_MODE_ADDR (take (setup_bytes file junk) file) = Some m2"
        "gm_write m2 KERNEL_LOAD_ADDR (drop (setup_bytes file junk) file) = Some m3"
        "load32 m3 (bp + off_code32_start) = Some start"
        "(if start = 0 then store32 m3 (bp + off_code32_start) (word_of_nat KERNEL_LOAD_ADDR)
          else Some m3) = Some m'" "r = 0"
        using run fits unfolding bzimage_fits_def by (auto simp: bind_eq_Some_conv not_le)
      then show thesis using True fits by (intro loaded)
    qed
  qed
qed

lemma load_linux_kernel_size:
  assumes "load_linux_kernel (Some file) junk mem_sz bp m = Some (0, m')"
  shows "gm_size m' = gm_size m"
  using assms
proof (cases rule: load_linux_kernel_cases)
  case (loaded m1 m2 m3 start)
  then show ?thesis
    using gm_write_size[OF loaded(4)] gm_write_size[OF loaded(5)] gm_write_size[OF loaded(6)]
      store32_size[of m3 _ _ m'] by (auto split: if_splits)
qed simp_all

lemma gm_write_defined:
  "a + length bs \<le> gm_size m \<Longrightarrow> \<exists>m'. gm_write m a bs = Some m' \<and> gm_size m' = gm_size m"
  by simp

lemma load_linux_kernel_defined:
  assumes "gm_size m = mem_sz" and "bp + boot_params_size \<le> mem_sz" and "length junk = 4096"
  shows "\<exists>r m'. load_linux_kernel (Some file) junk mem_sz bp m = Some (r, m')"
proof (cases "bzimage_header_ok file junk")
  case False
  have len: "length (take 4096 file) < 512 \<longleftrightarrow> \<not> 512 \<le> length file" by auto
  show ?thesis using False
    unfolding load_linux_kernel_def bzimage_header_ok_def Let_def option.case len by auto
next
  case True
  let ?buf = "setup_buffer file junk" and ?n = "setup_bytes file junk"
  obtain m1 where 1: "gm_write m (bp + off_hdr) (take hdr_size (drop off_hdr ?buf)) = Some m1"
    "gm_size m1 = mem_sz"
    using gm_write_defined[of "bp + off_hdr" "take hdr_size (drop off_hdr ?buf)" m] assms
    by (auto simp: length_setup_buffer boot_offsets)
  have hdr: "\<not> length (take 4096 file) < 512" "hdr_u16 ?buf off_boot_flag = 0xAA55"
    "hdr_u32 ?buf off_header = LINUX_BOOT_SIGNATURE" "hdr_u8 ?buf off_loadflags AND LOADED_HIGH \<noteq> 0"
    using True by (auto simp: bzimage_header_ok_def Let_def)
  show ?thesis
  proof (cases "bzimage_fits file junk mem_sz")
    case False
    then have "length file < ?n \<or> mem_sz < REAL_MODE_ADDR + ?n \<or>
        \<not> length file < ?n \<and> \<not> mem_sz < REAL_MODE_ADDR + ?n \<and> mem_sz < KERNEL_LOAD_ADDR + (length file - ?n)"
      by (auto simp: bzimage_fits_def)
    moreover have "\<exists>m2. gm_write m1 REAL_MODE_ADDR (take ?n file) = Some m2"
      if "\<not> length file < ?n" "\<not> mem_sz < REAL_MODE_ADDR + ?n"
      using gm_write_defined[of REAL_MODE_ADDR "take ?n file" m1] that 1(2) by auto
    ultimately show ?thesis
      using hdr 1(1) unfolding load_linux_kernel_def Let_def option.case setup_bytes_def[symmetric]
      by auto
  next
    case fits: True
    then have f: "\<not> length file < ?n" "\<not> mem_sz < REAL_MODE_ADDR + ?n"
      "\<not> mem_sz < KERNEL_LOAD_ADDR + length (drop ?n file)"
      by (auto simp: bzimage_fits_def)
    obtain m2 where 2: "gm_write m1 REAL_MODE_ADDR (take ?n file) = Some m2" "gm_size m2 = mem_sz"
      using gm_write_defined[of REAL_MODE_ADDR "take ?n file" m1] f 1(2) by auto
    obtain m3 where 3: "gm_write m2 KERNEL_LOAD_ADDR (drop ?n file) = Some m3" "gm_size m3 = mem_sz"
      using gm_write_defined[of KERNEL_LOAD_ADDR "drop ?n file" m2] f 2(2) by auto
    have field: "bp + off_code32_start + 4 \<le> gm_size m3"
      using 3(2) assms(2) by (simp add: boot_offsets)
    obtain start where 4: "load32 m3 (bp + off_code32_start) = Some start"
      using load_defined(2)[of m3 "bp + off_code32_start"] field by blast
    obtain m4 where 5: "store32 m3 (bp + off_code32_start) (word_of_nat KERNEL_LOAD_ADDR) = Some m4"
      using store_defined(1)[OF field] by blast
    show ?thesis
      using hdr f unfolding load_linux_kernel_def Let_def option.case setup_bytes_def[symmetric]
      by (simp add: 1(1) 2(1) 3(1) 4 5)
  qed
qed

lemma bzimage_load:
  assumes "gm_size m = mem_sz" and "bp + boot_params_size \<le> mem_sz" and "length junk = 4096"
    and "0x30000 \<le> bp" and "bp + boot_params_size \<le> KERNEL_LOAD_ADDR"
  shows "\<exists>r m'. load_linux_kernel (Some file) junk mem_sz bp m = Some (r, m') \<and>
    (r = 0 \<longleftrightarrow> bzimage_header_ok file junk \<and> bzimage_fits file junk mem_sz) \<and>
    (r = 0 \<longrightarrow>
       gm_read m' REAL_MODE_ADDR (setup_bytes file junk) = Some (take (setup_bytes file junk) file) \<and>
       gm_read m' KERNEL_LOAD_ADDR (length file - setup_bytes file junk) =
         Some (drop (setup_bytes file junk) file) \<and>
       (\<exists>e. load32 m' (bp + off_code32_start) = Some e \<and> e \<noteq> 0))"
proof -
  obtain r m' where run: "load_linux_kernel (Some file) junk mem_sz bp m = Some (r, m')"
    using load_linux_kernel_defined[OF assms(1-3)] by blast
  let ?n = "setup_bytes file junk"
  have "(r = 0 \<longleftrightarrow> bzimage_header_ok file junk \<and> bzimage_fits file junk mem_sz) \<and>
    (r = 0 \<longrightarrow> gm_read m' REAL_MODE_ADDR ?n = Some (take ?n file) \<and>
       gm_read m' KERNEL_LOAD_ADDR (length file - ?n) = Some (drop ?n file) \<and>
       (\<exists>e. load32 m' (bp + off_code32_start) = Some e \<and> e \<noteq> 0))"
    using run
  proof (cases rule: load_linux_kernel_cases)
    case (loaded m1 m2 m3 start)
    have n: "?n \<le> 0x20000" unfolding setup_bytes_def by (rule setup_size_bound(2))
    have fit: "?n \<le> length file" using loaded(2) by (simp add: bzimage_fits_def)
    have keep: "gm_read m' b k = gm_read m3 b k"
      if "b + k \<le> bp + off_code32_start \<or> bp + off_code32_start + 4 \<le> b" for b k
      using loaded(8) store_frame(2)[of m3 "bp + off_code32_start" _ m' b k] that
      by (auto split: if_splits)
    have "gm_read m' REAL_MODE_ADDR ?n = gm_read m3 REAL_MODE_ADDR ?n"
      by (rule keep) (use n assms(4) in \<open>simp add: boot_addrs boot_offsets\<close>)
    also have "\<dots> = gm_read m2 REAL_MODE_ADDR ?n"
      by (rule gm.rd_wr_other[OF loaded(6)]) (use n in \<open>simp add: boot_addrs\<close>)
    also have "\<dots> = Some (take ?n file)" using gm.rd_wr_same[OF loaded(5)] fit by simp
    finally have stp: "gm_read m' REAL_MODE_ADDR ?n = Some (take ?n file)" .
    have "gm_read m' KERNEL_LOAD_ADDR (length file - ?n) = gm_read m3 KERNEL_LOAD_ADDR (length file - ?n)"
      by (rule keep) (use assms(5) in \<open>simp add: boot_offsets\<close>)
    then have kernel: "gm_read m' KERNEL_LOAD_ADDR (length file - ?n) = Some (drop ?n file)"
      using gm.rd_wr_same[OF loaded(6)] by simp
    have "\<exists>e. load32 m' (bp + off_code32_start) = Some e \<and> e \<noteq> 0"
    proof (cases "start = 0")
      case True
      then have "load32 m' (bp + off_code32_start) = Some (word_of_nat KERNEL_LOAD_ADDR)"
        using loaded(8) load32_store32[of m3 "bp + off_code32_start"] by simp
      then show ?thesis by (simp add: boot_addrs)
    qed (use loaded(7,8) in simp)
    with stp kernel show ?thesis using loaded(1-3) by simp
  qed auto
  then show ?thesis using run by blast
qed

text \<open>
  C17: Loading a bzImage never leaves the guest memory and succeeds exactly for a file with a valid
  header (boot flag, signature, LOADED_HIGH) whose setup part and kernel part fit; on success the
  setup part is at 64 KB, the rest of the file at 1 MB, and the 32-bit entry point is not zero.
\<close>

theorem bzimage_loaded:
  assumes "gm_size m = mem_sz" and "bp + boot_params_size \<le> mem_sz" and "length junk = 4096"
    and "0x30000 \<le> bp" and "bp + boot_params_size \<le> KERNEL_LOAD_ADDR"
  shows "\<exists>r m'. load_linux_kernel (Some file) junk mem_sz bp m = Some (r, m') \<and>
    (r = 0 \<longleftrightarrow> bzimage_header_ok file junk \<and> bzimage_fits file junk mem_sz) \<and>
    (r = 0 \<longrightarrow>
       gm_read m' REAL_MODE_ADDR (setup_bytes file junk) = Some (take (setup_bytes file junk) file) \<and>
       gm_read m' KERNEL_LOAD_ADDR (length file - setup_bytes file junk) =
         Some (drop (setup_bytes file junk) file) \<and>
       (\<exists>e. load32 m' (bp + off_code32_start) = Some e \<and> e \<noteq> 0))"
  by (rule bzimage_load[OF assms])

section \<open>The initrd\<close>

lemma load_initrd_zero:
  assumes "load_initrd (Some (Some file)) mem_sz bp m = Some (0, m')"
    and "load32 m (bp + off_initrd_addr_max) = Some addr_max"
    and "load32 m (bp + off_init_size) = Some init_size"
  obtains a m1 m2 m3 where
    "a = ((if unat addr_max \<ge> mem_sz then mem_sz - 1 else unat addr_max) + 1 - length file) div 0x1000 * 0x1000"
    "length file \<le> mem_sz" "0 < length file"
    "length file \<le> (if unat addr_max \<ge> mem_sz then mem_sz - 1 else unat addr_max) + 1"
    "KERNEL_LOAD_ADDR + unat init_size \<le> a" "gm_write m a file = Some m1"
    "store32 m1 (bp + off_ramdisk_image) (word_of_nat a) = Some m2"
    "store32 m2 (bp + off_ramdisk_size) (word_of_nat (length file)) = Some m3"
    "store32 m3 (bp + off_initrd_addr_max) INITRD_ADDR_MAX = Some m'"
  using assms(1) unfolding load_initrd_def Let_def option.case
  by (auto simp: assms(2,3) bind_eq_Some_conv not_less not_le split: if_splits)

lemma initrd_place:
  assumes "load_initrd (Some (Some file)) mem_sz bp m = Some (0, m')"
    and "bp + boot_params_size \<le> KERNEL_LOAD_ADDR" and "mem_sz \<le> 2 ^ 32"
    and "load32 m (bp + off_initrd_addr_max) = Some addr_max"
    and "load32 m (bp + off_init_size) = Some init_size"
  shows "\<exists>a. a mod 0x1000 = 0 \<and> KERNEL_LOAD_ADDR + unat init_size \<le> a \<and>
    a + length file \<le> mem_sz \<and> a + length file \<le> unat addr_max + 1 \<and>
    gm_read m' a (length file) = Some file \<and>
    load32 m' (bp + off_ramdisk_image) = Some (word_of_nat a) \<and>
    unat (word_of_nat a :: u32) = a \<and>
    load32 m' (bp + off_ramdisk_size) = Some (word_of_nat (length file)) \<and>
    (\<forall>b n. KERNEL_LOAD_ADDR \<le> b \<and> (b + n \<le> a \<or> a + length file \<le> b) \<longrightarrow>
       gm_read m' b n = gm_read m b n) \<and>
    (\<forall>b n. b + n \<le> KERNEL_LOAD_ADDR \<and>
       (b + n \<le> bp + 0x218 \<or> bp + 0x220 \<le> b \<and> b + n \<le> bp + 0x22c \<or> bp + 0x230 \<le> b) \<longrightarrow>
       gm_read m' b n = gm_read m b n)"
proof (rule load_initrd_zero[OF assms(1,4,5)])
  fix a m1 m2 m3
  let ?top = "if unat addr_max \<ge> mem_sz then mem_sz - 1 else unat addr_max"
  assume a: "a = (?top + 1 - length file) div 0x1000 * 0x1000"
    and sz: "length file \<le> mem_sz" "0 < length file" "length file \<le> ?top + 1"
    and ke: "KERNEL_LOAD_ADDR + unat init_size \<le> a"
    and s: "gm_write m a file = Some m1"
      "store32 m1 (bp + off_ramdisk_image) (word_of_nat a) = Some m2"
      "store32 m2 (bp + off_ramdisk_size) (word_of_nat (length file)) = Some m3"
      "store32 m3 (bp + off_initrd_addr_max) INITRD_ADDR_MAX = Some m'"
  have "0 < mem_sz" using sz(1,2) by linarith
  moreover have "a \<le> ?top + 1 - length file" unfolding a by simp
  ultimately have fit: "a + length file \<le> mem_sz \<and> a + length file \<le> unat addr_max + 1"
    using sz(1,3) by (cases "mem_sz \<le> unat addr_max") (simp_all, linarith+)
  have align: "a mod 0x1000 = 0" unfolding a by simp
  have low: "bp + 4096 \<le> a" using assms(2) ke by (simp add: boot_offsets)
  have keep: "gm_read m' b n = gm_read m1 b n" if "KERNEL_LOAD_ADDR \<le> b" for b n
  proof -
    have "bp + 4096 \<le> b" using that assms(2) by (simp add: boot_offsets)
    then show ?thesis
      using store_frame(2)[OF s(4), of b n] store_frame(2)[OF s(3), of b n]
        store_frame(2)[OF s(2), of b n] by (simp add: boot_offsets)
  qed
  have bytes: "gm_read m' a (length file) = Some file"
    using keep[of a] gm.rd_wr_same[OF s(1)] ke by simp
  have image: "load32 m' (bp + off_ramdisk_image) = Some (word_of_nat a)"
    using load32_store32[OF s(2)] load32_store32_other[OF s(3), of "bp + off_ramdisk_image"]
      load32_store32_other[OF s(4), of "bp + off_ramdisk_image"] by (simp add: boot_offsets)
  have len: "load32 m' (bp + off_ramdisk_size) = Some (word_of_nat (length file))"
    using load32_store32[OF s(3)] load32_store32_other[OF s(4), of "bp + off_ramdisk_size"]
    by (simp add: boot_offsets)
  have "a < 2 ^ 32" using fit sz(2) assms(3) by linarith
  then have "unat (word_of_nat a :: u32) = a" by (simp add: unat_of_nat)
  moreover have "gm_read m' b n = gm_read m b n"
    if "KERNEL_LOAD_ADDR \<le> b" "b + n \<le> a \<or> a + length file \<le> b" for b n
    using keep[OF that(1)] gm.rd_wr_other[OF s(1), of b n] that(2) by auto
  moreover have "gm_read m' b n = gm_read m b n"
    if "b + n \<le> KERNEL_LOAD_ADDR"
      "b + n \<le> bp + 0x218 \<or> bp + 0x220 \<le> b \<and> b + n \<le> bp + 0x22c \<or> bp + 0x230 \<le> b" for b n
    using gm.rd_wr_other[OF s(1), of b n] store_frame(2)[OF s(4), of b n] store_frame(2)[OF s(3), of b n]
      store_frame(2)[OF s(2), of b n] that ke by (auto simp: boot_offsets)
  ultimately show ?thesis using align ke fit bytes image len by (intro exI[of _ a] conjI allI impI) simp_all
qed

text \<open>
  C18: When an initrd is loaded, it lies page aligned between the end of the kernel (1 MB plus the
  kernel's init size) and the limit from the header and the memory size; its bytes are in place,
  the header records its address and size, and nothing else changes, from 1 MB up or below it, but the
  initrd limit in the header.
\<close>

theorem initrd_placed:
  assumes "load_initrd (Some (Some file)) mem_sz bp m = Some (0, m')"
    and "bp + boot_params_size \<le> KERNEL_LOAD_ADDR" and "mem_sz \<le> 2 ^ 32"
    and "load32 m (bp + off_initrd_addr_max) = Some addr_max"
    and "load32 m (bp + off_init_size) = Some init_size"
  shows "\<exists>a. a mod 0x1000 = 0 \<and> KERNEL_LOAD_ADDR + unat init_size \<le> a \<and>
    a + length file \<le> mem_sz \<and> a + length file \<le> unat addr_max + 1 \<and>
    gm_read m' a (length file) = Some file \<and>
    load32 m' (bp + off_ramdisk_image) = Some (word_of_nat a) \<and>
    unat (word_of_nat a :: u32) = a \<and>
    load32 m' (bp + off_ramdisk_size) = Some (word_of_nat (length file)) \<and>
    (\<forall>b n. KERNEL_LOAD_ADDR \<le> b \<and> (b + n \<le> a \<or> a + length file \<le> b) \<longrightarrow>
       gm_read m' b n = gm_read m b n) \<and>
    (\<forall>b n. b + n \<le> KERNEL_LOAD_ADDR \<and>
       (b + n \<le> bp + 0x218 \<or> bp + 0x220 \<le> b \<and> b + n \<le> bp + 0x22c \<or> bp + 0x230 \<le> b) \<longrightarrow>
       gm_read m' b n = gm_read m b n)"
  by (rule initrd_place[OF assms])

lemma load_initrd_defined:
  assumes "gm_size m = mem_sz" and "bp + boot_params_size \<le> mem_sz"
  shows "\<exists>r m'. load_initrd path mem_sz bp m = Some (r, m') \<and> (r = 0 \<or> r = - 1 \<and> m' = m)"
proof -
  have "\<exists>r m'. load_initrd (Some (Some file)) mem_sz bp m = Some (r, m') \<and> (r = 0 \<or> r = - 1 \<and> m' = m)"
    for "file"
  proof -
    obtain addr_max where mx: "load32 m (bp + off_initrd_addr_max) = Some addr_max"
      using load_defined(2)[of m "bp + off_initrd_addr_max"] assms by (auto simp: boot_offsets)
    obtain init_size where isz: "load32 m (bp + off_init_size) = Some init_size"
      using load_defined(2)[of m "bp + off_init_size"] assms by (auto simp: boot_offsets)
    let ?top = "if unat addr_max \<ge> mem_sz then mem_sz - 1 else unat addr_max"
    let ?a = "(?top + 1 - length file) div 0x1000 * 0x1000"
    have go: "\<exists>m'. do {
        m \<leftarrow> gm_write m ?a file;
        m \<leftarrow> store32 m (bp + off_ramdisk_image) (word_of_nat ?a);
        m \<leftarrow> store32 m (bp + off_ramdisk_size) (word_of_nat (length file));
        m \<leftarrow> store32 m (bp + off_initrd_addr_max) INITRD_ADDR_MAX;
        Some (0 :: int, m)
      } = Some (0, m')" if "length file \<noteq> 0" "\<not> length file > ?top + 1" "length file \<le> mem_sz"
    proof -
      have "0 < mem_sz" using that(1,3) by linarith
      then have "?top + 1 \<le> mem_sz" by (cases "mem_sz \<le> unat addr_max") simp_all
      moreover have "?a \<le> ?top + 1 - length file" by simp
      ultimately have "?a + length file \<le> gm_size m" using that(2) assms(1) by linarith
      then obtain m1 where 1: "gm_write m ?a file = Some m1" "gm_size m1 = mem_sz"
        using gm_write_defined[of ?a "file" m] assms(1) by auto
      obtain m2 where 2: "store32 m1 (bp + off_ramdisk_image) (word_of_nat ?a) = Some m2" "gm_size m2 = mem_sz"
        using store_defined(1)[of "bp + off_ramdisk_image" m1] 1(2) assms(2) by (auto simp: boot_offsets)
      obtain m3 where 3: "store32 m2 (bp + off_ramdisk_size) (word_of_nat (length file)) = Some m3"
        "gm_size m3 = mem_sz"
        using store_defined(1)[of "bp + off_ramdisk_size" m2] 2(2) assms(2) by (auto simp: boot_offsets)
      obtain m4 where 4: "store32 m3 (bp + off_initrd_addr_max) INITRD_ADDR_MAX = Some m4"
        using store_defined(1)[of "bp + off_initrd_addr_max" m3] 3(2) assms(2) by (auto simp: boot_offsets)
      show ?thesis by (simp only: 1(1) 2(1) 3(1) 4 bind.bind_lunit) blast
    qed
    show ?thesis
      unfolding load_initrd_def Let_def option.case mx isz bind.bind_lunit
      using go by (auto simp: not_less)
  qed
  then show ?thesis
    by (cases path) (auto simp: load_initrd_def split: option.split)
qed

text \<open>
  Loading an initrd never leaves the guest memory, whatever the file and the header say, and a
  failure leaves the guest memory unchanged.
\<close>

theorem initrd_safe:
  assumes "gm_size m = mem_sz" and "bp + boot_params_size \<le> mem_sz"
  shows "\<exists>r m'. load_initrd path mem_sz bp m = Some (r, m') \<and> (r = 0 \<or> r = - 1 \<and> m' = m)"
  by (rule load_initrd_defined[OF assms])

section \<open>The zero page is always in bounds\<close>

lemma add_e820_defined:
  assumes "bp + boot_params_size \<le> gm_size m"
  shows "\<exists>m'. add_e820_entry bp addr len type m = Some m' \<and> gm_size m' = gm_size m"
proof -
  obtain n where n: "load8 m (bp + off_e820_entries) = Some n"
    using load_defined(1)[of m "bp + off_e820_entries"] assms by (auto simp: boot_offsets)
  show ?thesis
  proof (cases "128 \<le> n")
    case True
    then show ?thesis by (simp add: add_e820_entry_def n)
  next
    case False
    then have "unat n < 128" by (simp add: word_le_nat_alt not_le)
    then have e: "bp + off_e820_map + unat n * 20 + 20 \<le> gm_size m"
      using assms by (simp add: boot_offsets)
    let ?e = "bp + off_e820_map + unat n * 20"
    obtain m1 where 1: "store64 m ?e addr = Some m1" "gm_size m1 = gm_size m"
      using store_defined(2)[of ?e m addr] e by auto
    obtain m2 where 2: "store64 m1 (?e + 8) len = Some m2" "gm_size m2 = gm_size m"
      using store_defined(2)[of "?e + 8" m1 len] e 1(2) by auto
    obtain m3 where 3: "store32 m2 (?e + 16) type = Some m3" "gm_size m3 = gm_size m"
      using store_defined(1)[of "?e + 16" m2 type] e 2(2) by auto
    obtain m4 where 4: "store8 m3 (bp + off_e820_entries) (n + 1) = Some m4" "gm_size m4 = gm_size m"
      using gm_write_defined[of "bp + off_e820_entries" "[n + 1]" m3] 3(2) assms
      by (auto simp: store8_def boot_offsets)
    show ?thesis using False 1(1) 2(1) 3(1) 4 n by (simp add: add_e820_entry_def Let_def)
  qed
qed

lemma boot_params_defined:
  assumes "bp + boot_params_size \<le> gm_size m"
  shows "\<exists>m'. setup_linux_boot_params bp mem_sz cl m = Some m' \<and> gm_size m' = gm_size m"
proof -
  let ?sz = "gm_size m"
  obtain h where h: "gm_read m (bp + off_hdr) hdr_size = Some h" "length h = hdr_size"
    using assms by (simp add: gm_read_def boot_offsets)
  obtain m1 where 1: "gm_fill m bp 0 boot_params_size = Some m1" "gm_size m1 = ?sz"
    using store_defined(3)[OF assms] by auto
  obtain m2 where 2: "gm_write m1 (bp + off_hdr) h = Some m2" "gm_size m2 = ?sz"
    using gm_write_defined[of "bp + off_hdr" h m1] h(2) 1(2) assms by (auto simp: boot_offsets)
  obtain m3 where 3: "add_e820_entry bp 0 (640 * 1024) E820_RAM m2 = Some m3" "gm_size m3 = ?sz"
    using add_e820_defined[of bp m2 0 "640 * 1024" E820_RAM] 2(2) assms by auto
  obtain m4 where 4: "add_e820_entry bp (640 * 1024) (384 * 1024) E820_RESERVED m3 = Some m4"
    "gm_size m4 = ?sz"
    using add_e820_defined[of bp m3 "640 * 1024" "384 * 1024" E820_RESERVED] 3(2) assms by auto
  obtain m5 where 5: "(if 1024 * 1024 < mem_sz
      then add_e820_entry bp (1024 * 1024) (word_of_nat (mem_sz - 1024 * 1024)) E820_RAM m4
      else Some m4) = Some m5" "gm_size m5 = ?sz"
    using add_e820_defined[of bp m4 "1024 * 1024" "word_of_nat (mem_sz - 1024 * 1024)" E820_RAM] 4(2)
      assms by (cases "1024 * 1024 < mem_sz") auto
  obtain m6 where 6: "(if cl then store32 m5 (bp + off_cmd_line_ptr) (word_of_nat COMMAND_LINE_ADDR)
      else Some m5) = Some m6" "gm_size m6 = ?sz"
    using store_defined(1)[of "bp + off_cmd_line_ptr" m5] 5(2) assms
    by (cases cl) (auto simp: boot_offsets)
  obtain m7 where 7: "store8 m6 (bp + off_type_of_loader) LOADER_TYPE_UNDEFINED = Some m7"
    "gm_size m7 = ?sz"
    using gm_write_defined[of "bp + off_type_of_loader" "[LOADER_TYPE_UNDEFINED]" m6] 6(2) assms
    by (auto simp: store8_def boot_offsets)
  obtain m8 where 8: "store32 m7 (bp + off_initrd_addr_max) INITRD_ADDR_MAX = Some m8"
    "gm_size m8 = ?sz"
    using store_defined(1)[of "bp + off_initrd_addr_max" m7] 7(2) assms by (auto simp: boot_offsets)
  show ?thesis
    unfolding setup_linux_boot_params_def h(1) 1(1) 2(1) 3(1) 4(1) 5(1) 6(1) 7(1) 8(1) bind.bind_lunit
    using 8(2) by blast
qed

section \<open>Worked instances\<close>

text \<open>A minimal bzImage: one setup sector and a kernel of two bytes.\<close>

definition sample_bzimage :: "u8 list" where
  "sample_bzimage =
     (replicate 1024 0)[0x1f1 := 1, 0x1fe := 0x55, 0x1ff := 0xAA, 0x202 := 0x48, 0x203 := 0x64,
        0x204 := 0x72, 0x205 := 0x53, 0x211 := 1] @ [0x90, 0xF4]"

definition no_junk :: "u8 list" where "no_junk = replicate 4096 0"

lemma sample_length [simp]: "length sample_bzimage = 1026" "length no_junk = 4096"
  by (simp_all add: sample_bzimage_def no_junk_def)

lemma take2: "i + 1 < length xs \<Longrightarrow> take 2 (drop i xs) = [xs ! i, xs ! (i + 1)]"
  by (simp add: numeral_2_eq_2 Cons_nth_drop_Suc[symmetric] take_Suc_conv_app_nth)

lemma take4:
  "i + 3 < length xs \<Longrightarrow> take 4 (drop i xs) = [xs ! i, xs ! (i + 1), xs ! (i + 2), xs ! (i + 3)]"
  by (intro nth_equalityI) (auto simp: less_Suc_eq nth_Cons' numeral_eq_Suc)

lemma sample_buffer: "i < 1026 \<Longrightarrow> setup_buffer sample_bzimage no_junk ! i = sample_bzimage ! i"
  by (simp add: setup_buffer_def nth_append)

lemma sample_bytes:
  "sample_bzimage ! 0x1f1 = 1" "sample_bzimage ! 0x1fe = 0x55" "sample_bzimage ! 0x1ff = 0xAA"
  "sample_bzimage ! 0x202 = 0x48" "sample_bzimage ! 0x203 = 0x64" "sample_bzimage ! 0x204 = 0x72"
  "sample_bzimage ! 0x205 = 0x53" "sample_bzimage ! 0x211 = 1"
  by (simp_all add: sample_bzimage_def nth_append nth_list_update)

lemma sample_setup_bytes: "setup_bytes sample_bzimage no_junk = 1024"
  by (simp add: setup_bytes_def hdr_u8_def off_hdr_def sample_buffer sample_bytes bzimage_setup_size_def)

lemma sample_ok: "bzimage_header_ok sample_bzimage no_junk"
proof -
  have len: "length (setup_buffer sample_bzimage no_junk) = 4096" by (rule length_setup_buffer) simp
  show ?thesis
    unfolding bzimage_header_ok_def Let_def hdr_u16_def hdr_u32_def hdr_u8_def boot_offsets
    by (simp add: take2 take4 len sample_buffer sample_bytes LINUX_BOOT_SIGNATURE_def LOADED_HIGH_def)
qed

lemma sample_fits: "0x100010 \<le> mem_sz \<Longrightarrow> bzimage_fits sample_bzimage no_junk mem_sz"
  by (simp add: bzimage_fits_def sample_setup_bytes boot_addrs)

definition linux_mem :: gmem where
  "linux_mem = \<lparr>gm_size = 0x200000, gm_data = (\<lambda>_. 0)\<rparr>"

lemma linux_mem_size: "gm_size linux_mem = 0x200000"
  by (simp add: linux_mem_def)

theorem boot_params_e820_witness:
  "\<exists>m'. setup_linux_boot_params 0x90000 0x200000 True linux_mem = Some m' \<and>
     e820_entry m' 0x90000 2 = Some (0x100000, 0x100000, E820_RAM)"
proof -
  obtain m' where run: "setup_linux_boot_params 0x90000 0x200000 True linux_mem = Some m'"
    using boot_params_defined[of "0x90000" linux_mem] by (auto simp: linux_mem_size boot_offsets)
  from boot_params_e820[OF run] run show ?thesis by simp
qed

theorem bzimage_loaded_witness:
  "\<exists>m'. load_linux_kernel (Some sample_bzimage) no_junk 0x200000 0x90000 linux_mem = Some (0, m') \<and>
     gm_read m' KERNEL_LOAD_ADDR 2 = Some [0x90, 0xF4]"
proof -
  have pre: "0x90000 + boot_params_size \<le> 0x200000" "0x30000 \<le> (0x90000 :: nat)"
    "0x90000 + boot_params_size \<le> KERNEL_LOAD_ADDR" by (simp_all add: boot_offsets boot_addrs)
  have "drop 1024 sample_bzimage = [0x90, 0xF4]" by (simp add: sample_bzimage_def)
  then show ?thesis
    using bzimage_loaded[OF linux_mem_size pre(1) sample_length(2) pre(2,3), of sample_bzimage]
      sample_ok sample_fits[of "0x200000"] by (auto simp: sample_setup_bytes)
qed

text \<open>A zero page whose initrd limit is 0x7F7F7F7F.\<close>

definition initrd_mem :: gmem where
  "initrd_mem = \<lparr>gm_size = 0x200000, gm_data = (\<lambda>a. if 0x9022C \<le> a \<and> a < 0x90230 then 0x7F else 0)\<rparr>"

lemma initrd_mem_fields:
  "gm_size initrd_mem = 0x200000" "load32 initrd_mem (0x90000 + off_initrd_addr_max) = Some 0x7F7F7F7F"
  "load32 initrd_mem (0x90000 + off_init_size) = Some 0"
  by (simp_all add: initrd_mem_def load32_def gm_read_def boot_offsets)

theorem initrd_placed_witness:
  "\<exists>m' a. load_initrd (Some (Some [1, 2, 3])) 0x200000 0x90000 initrd_mem = Some (0, m') \<and>
     a mod 0x1000 = 0 \<and> KERNEL_LOAD_ADDR \<le> a \<and> gm_read m' a 3 = Some [1, 2, 3]"
proof -
  obtain r m' where run: "load_initrd (Some (Some [1, 2, 3])) 0x200000 0x90000 initrd_mem = Some (r, m')"
    using load_initrd_defined[of initrd_mem "0x200000" "0x90000" "Some (Some [1, 2, 3])"]
    by (auto simp: initrd_mem_fields boot_offsets)
  moreover have "r = 0"
    using run by (auto simp: load_initrd_def initrd_mem_fields Let_def boot_addrs bind_eq_Some_conv)
  ultimately have zero: "load_initrd (Some (Some [1, 2, 3])) 0x200000 0x90000 initrd_mem = Some (0, m')"
    by simp
  have pre: "0x90000 + boot_params_size \<le> KERNEL_LOAD_ADDR" "(0x200000 :: nat) \<le> 2 ^ 32"
    by (simp_all add: boot_offsets boot_addrs)
  have "length [1 :: u8, 2, 3] = 3" by simp
  with initrd_placed[OF zero pre initrd_mem_fields(2,3)]
  obtain a where "a mod 0x1000 = 0" "KERNEL_LOAD_ADDR \<le> a" "gm_read m' a 3 = Some [1, 2, 3]"
    unfolding unsigned_0 add_0_right by metis
  with zero show ?thesis by (intro exI[of _ m'] exI[of _ a] conjI)
qed

theorem initrd_safe_witness:
  "\<exists>r m'. load_initrd (Some (Some [1, 2, 3])) 0x200000 0x90000 linux_mem = Some (r, m') \<and>
     (r = 0 \<or> r = - 1 \<and> m' = linux_mem)"
  by (rule initrd_safe) (simp_all add: linux_mem_size boot_offsets)

end
