(* ===== verification/Vmm_Cli.thy ===== *)
theory Vmm_Cli
  imports Vcpu_Setup Linux_Boot "HOL-Library.Sublist"
begin

text \<open>
  The start of the VMM (\<^verbatim>\<open>main\<close> of \<^verbatim>\<open>main.c\<close>): command line, guest names, loading of a raw guest
  image, and the steps that take one guest from its image to a runnable vCPU. The parts of the C
  library that are used (\<^verbatim>\<open>strtoul\<close>, \<^verbatim>\<open>atoi\<close>, \<^verbatim>\<open>strrchr\<close>, \<^verbatim>\<open>snprintf\<close>) are modelled by what
  the source uses of them. Messages, terminal mode and thread creation are not modelled.
\<close>

section \<open>Debug levels\<close>

datatype debug_level = DEBUG_NONE | DEBUG_BASIC | DEBUG_DETAILED | DEBUG_ALL

text \<open>The enumeration is compared as its integer values are.\<close>

fun debug_value :: "debug_level \<Rightarrow> nat" where
  "debug_value DEBUG_NONE = 0"
| "debug_value DEBUG_BASIC = 1"
| "debug_value DEBUG_DETAILED = 2"
| "debug_value DEBUG_ALL = 3"

lemma debug_value_inj: "debug_value a = debug_value b \<longleftrightarrow> a = b"
  by (cases a; cases b) simp_all

instantiation debug_level :: linorder
begin

definition less_eq_debug_level :: "debug_level \<Rightarrow> debug_level \<Rightarrow> bool" where
  "less_eq_debug_level a b \<longleftrightarrow> debug_value a \<le> debug_value b"

definition less_debug_level :: "debug_level \<Rightarrow> debug_level \<Rightarrow> bool" where
  "less_debug_level a b \<longleftrightarrow> debug_value a < debug_value b"

instance
  by standard (auto simp: less_eq_debug_level_def less_debug_level_def debug_value_inj)

end

definition debug_of_int :: "int \<Rightarrow> debug_level" where
  "debug_of_int i =
     (if i = 0 then DEBUG_NONE else if i = 1 then DEBUG_BASIC
      else if i = 2 then DEBUG_DETAILED else DEBUG_ALL)"

section \<open>Numbers on the command line\<close>

definition is_space :: "char \<Rightarrow> bool" where
  "is_space c \<longleftrightarrow> of_char c \<in> {9, 10, 11, 12, 13, 32 :: nat}"

definition digit_value :: "char \<Rightarrow> nat option" where
  "digit_value c =
     (let n = of_char c :: nat in
      if 48 \<le> n \<and> n \<le> 57 then Some (n - 48)
      else if 97 \<le> n \<and> n \<le> 122 then Some (n - 87)
      else if 65 \<le> n \<and> n \<le> 90 then Some (n - 55) else None)"

text \<open>The value of the longest prefix of digits of the base.\<close>

fun digits_value :: "nat \<Rightarrow> string \<Rightarrow> nat \<Rightarrow> nat" where
  "digits_value b [] acc = acc"
| "digits_value b (c # cs) acc =
     (case digit_value c of
        None \<Rightarrow> acc
      | Some d \<Rightarrow> if d < b then digits_value b cs (acc * b + d) else acc)"

definition is_hex_prefix :: "string \<Rightarrow> bool" where
  "is_hex_prefix s \<longleftrightarrow>
     (case s of z # x # d # _ \<Rightarrow> z = CHR ''0'' \<and> (x = CHR ''x'' \<or> x = CHR ''X'') \<and>
                   (case digit_value d of None \<Rightarrow> False | Some v \<Rightarrow> v < 16)
      | _ \<Rightarrow> False)"

text \<open>The sign of a number and what follows it.\<close>

definition split_sign :: "string \<Rightarrow> bool \<times> string" where
  "split_sign s =
     (case dropWhile is_space s of
        [] \<Rightarrow> (False, [])
      | c # cs \<Rightarrow> if c = CHR ''-'' then (True, cs) else if c = CHR ''+'' then (False, cs)
                  else (False, c # cs))"

text \<open>\<^verbatim>\<open>strtoul(s, NULL, 0)\<close> on a 64-bit host: saturated at \<^verbatim>\<open>ULONG_MAX\<close>, negated modulo 2^64.\<close>

definition strtoul0 :: "string \<Rightarrow> u64" where
  "strtoul0 s =
     (let (neg, t) = split_sign s;
          v = (if is_hex_prefix t then digits_value 16 (drop 2 t) 0
               else if t \<noteq> [] \<and> hd t = CHR ''0'' then digits_value 8 t 0
               else digits_value 10 t 0)
      in if v \<ge> 2 ^ 64 then - 1 else if neg then - word_of_nat v else word_of_nat v)"

text \<open>\<^verbatim>\<open>atoi\<close>, for values that fit an \<^verbatim>\<open>int\<close>.\<close>

definition atoi :: "string \<Rightarrow> int" where
  "atoi s = (let (neg, t) = split_sign s; v = int (digits_value 10 t 0) in if neg then - v else v)"

section \<open>The command line\<close>

record cli =
  enable_paging :: bool
  enable_long_mode :: bool
  linux_boot :: bool
  cli_linux_entry :: linux_entry_mode
  cli_linux_rsi :: linux_rsi_mode
  linux_cmdline :: "string option"
  initrd_path :: "string option"
  bzimage_path :: "string option"
  cli_entry_point :: u32
  cli_load_offset :: u32
  verbose :: bool
  debug_level :: debug_level

definition cli_init :: cli where
  "cli_init =
     \<lparr>enable_paging = False, enable_long_mode = False, linux_boot = False,
      cli_linux_entry = LINUX_ENTRY_CODE32, cli_linux_rsi = LINUX_RSI_BASE,
      linux_cmdline = None, initrd_path = None, bzimage_path = None,
      cli_entry_point = 0x80001000, cli_load_offset = 0x1000,
      verbose = False, debug_level = DEBUG_NONE\<rparr>"

definition linux_entry_of :: "string \<Rightarrow> linux_entry_mode option" where
  "linux_entry_of v =
     (if v = ''setup'' then Some LINUX_ENTRY_SETUP
      else if v = ''code32'' then Some LINUX_ENTRY_CODE32
      else if v = ''boot64'' then Some LINUX_ENTRY_BOOT64 else None)"

definition linux_rsi_of :: "string \<Rightarrow> linux_rsi_mode option" where
  "linux_rsi_of v =
     (if v = ''base'' then Some LINUX_RSI_BASE
      else if v = ''hdr'' then Some LINUX_RSI_HDR else None)"

text \<open>A flag without argument: the new settings, or \<open>None\<close> when it is not one of them.\<close>

definition plain_flag :: "string \<Rightarrow> cli \<Rightarrow> cli option" where
  "plain_flag a c =
     (if a = ''--paging'' then Some (c\<lparr>enable_paging := True\<rparr>)
      else if a = ''--long-mode'' then Some (c\<lparr>enable_long_mode := True, enable_paging := True\<rparr>)
      else if a = ''--verbose'' \<or> a = ''-v''
      then Some (c\<lparr>verbose := True, debug_level := DEBUG_BASIC\<rparr>)
      else if a = ''--dump-regs'' then Some c
      else None)"

text \<open>A flag with argument \<open>v\<close>; \<open>None\<close> is an unknown flag or an invalid argument.\<close>

definition value_flag :: "string \<Rightarrow> string \<Rightarrow> cli \<Rightarrow> cli option" where
  "value_flag a v c =
     (if a = ''--linux'' then Some (c\<lparr>bzimage_path := Some v, linux_boot := True\<rparr>)
      else if a = ''--linux-entry''
      then map_option (\<lambda>e. c\<lparr>cli_linux_entry := e\<rparr>) (linux_entry_of v)
      else if a = ''--linux-rsi''
      then map_option (\<lambda>e. c\<lparr>cli_linux_rsi := e\<rparr>) (linux_rsi_of v)
      else if a = ''--cmdline'' then Some (c\<lparr>linux_cmdline := Some v\<rparr>)
      else if a = ''--initrd'' then Some (c\<lparr>initrd_path := Some v\<rparr>)
      else if a = ''--entry'' then Some (c\<lparr>cli_entry_point := ucast (strtoul0 v)\<rparr>)
      else if a = ''--load'' then Some (c\<lparr>cli_load_offset := ucast (strtoul0 v)\<rparr>)
      else if a = ''--debug'' then
        (let level = atoi v in
         if level < 0 \<or> level > 3 then None
         else Some (c\<lparr>debug_level := debug_of_int level, verbose := (level > 0)\<rparr>))
      else if a = ''--dump-mem'' then Some c
      else None)"

text \<open>The flag loop: the settings and the remaining arguments, or \<open>None\<close> for an error exit.\<close>

fun parse_flags :: "string list \<Rightarrow> cli \<Rightarrow> (cli \<times> string list) option" where
  "parse_flags [] c = Some (c, [])"
| "parse_flags (a # rest) c =
     (if a = [] \<or> hd a \<noteq> CHR ''-'' then Some (c, a # rest)
      else case plain_flag a c of
             Some c' \<Rightarrow> parse_flags rest c'
           | None \<Rightarrow>
               (case rest of
                  [] \<Rightarrow> None
                | v # rest' \<Rightarrow>
                    (case value_flag a v c of
                       None \<Rightarrow> None
                     | Some c' \<Rightarrow> parse_flags rest' c')))"

text \<open>
  The arguments after the program name; the result has the settings, the guest images and
  \<^verbatim>\<open>num_vcpus\<close>.
\<close>

definition parse_args :: "string list \<Rightarrow> (cli \<times> string list \<times> nat) option" where
  "parse_args args =
     (if args = [] then None
      else case parse_flags args cli_init of
             None \<Rightarrow> None
           | Some (c, guests) \<Rightarrow>
               (if linux_boot c then
                  (if bzimage_path c = None then None else Some (c, guests, 1))
                else if guests = [] then None
                else if length guests > MAX_VCPUS then None
                else Some (c, guests, length guests)))"

section \<open>Guest names\<close>

text \<open>What follows the last occurrence of a character, if it occurs.\<close>

definition after_last :: "char \<Rightarrow> string \<Rightarrow> string option" where
  "after_last c s = (if c \<in> set s then Some (rev (takeWhile (\<lambda>x. x \<noteq> c) (rev s))) else None)"

definition extract_guest_name :: "string \<Rightarrow> string" where
  "extract_guest_name filename =
     (let name = (case after_last (CHR ''/'') filename of Some n \<Rightarrow> n | None \<Rightarrow> filename);
          name_buf = take 255 name
      in case after_last (CHR ''.'') name_buf of
           Some ext \<Rightarrow> if ext = ''bin'' then take (length name_buf - 4) name_buf else name_buf
         | None \<Rightarrow> name_buf)"

section \<open>Loading a guest image\<close>

text \<open>\<^verbatim>\<open>fsize + load_offset\<close> is a \<^verbatim>\<open>size_t\<close> sum that cannot wrap for a file size below 2^63.\<close>

definition load_guest_binary ::
  "u8 list option \<Rightarrow> nat \<Rightarrow> u32 \<Rightarrow> gmem \<Rightarrow> (int \<times> gmem) option" where
  "load_guest_binary file_opt mem_sz offset m =
     (case file_opt of
        None \<Rightarrow> Some (- 1, m)
      | Some file \<Rightarrow>
          if length file + unat offset > mem_sz then Some (- 1, m)
          else map_option (\<lambda>m. (0, m)) (gm_write m (unat offset) file))"

section \<open>Starting a guest\<close>

text \<open>What the host answers while one guest is started.\<close>

record guest_host =
  gh_mmap_ok :: bool
  gh_region_ok :: bool
  gh_file :: "u8 list option"
  gh_kvm :: kvm_vcpu

definition guest_context :: "cli \<Rightarrow> nat \<Rightarrow> string \<Rightarrow> vcpu_context" where
  "guest_context c i path =
     zero_context\<lparr>vcpu_id := i, guest_binary := path, vm_name := extract_guest_name path,
       use_paging := enable_paging c, long_mode := enable_long_mode c,
       entry_point := cli_entry_point c,
       load_offset := (if enable_paging c then cli_load_offset c else 0)\<rparr>"

definition start_guest ::
  "guest_host \<Rightarrow> cli \<Rightarrow> nat \<Rightarrow> string \<Rightarrow> (int \<times> vm \<times> mem_region option) option" where
  "start_guest h c i path =
     (let (r, ctx, region) = setup_vcpu_memory (gh_mmap_ok h) (gh_region_ok h) (guest_context c i path) in
      if r < 0 then Some (- 1, \<lparr>vm_ctx = ctx, vm_kvm = gh_kvm h\<rparr>, region)
      else do {
        (r, m) \<leftarrow> load_guest_binary (gh_file h) (mem_size ctx) (load_offset ctx) (guest_mem ctx);
        if r < 0 then Some (- 1, \<lparr>vm_ctx = ctx\<lparr>guest_mem := m\<rparr>, vm_kvm = gh_kvm h\<rparr>, region)
        else do {
          (r, s) \<leftarrow> setup_vcpu_context \<lparr>vm_ctx = ctx\<lparr>guest_mem := m\<rparr>, vm_kvm = gh_kvm h\<rparr>;
          Some (r, s, region)
        }
      })"

text \<open>
  The loop over the guests: the vCPUs set up so far, in order, and 0 when all of them are; it stops
  at the first failure.
\<close>

fun start_guests ::
  "(nat \<Rightarrow> guest_host) \<Rightarrow> cli \<Rightarrow> nat \<Rightarrow> string list \<Rightarrow> (int \<times> vm list) option" where
  "start_guests h c i [] = Some (0, [])"
| "start_guests h c i (path # paths) =
     (case start_guest (h i) c i path of
        None \<Rightarrow> None
      | Some (r, s, _) \<Rightarrow>
          if r < 0 then Some (- 1, [s])
          else (case start_guests h c (i + 1) paths of
                  None \<Rightarrow> None
                | Some (r', ss) \<Rightarrow> Some (r', s # ss)))"

section \<open>Starting Linux\<close>

record linux_host =
  lh_mmap_ok :: bool
  lh_region_ok :: bool
  lh_kernel :: "u8 list option"
  lh_junk :: "u8 list"
  lh_initrd :: "u8 list option"
  lh_kvm :: kvm_vcpu
  lh_env :: kvm_env

definition linux_context :: "cli \<Rightarrow> vcpu_context" where
  "linux_context c =
     zero_context\<lparr>vcpu_id := 0, guest_binary := the (bzimage_path c), vm_name := ''Linux'',
       linux_guest := True, linux_entry := cli_linux_entry c, linux_rsi := cli_linux_rsi c\<rparr>"

text \<open>The bytes \<^verbatim>\<open>memcpy\<close> takes of the command line and its terminator.\<close>

definition cmdline_bytes :: "string \<Rightarrow> u8 list" where
  "cmdline_bytes cmdline =
     (let cmdline_len = length cmdline + 1;
          cmdline_len = (if cmdline_len > 256 then 256 else cmdline_len)
      in take cmdline_len (ascii cmdline @ [0]))"

definition boot_params_gpa :: nat where "boot_params_gpa = unat LINUX_BOOT_PARAMS_ADDR"

text \<open>From the loaded image to the entry state: 64-bit detection, entry point and command line.\<close>

definition linux_entry_setup :: "cli \<Rightarrow> vcpu_context \<Rightarrow> gmem \<Rightarrow> (int \<times> vcpu_context) option" where
  "linux_entry_setup c ctx m =
     do {
       xloadflags \<leftarrow> load16 m (boot_params_gpa + off_xloadflags);
       let is64 = (xloadflags AND XLF_KERNEL_64 \<noteq> 0);
       let ctx = (if is64 then ctx\<lparr>long_mode := True\<rparr> else ctx);
       if cli_linux_entry c = LINUX_ENTRY_BOOT64 \<and> \<not> is64 then Some (- 1, ctx\<lparr>guest_mem := m\<rparr>)
       else do {
         entry \<leftarrow> (if cli_linux_entry c = LINUX_ENTRY_BOOT64 then Some (word_of_nat (KERNEL_LOAD_ADDR + 0x200))
                  else load32 m (boot_params_gpa + off_code32_start));
         m \<leftarrow> (case linux_cmdline c of
                 None \<Rightarrow> Some m
               | Some cmdline \<Rightarrow> gm_write m COMMAND_LINE_ADDR (cmdline_bytes cmdline));
         Some (0, ctx\<lparr>entry_point := entry, guest_mem := m\<rparr>)
       }
     }"

text \<open>At the highest debug level the first 2000 instructions are single-stepped.\<close>

definition linux_singlestep :: "linux_host \<Rightarrow> cli \<Rightarrow> vm \<Rightarrow> int \<times> vm" where
  "linux_singlestep h c s =
     (if debug_level c = DEBUG_ALL then
        (let ctx = (vm_ctx s)\<lparr>singlestep_remaining := 2000, singlestep_paused := False,
                             singlestep_exits := 0\<rparr>;
             (r, ctx') = set_guest_singlestep (lh_env h) True ctx
         in (if r < 0 then - 1 else 0, s\<lparr>vm_ctx := ctx'\<rparr>))
      else (0, s))"

definition start_linux :: "linux_host \<Rightarrow> cli \<Rightarrow> (int \<times> vm) option" where
  "start_linux h c =
     (let (r, ctx, region) = setup_vcpu_memory (lh_mmap_ok h) (lh_region_ok h) (linux_context c);
          fail = (\<lambda>ctx. Some (- 1, \<lparr>vm_ctx = ctx, vm_kvm = lh_kvm h\<rparr>)) in
      if r < 0 then fail ctx
      else do {
        m \<leftarrow> gm_fill (guest_mem ctx) boot_params_gpa 0 boot_params_size;
        m \<leftarrow> setup_linux_ivt m;
        (r, m) \<leftarrow> load_linux_kernel (lh_kernel h) (lh_junk h) (mem_size ctx) boot_params_gpa m;
        if r < 0 then fail (ctx\<lparr>guest_mem := m\<rparr>)
        else do {
          m \<leftarrow> setup_linux_boot_params boot_params_gpa (mem_size ctx) (linux_cmdline c \<noteq> None) m;
          (r, m) \<leftarrow> (if initrd_path c = None then Some (0, m)
                    else load_initrd (Some (lh_initrd h)) (mem_size ctx) boot_params_gpa m);
          if r < 0 then fail (ctx\<lparr>guest_mem := m\<rparr>)
          else do {
            (r, ctx) \<leftarrow> linux_entry_setup c ctx m;
            if r < 0 then fail ctx
            else do {
              (r, s) \<leftarrow> setup_vcpu_context \<lparr>vm_ctx = ctx, vm_kvm = lh_kvm h\<rparr>;
              if r < 0 then Some (- 1, s) else Some (linux_singlestep h c s)
            }
          }
        }
      })"

section \<open>Properties of the command line\<close>

definition cli_inv :: "cli \<Rightarrow> bool" where
  "cli_inv c \<longleftrightarrow> (enable_long_mode c \<longrightarrow> enable_paging c) \<and>
     (verbose c \<longleftrightarrow> DEBUG_NONE < debug_level c) \<and> (linux_boot c \<longleftrightarrow> bzimage_path c \<noteq> None)"

text \<open>The settings stay consistent whichever branch a flag takes.\<close>

lemma if_Some_cases:
  assumes "(if b then x else y) = Some z" and "b \<Longrightarrow> x = Some z \<Longrightarrow> P" and "y = Some z \<Longrightarrow> P"
  shows P
  using assms by (auto split: if_splits)

lemma debug_of_int_pos: "0 \<le> i \<Longrightarrow> DEBUG_NONE < debug_of_int i \<longleftrightarrow> 0 < i"
  by (auto simp: debug_of_int_def less_debug_level_def)

lemma if_None_cases:
  assumes "(if b then None else y) = Some z" and "\<not> b \<Longrightarrow> y = Some z \<Longrightarrow> P"
  shows P
  using assms by (auto split: if_splits)

lemma plain_flag_inv:
  assumes "plain_flag a c = Some c'" and "cli_inv c"
  shows "cli_inv c'"
proof -
  have "DEBUG_NONE < DEBUG_BASIC" by (simp add: less_debug_level_def)
  with assms(2) show ?thesis
    using assms(1) unfolding plain_flag_def
    by (elim if_Some_cases) (auto simp: cli_inv_def)
qed

lemma value_flag_inv:
  assumes "value_flag a v c = Some c'" and "cli_inv c"
  shows "cli_inv c'"
  using assms unfolding value_flag_def Let_def
  by (elim if_None_cases if_Some_cases) (auto simp: cli_inv_def debug_of_int_pos)

lemma parse_flags_spec:
  "parse_flags args c = Some (c', left) \<Longrightarrow> cli_inv c \<Longrightarrow> cli_inv c' \<and> suffix left args"
proof (induction args c rule: parse_flags.induct)
  case (1 c)
  then show ?case by simp
next
  case (2 a rest c)
  show ?case
  proof (cases "a = [] \<or> hd a \<noteq> CHR ''-''")
    case True
    then show ?thesis using 2 by auto
  next
    case flag: False
    show ?thesis
    proof (cases "plain_flag a c")
      case (Some c1)
      then have "parse_flags rest c1 = Some (c', left)" using 2(3) flag by auto
      then show ?thesis
        using 2(2)[OF flag Some] plain_flag_inv[OF Some 2(4)] by (auto intro: suffix_ConsI)
    next
      case None
      then obtain v rest' c1 where r: "rest = v # rest'" "value_flag a v c = Some c1"
        "parse_flags rest' c1 = Some (c', left)"
        using 2(3) flag by (auto split: list.splits option.splits)
      then show ?thesis
        using 2(1)[OF flag None r(1,2) r(3)] value_flag_inv[OF r(2) 2(4)]
        by (auto intro: suffix_ConsI)
    qed
  qed
qed

text \<open>
  C33: An accepted command line starts between 1 and \<open>MAX_VCPUS\<close> vCPUs: one for Linux, which then has
  an image path, and otherwise one for each of the last arguments; long mode implies paging, and
  the verbose flag is set exactly when the debug level is above none.
\<close>

theorem accepted_command_line:
  assumes "parse_args args = Some (c, guests, n)"
  shows "1 \<le> n \<and> n \<le> MAX_VCPUS \<and>
    (if linux_boot c then n = 1 \<and> bzimage_path c \<noteq> None else n = length guests) \<and>
    (enable_long_mode c \<longrightarrow> enable_paging c) \<and> (verbose c \<longleftrightarrow> DEBUG_NONE < debug_level c) \<and>
    (\<exists>flags. args = flags @ guests)"
proof -
  have "parse_flags args cli_init = Some (c, guests)"
    using assms by (auto simp: parse_args_def split: if_splits option.splits)
  moreover have "cli_inv cli_init" by (simp add: cli_inv_def cli_init_def less_debug_level_def)
  ultimately have "cli_inv c" "suffix guests args" using parse_flags_spec by blast+
  then show ?thesis
    using assms
    by (auto simp: parse_args_def cli_inv_def suffix_def MAX_VCPUS_def Suc_le_eq
        split: if_splits option.splits)
qed

text \<open>
  The guest name of a path is its last component without the extension \<^verbatim>\<open>.bin\<close>, for every
  component that fits the buffer.
\<close>

theorem guest_name_of_path:
  assumes "CHR ''/'' \<notin> set name" and "length name \<le> 251"
  shows "extract_guest_name (dir @ ''/'' @ name @ ''.bin'') = name"
proof -
  have slash: "after_last (CHR ''/'') (dir @ ''/'' @ x) = Some x" if "CHR ''/'' \<notin> set x" for x
  proof -
    have "takeWhile (\<lambda>y. y \<noteq> CHR ''/'') (rev x @ CHR ''/'' # rev dir) = rev x"
      using that by (subst takeWhile_append2) auto
    then show ?thesis by (simp add: after_last_def)
  qed
  have dot: "after_last (CHR ''.'') (x @ ''.bin'') = Some ''bin''" for x
    by (simp add: after_last_def)
  have "after_last (CHR ''/'') (dir @ ''/'' @ name @ ''.bin'') = Some (name @ ''.bin'')"
    by (rule slash) (use assms(1) in simp)
  then show ?thesis using assms(2) dot by (simp add: extract_guest_name_def Let_def)
qed

section \<open>A started guest\<close>

text \<open>
  C3: From the command line to the first instruction: when a guest with paging but not in long mode is
  started and its image lies between 0xD28 (the end of the descriptor tables) and 0x100000 (the page
  tables), the image is unchanged at the load offset in the memory of that vCPU, the vCPU is ready in
  protected mode, and the page tables in that memory translate an entry point in the first 4 MB, or in the
  first 4 MB from 0x80000000 on, to its offset in these 4 MB. So the default entry point 0x80001000 leads
  to the default load offset 0x1000.
\<close>

theorem paging_guest_started:
  assumes "start_guest h c i path = Some (0, t, region)"
    and "enable_paging c" and "\<not> enable_long_mode c" and "gh_file h = Some img"
    and "0xD28 \<le> unat (cli_load_offset c)" and "unat (cli_load_offset c) + length img \<le> 0x100000"
  shows "running (vm_ctx t) \<and> protected_ready t \<and>
    gm_read (guest_mem (vm_ctx t)) (unat (cli_load_offset c)) (length img) = Some img \<and>
    rip (k_regs (vm_kvm t)) = ucast (cli_entry_point c) \<and>
    (\<forall>pa. pa < 0x400000 \<and> (cli_entry_point c = pa \<or> cli_entry_point c = pa + 0x80000000) \<longrightarrow>
       walk_page_tables_32bit (guest_mem (vm_ctx t)) (ucast (cr3 (k_sregs (vm_kvm t))))
         (cli_entry_point c) = Some (Physical pa))"
proof -
  let ?off = "unat (cli_load_offset c)"
  let ?ctx0 = "guest_context c i path"
  have flags: "use_paging ?ctx0" "\<not> long_mode ?ctx0" "\<not> linux_guest ?ctx0"
    "load_offset ?ctx0 = cli_load_offset c" "entry_point ?ctx0 = cli_entry_point c"
    using assms(2,3) by (simp_all add: guest_context_def zero_context_def)
  obtain r ctx where mem: "setup_vcpu_memory (gh_mmap_ok h) (gh_region_ok h) ?ctx0 = (r, ctx, region)"
    "\<not> r < 0"
    using assms(1) by (auto simp: start_guest_def Let_def bind_eq_Some_conv split: prod.splits if_splits)
  then have ctx: "ctx = ?ctx0\<lparr>mem_size := vcpu_mem_size ?ctx0,
      guest_mem := \<lparr>gm_size = vcpu_mem_size ?ctx0, gm_data = (\<lambda>_. 0)\<rparr>\<rparr>"
    by (auto simp: setup_vcpu_memory_def Let_def split: if_splits)
  obtain m where m: "gm_write (guest_mem ctx) ?off img = Some m"
    "setup_vcpu_context \<lparr>vm_ctx = ctx\<lparr>guest_mem := m\<rparr>, vm_kvm = gh_kvm h\<rparr> = Some (0, t)"
    using assms(1) mem flags(4) assms(4)
    by (auto simp: start_guest_def ctx bind_eq_Some_conv load_guest_binary_def split: if_splits)
  let ?s = "\<lparr>vm_ctx = ctx\<lparr>guest_mem := m\<rparr>, vm_kvm = gh_kvm h\<rparr>"
  obtain u v fd where u: "vm_ctx u = (vm_ctx ?s)\<lparr>vcpu_fd := fd\<rparr>"
    "configure_protected_mode u = Some (0, v)" "k_runnable (vm_kvm u)"
    "t = v\<lparr>vm_ctx := (vm_ctx v)\<lparr>running := True, exit_count := 0\<rparr>\<rparr>"
    by (rule paging_created[OF m(2)]) (use flags ctx in simp_all)
  have entry: "entry_point (vm_ctx u) = cli_entry_point c" "guest_mem (vm_ctx u) = m"
    using u(1) flags(5) ctx by simp_all
  have "gm_read (guest_mem (vm_ctx v)) ?off (length img) = Some img"
    using protected_mode_frame[OF u(2), of ?off "length img"] entry(2) gm.rd_wr_same[OF m(1)]
      assms(5,6) by simp
  moreover have ready: "protected_ready v" using protected_mode_tables(1)[OF u(2)] .
  moreover have "walk_page_tables_32bit (guest_mem (vm_ctx v)) (ucast (cr3 (k_sregs (vm_kvm v)))) e =
      Some (Physical pa)" if "pa < 0x400000" "e = pa \<or> e = pa + 0x80000000" for e pa
    using ready that unfolding protected_ready_def Let_def by auto
  ultimately show ?thesis
    using protected_mode_tables(2)[OF u(2)] entry(1) by (simp add: u(4) protected_ready_def)
qed

section \<open>A started Linux kernel\<close>

lemma boot_gdt_size: "setup_linux_boot_gdt m = Some m' \<Longrightarrow> GDT_ADDR + GDT_TOTAL_SIZE \<le> b \<Longrightarrow>
    gm_read m' b n = gm_read m b n"
proof -
  assume a: "setup_linux_boot_gdt m = Some m'" "GDT_ADDR + GDT_TOTAL_SIZE \<le> b"
  obtain m0 m1 m2 m3 m4 e0 e1 e2 e3 e4 where s: "gm_fill m GDT_ADDR 0 GDT_TOTAL_SIZE = Some m0"
    "store_gdt m0 GDT_ADDR 0 e0 = Some m1" "store_gdt m1 GDT_ADDR 1 e1 = Some m2"
    "store_gdt m2 GDT_ADDR 2 e2 = Some m3" "store_gdt m3 GDT_ADDR 3 e3 = Some m4"
    "store_gdt m4 GDT_ADDR 4 e4 = Some m'"
    using a(1) unfolding setup_linux_boot_gdt_def by (auto simp: bind_eq_Some_conv)
  have "gm_read v b n = gm_read u b n" if "store_gdt u GDT_ADDR i e = Some v" "i < 5" for u v i e
    using gm.rd_wr_other[OF that(1)[unfolded store_gdt_def], of b n] a(2) that(2)
    by (simp add: gdt_layout)
  from this[OF s(2)] this[OF s(3)] this[OF s(4)] this[OF s(5)] this[OF s(6)]
  show ?thesis using gm_fill_frame[OF s(1), of b n] a(2) by simp
qed

lemma prot_idt_above:
  assumes "setup_linux_prot_idt m = Some m'" and "0x8000 \<le> b"
  shows "gm_read m' b n = gm_read m b n"
proof -
  obtain m3 where s: "gm_write m (unat handler_addr) handler_code = Some m3"
    "gm.fill (GDT_ADDR + GDT_TOTAL_SIZE) 8 (\<lambda>_. idt_bytes linux_gate) 256 m3 = Some m'"
    using assms(1) unfolding setup_linux_prot_idt_def gm.fill_def
    by (auto simp: bind_eq_Some_conv)
  have "gm_read m' b n = gm_read m3 b n"
    by (rule gm.fill_frame[OF s(2)]) (use assms(2) in \<open>simp_all add: gdt_layout\<close>)
  also have "\<dots> = gm_read m b n"
    by (rule gm.rd_wr_other[OF s(1)])
      (use assms(2) in \<open>simp add: handler_addr_def handler_code_def\<close>)
  finally show ?thesis .
qed

lemma setup_linux_ivt_size: "setup_linux_ivt m = Some m' \<Longrightarrow> gm_size m' = gm_size m"
proof -
  assume "setup_linux_ivt m = Some m'"
  then obtain m1 m2 m3 where "gm_write m 0x1000 [0xCF] = Some m1"
    "gm_write m1 0x1100 int_success_stub = Some m2" "gm_write m2 0x1200 int_fail_stub = Some m3"
    "gm.fill 0 4 ivt_vector 256 m3 = Some m'"
    unfolding setup_linux_ivt_def store8_def gm.fill_def by (auto simp: bind_eq_Some_conv)
  then show ?thesis using gm_write_size gm.fill_size by metis
qed

text \<open>The stages of a successful start.\<close>

lemma load_initrd_result: "load_initrd p sz bp m = Some (r, m') \<Longrightarrow> r = 0 \<or> r = - 1"
  unfolding load_initrd_def Let_def by (auto simp: bind_eq_Some_conv split: option.splits if_splits)

lemma start_linux_zero:
  assumes "start_linux h c = Some (0, t)"
  obtains ctx m1 m2 m3 m4 m5 ctx' s where
    "gm_size m2 = 268435456" "mem_size ctx = 268435456" "linux_guest ctx"
    "linux_entry ctx = cli_linux_entry c" "linux_rsi ctx = cli_linux_rsi c"
    "load_linux_kernel (lh_kernel h) (lh_junk h) 268435456 boot_params_gpa m2 = Some (0, m3)"
    "setup_linux_boot_params boot_params_gpa 268435456 (linux_cmdline c \<noteq> None) m3 = Some m4"
    "(if initrd_path c = None then Some (0, m4)
      else load_initrd (Some (lh_initrd h)) 268435456 boot_params_gpa m4) = Some (0, m5)"
    "linux_entry_setup c ctx m5 = Some (0, ctx')"
    "setup_vcpu_context \<lparr>vm_ctx = ctx', vm_kvm = lh_kvm h\<rparr> = Some (0, s)"
    "guest_mem (vm_ctx t) = guest_mem (vm_ctx s)" "vm_kvm t = vm_kvm s"
proof -
  obtain r ctx region where mem:
    "setup_vcpu_memory (lh_mmap_ok h) (lh_region_ok h) (linux_context c) = (r, ctx, region)"
    by (metis prod_cases3)
  have r: "\<not> r < 0" using assms(1) mem by (auto simp: start_linux_def)
  have ctx: "ctx = (linux_context c)\<lparr>mem_size := 268435456,
      guest_mem := \<lparr>gm_size = 268435456, gm_data = (\<lambda>_. 0)\<rparr>\<rparr>"
    using mem r by (auto simp: setup_vcpu_memory_def Let_def vcpu_mem_size_def linux_context_def
        split: if_splits)
  have sz: "mem_size ctx = 268435456" by (simp add: ctx)
  define initrd where "initrd m = (if initrd_path c = None then Some (0, m)
    else load_initrd (Some (lh_initrd h)) 268435456 boot_params_gpa m)" for m
  obtain m1 m2 r3 m3 m4 r4 m5 r5 ctx' where s1: "gm_fill (guest_mem ctx) boot_params_gpa 0 boot_params_size = Some m1"
    "setup_linux_ivt m1 = Some m2"
    "load_linux_kernel (lh_kernel h) (lh_junk h) 268435456 boot_params_gpa m2 = Some (r3, m3)" "\<not> r3 < 0"
    "setup_linux_boot_params boot_params_gpa 268435456 (linux_cmdline c \<noteq> None) m3 = Some m4"
    and i: "initrd m4 = Some (r4, m5)" "\<not> r4 < 0"
    and e: "linux_entry_setup c ctx m5 = Some (r5, ctx')" "\<not> r5 < 0"
    and last: "Option.bind (setup_vcpu_context \<lparr>vm_ctx = ctx', vm_kvm = lh_kvm h\<rparr>)
      (\<lambda>(r, s). if r < 0 then Some (- 1, s) else Some (linux_singlestep h c s)) = Some (0, t)"
    using assms(1) unfolding start_linux_def mem Let_def prod.case sz initrd_def[symmetric]
    by (auto simp: r bind_eq_Some_conv split: if_splits)
  obtain r6 s where s2: "setup_vcpu_context \<lparr>vm_ctx = ctx', vm_kvm = lh_kvm h\<rparr> = Some (r6, s)"
    "\<not> r6 < 0" "linux_singlestep h c s = (0, t)"
    using last by (auto simp: bind_eq_Some_conv split: if_splits)
  have r3: "r3 = 0"
    using s1(3,4) by (cases "lh_kernel h")
      (auto simp: load_linux_kernel_def[of None] elim: load_linux_kernel_cases)
  have r4: "r4 = 0" using i by (auto simp: initrd_def split: if_splits dest: load_initrd_result)
  have r5: "r5 = 0"
    using e unfolding linux_entry_setup_def Let_def
    by (auto simp: bind_eq_Some_conv split: if_splits)
  have "outcome False (r6, s) \<or> outcome True (r6, s)"
    using setup_vcpu_result[OF s2(1)] by (cases "running ctx'") auto
  then have r6: "r6 = 0" using s2(2) by (auto simp: outcome_def)
  have t: "guest_mem (vm_ctx t) = guest_mem (vm_ctx s)" "vm_kvm t = vm_kvm s"
    using s2(3) by (auto simp: linux_singlestep_def set_guest_singlestep_def Let_def split: if_splits)
  show thesis
    by (rule that[OF _ sz _ _ _ s1(3)[unfolded r3] s1(5) i(1)[unfolded r4 initrd_def] e(1)[unfolded r5] s2(1)[unfolded r6] t])
      (use gm_fill_size[OF s1(1)] setup_linux_ivt_size[OF s1(2)] in
        \<open>simp_all add: ctx linux_context_def\<close>)
qed

text \<open>What the stages after the initrd leave alone.\<close>

lemma code32_entry_keeps:
  assumes e: "linux_entry_setup c ctx m5 = Some (0, ctx')" and c: "cli_linux_entry c = LINUX_ENTRY_CODE32"
    and x: "load32 m5 (0x90000 + off_code32_start) = Some x"
    and ctx: "linux_guest ctx" "linux_rsi ctx = cli_linux_rsi c" "linux_entry ctx = cli_linux_entry c"
    and v: "setup_vcpu_context \<lparr>vm_ctx = ctx', vm_kvm = lh_kvm h\<rparr> = Some (0, s)"
  shows "0x30000 \<le> a \<Longrightarrow> gm_read (guest_mem (vm_ctx s)) a j = gm_read m5 a j"
    and "rip (k_regs (vm_kvm s)) = ucast x"
    and "rsi (k_regs (vm_kvm s)) = (if cli_linux_rsi c = LINUX_RSI_HDR then 0x901f1 else 0x90000)"
proof -
  have bp: "boot_params_gpa = 0x90000" by (simp add: boot_params_gpa_def LINUX_BOOT_PARAMS_ADDR_def)
  obtain m6 where m6: "(case linux_cmdline c of None \<Rightarrow> Some m5
      | Some cmdline \<Rightarrow> gm_write m5 COMMAND_LINE_ADDR (cmdline_bytes cmdline)) = Some m6"
    "guest_mem ctx' = m6" "entry_point ctx' = x" "linux_guest ctx'" "linux_rsi ctx' = cli_linux_rsi c"
    "linux_entry ctx' = LINUX_ENTRY_CODE32"
    using e c x ctx unfolding linux_entry_setup_def Let_def bp
    by (auto simp: bind_eq_Some_conv split: if_splits)
  have cmd: "length (cmdline_bytes cl) \<le> 256" for cl by (simp add: cmdline_bytes_def Let_def)
  have keep6: "gm_read m6 a j = gm_read m5 a j" if "0x30000 \<le> a" for a j
  proof (cases "linux_cmdline c")
    case None
    then show ?thesis using m6(1) by simp
  next
    case (Some cl)
    then have "gm_write m5 COMMAND_LINE_ADDR (cmdline_bytes cl) = Some m6" using m6(1) by simp
    then show ?thesis
      by (rule gm.rd_wr_other) (use cmd[of cl] that in \<open>simp add: boot_addrs\<close>)
  qed
  let ?s = "\<lparr>vm_ctx = ctx', vm_kvm = lh_kvm h\<rparr>"
  obtain m7 m8 where m78: "setup_linux_boot_gdt m6 = Some m7" "setup_linux_prot_idt m7 = Some m8"
    "guest_mem (vm_ctx s) = m8"
    and regs: "rip (k_regs (vm_kvm s)) = ucast x"
    "rsi (k_regs (vm_kvm s)) = (if cli_linux_rsi c = LINUX_RSI_HDR then 0x901f1 else 0x90000)"
    by (rule code32_created[OF v]) (use m6 in auto)
  show "gm_read (guest_mem (vm_ctx s)) a j = gm_read m5 a j" if "0x30000 \<le> a"
    using keep6[OF that, of j] prot_idt_above[OF m78(2), of a j] boot_gdt_size[OF m78(1), of a j] that
    by (simp add: gdt_layout m78(3))
  show "rip (k_regs (vm_kvm s)) = ucast x"
    "rsi (k_regs (vm_kvm s)) = (if cli_linux_rsi c = LINUX_RSI_HDR then 0x901f1 else 0x90000)" by (rule regs)+
qed

text \<open>What the initrd stage does to the kernel, the entry point and the initrd itself.\<close>

lemma initrd_stage:
  assumes i: "(if initrd_path c = None then Some (0, m4)
      else load_initrd (Some (lh_initrd h)) 268435456 0x90000 m4) = Some (0, m5)"
    and am: "load32 m4 (0x90000 + off_initrd_addr_max) = Some am" and isz: "load32 m4 (0x90000 + off_init_size) = Some isz"
  shows "load32 m5 (0x90000 + off_code32_start) = load32 m4 (0x90000 + off_code32_start) \<and>
    load32 m5 (0x90000 + off_init_size) = Some isz \<and>
    (initrd_path c = None \<or> l \<le> unat isz \<longrightarrow> gm_read m5 KERNEL_LOAD_ADDR l = gm_read m4 KERNEL_LOAD_ADDR l) \<and>
    (initrd_path c \<noteq> None \<longrightarrow> (\<exists>file a. lh_initrd h = Some file \<and> load32 m5 (0x90000 + off_ramdisk_image) = Some a \<and>
       load32 m5 (0x90000 + off_ramdisk_size) = Some (word_of_nat (length file)) \<and> 0x100000 \<le> unat a \<and>
       gm_read m5 (unat a) (length file) = Some file))"
proof (cases "initrd_path c = None")
  case True
  then show ?thesis using i isz by simp
next
  case False
  have l: "load_initrd (Some (lh_initrd h)) 268435456 0x90000 m4 = Some (0, m5)"
    by (rule i[unfolded if_not_P[OF False]])
  then obtain f where f: "lh_initrd h = Some f" by (cases "lh_initrd h") (auto simp: load_initrd_def)
  have pre: "0x90000 + boot_params_size \<le> KERNEL_LOAD_ADDR" "(268435456 :: nat) \<le> 2 ^ 32"
    by (simp_all add: boot_offsets boot_addrs)
  from initrd_place[OF l[unfolded f] pre am isz] obtain a where
    a: "KERNEL_LOAD_ADDR + unat isz \<le> a" "gm_read m5 a (length f) = Some f"
      "load32 m5 (0x90000 + off_ramdisk_image) = Some (word_of_nat a)" "unat (word_of_nat a :: u32) = a"
      "load32 m5 (0x90000 + off_ramdisk_size) = Some (word_of_nat (length f))"
    and high: "\<And>b n. KERNEL_LOAD_ADDR \<le> b \<and> (b + n \<le> a \<or> a + length f \<le> b) \<Longrightarrow> gm_read m5 b n = gm_read m4 b n"
    and low: "\<And>b n. b + n \<le> KERNEL_LOAD_ADDR \<and> (b + n \<le> 0x90000 + 0x218 \<or> 0x90000 + 0x220 \<le> b \<and> b + n \<le> 0x90000 + 0x22c \<or>
      0x90000 + 0x230 \<le> b) \<Longrightarrow> gm_read m5 b n = gm_read m4 b n"
    by blast
  have "load32 m5 (0x90000 + off_code32_start) = load32 m4 (0x90000 + off_code32_start)"
    "load32 m5 (0x90000 + off_init_size) = load32 m4 (0x90000 + off_init_size)"
    by (rule load_cong(2), rule low, simp add: boot_offsets boot_addrs)+
  moreover have "gm_read m5 KERNEL_LOAD_ADDR l = gm_read m4 KERNEL_LOAD_ADDR l" if "l \<le> unat isz"
    by (rule high) (use that a(1) in simp)
  moreover have "0x100000 \<le> unat (word_of_nat a :: u32)" "gm_read m5 (unat (word_of_nat a :: u32)) (length f) = Some f"
    using a(1,2,4) by (simp_all add: boot_addrs)
  ultimately show ?thesis using a(3,5) f isz False by auto
qed

text \<open>
  C2: When Linux is started with the 32-bit entry, the vCPU starts at the non-zero entry point recorded in
  the zero page at 0x90000, and RSI leads to that page (or to the setup header in it). The protected-mode
  part of the image is unchanged at 1 MB, unless there is an initrd and the init size of the header is below
  the size of that part. If there is an initrd, it is in memory where the zero page says.
\<close>

theorem linux_started:
  assumes "start_linux h c = Some (0, t)"
    and "cli_linux_entry c = LINUX_ENTRY_CODE32" and "lh_kernel h = Some img"
    and "length (lh_junk h) = 4096"
  shows "let m = guest_mem (vm_ctx t); n = setup_bytes img (lh_junk h); rg = k_regs (vm_kvm t) in
    (\<exists>isz. load32 m (0x90000 + off_init_size) = Some isz \<and>
      (initrd_path c = None \<or> length img - n \<le> unat isz \<longrightarrow>
        gm_read m KERNEL_LOAD_ADDR (length img - n) = Some (drop n img))) \<and>
    (initrd_path c \<noteq> None \<longrightarrow>
      (\<exists>file a. lh_initrd h = Some file \<and> load32 m (0x90000 + off_ramdisk_image) = Some a \<and>
        load32 m (0x90000 + off_ramdisk_size) = Some (word_of_nat (length file)) \<and>
        gm_read m (unat a) (length file) = Some file)) \<and>
    (\<exists>e. load32 m (0x90000 + off_code32_start) = Some e \<and> e \<noteq> 0 \<and> rip rg = ucast e) \<and>
    rsi rg = (if cli_linux_rsi c = LINUX_RSI_HDR then 0x90000 + 0x1f1 else 0x90000)"
proof (rule start_linux_zero[OF assms(1)])
  fix ctx m2 m3 m4 m5 ctx' s
  assume sz: "gm_size m2 = 268435456" and ctx: "linux_guest ctx" "linux_rsi ctx = cli_linux_rsi c"
    "linux_entry ctx = cli_linux_entry c"
    and k: "load_linux_kernel (lh_kernel h) (lh_junk h) 268435456 boot_params_gpa m2 = Some (0, m3)"
    and b: "setup_linux_boot_params boot_params_gpa 268435456 (linux_cmdline c \<noteq> None) m3 = Some m4"
    and i: "(if initrd_path c = None then Some (0, m4)
      else load_initrd (Some (lh_initrd h)) 268435456 boot_params_gpa m4) = Some (0, m5)"
    and e: "linux_entry_setup c ctx m5 = Some (0, ctx')"
    and v: "setup_vcpu_context \<lparr>vm_ctx = ctx', vm_kvm = lh_kvm h\<rparr> = Some (0, s)"
    and t: "guest_mem (vm_ctx t) = guest_mem (vm_ctx s)" "vm_kvm t = vm_kvm s"
  let ?n = "setup_bytes img (lh_junk h)" and ?m = "guest_mem (vm_ctx s)"
  have bp: "boot_params_gpa = 0x90000" by (simp add: boot_params_gpa_def LINUX_BOOT_PARAMS_ADDR_def)
  have pre: "0x90000 + boot_params_size \<le> 268435456" "0x30000 \<le> (0x90000 :: nat)"
    "0x90000 + boot_params_size \<le> KERNEL_LOAD_ADDR" by (simp_all add: boot_offsets boot_addrs)
  obtain x where kern: "gm_read m3 KERNEL_LOAD_ADDR (length img - ?n) = Some (drop ?n img)"
    and x: "load32 m3 (0x90000 + off_code32_start) = Some x" "x \<noteq> 0"
    using bzimage_load[OF sz pre(1) assms(4) pre(2,3), of img] k assms(3) bp by auto
  have m4: "gm_read m4 KERNEL_LOAD_ADDR (length img - ?n) = Some (drop ?n img)"
    "load32 m4 (0x90000 + off_code32_start) = Some x"
    using boot_params_above[OF b, of KERNEL_LOAD_ADDR] boot_params_header[OF b] kern x(1) bp
    by (simp_all add: boot_offsets boot_addrs)
  have size4: "268435456 \<le> gm_size m4"
  proof -
    have "gm_size m3 = 268435456"
      using load_linux_kernel_size[of img "lh_junk h" "268435456" boot_params_gpa m2 m3] k sz assms(3) by simp
    then have "boot_params_gpa + boot_params_size \<le> gm_size m3" using pre(1) bp by simp
    from boot_params_defined[OF this, of "268435456" "linux_cmdline c \<noteq> None"] b show ?thesis
      using \<open>gm_size m3 = 268435456\<close> by auto
  qed
  obtain am isz where f: "load32 m4 (0x90000 + off_initrd_addr_max) = Some am" "load32 m4 (0x90000 + off_init_size) = Some isz"
    using load_defined(2)[of m4 "0x90000 + off_initrd_addr_max"] load_defined(2)[of m4 "0x90000 + off_init_size"] size4
    by (auto simp: boot_offsets)
  note I = initrd_stage[OF i[unfolded bp] f, of "length img - ?n"]
  have x5: "load32 m5 (0x90000 + off_code32_start) = Some x" using I m4(2) by simp
  note K = code32_entry_keeps[OF e assms(2) x5 ctx v]
  have ld: "load32 ?m a = load32 m5 a" if "0x30000 \<le> a" for a by (rule load_cong(2)[OF K(1)[OF that]])
  have "gm_read ?m KERNEL_LOAD_ADDR (length img - ?n) = Some (drop ?n img)"
    if "initrd_path c = None \<or> length img - ?n \<le> unat isz"
    using I that m4(1) K(1)[of KERNEL_LOAD_ADDR] by (simp add: boot_addrs)
  moreover have "\<exists>file a. lh_initrd h = Some file \<and> load32 ?m (0x90000 + off_ramdisk_image) = Some a \<and>
        load32 ?m (0x90000 + off_ramdisk_size) = Some (word_of_nat (length file)) \<and>
        gm_read ?m (unat a) (length file) = Some file" if ne: "initrd_path c \<noteq> None"
  proof -
    obtain f a where fa: "lh_initrd h = Some f" "load32 m5 (0x90000 + off_ramdisk_image) = Some a"
      "load32 m5 (0x90000 + off_ramdisk_size) = Some (word_of_nat (length f))" "0x100000 \<le> unat a"
      "gm_read m5 (unat a) (length f) = Some f"
      using I ne by blast
    have "gm_read ?m (unat a) (length f) = Some f" using K(1)[of "unat a" "length f"] fa(4,5) by simp
    then show ?thesis using fa(1-3) ld by auto
  qed
  moreover have "load32 ?m (0x90000 + off_init_size) = Some isz" "load32 ?m (0x90000 + off_code32_start) = Some x"
    using I ld x5 by simp_all
  ultimately show ?thesis
    unfolding Let_def t using x(2) K(2,3) by simp
qed

section \<open>Starting a guest works\<close>

lemma start_guest_succeeds:
  assumes "gh_mmap_ok h" and "gh_region_ok h" and "k_fails (gh_kvm h) = (\<lambda>_. False)"
    and "gh_file h = Some img" and "length img + unat (cli_load_offset c) \<le> 0x40000"
  shows "\<exists>t region. start_guest h c i path = Some (0, t, region)"
proof -
  let ?c0 = "guest_context c i path"
  let ?ctx = "?c0\<lparr>mem_size := vcpu_mem_size ?c0,
      guest_mem := \<lparr>gm_size = vcpu_mem_size ?c0, gm_data = (\<lambda>_. 0)\<rparr>\<rparr>"
  obtain region where mem:
    "setup_vcpu_memory (gh_mmap_ok h) (gh_region_ok h) ?c0 = (0, ?ctx, region)"
    using assms(1,2) by (simp add: setup_vcpu_memory_def Let_def)
  have big: "0x40000 \<le> vcpu_mem_size ?c0"
    by (simp add: vcpu_mem_size_def)
  have "length img + unat (load_offset ?ctx) \<le> 0x40000"
    using assms(5) by (simp add: guest_context_def zero_context_def)
  then have fit: "length img + unat (load_offset ?ctx) \<le> mem_size ?ctx" using big by simp
  then obtain m where m: "gm_write (guest_mem ?ctx) (unat (load_offset ?ctx)) img = Some m"
    "gm_size m = mem_size ?ctx"
    using gm_write_defined[of "unat (load_offset ?ctx)" img "guest_mem ?ctx"] by auto
  have load: "load_guest_binary (gh_file h) (mem_size ?ctx) (load_offset ?ctx) (guest_mem ?ctx) =
      Some (0, m)"
    using fit m(1) by (simp add: load_guest_binary_def assms(4))
  have "succeeds (setup_vcpu_context \<lparr>vm_ctx = ?ctx\<lparr>guest_mem := m\<rparr>, vm_kvm = gh_kvm h\<rparr>)"
    by (rule setup_vcpu_succeeds)
      (use assms(3) m(2) in \<open>simp_all add: healthy_def ctx_ready_def vcpu_mem_size_def\<close>)
  then obtain t where "setup_vcpu_context \<lparr>vm_ctx = ?ctx\<lparr>guest_mem := m\<rparr>, vm_kvm = gh_kvm h\<rparr> = Some (0, t)"
    by (auto simp: succeeds_def)
  then have "start_guest h c i path = Some (0, t, region)"
    unfolding start_guest_def mem Let_def prod.case load by simp
  then show ?thesis by blast
qed

section \<open>Starting Linux works\<close>

text \<open>
  On a host on which no call fails, a kernel that is accepted and fits is started: every stage of
  \<open>start_linux\<close> stays inside the guest memory. The memory of a Linux guest is 256 MB.
\<close>

definition linux_ready :: "linux_host \<Rightarrow> cli \<Rightarrow> u8 list \<Rightarrow> bool" where
  "linux_ready h c img \<longleftrightarrow>
     lh_mmap_ok h \<and> lh_region_ok h \<and> k_fails (lh_kvm h) = (\<lambda>_. False) \<and> env_debug_ok (lh_env h) \<and>
     lh_kernel h = Some img \<and> length (lh_junk h) = 4096 \<and> initrd_path c = None \<and>
     cli_linux_entry c \<noteq> LINUX_ENTRY_BOOT64 \<and>
     bzimage_header_ok img (lh_junk h) \<and> bzimage_fits img (lh_junk h) 268435456"

lemma linux_entry_defined:
  assumes "cli_linux_entry c \<noteq> LINUX_ENTRY_BOOT64" and "gm_size m = 268435456"
  shows "\<exists>ctx'. linux_entry_setup c ctx m = Some (0, ctx') \<and> gm_size (guest_mem ctx') = 268435456 \<and>
    mem_size ctx' = mem_size ctx \<and> linux_guest ctx' = linux_guest ctx"
proof -
  have bp: "boot_params_gpa + 0x1000 \<le> gm_size m"
    by (simp add: assms(2) boot_params_gpa_def LINUX_BOOT_PARAMS_ADDR_def)
  obtain xl where xl: "load16 m (boot_params_gpa + off_xloadflags) = Some xl"
    using bp by (auto simp: load16_def gm_read_def boot_offsets)
  obtain e where e: "load32 m (boot_params_gpa + off_code32_start) = Some e"
    using load_defined(2)[of m "boot_params_gpa + off_code32_start"] bp by (auto simp: boot_offsets)
  have cmd: "COMMAND_LINE_ADDR + length (cmdline_bytes s) \<le> gm_size m" for s
    by (simp add: assms(2) cmdline_bytes_def Let_def boot_addrs)
  obtain m' where m': "(case linux_cmdline c of None \<Rightarrow> Some m
      | Some cmdline \<Rightarrow> gm_write m COMMAND_LINE_ADDR (cmdline_bytes cmdline)) = Some m'"
    "gm_size m' = 268435456"
    using gm_write_defined[OF cmd] assms(2) by (cases "linux_cmdline c") auto
  show ?thesis
    using assms(1) m' unfolding linux_entry_setup_def Let_def by (simp add: xl e)
qed

lemma start_linux_succeeds:
  assumes "linux_ready h c img"
  shows "\<exists>t. start_linux h c = Some (0, t)"
proof -
  note ready = assms[unfolded linux_ready_def]
  obtain ctx where ctx: "ctx = (linux_context c)\<lparr>mem_size := 268435456,
      guest_mem := \<lparr>gm_size = 268435456, gm_data = (\<lambda>_. 0)\<rparr>\<rparr>" by blast
  obtain region where mem:
    "setup_vcpu_memory (lh_mmap_ok h) (lh_region_ok h) (linux_context c) = (0, ctx, region)"
    using ready by (simp add: ctx setup_vcpu_memory_def vcpu_mem_size_def linux_context_def Let_def)
  have bp: "boot_params_gpa = 0x90000" by (simp add: boot_params_gpa_def LINUX_BOOT_PARAMS_ADDR_def)
  obtain m1 where 1: "gm_fill (guest_mem ctx) boot_params_gpa 0 boot_params_size = Some m1"
    "gm_size m1 = 268435456"
    using store_defined(3)[of boot_params_gpa boot_params_size "guest_mem ctx" 0]
    by (auto simp: ctx bp boot_offsets)
  obtain m2 where 2: "setup_linux_ivt m1 = Some m2" "gm_size m2 = 268435456"
    using linux_ivt_defined[of m1] 1(2) by auto
  have pre: "boot_params_gpa + boot_params_size \<le> 268435456" "0x30000 \<le> boot_params_gpa"
    "boot_params_gpa + boot_params_size \<le> KERNEL_LOAD_ADDR"
    by (simp_all add: bp boot_offsets boot_addrs)
  obtain m3 where 3: "load_linux_kernel (lh_kernel h) (lh_junk h) 268435456 boot_params_gpa m2 =
      Some (0, m3)"
    using bzimage_load[OF 2(2) pre(1) _ pre(2,3), of "lh_junk h" img] ready by auto
  have sz3: "gm_size m3 = 268435456"
    using load_linux_kernel_size[of img "lh_junk h" "268435456" boot_params_gpa m2 m3] 3 2(2) ready
    by simp
  obtain m4 where 4: "setup_linux_boot_params boot_params_gpa 268435456 (linux_cmdline c \<noteq> None) m3 =
      Some m4" "gm_size m4 = 268435456"
    using boot_params_defined[of boot_params_gpa m3] pre(1) sz3 by auto
  obtain ctx' where 5: "linux_entry_setup c ctx m4 = Some (0, ctx')"
    "gm_size (guest_mem ctx') = 268435456" "mem_size ctx' = 268435456" "linux_guest ctx'"
    using linux_entry_defined[of c m4 ctx] 4(2) ready by (auto simp: ctx linux_context_def)
  have "succeeds (setup_vcpu_context \<lparr>vm_ctx = ctx', vm_kvm = lh_kvm h\<rparr>)"
    by (rule setup_vcpu_succeeds)
      (use ready 5 in \<open>simp_all add: healthy_def ctx_ready_def vcpu_mem_size_def\<close>)
  then obtain s where 6: "setup_vcpu_context \<lparr>vm_ctx = ctx', vm_kvm = lh_kvm h\<rparr> = Some (0, s)"
    by (auto simp: succeeds_def)
  have "fst (linux_singlestep h c s) = 0"
    using ready by (simp add: linux_singlestep_def set_guest_singlestep_def Let_def)
  then obtain t where 7: "linux_singlestep h c s = (0, t)" by (metis prod.collapse)
  have sz: "mem_size ctx = 268435456" by (simp add: ctx)
  have initrd: "initrd_path c = None" using ready by simp
  have "start_linux h c = Some (0, t)"
    unfolding start_linux_def mem Let_def prod.case sz
    by (simp add: initrd 1(1) 2(1) 3 4(1) 5(1) 6 7 del: not_None_eq)
  then show ?thesis by blast
qed

text \<open>
  Starting Linux with the setup or the 32-bit entry succeeds, without an access outside the guest
  memory, whenever no host call fails and the kernel is a valid bzImage that fits.
\<close>

theorem start_linux_total:
  assumes "linux_ready h c img"
  shows "\<exists>t. start_linux h c = Some (0, t)"
  by (rule start_linux_succeeds[OF assms])

section \<open>Worked instances\<close>

definition sample_linux :: linux_host where
  "sample_linux =
     \<lparr>lh_mmap_ok = True, lh_region_ok = True, lh_kernel = Some sample_bzimage, lh_junk = no_junk,
      lh_initrd = None, lh_kvm = sample_host,
      lh_env = \<lparr>env_regs = None, env_sregs = None, env_debug_ok = True\<rparr>\<rparr>"

definition sample_cli :: cli where
  "sample_cli = cli_init\<lparr>linux_boot := True, bzimage_path := Some ''bzImage'',
     linux_cmdline := Some ''console=ttyS0''\<rparr>"

lemma sample_linux_ready: "linux_ready sample_linux sample_cli sample_bzimage"
  by (simp add: linux_ready_def sample_linux_def sample_cli_def cli_init_def sample_host_def
      sample_ok sample_fits)

theorem accepted_command_line_witness:
  "\<exists>c guests. parse_args [''--long-mode'', ''--debug'', ''2'', ''a.bin'', ''b.bin''] = Some (c, guests, 2) \<and>
     enable_paging c \<and> verbose c"
proof -
  obtain c where run: "parse_args [''--long-mode'', ''--debug'', ''2'', ''a.bin'', ''b.bin''] =
      Some (c, [''a.bin'', ''b.bin''], 2)" "enable_long_mode c" "debug_level c = DEBUG_DETAILED"
    by (simp add: parse_args_def plain_flag_def value_flag_def cli_init_def atoi_def split_sign_def
        is_space_def digit_value_def debug_of_int_def MAX_VCPUS_def Let_def)
  from accepted_command_line[OF run(1)] run show ?thesis by (auto simp: less_debug_level_def)
qed

theorem guest_name_of_path_witness:
  "extract_guest_name ''os-1k/kernel.bin'' = ''kernel''"
  using guest_name_of_path[of "''kernel''" "''os-1k''"] by simp

theorem linux_started_witness:
  "\<exists>t. start_linux sample_linux sample_cli = Some (0, t) \<and>
     gm_read (guest_mem (vm_ctx t)) KERNEL_LOAD_ADDR 2 = Some [0x90, 0xF4]"
proof -
  obtain t where run: "start_linux sample_linux sample_cli = Some (0, t)"
    using start_linux_succeeds[OF sample_linux_ready] by blast
  have "drop 1024 sample_bzimage = [0x90, 0xF4]" by (simp add: sample_bzimage_def)
  then show ?thesis
    using linux_started[OF run, of sample_bzimage] run sample_setup_bytes
    by (simp add: sample_linux_def sample_cli_def cli_init_def Let_def)
qed

theorem start_linux_total_witness:
  "\<exists>t. start_linux sample_linux sample_cli = Some (0, t)"
  by (rule start_linux_total[OF sample_linux_ready])

definition sample_guest :: guest_host where
  "sample_guest = \<lparr>gh_mmap_ok = True, gh_region_ok = True, gh_file = Some [0xFA, 0xF4],
     gh_kvm = sample_host\<rparr>"

theorem paging_guest_started_witness:
  "\<exists>t region. start_guest sample_guest (cli_init\<lparr>enable_paging := True\<rparr>) 0 ''kernel.bin'' = Some (0, t, region) \<and>
     gm_read (guest_mem (vm_ctx t)) 0x1000 2 = Some [0xFA, 0xF4] \<and>
     walk_page_tables_32bit (guest_mem (vm_ctx t)) (ucast (cr3 (k_sregs (vm_kvm t)))) 0x80001000 =
       Some (Physical 0x1000)"
proof -
  let ?c = "cli_init\<lparr>enable_paging := True\<rparr>"
  obtain t region where run: "start_guest sample_guest ?c 0 ''kernel.bin'' = Some (0, t, region)"
    using start_guest_succeeds[of sample_guest "[0xFA, 0xF4]" ?c 0 "''kernel.bin''"]
    by (auto simp: sample_guest_def sample_host_def cli_init_def)
  have c: "enable_paging ?c" "\<not> enable_long_mode ?c" "gh_file sample_guest = Some [0xFA, 0xF4]"
    and load: "unat (cli_load_offset ?c) = 0x1000" and len: "length [0xFA :: u8, 0xF4] = 2"
    by (simp_all add: sample_guest_def cli_init_def)
  have bounds: "0xD28 \<le> unat (cli_load_offset ?c)"
    "unat (cli_load_offset ?c) + length [0xFA :: u8, 0xF4] \<le> 0x100000"
    by (simp_all add: cli_init_def)
  have entry: "cli_entry_point ?c = 0x80001000" by (simp add: cli_init_def)
  show ?thesis
    using paging_guest_started[OF run c bounds, unfolded load len entry] run
    by (auto dest!: spec[of _ "0x1000 :: u32"])
qed

end
