(* ===== verification/Vm_Exit.thy ===== *)
theory Vm_Exit
  imports Vcpu
begin

text \<open>
  Handling of VM exits (\<^verbatim>\<open>main.c\<close>): the hypercall port 0x500, port I/O dispatch, the exit switch
  with its single-step support, and the vCPU thread loop. Diagnostic messages are not modelled.
  A result \<open>None\<close> means that the handler reads host memory outside the guest mapping.
\<close>

section \<open>The exit information of \<^verbatim>\<open>struct kvm_run\<close>\<close>

datatype io_direction = KVM_EXIT_IO_IN | KVM_EXIT_IO_OUT

text \<open>\<open>io_data\<close> is the data area at \<^verbatim>\<open>io.data_offset\<close>; \<open>io_size\<close> the width of one access.\<close>

record io_exit =
  io_direction :: io_direction
  io_size :: nat
  io_port :: u16
  io_data :: "u8 list"

record mmio_exit =
  mmio_phys_addr :: u64
  mmio_data :: "u8 list"
  mmio_len :: nat
  mmio_is_write :: bool

datatype kvm_exit =
    KVM_EXIT_HLT
  | KVM_EXIT_IO io_exit
  | KVM_EXIT_DEBUG
  | KVM_EXIT_FAIL_ENTRY u64
  | KVM_EXIT_MMIO mmio_exit
  | KVM_EXIT_IRQ_WINDOW_OPEN
  | KVM_EXIT_INTR
  | KVM_EXIT_INTERNAL_ERROR u32 "u64 list"
  | KVM_EXIT_SHUTDOWN
  | KVM_EXIT_OTHER u32

section \<open>Hypercalls\<close>

definition HYPERCALL_PORT :: u16 where "HYPERCALL_PORT = 0x500"
definition HC_EXIT :: u8 where "HC_EXIT = 0x00"
definition HC_PUTCHAR :: u8 where "HC_PUTCHAR = 0x01"
definition HC_GETCHAR :: u8 where "HC_GETCHAR = 0x02"

lemmas hc_defs = HYPERCALL_PORT_def HC_EXIT_def HC_PUTCHAR_def HC_GETCHAR_def

text \<open>
  \<^verbatim>\<open>vcpu_putchar\<close>: with several vCPUs the character is wrapped in the colour escape sequence of
  its vCPU (\<open>27\<close> is ESC).
\<close>

definition vcpu_putchar :: "vcpu_context \<Rightarrow> u8 \<Rightarrow> vmm_dev \<Rightarrow> vmm_dev" where
  "vcpu_putchar ctx ch d =
     (if num_vcpus d > 1
      then d\<lparr>console := console d @ [27] @ ascii ''[38;5;'' @ dec_int (vcpu_colors d ! vcpu_id ctx)
                        @ ascii ''m'' @ [ch] @ [27] @ ascii ''[0m''\<rparr>
      else d\<lparr>console := console d @ [ch]\<rparr>)"

definition handle_hypercall_out ::
  "vcpu_context \<Rightarrow> kvm_regs \<Rightarrow> vmm_dev \<Rightarrow> int \<times> vcpu_context \<times> vmm_dev" where
  "handle_hypercall_out ctx regs d =
     (let hc_num = ucast (rax regs AND 0xFF) :: u8 in
      if hc_num = HC_EXIT then (0, ctx\<lparr>running := False\<rparr>, d)
      else if hc_num = HC_PUTCHAR then (0, ctx, vcpu_putchar ctx (ucast (rbx regs AND 0xFF)) d)
      else if hc_num = HC_GETCHAR then
        (let (ch, d') = kbd_pop d
         in (0, ctx\<lparr>getchar_result := ch, pending_getchar := 1\<rparr>, d'))
      else (- 1, ctx, d))"

text \<open>Only the first data byte is written.\<close>

definition handle_hypercall_in :: "vcpu_context \<Rightarrow> u8 list \<Rightarrow> u8 list \<times> vcpu_context" where
  "handle_hypercall_in ctx data =
     (if pending_getchar ctx \<noteq> 0
      then (data[0 := (if getchar_result ctx = - 1 then 0xFF else word_of_int (getchar_result ctx))],
            ctx\<lparr>pending_getchar := 0\<rparr>)
      else (data[0 := 0], ctx))"

section \<open>Port I/O\<close>

text \<open>
  The two UART loops of \<^verbatim>\<open>handle_io\<close> over the bytes of one access: byte \<open>i\<close> goes to or comes from
  port \<open>port + i\<close>, which wraps at 16 bits as the argument conversion does.
\<close>

definition uart_write_all :: "u16 \<Rightarrow> u8 list \<Rightarrow> nat \<Rightarrow> vmm_dev \<Rightarrow> vmm_dev" where
  "uart_write_all port data sz d =
     fold (\<lambda>i d. uart_write (port + word_of_nat i) (data ! i) d) [0..<sz] d"

definition uart_read_all :: "u16 \<Rightarrow> u8 list \<Rightarrow> nat \<Rightarrow> vmm_dev \<Rightarrow> u8 list \<times> vmm_dev" where
  "uart_read_all port data sz d =
     fold (\<lambda>i (bs, d). let (b, d') = uart_read (port + word_of_nat i) d in (bs[i := b], d'))
       [0..<sz] (data, d)"

definition handle_io ::
  "kvm_env \<Rightarrow> io_exit \<Rightarrow> vcpu_context \<Rightarrow> vmm_dev \<Rightarrow> int \<times> io_exit \<times> vcpu_context \<times> vmm_dev"
where
  "handle_io env io ctx d =
     (let data = io_data io; port = io_port io; sz = io_size io in
      case io_direction io of
        KVM_EXIT_IO_OUT \<Rightarrow>
          (if port = HYPERCALL_PORT then
             (if linux_guest ctx then (0, io, ctx, d)
              else case env_regs env of
                     None \<Rightarrow> (- 1, io, ctx, d)
                   | Some regs \<Rightarrow>
                       (let (ret, ctx', d') = handle_hypercall_out ctx regs d
                        in (ret, io, ctx', d')))
           else if is_uart_port port then (0, io, ctx, uart_write_all port data sz d)
           else (0, io, ctx, misc_port_out port data sz d))
      | KVM_EXIT_IO_IN \<Rightarrow>
          (if port = HYPERCALL_PORT then
             (if linux_guest ctx then (0, io\<lparr>io_data := io_memset0 data sz\<rparr>, ctx, d)
              else let (data', ctx') = handle_hypercall_in ctx data
                   in (0, io\<lparr>io_data := data'\<rparr>, ctx', d))
           else if is_uart_port port then
             (let (data', d') = uart_read_all port data sz d
              in (0, io\<lparr>io_data := data'\<rparr>, ctx, d'))
           else (0, io\<lparr>io_data := misc_port_in port data sz d\<rparr>, ctx, d)))"

section \<open>Debug exits\<close>

text \<open>
  The bytes at the linear instruction address, read when \<^verbatim>\<open>linear + 3 < mem_size\<close> in 64-bit
  arithmetic and 0 otherwise.
\<close>

definition step_bytes :: "vcpu_context \<Rightarrow> u64 \<Rightarrow> u8 list option" where
  "step_bytes ctx linear =
     (if linear + 3 < word_of_nat (mem_size ctx) then gm_read (guest_mem ctx) (unat linear) 4
      else Some [0, 0, 0, 0])"

definition record_step :: "kvm_regs \<Rightarrow> kvm_sregs \<Rightarrow> u8 list \<Rightarrow> last_step" where
  "record_step regs sregs bs =
     \<lparr>last_rip = rip regs, last_rsi = rsi regs, last_rbx = rbx regs, last_rdi = rdi regs,
      last_rcx = rcx regs, last_rsp = rsp regs, last_rflags = rflags regs,
      last_cr0 = cr0 sregs, last_cs = seg_selector (s_cs sregs),
      last_es = seg_selector (s_es sregs), last_es_base = seg_base (s_es sregs),
      last_es_limit = seg_limit (s_es sregs), last_idt_base = dt_base (s_idt sregs),
      last_idt_limit = dt_limit (s_idt sregs), last_bytes = bs\<rparr>"

text \<open>The tail of the debug case: spend one step, and switch single-stepping off at zero.\<close>

definition spend_step :: "kvm_env \<Rightarrow> vcpu_context \<Rightarrow> vcpu_context" where
  "spend_step env ctx =
     (let ctx' = ctx\<lparr>singlestep_remaining := singlestep_remaining ctx - 1\<rparr> in
      if singlestep_remaining ctx' = 0 then snd (set_guest_singlestep env False ctx') else ctx')"

text \<open>
  What a step whose registers could be read does: record it, and pause single-stepping before a
  REP-prefixed instruction (first byte F3 or F2), or spend one step.
\<close>

definition note_step ::
  "kvm_env \<Rightarrow> kvm_regs \<Rightarrow> kvm_sregs \<Rightarrow> u8 list \<Rightarrow> vcpu_context \<Rightarrow> vcpu_context" where
  "note_step env regs sregs bs ctx0 =
     (let ctx = ctx0\<lparr>last_step := record_step regs sregs bs\<rparr> in
      if \<not> singlestep_paused ctx \<and> (bs ! 0 = 0xF3 \<or> bs ! 0 = 0xF2)
      then snd (set_guest_singlestep env False (ctx\<lparr>singlestep_paused := True\<rparr>))
      else spend_step env ctx)"

definition handle_debug_exit :: "kvm_env \<Rightarrow> vcpu_context \<Rightarrow> (int \<times> vcpu_context) option" where
  "handle_debug_exit env ctx0 =
     (if singlestep_remaining ctx0 > 0 then
        (let ctx = ctx0\<lparr>singlestep_exits := singlestep_exits ctx0 + 1\<rparr> in
         case env_regs env of
           None \<Rightarrow> Some (0, spend_step env ctx)
         | Some regs \<Rightarrow>
             (case env_sregs env of
                None \<Rightarrow> Some (0, spend_step env ctx)
              | Some sregs \<Rightarrow>
                  map_option (\<lambda>bs. (0, note_step env regs sregs bs ctx))
                    (step_bytes ctx (seg_base (s_cs sregs) + rip regs))))
      else Some (0, ctx0))"

text \<open>
  The shutdown case dumps five interrupt vectors when a step was recorded; it reads an 8-byte
  descriptor when \<^verbatim>\<open>entry_addr + 8 <= mem_size\<close> in 64-bit arithmetic.
\<close>

definition dump_idt_vector :: "vcpu_context \<Rightarrow> u64 \<Rightarrow> unit option" where
  "dump_idt_vector ctx vec =
     (let entry_addr = last_idt_base (last_step ctx) + vec * 8 in
      if entry_addr + 8 \<le> word_of_nat (mem_size ctx)
      then map_option (\<lambda>_. ()) (gm_read (guest_mem ctx) (unat entry_addr) 8)
      else Some ())"

definition dump_idt_vectors :: "vcpu_context \<Rightarrow> unit option" where
  "dump_idt_vectors ctx =
     (if singlestep_exits ctx > 0
      then for_each [0, 6, 8, 13, 14] (\<lambda>vec _. dump_idt_vector ctx vec) ()
      else Some ())"

section \<open>The exit switch\<close>

definition resume_singlestep :: "kvm_env \<Rightarrow> kvm_exit \<Rightarrow> vcpu_context \<Rightarrow> vcpu_context" where
  "resume_singlestep env ex ctx =
     (if singlestep_paused ctx \<and> ex \<noteq> KVM_EXIT_DEBUG then
        (let ctx' = ctx\<lparr>singlestep_paused := False\<rparr> in
         if singlestep_remaining ctx' > 0 then snd (set_guest_singlestep env True ctx') else ctx')
      else ctx)"

text \<open>
  Every case of the switch returns, so the "safety limit" that follows it in the source is never
  reached and has no counterpart in the definition.
\<close>

definition handle_vm_exit ::
  "kvm_env \<Rightarrow> kvm_exit \<Rightarrow> vcpu_context \<Rightarrow> vmm_dev \<Rightarrow>
     (int \<times> kvm_exit \<times> vcpu_context \<times> vmm_dev) option" where
  "handle_vm_exit env ex ctx0 d =
     (let ctx = resume_singlestep env ex (ctx0\<lparr>exit_count := exit_count ctx0 + 1\<rparr>) in
      case ex of
        KVM_EXIT_HLT \<Rightarrow> Some (0, ex, ctx\<lparr>running := False\<rparr>, d)
      | KVM_EXIT_IO io \<Rightarrow>
          (let (ret, io', ctx', d') = handle_io env io ctx d
           in Some (ret, KVM_EXIT_IO io', ctx', d'))
      | KVM_EXIT_DEBUG \<Rightarrow> map_option (\<lambda>(ret, ctx'). (ret, ex, ctx', d)) (handle_debug_exit env ctx)
      | KVM_EXIT_FAIL_ENTRY reason \<Rightarrow> Some (- 1, ex, ctx, d)
      | KVM_EXIT_MMIO mmio \<Rightarrow>
          Some (0, (if mmio_is_write mmio then ex
                    else KVM_EXIT_MMIO (mmio\<lparr>mmio_data := io_memset0 (mmio_data mmio) (mmio_len mmio)\<rparr>)),
                ctx, d)
      | KVM_EXIT_IRQ_WINDOW_OPEN \<Rightarrow> Some (0, ex, ctx, d)
      | KVM_EXIT_INTR \<Rightarrow> Some (0, ex, ctx, d)
      | KVM_EXIT_INTERNAL_ERROR suberror data \<Rightarrow> Some (- 1, ex, ctx, d)
      | KVM_EXIT_SHUTDOWN \<Rightarrow>
          map_option (\<lambda>_. (0, ex, ctx\<lparr>running := False\<rparr>, d)) (dump_idt_vectors ctx)
      | KVM_EXIT_OTHER reason \<Rightarrow> Some (- 1, ex, ctx, d))"

section \<open>The vCPU thread\<close>

text \<open>
  \<^verbatim>\<open>vcpu_thread\<close> against the list of results of \<^verbatim>\<open>KVM_RUN\<close>: an exit with the answers of the
  KVM calls made while handling it, or \<open>None\<close> when \<^verbatim>\<open>KVM_RUN\<close> fails. The thread is \<open>Thread_done\<close>
  when its loop ended, \<open>Thread_waiting\<close> when it would call \<^verbatim>\<open>KVM_RUN\<close> again.
\<close>

datatype thread_status = Thread_done | Thread_waiting

fun vcpu_thread ::
  "(kvm_env \<times> kvm_exit) option list \<Rightarrow> vcpu_context \<Rightarrow> vmm_dev \<Rightarrow>
     (thread_status \<times> vcpu_context \<times> vmm_dev) option" where
  "vcpu_thread [] ctx d = Some (if running ctx then Thread_waiting else Thread_done, ctx, d)"
| "vcpu_thread (r # rs) ctx d =
     (if \<not> running ctx then Some (Thread_done, ctx, d)
      else case r of
             None \<Rightarrow> Some (Thread_done, ctx, d)
           | Some (env, ex) \<Rightarrow>
               (case handle_vm_exit env ex ctx d of
                  None \<Rightarrow> None
                | Some (ret, ex', ctx', d') \<Rightarrow>
                    if ret < 0 then Some (Thread_done, ctx', d') else vcpu_thread rs ctx' d'))"

section \<open>Effect on the devices\<close>

lemma uart_write_all_inv: "dev_inv d \<Longrightarrow> dev_inv (uart_write_all port data sz d)"
  unfolding uart_write_all_def by (rule fold_invariant[where Q = "\<lambda>_. True"]) auto

lemma uart_write_all_rx: "rx_queue (uart_write_all port data sz d) = rx_queue d"
  unfolding uart_write_all_def
  by (rule fold_invariant[where Q = "\<lambda>_. True" and P = "\<lambda>d'. rx_queue d' = rx_queue d"])
    (auto simp: uart_write_rx)

lemma uart_read_inv_pair: "dev_inv d \<Longrightarrow> uart_read port d = (b, d') \<Longrightarrow> dev_inv d'"
  using dev_inv_uart_read[of d port] by simp

lemma uart_read_all_inv: "dev_inv d \<Longrightarrow> dev_inv (snd (uart_read_all port data sz d))"
  unfolding uart_read_all_def
  by (rule fold_invariant[where Q = "\<lambda>_. True" and P = "\<lambda>r. dev_inv (snd r)"])
    (auto simp: uart_read_inv_pair split: prod.splits)

lemma vcpu_putchar_inv: "dev_inv d \<Longrightarrow> dev_inv (vcpu_putchar ctx ch d)"
  by (simp add: vcpu_putchar_def dev_inv_def dev_wf_def)

lemma hypercall_out_inv:
  "dev_inv d \<Longrightarrow> handle_hypercall_out ctx regs d = (ret, ctx', d') \<Longrightarrow> dev_inv d'"
  using dev_inv_pop[of d]
  by (auto simp: handle_hypercall_out_def Let_def vcpu_putchar_inv split: if_splits prod.splits)

lemma handle_io_inv:
  "dev_inv d \<Longrightarrow> handle_io env io ctx d = (ret, io', ctx', d') \<Longrightarrow> dev_inv d'"
  using uart_read_all_inv[of d "io_port io" "io_data io" "io_size io"]
  by (auto simp: handle_io_def Let_def uart_write_all_inv hypercall_out_inv
      split: if_splits prod.splits io_direction.splits option.splits)

lemma handle_vm_exit_dev_inv:
  "dev_inv d \<Longrightarrow> handle_vm_exit env ex ctx d = Some (ret, ex', ctx', d') \<Longrightarrow> dev_inv d'"
  by (auto simp: handle_vm_exit_def Let_def handle_io_inv split: kvm_exit.splits prod.splits)

section \<open>The receive queue\<close>

text \<open>
  An exit takes at most the oldest byte from the queue: for an IN that covers the receive register
  with the divisor latch off, and for the GETCHAR request of a guest that is not Linux.
\<close>

definition takes_byte :: "kvm_env \<Rightarrow> kvm_exit \<Rightarrow> vcpu_context \<Rightarrow> vmm_dev \<Rightarrow> bool" where
  "takes_byte env ex ctx d \<longleftrightarrow>
     (case ex of
        KVM_EXIT_IO io \<Rightarrow>
          (case io_direction io of
             KVM_EXIT_IO_IN \<Rightarrow> io_port io = 0x3f8 \<and> 0 < io_size io \<and> \<not> dlab d
           | KVM_EXIT_IO_OUT \<Rightarrow> io_port io = HYPERCALL_PORT \<and> \<not> linux_guest ctx \<and>
               (case env_regs env of None \<Rightarrow> False
                | Some regs \<Rightarrow> ucast (rax regs AND 0xFF) = HC_GETCHAR))
      | _ \<Rightarrow> False)"

lemma port_not_rbr:
  assumes "i < 8" and "i \<noteq> 0" and "is_uart_port port"
  shows "port + word_of_nat i \<noteq> (0x3f8 :: u16)"
proof
  assume eq: "port + word_of_nat i = (0x3f8 :: u16)"
  have "unat (word_of_nat i :: u16) = i" using assms(1) by (simp add: unat_of_nat)
  moreover have "1016 \<le> unat port" "unat port \<le> 1023"
    using assms(3) by (simp_all add: is_uart_port_def word_le_nat_alt)
  ultimately have "unat (port + word_of_nat i) = unat port + i"
    using assms(1) by (simp add: unat_word_ariths)
  then have "unat port + i = 1016" using eq by simp
  then show False using assms(2) \<open>1016 \<le> unat port\<close> by linarith
qed

lemma kbd_pop_rx: "dev_wf d \<Longrightarrow> rx_queue (snd (kbd_pop d)) = tl (rx_queue d)"
  by (cases "rx_queue d") (auto simp: kbd_pop_empty dest: kbd_pop_first)

lemma uart_read_rx_other: "\<not> (port = 0x3f8 \<and> \<not> dlab d) \<Longrightarrow> snd (uart_read port d) = d"
  by (auto simp: snd_uart_read)

lemma uart_read_rest:
  assumes "is_uart_port port" and "xs \<noteq> [] \<longrightarrow> (\<forall>i \<in> set xs. i < 8 \<and> i \<noteq> 0)"
  shows "snd (fold (\<lambda>i (bs, d). let (b, d') = uart_read (port + word_of_nat i) d
                               in (bs[i := b], d')) xs (data, d)) = d"
  using assms(2)
proof (induction xs arbitrary: data)
  case Nil
  then show ?case by simp
next
  case (Cons i xs)
  then have "snd (uart_read (port + word_of_nat i) d) = d"
    by (intro uart_read_rx_other) (auto dest: port_not_rbr[OF _ _ assms(1)])
  then obtain b where "uart_read (port + word_of_nat i) d = (b, d)" by (metis prod.collapse)
  then show ?case using Cons by simp
qed

lemma snd_uart_read_all:
  assumes "is_uart_port port" and "sz \<le> 8"
  shows "snd (uart_read_all port data sz d) = (if 0 < sz then snd (uart_read port d) else d)"
proof (cases sz)
  case 0
  then show ?thesis by (simp add: uart_read_all_def)
next
  case (Suc n)
  obtain b d' where r: "uart_read port d = (b, d')" by (cases "uart_read port d")
  have "snd (fold (\<lambda>i (bs, d). let (b, d') = uart_read (port + word_of_nat i) d
                               in (bs[i := b], d')) [1..<Suc n] (data[0 := b], d')) = d'"
    using assms Suc by (intro uart_read_rest) auto
  then show ?thesis
    using r Suc by (simp add: uart_read_all_def upt_conv_Cons[of 0 "Suc n"] del: upt_Suc)
qed

lemma hypercall_out_rx:
  assumes "dev_wf d" and "handle_hypercall_out ctx regs d = (ret, ctx', d')"
  shows "rx_queue d' =
    (if ucast (rax regs AND 0xFF) = HC_GETCHAR then tl (rx_queue d) else rx_queue d)"
  using assms kbd_pop_rx[OF assms(1)]
  by (auto simp: handle_hypercall_out_def Let_def vcpu_putchar_def rx_queue_def hc_defs
      split: if_splits prod.splits)

lemma resume_linux_guest [simp]: "linux_guest (resume_singlestep env ex ctx) = linux_guest ctx"
  by (simp add: resume_singlestep_def set_guest_singlestep_def Let_def)

lemma handle_vm_exit_rx:
  assumes wf: "dev_wf d" and run: "handle_vm_exit env ex ctx d = Some (ret, ex', ctx', d')"
    and size: "case ex of KVM_EXIT_IO io \<Rightarrow> io_size io \<le> 8 | _ \<Rightarrow> True"
  shows "rx_queue d' = (if takes_byte env ex ctx d then tl (rx_queue d) else rx_queue d)"
proof (cases ex)
  case (KVM_EXIT_IO io)
  let ?ctx = "resume_singlestep env ex (ctx\<lparr>exit_count := exit_count ctx + 1\<rparr>)"
  obtain io' where io: "handle_io env io ?ctx d = (ret, io', ctx', d')"
    using run KVM_EXIT_IO by (auto simp: handle_vm_exit_def Let_def split: prod.splits)
  show ?thesis
  proof (cases "io_direction io")
    case KVM_EXIT_IO_IN
    then show ?thesis
      using io size KVM_EXIT_IO wf snd_uart_read_all[of "io_port io" "io_size io" "io_data io" d]
      by (auto simp: handle_io_def Let_def takes_byte_def snd_uart_read kbd_pop_rx
          HYPERCALL_PORT_def is_uart_port_def split: if_splits prod.splits)
  next
    case KVM_EXIT_IO_OUT
    then show ?thesis
      using io KVM_EXIT_IO wf hypercall_out_rx[OF wf]
      by (auto simp: handle_io_def Let_def takes_byte_def uart_write_all_rx
          misc_port_out_rx split: if_splits prod.splits option.splits)
  qed
qed (use run in \<open>auto simp: handle_vm_exit_def Let_def takes_byte_def\<close>)

section \<open>Return codes\<close>

text \<open>The exits that end the thread with an error, and those after which the guest stops running.\<close>

definition hypercall_number :: "kvm_env \<Rightarrow> io_exit \<Rightarrow> vcpu_context \<Rightarrow> u8 option option" where
  "hypercall_number env io ctx =
     (if io_direction io = KVM_EXIT_IO_OUT \<and> io_port io = HYPERCALL_PORT \<and> \<not> linux_guest ctx
      then Some (map_option (\<lambda>regs. ucast (rax regs AND 0xFF)) (env_regs env)) else None)"

definition exit_fails :: "kvm_env \<Rightarrow> kvm_exit \<Rightarrow> vcpu_context \<Rightarrow> bool" where
  "exit_fails env ex ctx \<longleftrightarrow>
     (case ex of
        KVM_EXIT_FAIL_ENTRY _ \<Rightarrow> True
      | KVM_EXIT_INTERNAL_ERROR _ _ \<Rightarrow> True
      | KVM_EXIT_OTHER _ \<Rightarrow> True
      | KVM_EXIT_IO io \<Rightarrow>
          (case hypercall_number env io ctx of
             None \<Rightarrow> False
           | Some None \<Rightarrow> True
           | Some (Some hc) \<Rightarrow> hc \<notin> {HC_EXIT, HC_PUTCHAR, HC_GETCHAR})
      | _ \<Rightarrow> False)"

definition exit_stops :: "kvm_env \<Rightarrow> kvm_exit \<Rightarrow> vcpu_context \<Rightarrow> bool" where
  "exit_stops env ex ctx \<longleftrightarrow>
     ex = KVM_EXIT_HLT \<or> ex = KVM_EXIT_SHUTDOWN \<or>
     (\<exists>io. ex = KVM_EXIT_IO io \<and> hypercall_number env io ctx = Some (Some HC_EXIT))"

lemma hypercall_out_ret:
  assumes "handle_hypercall_out ctx regs d = (ret, ctx', d')"
  shows "ret = (if ucast (rax regs AND 0xFF) \<in> {HC_EXIT, HC_PUTCHAR, HC_GETCHAR} then 0 else - 1)"
    and "running ctx' = (running ctx \<and> ucast (rax regs AND 0xFF) \<noteq> HC_EXIT)"
  using assms
  by (auto simp: handle_hypercall_out_def Let_def hc_defs split: if_splits prod.splits)

lemma handle_io_ret:
  assumes run: "handle_io env io ctx d = (ret, io', ctx', d')"
  shows "ret = (if exit_fails env (KVM_EXIT_IO io) ctx then - 1 else 0) \<and>
         running ctx' = (running ctx \<and> \<not> exit_stops env (KVM_EXIT_IO io) ctx)"
proof (cases "hypercall_number env io ctx")
  case None
  then have "ret = 0 \<and> running ctx' = running ctx"
    using run by (cases "io_direction io")
      (auto simp: handle_io_def Let_def hypercall_number_def handle_hypercall_in_def
        split: if_splits prod.splits)
  then show ?thesis using None by (simp add: exit_fails_def exit_stops_def)
next
  case (Some r)
  then have io: "io_direction io = KVM_EXIT_IO_OUT" "io_port io = HYPERCALL_PORT"
    "\<not> linux_guest ctx" and r: "r = map_option (\<lambda>regs. ucast (rax regs AND 0xFF)) (env_regs env)"
    by (auto simp: hypercall_number_def split: if_splits)
  show ?thesis
  proof (cases "env_regs env")
    case None
    then show ?thesis
      using run io r Some by (simp add: handle_io_def exit_fails_def exit_stops_def)
  next
    case (Some regs)
    then have "handle_hypercall_out ctx regs d = (ret, ctx', d')"
      using run io by (auto simp: handle_io_def split: prod.splits)
    from hypercall_out_ret[OF this] show ?thesis
      using \<open>hypercall_number env io ctx = Some r\<close> r Some
      by (auto simp: exit_fails_def exit_stops_def)
  qed
qed

lemma resume_running [simp]: "running (resume_singlestep env ex ctx) = running ctx"
  by (simp add: resume_singlestep_def set_guest_singlestep_def Let_def)

lemma exit_fails_cong [simp]:
  "exit_fails env ex (resume_singlestep env ex' (ctx\<lparr>exit_count := n\<rparr>)) = exit_fails env ex ctx"
  "exit_stops env ex (resume_singlestep env ex' (ctx\<lparr>exit_count := n\<rparr>)) = exit_stops env ex ctx"
  by (simp_all add: exit_fails_def exit_stops_def hypercall_number_def cong: kvm_exit.case_cong)

lemma spend_step_eq:
  "spend_step env ctx =
     (if singlestep_remaining ctx = 1
      then ctx\<lparr>singlestep_remaining := 0, guest_debug := guest_debug ctx @ [False]\<rparr>
      else ctx\<lparr>singlestep_remaining := singlestep_remaining ctx - 1\<rparr>)"
  by (simp add: spend_step_def Let_def)

lemma spend_step_running [simp]: "running (spend_step env ctx) = running ctx"
  by (simp add: spend_step_eq)

lemma note_step_running [simp]: "running (note_step env regs sregs bs ctx) = running ctx"
  by (simp add: note_step_def Let_def)

text \<open>A debug exit leaves the context alone, spends a step, or notes the step it read.\<close>

lemma handle_debug_exit_cases:
  assumes "handle_debug_exit env ctx0 = Some (ret, ctx')"
  obtains (idle) "singlestep_remaining ctx0 \<le> 0" "ret = 0" "ctx' = ctx0"
    | (spend) "singlestep_remaining ctx0 > 0" "ret = 0"
      "ctx' = spend_step env (ctx0\<lparr>singlestep_exits := singlestep_exits ctx0 + 1\<rparr>)"
    | (noted) regs sregs bs where "singlestep_remaining ctx0 > 0" "ret = 0"
      "ctx' = note_step env regs sregs bs (ctx0\<lparr>singlestep_exits := singlestep_exits ctx0 + 1\<rparr>)"
  using assms unfolding handle_debug_exit_def Let_def
  by (auto split: if_splits option.splits)

lemma debug_exit_ret:
  "handle_debug_exit env ctx = Some (ret, ctx') \<Longrightarrow> ret = 0 \<and> running ctx' = running ctx"
  by (erule handle_debug_exit_cases) simp_all

lemma exit_result:
  assumes "handle_vm_exit env ex ctx d = Some (ret, ex', ctx', d')"
  shows "ret = (if exit_fails env ex ctx then - 1 else 0) \<and>
         running ctx' = (running ctx \<and> \<not> exit_stops env ex ctx)"
proof (cases ex)
    case (KVM_EXIT_IO io)
    obtain io' where io: "handle_io env io
        (resume_singlestep env ex (ctx\<lparr>exit_count := exit_count ctx + 1\<rparr>)) d = (ret, io', ctx', d')"
      using assms KVM_EXIT_IO by (auto simp: handle_vm_exit_def Let_def split: prod.splits)
    show ?thesis using handle_io_ret[OF io] KVM_EXIT_IO by simp
  next
    case KVM_EXIT_DEBUG
    then show ?thesis
      using assms
      by (auto simp: handle_vm_exit_def Let_def exit_fails_def exit_stops_def dest: debug_exit_ret)
qed (use assms in \<open>auto simp: handle_vm_exit_def Let_def exit_fails_def exit_stops_def\<close>)

text \<open>Concrete states for the witnesses: a running guest with 16 bytes of memory, and KVM answers.\<close>

definition sample_ctx :: vcpu_context where
  "sample_ctx = zero_context\<lparr>running := True, mem_size := 16,
     guest_mem := \<lparr>gm_size = 16, gm_data = (\<lambda>_. 0xF3)\<rparr>\<rparr>"

definition sample_sregs :: kvm_sregs where
  "sample_sregs =
     (let g = \<lparr>seg_base = 0, seg_limit = 0, seg_selector = 0, seg_type = 0, seg_present = 0, seg_dpl = 0,
               seg_db = 0, seg_s = 0, seg_l = 0, seg_g = 0, seg_avl = 0\<rparr>
      in \<lparr>s_cs = g, s_ds = g, s_es = g, s_fs = g, s_gs = g, s_ss = g,
          s_gdt = \<lparr>dt_base = 0, dt_limit = 0\<rparr>, s_idt = \<lparr>dt_base = 0, dt_limit = 0\<rparr>,
          cr0 = 0, cr3 = 0, cr4 = 0, efer = 0\<rparr>)"

definition sample_env :: "u64 \<Rightarrow> kvm_env" where
  "sample_env hc = \<lparr>env_regs = Some (zero_regs\<lparr>rax := hc, rbx := 0x41, rip := 4\<rparr>),
                    env_sregs = Some sample_sregs, env_debug_ok = True\<rparr>"

definition sample_dev :: vmm_dev where
  "sample_dev = vmm_dev_init\<lparr>keyboard_buffer := keyboard_buffer_push 0xFF keyboard_buffer_init\<rparr>"

definition putchar_exit :: kvm_exit where
  "putchar_exit = KVM_EXIT_IO \<lparr>io_direction = KVM_EXIT_IO_OUT, io_size = 1, io_port = HYPERCALL_PORT,
                               io_data = [0]\<rparr>"

lemma sample_dev_rx: "dev_wf sample_dev" "rx_queue sample_dev = [0xFF]"
  "dev_wf vmm_dev_init" "rx_queue vmm_dev_init = []"
  using kbd.wf_push[OF kb_wf_init, of "0xFF"] kbd.contents_push[OF kb_wf_init, of "0xFF"]
  by (simp_all add: sample_dev_def dev_wf_def rx_queue_def vmm_dev_init_def kb_wf_init kb_contents_init)

text \<open>
  C8: The result of an exit is -1 exactly for the failing exits (entry failure, internal error, an
  unknown reason, a hypercall whose registers cannot be read or whose number is none of EXIT,
  PUTCHAR and GETCHAR) and 0 otherwise; the guest stops running exactly at HLT, SHUTDOWN and the
  EXIT hypercall.
\<close>

theorem exit_outcome:
  assumes "handle_vm_exit env ex ctx d = Some (ret, ex', ctx', d')"
  shows "ret = (if exit_fails env ex ctx then - 1 else 0) \<and>
         running ctx' = (running ctx \<and> \<not> exit_stops env ex ctx)"
  by (rule exit_result[OF assms])

theorem exit_outcome_witness:
  "\<exists>ctx' d'. handle_vm_exit (sample_env 1) putchar_exit sample_ctx vmm_dev_init =
     Some (0, putchar_exit, ctx', d') \<and> running ctx'"
proof -
  obtain ret ex' ctx' d' where run: "handle_vm_exit (sample_env 1) putchar_exit sample_ctx vmm_dev_init =
      Some (ret, ex', ctx', d')" and "ex' = putchar_exit"
    by (simp add: handle_vm_exit_def putchar_exit_def handle_io_def Let_def sample_env_def
        handle_hypercall_out_def hc_defs sample_ctx_def zero_context_def resume_singlestep_def)
  then show ?thesis
    using exit_outcome[OF run]
    by (simp add: exit_fails_def exit_stops_def hypercall_number_def putchar_exit_def hc_defs
        sample_env_def sample_ctx_def zero_context_def)
qed

section \<open>The GETCHAR protocol\<close>

definition getchar_request :: "io_exit" where
  "getchar_request = \<lparr>io_direction = KVM_EXIT_IO_OUT, io_size = 1, io_port = HYPERCALL_PORT,
                      io_data = [HC_GETCHAR]\<rparr>"

definition hypercall_answer :: "nat \<Rightarrow> u8 list \<Rightarrow> io_exit" where
  "hypercall_answer sz data = \<lparr>io_direction = KVM_EXIT_IO_IN, io_size = sz,
                               io_port = HYPERCALL_PORT, io_data = data\<rparr>"

lemma getchar_protocol:
  assumes "dev_wf d" and "\<not> linux_guest ctx" and "env_regs env = Some regs"
    and "ucast (rax regs AND 0xFF) = HC_GETCHAR"
    and request: "handle_io env getchar_request ctx d = (ret, io1, ctx1, d1)"
    and answer: "handle_io env' (hypercall_answer sz (b # bs)) ctx1 d2 = (ret', io2, ctx2, d2')"
  shows "ret = 0 \<and> ret' = 0 \<and>
    io_data io2 = (case rx_queue d of [] \<Rightarrow> 0xFF | c # _ \<Rightarrow> c) # bs \<and>
    rx_queue d1 = tl (rx_queue d) \<and> d2' = d2 \<and>
    io_data (fst (snd (handle_io env' (hypercall_answer sz (b # bs)) ctx2 d3))) = 0 # bs"
proof -
  obtain ch d' where pop: "kbd_pop d = (ch, d')" by (cases "kbd_pop d")
  have r1: "ret = 0" "ctx1 = ctx\<lparr>getchar_result := ch, pending_getchar := 1\<rparr>" "d1 = d'"
    using request assms(2-4) pop
    by (auto simp: getchar_request_def handle_io_def handle_hypercall_out_def hc_defs)
  have val: "(if ch = - 1 then 0xFF else word_of_int ch) =
             (case rx_queue d of [] \<Rightarrow> 0xFF | c # _ \<Rightarrow> (c :: u8))"
  proof (cases "rx_queue d")
    case Nil
    then show ?thesis using kbd_pop_empty[OF assms(1) Nil] pop by simp
  next
    case (Cons c q)
    then have "ch = uint c" using kbd_pop_first[OF assms(1) Cons] pop by simp
    moreover have "uint c \<noteq> - 1" using uint_ge_0[of c] by linarith
    ultimately show ?thesis using Cons by simp
  qed
  have "rx_queue d1 = tl (rx_queue d)" using kbd_pop_rx[OF assms(1)] pop r1 by simp
  then show ?thesis
    using answer assms(2) r1 val
    by (auto simp: hypercall_answer_def handle_io_def handle_hypercall_in_def)
qed

text \<open>
  A GETCHAR request (OUT to 0x500 with AL = 2) followed by the answer (IN from 0x500), whatever
  the other threads do to the devices in between, gives the guest the oldest pending byte in AL, or
  0xFF when there was none; the byte is gone from the queue, and a second IN answers 0.
\<close>

theorem getchar_roundtrip:
  assumes "dev_wf d" and "\<not> linux_guest ctx" and "env_regs env = Some regs"
    and "ucast (rax regs AND 0xFF) = HC_GETCHAR"
    and request: "handle_io env getchar_request ctx d = (ret, io1, ctx1, d1)"
    and answer: "handle_io env' (hypercall_answer sz (b # bs)) ctx1 d2 = (ret', io2, ctx2, d2')"
  shows "ret = 0 \<and> ret' = 0 \<and>
    io_data io2 = (case rx_queue d of [] \<Rightarrow> 0xFF | c # _ \<Rightarrow> c) # bs \<and>
    rx_queue d1 = tl (rx_queue d) \<and> d2' = d2 \<and>
    io_data (fst (snd (handle_io env' (hypercall_answer sz (b # bs)) ctx2 d3))) = 0 # bs"
  by (rule getchar_protocol[OF assms])

theorem getchar_roundtrip_witness:
  "\<exists>ret io1 ctx1 d1 ret' io2 ctx2.
     handle_io (sample_env 2) getchar_request sample_ctx sample_dev = (ret, io1, ctx1, d1) \<and>
     handle_io (sample_env 2) (hypercall_answer 1 [0]) ctx1 d1 = (ret', io2, ctx2, d1) \<and>
     io_data io2 = [0xFF] \<and> rx_queue d1 = []"
proof -
  obtain ret io1 ctx1 d1 where 1:
    "handle_io (sample_env 2) getchar_request sample_ctx sample_dev = (ret, io1, ctx1, d1)"
    by (metis prod_cases4)
  obtain ret' io2 ctx2 d2 where 2:
    "handle_io (sample_env 2) (hypercall_answer 1 [0]) ctx1 d1 = (ret', io2, ctx2, d2)"
    by (metis prod_cases4)
  have "\<not> linux_guest sample_ctx" "env_regs (sample_env 2) = Some (zero_regs\<lparr>rax := 2, rbx := 0x41, rip := 4\<rparr>)"
    "ucast (rax (zero_regs\<lparr>rax := 2, rbx := 0x41, rip := 4\<rparr>) AND 0xFF) = HC_GETCHAR"
    by (simp_all add: sample_ctx_def zero_context_def sample_env_def hc_defs zero_regs_def)
  from getchar_roundtrip[OF sample_dev_rx(1) this 1 2] show ?thesis
    using 1 2 by (simp add: sample_dev_rx)
qed

text \<open>
  The answer 0xFF is ambiguous: a pending byte 0xFF and an empty queue give the guest the same
  answer, so a guest cannot tell the byte from "no input".
\<close>

theorem getchar_ff_ambiguous:
  assumes "\<not> linux_guest ctx" and "env_regs env = Some regs"
    and "ucast (rax regs AND 0xFF) = HC_GETCHAR"
    and "dev_wf d" and "rx_queue d = [0xFF]" and "dev_wf e" and "rx_queue e = []"
  shows "let (_, _, c1, d1) = handle_io env getchar_request ctx d;
             (_, _, c2, d2) = handle_io env getchar_request ctx e
         in io_data (fst (snd (handle_io env (hypercall_answer 1 [0]) c1 d1))) =
            io_data (fst (snd (handle_io env (hypercall_answer 1 [0]) c2 d2)))"
proof -
  obtain r1 i1 c1 d1 where 1: "handle_io env getchar_request ctx d = (r1, i1, c1, d1)"
    by (metis prod_cases4)
  obtain r2 i2 c2 d2 where 2: "handle_io env getchar_request ctx e = (r2, i2, c2, d2)"
    by (metis prod_cases4)
  obtain s1 j1 g1 h1 where 3: "handle_io env (hypercall_answer 1 [0]) c1 d1 = (s1, j1, g1, h1)"
    by (metis prod_cases4)
  obtain s2 j2 g2 h2 where 4: "handle_io env (hypercall_answer 1 [0]) c2 d2 = (s2, j2, g2, h2)"
    by (metis prod_cases4)
  show ?thesis
    using getchar_protocol[OF assms(4,1,2,3) 1 3] getchar_protocol[OF assms(6,1,2,3) 2 4] assms
    by (simp add: 1 2 3 4 del: One_nat_def)
qed

theorem getchar_ff_ambiguous_witness:
  "let (_, _, c1, d1) = handle_io (sample_env 2) getchar_request sample_ctx sample_dev;
       (_, _, c2, d2) = handle_io (sample_env 2) getchar_request sample_ctx vmm_dev_init
   in io_data (fst (snd (handle_io (sample_env 2) (hypercall_answer 1 [0]) c1 d1))) =
      io_data (fst (snd (handle_io (sample_env 2) (hypercall_answer 1 [0]) c2 d2)))"
  by (rule getchar_ff_ambiguous[where regs = "zero_regs\<lparr>rax := 2, rbx := 0x41, rip := 4\<rparr>",
        OF _ _ _ sample_dev_rx])
    (simp_all add: sample_ctx_def zero_context_def sample_env_def hc_defs zero_regs_def)

section \<open>Host memory safety\<close>

definition ctx_mem_ok :: "vcpu_context \<Rightarrow> bool" where
  "ctx_mem_ok ctx \<longleftrightarrow> gm_size (guest_mem ctx) = mem_size ctx \<and> mem_size ctx < 2 ^ 64"

lemma unat_add_nowrap:
  fixes x y :: u64
  assumes "unat x + unat y < 2 ^ 64"
  shows "unat (x + y) = unat x + unat y"
  using assms by (simp add: unat_word_ariths)

lemma unat_add_wrap:
  fixes x y :: u64
  assumes "2 ^ 64 \<le> unat x + unat y"
  shows "unat (x + y) = unat x + unat y - 2 ^ 64"
proof -
  have "unat x < 2 ^ LENGTH(64)" "unat y < 2 ^ LENGTH(64)" by (rule unsigned_less)+
  then have "unat x + unat y < 2 * 2 ^ 64" by simp
  then show ?thesis using assms by (simp add: unat_word_ariths mod_if)
qed

lemma unat_mem_size:
  "mem_size ctx < 2 ^ 64 \<Longrightarrow> unat (word_of_nat (mem_size ctx) :: u64) = mem_size ctx"
  by (simp add: unat_of_nat)

lemma guarded_read_None:
  assumes "gm_size m = n" and "n < 2 ^ 64" and "unat (word_of_nat n :: u64) = n"
  shows "gm_read m (unat (a :: u64)) k = None \<longleftrightarrow> n < unat a + k"
  using assms by (auto simp: gm_read_def)

lemma step_bytes_None:
  assumes "ctx_mem_ok ctx"
  shows "step_bytes ctx linear = None \<longleftrightarrow>
    2 ^ 64 \<le> unat linear + 3 \<and> unat linear + 3 - 2 ^ 64 < mem_size ctx"
proof -
  have sz: "gm_size (guest_mem ctx) = mem_size ctx" "mem_size ctx < 2 ^ 64"
    "unat (word_of_nat (mem_size ctx) :: u64) = mem_size ctx"
    using assms unat_mem_size by (auto simp: ctx_mem_ok_def)
  have "unat (3 :: u64) = 3" by simp
  then have guard: "(linear + 3 < word_of_nat (mem_size ctx)) =
      ((if unat linear + 3 < 2 ^ 64 then unat linear + 3 else unat linear + 3 - 2 ^ 64)
        < mem_size ctx)"
    using unat_add_nowrap[of linear 3] unat_add_wrap[of linear 3] sz(3)
    by (simp add: word_less_nat_alt not_less)
  have "step_bytes ctx linear = None \<longleftrightarrow>
      linear + 3 < word_of_nat (mem_size ctx) \<and> mem_size ctx < unat linear + 4"
    by (simp add: step_bytes_def guarded_read_None[OF sz])
  also have "\<dots> \<longleftrightarrow> 2 ^ 64 \<le> unat linear + 3 \<and> unat linear + 3 - 2 ^ 64 < mem_size ctx"
  proof (cases "unat linear + 3 < 2 ^ 64")
    case True
    then show ?thesis unfolding guard by auto
  next
    case False
    then have "mem_size ctx < unat linear + 4" using sz(2) by linarith
    then show ?thesis using False unfolding guard by simp
  qed
  finally show ?thesis .
qed

text \<open>
  The single-step logger reads host memory outside the guest mapping exactly when
  \<open>linear + 3\<close> wraps around 2^64 to an offset below the memory size: its bounds check
  \<^verbatim>\<open>linear + 3 < ctx->mem_size\<close> does not protect the top three addresses of the address space.
\<close>

theorem step_bytes_out_of_bounds:
  assumes "ctx_mem_ok ctx"
  shows "step_bytes ctx linear = None \<longleftrightarrow>
    2 ^ 64 \<le> unat linear + 3 \<and> unat linear + 3 - 2 ^ 64 < mem_size ctx"
  by (rule step_bytes_None[OF assms])

theorem step_bytes_out_of_bounds_witness:
  "step_bytes sample_ctx 0xFFFFFFFFFFFFFFFE = None \<and> step_bytes sample_ctx 12 \<noteq> None"
proof -
  have ok: "ctx_mem_ok sample_ctx" by (simp add: ctx_mem_ok_def sample_ctx_def)
  show ?thesis
    using step_bytes_out_of_bounds[OF ok, of "0xFFFFFFFFFFFFFFFE"] step_bytes_out_of_bounds[OF ok, of 12]
    by (simp add: sample_ctx_def)
qed

lemma dump_idt_vector_defined:
  assumes "ctx_mem_ok ctx" and "unat (last_idt_base (last_step ctx) + vec * 8) + 8 < 2 ^ 64"
  shows "dump_idt_vector ctx vec \<noteq> None"
proof -
  let ?a = "last_idt_base (last_step ctx) + vec * 8"
  have sz: "gm_size (guest_mem ctx) = mem_size ctx" "mem_size ctx < 2 ^ 64"
    "unat (word_of_nat (mem_size ctx) :: u64) = mem_size ctx"
    using assms unat_mem_size by (auto simp: ctx_mem_ok_def)
  have "unat (?a + 8) = unat ?a + 8" using unat_add_nowrap[of ?a 8] assms(2) by simp
  then show ?thesis
    using guarded_read_None[OF sz, of ?a 8] sz(3)
    by (auto simp: dump_idt_vector_def Let_def word_le_nat_alt)
qed

lemma for_each_unit:
  "(\<And>i. i \<in> set is \<Longrightarrow> f i \<noteq> None) \<Longrightarrow> for_each is (\<lambda>i _. f i) (u :: unit) \<noteq> None"
proof (induction "is" arbitrary: u)
  case Nil
  then show ?case by simp
next
  case (Cons i "is")
  then obtain v where "f i = Some v" by fastforce
  then show ?case using Cons by simp
qed

text \<open>
  C10: Where neither check wraps (the linear address of a debug exit is below 2^64 - 3 and the dumped
  descriptors of a shutdown exit end below 2^64), handling an exit never reads outside the guest
  mapping.
\<close>

theorem exit_memory_safe:
  assumes "ctx_mem_ok ctx"
    and "\<And>regs sregs. env_regs env = Some regs \<Longrightarrow> env_sregs env = Some sregs \<Longrightarrow>
           unat (seg_base (s_cs sregs) + rip regs) + 3 < 2 ^ 64"
    and "\<And>vec. vec \<in> {0, 6, 8, 13, 14} \<Longrightarrow>
           unat (last_idt_base (last_step ctx) + vec * 8) + 8 < 2 ^ 64"
  shows "handle_vm_exit env ex ctx d \<noteq> None"
proof -
  let ?ctx = "resume_singlestep env ex (ctx\<lparr>exit_count := exit_count ctx + 1\<rparr>)"
  have same: "guest_mem ?ctx = guest_mem ctx" "mem_size ?ctx = mem_size ctx"
    "last_step ?ctx = last_step ctx"
    by (simp_all add: resume_singlestep_def Let_def)
  then have ok: "ctx_mem_ok ?ctx" using assms(1) by (simp add: ctx_mem_ok_def)
  have "handle_debug_exit env ?ctx \<noteq> None"
  proof -
    have "step_bytes (?ctx\<lparr>singlestep_exits := n\<rparr>) (seg_base (s_cs sregs) + rip regs) \<noteq> None"
      if "env_regs env = Some regs" "env_sregs env = Some sregs" for regs sregs n
      using step_bytes_None[of "?ctx\<lparr>singlestep_exits := n\<rparr>"] ok assms(2)[OF that]
      by (simp add: ctx_mem_ok_def)
    then show ?thesis by (auto simp: handle_debug_exit_def Let_def split: option.splits)
  qed
  moreover have "dump_idt_vectors ?ctx \<noteq> None"
  proof -
    have "for_each [0, 6, 8, 13, 14] (\<lambda>vec _. dump_idt_vector ?ctx vec) () \<noteq> None"
      by (rule for_each_unit, rule dump_idt_vector_defined[OF ok]) (use assms(3) same in auto)
    then show ?thesis by (simp add: dump_idt_vectors_def del: for_each.simps)
  qed
  ultimately show ?thesis
    by (cases ex) (auto simp: handle_vm_exit_def Let_def split: prod.splits)
qed

theorem exit_memory_safe_witness:
  "handle_vm_exit (sample_env 1) KVM_EXIT_DEBUG (sample_ctx\<lparr>singlestep_remaining := 5\<rparr>) vmm_dev_init \<noteq> None"
  by (rule exit_memory_safe)
    (auto simp: ctx_mem_ok_def sample_ctx_def sample_env_def sample_sregs_def Let_def
      zero_context_def zero_last_step_def zero_regs_def)

section \<open>Single-stepping\<close>

text \<open>The last request issued to KVM switched single-stepping on.\<close>

definition armed :: "vcpu_context \<Rightarrow> bool" where
  "armed ctx \<longleftrightarrow> guest_debug ctx \<noteq> [] \<and> last (guest_debug ctx)"

definition step_inv :: "vcpu_context \<Rightarrow> bool" where
  "step_inv ctx \<longleftrightarrow> 0 \<le> singlestep_remaining ctx \<and>
     (armed ctx \<longleftrightarrow> 0 < singlestep_remaining ctx \<and> \<not> singlestep_paused ctx)"

lemma step_inv_resume: "step_inv ctx \<Longrightarrow> step_inv (resume_singlestep env ex ctx)"
  by (auto simp: resume_singlestep_def Let_def step_inv_def armed_def)

lemma step_inv_exit_count [simp]: "step_inv (ctx\<lparr>exit_count := n\<rparr>) = step_inv ctx"
  by (simp add: step_inv_def armed_def)

lemma step_inv_spend:
  "step_inv ctx \<Longrightarrow> 0 < singlestep_remaining ctx \<Longrightarrow> step_inv (spend_step env ctx)"
  by (auto simp: spend_step_eq step_inv_def armed_def)

lemma step_inv_exits [simp]:
  "step_inv (ctx\<lparr>singlestep_exits := n\<rparr>) = step_inv ctx"
  "step_inv (ctx\<lparr>last_step := l\<rparr>) = step_inv ctx"
  by (simp_all add: step_inv_def armed_def)

lemma step_inv_note:
  "step_inv ctx \<Longrightarrow> 0 < singlestep_remaining ctx \<Longrightarrow> step_inv (note_step env regs sregs bs ctx)"
  by (auto simp: note_step_def Let_def step_inv_spend)
    (auto simp: step_inv_def armed_def)

lemma step_inv_debug:
  "step_inv ctx \<Longrightarrow> handle_debug_exit env ctx = Some (ret, ctx') \<Longrightarrow> step_inv ctx'"
  by (erule handle_debug_exit_cases) (simp_all add: step_inv_spend step_inv_note)

text \<open>The fields an I/O exit leaves alone.\<close>

definition io_frame :: "vcpu_context \<Rightarrow> vcpu_context \<Rightarrow> bool" where
  "io_frame ctx ctx' \<longleftrightarrow>
     vcpu_id ctx' = vcpu_id ctx \<and> guest_mem ctx' = guest_mem ctx \<and> mem_size ctx' = mem_size ctx \<and>
     exit_count ctx' = exit_count ctx \<and> use_paging ctx' = use_paging ctx \<and>
     linux_guest ctx' = linux_guest ctx \<and>
     singlestep_remaining ctx' = singlestep_remaining ctx \<and>
     singlestep_paused ctx' = singlestep_paused ctx \<and> guest_debug ctx' = guest_debug ctx"

lemma io_frame_refl [simp]: "io_frame ctx ctx"
  by (simp add: io_frame_def)

lemma hypercall_out_frame:
  "handle_hypercall_out ctx regs d = (ret, ctx', d') \<Longrightarrow> io_frame ctx ctx'"
  by (auto simp: handle_hypercall_out_def Let_def io_frame_def split: if_splits prod.splits)

lemma hypercall_in_frame: "handle_hypercall_in ctx data = (data', ctx') \<Longrightarrow> io_frame ctx ctx'"
  by (auto simp: handle_hypercall_in_def io_frame_def split: if_splits)

lemma handle_io_frame:
  "handle_io env io ctx d = (ret, io', ctx', d') \<Longrightarrow> io_frame ctx ctx'"
  by (auto simp: handle_io_def Let_def hypercall_out_frame hypercall_in_frame
      split: if_splits prod.splits io_direction.splits option.splits)

lemma exit_step_inv:
  assumes inv: "step_inv ctx" and run: "handle_vm_exit env ex ctx d = Some (ret, ex', ctx', d')"
  shows "step_inv ctx'"
proof -
  let ?ctx = "resume_singlestep env ex (ctx\<lparr>exit_count := exit_count ctx + 1\<rparr>)"
  have inv': "step_inv ?ctx" using inv by (simp add: step_inv_resume)
  show ?thesis
  proof (cases ex)
    case (KVM_EXIT_IO io)
    then obtain io' where "handle_io env io ?ctx d = (ret, io', ctx', d')"
      using run by (auto simp: handle_vm_exit_def Let_def split: prod.splits)
    from handle_io_frame[OF this] inv' show ?thesis
      by (simp add: io_frame_def step_inv_def armed_def)
  next
    case KVM_EXIT_DEBUG
    then obtain ret' where "handle_debug_exit env ?ctx = Some (ret', ctx')"
      using run by (auto simp: handle_vm_exit_def Let_def)
    then show ?thesis using inv' step_inv_debug by blast
  qed (use run inv' in \<open>auto simp: handle_vm_exit_def Let_def step_inv_def armed_def\<close>)
qed

lemma debug_exit_frame:
  assumes "handle_debug_exit env ctx = Some (ret, ctx')"
  shows "vcpu_id ctx' = vcpu_id ctx \<and> guest_mem ctx' = guest_mem ctx \<and> mem_size ctx' = mem_size ctx \<and>
    use_paging ctx' = use_paging ctx \<and> linux_guest ctx' = linux_guest ctx"
  using assms by (cases rule: handle_debug_exit_cases) (simp_all add: note_step_def spend_step_eq Let_def)

text \<open>What no exit changes: the identity of the vCPU and, above all, its memory.\<close>

lemma exit_frame:
  assumes run: "handle_vm_exit env ex ctx d = Some (ret, ex', ctx', d')"
  shows "vcpu_id ctx' = vcpu_id ctx \<and> guest_mem ctx' = guest_mem ctx \<and> mem_size ctx' = mem_size ctx \<and>
    use_paging ctx' = use_paging ctx \<and> linux_guest ctx' = linux_guest ctx"
proof -
  let ?ctx = "resume_singlestep env ex (ctx\<lparr>exit_count := exit_count ctx + 1\<rparr>)"
  have same: "vcpu_id ?ctx = vcpu_id ctx" "guest_mem ?ctx = guest_mem ctx" "mem_size ?ctx = mem_size ctx"
    "use_paging ?ctx = use_paging ctx" "linux_guest ?ctx = linux_guest ctx"
    by (simp_all add: resume_singlestep_def Let_def)
  show ?thesis
  proof (cases ex)
    case (KVM_EXIT_IO io)
    then obtain io' where "handle_io env io ?ctx d = (ret, io', ctx', d')"
      using run by (auto simp: handle_vm_exit_def Let_def split: prod.splits)
    from handle_io_frame[OF this] same show ?thesis by (simp add: io_frame_def)
  next
    case KVM_EXIT_DEBUG
    then obtain ret' where "handle_debug_exit env ?ctx = Some (ret', ctx')"
      using run by (auto simp: handle_vm_exit_def Let_def)
    from debug_exit_frame[OF this] same show ?thesis by simp
  qed (use run same in \<open>auto simp: handle_vm_exit_def Let_def\<close>)
qed

text \<open>
  Single-stepping stays consistent with what was requested from KVM: after every exit the budget
  is not negative, and the last \<^verbatim>\<open>KVM_SET_GUEST_DEBUG\<close> request switched stepping on exactly when
  steps remain and stepping is not paused for a REP instruction.
\<close>

theorem exit_keeps_step_inv:
  assumes "step_inv ctx" and "handle_vm_exit env ex ctx d = Some (ret, ex', ctx', d')"
  shows "step_inv ctx'"
  by (rule exit_step_inv[OF assms])

theorem exit_keeps_step_inv_witness:
  "\<exists>ret ex' ctx' d'.
     handle_vm_exit (sample_env 1) KVM_EXIT_DEBUG
       (sample_ctx\<lparr>singlestep_remaining := 5, guest_debug := [True]\<rparr>) vmm_dev_init =
       Some (ret, ex', ctx', d') \<and> step_inv ctx' \<and> singlestep_paused ctx'"
proof -
  let ?ctx = "sample_ctx\<lparr>singlestep_remaining := 5, guest_debug := [True]\<rparr>"
  have inv: "step_inv ?ctx" by (simp add: step_inv_def armed_def sample_ctx_def zero_context_def)
  obtain ctx' where run: "handle_vm_exit (sample_env 1) KVM_EXIT_DEBUG ?ctx vmm_dev_init =
      Some (0, KVM_EXIT_DEBUG, ctx', vmm_dev_init)" "singlestep_paused ctx'"
    by (simp add: handle_vm_exit_def handle_debug_exit_def resume_singlestep_def sample_ctx_def
        zero_context_def sample_env_def step_bytes_def gm_read_def note_step_def Let_def
        sample_sregs_def zero_regs_def upt_rec)
  then show ?thesis using exit_keeps_step_inv[OF inv run(1)] by blast
qed

section \<open>No limit on exits\<close>

text \<open>
  However many exits a real-mode guest causes, it is not stopped: a thread that handles only
  I/O exits that neither fail nor end the guest is waiting for the next exit, with every exit
  counted. The limit of 100000 exits announced for real-mode guests is never applied.
\<close>

theorem thread_exits_unlimited:
  assumes "running ctx" and "\<not> use_paging ctx"
    and "\<And>r. r \<in> set rs \<Longrightarrow> \<exists>env io. r = Some (env, KVM_EXIT_IO io) \<and>
           \<not> exit_fails env (KVM_EXIT_IO io) ctx \<and> \<not> exit_stops env (KVM_EXIT_IO io) ctx"
  shows "\<exists>ctx' d'. vcpu_thread rs ctx d = Some (Thread_waiting, ctx', d') \<and>
    exit_count ctx' = exit_count ctx + int (length rs)"
  using assms
proof (induction rs arbitrary: ctx d)
  case Nil
  then show ?case by simp
next
  case (Cons r rs)
  obtain env io where r: "r = Some (env, KVM_EXIT_IO io)"
    "\<not> exit_fails env (KVM_EXIT_IO io) ctx" "\<not> exit_stops env (KVM_EXIT_IO io) ctx"
    using Cons.prems(3)[of r] by auto
  let ?ctx = "resume_singlestep env (KVM_EXIT_IO io) (ctx\<lparr>exit_count := exit_count ctx + 1\<rparr>)"
  obtain ret io' c' d' where io: "handle_io env io ?ctx d = (ret, io', c', d')"
    by (metis prod_cases4)
  then have exit: "handle_vm_exit env (KVM_EXIT_IO io) ctx d = Some (ret, KVM_EXIT_IO io', c', d')"
    by (simp add: handle_vm_exit_def Let_def)
  have ret: "ret = 0" "running c'"
    using exit_result[OF exit] r Cons.prems(1) by simp_all
  have fr: "linux_guest c' = linux_guest ctx" "use_paging c' = use_paging ctx"
    "exit_count c' = exit_count ctx + 1"
    using handle_io_frame[OF io]
    by (simp_all add: io_frame_def resume_singlestep_def Let_def split: if_splits)
  have same: "exit_fails e x c' = exit_fails e x ctx" "exit_stops e x c' = exit_stops e x ctx" for e x
    using fr(1) by (simp_all add: exit_fails_def exit_stops_def hypercall_number_def
        cong: kvm_exit.case_cong)
  have "\<exists>ctx'' d''. vcpu_thread rs c' d' = Some (Thread_waiting, ctx'', d'') \<and>
      exit_count ctx'' = exit_count c' + int (length rs)"
    using Cons.prems(2,3) fr(2) same ret(2) by (intro Cons.IH) auto
  then show ?case
    using Cons.prems(1) r(1) exit ret fr by auto
qed

theorem thread_exits_unlimited_witness:
  "\<exists>ctx' d'. vcpu_thread (replicate 200000 (Some (sample_env 1, putchar_exit))) sample_ctx vmm_dev_init =
     Some (Thread_waiting, ctx', d') \<and> exit_count ctx' = 200000"
proof -
  let ?rs = "replicate 200000 (Some (sample_env 1, putchar_exit))"
  have "\<exists>ctx' d'. vcpu_thread ?rs sample_ctx vmm_dev_init = Some (Thread_waiting, ctx', d') \<and>
      exit_count ctx' = exit_count sample_ctx + int (length ?rs)"
    by (rule thread_exits_unlimited)
      (auto simp: sample_ctx_def zero_context_def putchar_exit_def exit_fails_def exit_stops_def
        hypercall_number_def sample_env_def hc_defs)
  then show ?thesis by (simp add: sample_ctx_def zero_context_def)
qed

end
