(* ===== verification/Vmm_System.thy ===== *)
theory Vmm_System
  imports Vm_Exit
begin

text \<open>
  The running VMM (\<^verbatim>\<open>main.c\<close>): the vCPU threads, the stdin monitor thread and the devices they
  share, as a step relation. The steps of different threads interleave freely; one step is one VM
  exit, one action of the monitor loop or the end of a thread, so the races inside an exit (the UART registers
  are not protected by a lock) are outside the model. What KVM answers at an exit is a parameter of
  the step. The terminal mode that \<^verbatim>\<open>main\<close> sets and restores is modelled beside it.
\<close>

section \<open>The terminal\<close>

text \<open>The fields of \<^verbatim>\<open>struct termios\<close> that the source changes, and the rest of it as one value.\<close>

record termios =
  c_lflag :: u32
  c_iflag :: u32
  c_vmin :: u8
  c_vtime :: u8
  c_rest :: nat

definition ECHO_FLAG :: u32 where "ECHO_FLAG = 0x8"
definition ICANON_FLAG :: u32 where "ICANON_FLAG = 0x2"
definition ISIG_FLAG :: u32 where "ISIG_FLAG = 0x1"
definition IXON_FLAG :: u32 where "IXON_FLAG = 0x400"
definition ICRNL_FLAG :: u32 where "ICRNL_FLAG = 0x100"

record terminal =
  term_isatty :: bool
  term_attr :: termios
  orig_termios :: termios
  termios_saved :: bool

text \<open>\<open>get_ok\<close> and \<open>set_ok\<close> are the outcomes of \<^verbatim>\<open>tcgetattr\<close> and \<^verbatim>\<open>tcsetattr\<close>.\<close>

definition set_raw_mode :: "bool \<Rightarrow> bool \<Rightarrow> terminal \<Rightarrow> terminal" where
  "set_raw_mode get_ok set_ok t0 =
     (if \<not> term_isatty t0 then t0
      else if \<not> get_ok then t0
      else
        (let t = t0\<lparr>orig_termios := term_attr t0, termios_saved := True\<rparr>;
             raw = (orig_termios t)
               \<lparr>c_lflag := c_lflag (orig_termios t) AND NOT (ECHO_FLAG OR ICANON_FLAG OR ISIG_FLAG),
                c_iflag := c_iflag (orig_termios t) AND NOT (IXON_FLAG OR ICRNL_FLAG),
                c_vmin := 1, c_vtime := 0\<rparr>
         in if set_ok then t\<lparr>term_attr := raw\<rparr> else t\<lparr>termios_saved := False\<rparr>))"

definition restore_terminal :: "bool \<Rightarrow> terminal \<Rightarrow> terminal" where
  "restore_terminal set_ok t =
     (if termios_saved t
      then (if set_ok then t\<lparr>term_attr := orig_termios t\<rparr> else t)\<lparr>termios_saved := False\<rparr>
      else t)"

text \<open>
  Restoring the terminal undoes raw mode: for every outcome of the calls that set it, the
  attributes afterwards are those from before, nothing is left to restore, and a second restore
  changes nothing.
\<close>

theorem terminal_restored:
  assumes "\<not> termios_saved t"
  shows "let t' = restore_terminal True (set_raw_mode get_ok set_ok t) in
    term_attr t' = term_attr t \<and> \<not> termios_saved t' \<and> restore_terminal b t' = t'"
  using assms by (simp add: restore_terminal_def set_raw_mode_def Let_def)

theorem terminal_restored_witness:
  "let attr = \<lparr>c_lflag = 0x8A3B, c_iflag = 0x500, c_vmin = 4, c_vtime = 1, c_rest = 0\<rparr>;
       t = \<lparr>term_isatty = True, term_attr = attr, orig_termios = attr, termios_saved = False\<rparr>
   in c_lflag (term_attr (set_raw_mode True True t)) = 0x8A30 \<and>
      term_attr (restore_terminal True (set_raw_mode True True t)) = attr"
  using terminal_restored[where get_ok = True and set_ok = True and b = True and
      t = "\<lparr>term_isatty = True,
            term_attr = \<lparr>c_lflag = 0x8A3B, c_iflag = 0x500, c_vmin = 4, c_vtime = 1, c_rest = 0\<rparr>,
            orig_termios = \<lparr>c_lflag = 0x8A3B, c_iflag = 0x500, c_vmin = 4, c_vtime = 1, c_rest = 0\<rparr>,
            termios_saved = False\<rparr>"]
  by (simp add: Let_def set_raw_mode_def ECHO_FLAG_def ICANON_FLAG_def ISIG_FLAG_def)

section \<open>The stdin monitor\<close>

text \<open>
  One call of \<^verbatim>\<open>keyboard_buffer_push\<close> by the monitor, and the byte if it found room. Each call
  takes the lock by itself, so guests may take bytes between the pushes of one batch.
\<close>

definition stdin_push :: "u8 \<Rightarrow> vmm_dev \<Rightarrow> vmm_dev" where
  "stdin_push b d = d\<lparr>keyboard_buffer := keyboard_buffer_push b (keyboard_buffer d)\<rparr>"

definition accepted :: "u8 \<Rightarrow> vmm_dev \<Rightarrow> u8 list" where
  "accepted b d = (if length (rx_queue d) < 255 then [b] else [])"

text \<open>What follows the pushes of a batch: Linux is told through the line of COM1.\<close>

definition stdin_notify :: "vmm_dev \<Rightarrow> vmm_dev" where
  "stdin_notify d = (if linux_serial_input_enabled d then pulse_irq_line 4 d else d)"

lemma stdin_push_rx:
  assumes "dev_wf d"
  shows "dev_wf (stdin_push b d)" and "rx_queue (stdin_push b d) = rx_queue d @ accepted b d"
  using assms kbd.wf_push[of "keyboard_buffer d" b] kbd.contents_push[of "keyboard_buffer d" b]
  by (simp_all add: stdin_push_def dev_wf_def rx_queue_def accepted_def)

lemma stdin_push_inv: "dev_inv d \<Longrightarrow> dev_inv (stdin_push b d)"
  using stdin_push_rx(1)[of d b] by (simp add: dev_inv_def stdin_push_def)

lemma stdin_notify_inv: "dev_inv d \<Longrightarrow> dev_inv (stdin_notify d)"
  using dev_inv_pulse[of d] by (simp add: stdin_notify_def)

lemma stdin_notify_rx: "rx_queue (stdin_notify d) = rx_queue d"
  by (simp add: stdin_notify_def rx_queue_def dev_simps)

section \<open>The system\<close>

text \<open>
  \<open>live\<close> says which vCPU threads are still in their loop; \<open>stdin_pc\<close> is where the monitor thread
  is: before the test of its loop, waiting in \<^verbatim>\<open>select\<close>, pushing the rest of a batch, or ended.
\<close>

datatype stdin_pc = Loop_test | In_select | Pushing "u8 list" | Loop_left

record vmm_state =
  vcpus :: "vcpu_context list"
  live :: "bool list"
  dev :: vmm_dev
  stdin_thread_running :: bool
  stdin_at :: stdin_pc
  finished :: bool

text \<open>
  Steps 3 and 4 of \<^verbatim>\<open>main\<close>: the monitor is started for paging and Linux guests, the thread creation
  of which may fail; then one thread per vCPU.
\<close>

definition vmm_start :: "bool \<Rightarrow> bool \<Rightarrow> bool \<Rightarrow> vcpu_context list \<Rightarrow> vmm_dev \<Rightarrow> vmm_state" where
  "vmm_start paging linux create_ok cs d0 =
     (let d = d0\<lparr>num_vcpus := int (length cs),
                vcpu_colors := init_vcpu_colors (int (length cs)) (vcpu_colors d0)\<rparr>;
          started = ((paging \<or> linux) \<and> create_ok)
      in \<lparr>vcpus = cs, live = replicate (length cs) True,
          dev = (if started then d\<lparr>linux_serial_input_enabled := linux\<rparr>
                 else d\<lparr>linux_serial_input_enabled := False\<rparr>),
          stdin_thread_running = started,
          stdin_at = (if started then Loop_test else Loop_left), finished = False\<rparr>)"

text \<open>
  What happens: an exit of vCPU \<open>i\<close>, with the byte it took from the receive queue; a failing
  \<^verbatim>\<open>KVM_RUN\<close>; the end of a vCPU thread; the steps of the monitor loop, with the byte of a push if
  it was accepted; and what \<^verbatim>\<open>main\<close> does when all vCPU threads have ended: it asks the monitor
  to stop, waits for it, and disables serial input.
\<close>

datatype event =
  Vm_exit nat kvm_env kvm_exit "u8 list"
  | Run_failed nat
  | Thread_end nat
  | Stdin_test
  | Stdin_idle
  | Stdin_read "u8 list"
  | Stdin_push u8 "u8 list"
  | Stdin_notify
  | Main_stop
  | Main_done

text \<open>What KVM guarantees of an I/O exit: an access of 1, 2 or 4 bytes with room for its data.\<close>

definition io_size_ok :: "kvm_exit \<Rightarrow> bool" where
  "io_size_ok ex \<longleftrightarrow>
     (case ex of KVM_EXIT_IO io \<Rightarrow> io_size io \<in> {1, 2, 4} \<and> io_size io \<le> length (io_data io)
      | _ \<Rightarrow> True)"

text \<open>The byte that an exit hands to its guest: the first data byte, or the pending answer.\<close>

definition handed_byte :: "kvm_exit \<Rightarrow> vcpu_context \<Rightarrow> u8" where
  "handed_byte ex ctx =
     (case ex of
        KVM_EXIT_IO io \<Rightarrow>
          (case io_direction io of
             KVM_EXIT_IO_IN \<Rightarrow> io_data io ! 0
           | KVM_EXIT_IO_OUT \<Rightarrow> word_of_int (getchar_result ctx))
      | _ \<Rightarrow> 0)"

definition taken ::
  "kvm_env \<Rightarrow> kvm_exit \<Rightarrow> kvm_exit \<Rightarrow> vcpu_context \<Rightarrow> vcpu_context \<Rightarrow> vmm_dev \<Rightarrow> u8 list" where
  "taken env ex ex' ctx ctx' d =
     (if takes_byte env ex ctx d \<and> keyboard_buffer_has_data (keyboard_buffer d)
      then [handed_byte ex' ctx'] else [])"

definition all_ended :: "vmm_state \<Rightarrow> bool" where
  "all_ended s \<longleftrightarrow> True \<notin> set (live s)"

inductive vmm_step :: "vmm_state \<Rightarrow> event \<Rightarrow> vmm_state \<Rightarrow> bool" where
  exit: "i < length (vcpus s) \<Longrightarrow> live s ! i \<Longrightarrow> running (vcpus s ! i) \<Longrightarrow> io_size_ok ex \<Longrightarrow>
    handle_vm_exit env ex (vcpus s ! i) (dev s) = Some (ret, ex', ctx', d') \<Longrightarrow>
    vmm_step s (Vm_exit i env ex (taken env ex ex' (vcpus s ! i) ctx' (dev s)))
      (s\<lparr>vcpus := (vcpus s)[i := ctx'], live := (live s)[i := 0 \<le> ret], dev := d'\<rparr>)"
| run_failed: "i < length (vcpus s) \<Longrightarrow> live s ! i \<Longrightarrow> running (vcpus s ! i) \<Longrightarrow>
    vmm_step s (Run_failed i) (s\<lparr>live := (live s)[i := False]\<rparr>)"
| thread_end: "i < length (vcpus s) \<Longrightarrow> live s ! i \<Longrightarrow> \<not> running (vcpus s ! i) \<Longrightarrow>
    vmm_step s (Thread_end i) (s\<lparr>live := (live s)[i := False]\<rparr>)"
| stdin_test: "stdin_at s = Loop_test \<Longrightarrow>
    vmm_step s Stdin_test (s\<lparr>stdin_at := (if stdin_thread_running s then In_select else Loop_left)\<rparr>)"
| stdin_idle: "stdin_at s = In_select \<Longrightarrow> vmm_step s Stdin_idle (s\<lparr>stdin_at := Loop_test\<rparr>)"
| stdin_read: "stdin_at s = In_select \<Longrightarrow> 0 < length buf \<Longrightarrow> length buf \<le> 256 \<Longrightarrow>
    vmm_step s (Stdin_read buf) (s\<lparr>stdin_at := Pushing buf\<rparr>)"
| stdin_push: "stdin_at s = Pushing (b # bs) \<Longrightarrow>
    vmm_step s (Stdin_push b (accepted b (dev s)))
      (s\<lparr>dev := stdin_push b (dev s), stdin_at := Pushing bs\<rparr>)"
| stdin_notify: "stdin_at s = Pushing [] \<Longrightarrow>
    vmm_step s Stdin_notify (s\<lparr>dev := stdin_notify (dev s), stdin_at := Loop_test\<rparr>)"
| main_stop: "all_ended s \<Longrightarrow> stdin_thread_running s \<Longrightarrow>
    vmm_step s Main_stop (s\<lparr>stdin_thread_running := False\<rparr>)"
| main_done: "all_ended s \<Longrightarrow> \<not> stdin_thread_running s \<Longrightarrow> stdin_at s = Loop_left \<Longrightarrow> \<not> finished s \<Longrightarrow>
    vmm_step s Main_done (s\<lparr>dev := (dev s)\<lparr>linux_serial_input_enabled := False\<rparr>, finished := True\<rparr>)"

inductive vmm_run :: "vmm_state \<Rightarrow> event list \<Rightarrow> vmm_state \<Rightarrow> bool" where
  refl: "vmm_run s [] s"
| step: "vmm_run s evs t \<Longrightarrow> vmm_step t e u \<Longrightarrow> vmm_run s (evs @ [e]) u"

inductive_cases vmm_step_exitE: "vmm_step s (Vm_exit i env ex bs) t"
inductive_simps vmm_step_end: "vmm_step s (Thread_end i) t"
inductive_simps vmm_step_done: "vmm_step s Main_done t"

section \<open>Input reaches the guests in order\<close>

fun event_taken :: "event \<Rightarrow> u8 list" where
  "event_taken (Vm_exit _ _ _ bs) = bs"
| "event_taken _ = []"

fun event_accepted :: "event \<Rightarrow> u8 list" where
  "event_accepted (Stdin_push _ bs) = bs"
| "event_accepted _ = []"

lemma uart_read_all_first:
  assumes "0 < sz" and "sz \<le> length data"
  shows "fst (uart_read_all port data sz d) ! 0 = fst (uart_read port d)"
proof -
  obtain n where n: "sz = Suc n" using assms(1) by (cases sz) auto
  let ?f = "\<lambda>i (bs, d). let (b, d') = uart_read (port + word_of_nat i) d in (bs[i := b], d')"
  have keep: "fst (fold ?f is (bs, e)) ! 0 = bs ! 0" if "0 \<notin> set is" for "is" bs and e :: vmm_dev
    using that by (induction "is" arbitrary: bs e) (auto split: prod.splits)
  obtain b d' where r: "uart_read port d = (b, d')" by fastforce
  have "fst (fold ?f [Suc 0..<Suc n] (data[0 := b], d')) ! 0 = data[0 := b] ! 0"
    by (rule keep) simp
  moreover have "0 < length data" using assms by linarith
  ultimately show ?thesis
    using r n by (simp add: uart_read_all_def upt_conv_Cons[of 0 "Suc n"] del: upt_Suc)
qed

text \<open>The byte an exit hands over is the one it takes from the queue.\<close>

lemma handed_byte_first:
  assumes "dev_wf d" and "handle_vm_exit env ex ctx d = Some (ret, ex', ctx', d')"
    and "io_size_ok ex" and "takes_byte env ex ctx d" and "rx_queue d = c # cs"
  shows "handed_byte ex' ctx' = c"
proof -
  obtain io where ex: "ex = KVM_EXIT_IO io"
    using assms(4) by (auto simp: takes_byte_def split: kvm_exit.splits)
  let ?ctx = "resume_singlestep env ex (ctx\<lparr>exit_count := exit_count ctx + 1\<rparr>)"
  obtain io' where io: "handle_io env io ?ctx d = (ret, io', ctx', d')" "ex' = KVM_EXIT_IO io'"
    using assms(2) ex by (auto simp: handle_vm_exit_def Let_def split: prod.splits)
  show ?thesis
  proof (cases "io_direction io")
    case KVM_EXIT_IO_IN
    then have t: "io_port io = 0x3f8" "\<not> dlab d" "0 < io_size io" "io_size io \<le> length (io_data io)"
      using assms(3,4) ex by (auto simp: takes_byte_def io_size_ok_def)
    obtain data' where r: "uart_read_all 0x3f8 (io_data io) (io_size io) d = (data', d')"
      and io': "io' = io\<lparr>io_data := data'\<rparr>"
      using io(1) KVM_EXIT_IO_IN t(1)
      by (auto simp: handle_io_def HYPERCALL_PORT_def is_uart_port_def split: prod.splits)
    have "data' ! 0 = fst (uart_read 0x3f8 d)"
      using uart_read_all_first[OF t(3,4), of "0x3f8" d] r by simp
    then show ?thesis
      using uart_read_rbr(1)[OF assms(1) t(2) assms(5)] io(2) io' KVM_EXIT_IO_IN
      by (simp add: handed_byte_def)
  next
    case KVM_EXIT_IO_OUT
    then obtain regs where t: "io_port io = HYPERCALL_PORT" "\<not> linux_guest ctx" "env_regs env = Some regs"
      "ucast (rax regs AND 0xFF) = HC_GETCHAR"
      using assms(4) ex by (auto simp: takes_byte_def split: option.splits)
    obtain e where pop: "kbd_pop d = (uint c, e)"
      using kbd_pop_first[OF assms(1,5)] by (metis prod.collapse)
    have "io' = io" "getchar_result ctx' = uint c"
      using io(1) KVM_EXIT_IO_OUT t pop
      by (auto simp: handle_io_def handle_hypercall_out_def hc_defs split: prod.splits)
    then show ?thesis using io(2) KVM_EXIT_IO_OUT by (simp add: handed_byte_def)
  qed
qed

lemma exit_takes:
  assumes "dev_wf d" and "handle_vm_exit env ex ctx d = Some (ret, ex', ctx', d')" and "io_size_ok ex"
  shows "taken env ex ex' ctx ctx' d @ rx_queue d' = rx_queue d"
proof -
  have "case ex of KVM_EXIT_IO io \<Rightarrow> io_size io \<le> 8 | _ \<Rightarrow> True"
    using assms(3) by (auto simp: io_size_ok_def split: kvm_exit.splits)
  note rx = handle_vm_exit_rx[OF assms(1,2) this]
  show ?thesis
  proof (cases "rx_queue d")
    case Nil
    then show ?thesis using rx has_data_rx[OF assms(1)] by (simp add: taken_def)
  next
    case (Cons c cs)
    then show ?thesis
      using rx has_data_rx[OF assms(1)] handed_byte_first[OF assms _ Cons] by (simp add: taken_def)
  qed
qed

lemma step_fifo:
  assumes "vmm_step s e t" and "dev_inv (dev s)"
  shows "event_taken e @ rx_queue (dev t) = rx_queue (dev s) @ event_accepted e \<and> dev_inv (dev t)"
  using assms
proof (induction rule: vmm_step.induct)
  case (exit i s ex env ret ex' ctx' d')
  have wf: "dev_wf (dev s)" using exit.prems by (simp add: dev_inv_def)
  show ?case
    using exit_takes[OF wf exit.hyps(5,4)] handle_vm_exit_dev_inv[OF exit.prems exit.hyps(5)] by simp
next
  case (stdin_push s b bs)
  then have "dev_wf (dev s)" by (simp add: dev_inv_def)
  then show ?case using stdin_push_rx(2)[of "dev s" b] stdin_push_inv[OF stdin_push.prems] by simp
next
  case (stdin_notify s)
  then show ?case by (simp add: stdin_notify_rx stdin_notify_inv)
qed (simp_all add: rx_queue_def dev_inv_def dev_wf_def)

lemma run_fifo:
  assumes "vmm_run s evs t" and "dev_inv (dev s)"
  shows "concat (map event_taken evs) @ rx_queue (dev t) =
      rx_queue (dev s) @ concat (map event_accepted evs) \<and> dev_inv (dev t)"
  using assms
proof (induction rule: vmm_run.induct)
  case (refl s)
  then show ?case by simp
next
  case (step s evs t e u)
  then have IH: "concat (map event_taken evs) @ rx_queue (dev t) =
      rx_queue (dev s) @ concat (map event_accepted evs)" "dev_inv (dev t)" by simp_all
  note st = step_fifo[OF step.hyps(2) IH(2)]
  have "concat (map event_taken (evs @ [e])) @ rx_queue (dev u) =
      concat (map event_taken evs) @ (event_taken e @ rx_queue (dev u))" by simp
  also have "\<dots> = (concat (map event_taken evs) @ rx_queue (dev t)) @ event_accepted e"
    using st by simp
  also have "\<dots> = rx_queue (dev s) @ concat (map event_accepted (evs @ [e]))"
    using IH(1) by simp
  finally show ?case using st by simp
qed

text \<open>
  C1: Console input is a first-in first-out channel: in every run of the VMM, whatever the
  interleaving of the vCPU threads and the monitor, the bytes handed to the guests are, in order,
  a prefix of the bytes accepted from the terminal, and the rest is still in the receive queue.
\<close>

theorem console_input_fifo:
  assumes "vmm_run (vmm_start paging linux create_ok cs vmm_dev_init) evs t"
  shows "concat (map event_taken evs) @ rx_queue (dev t) = concat (map event_accepted evs)"
proof -
  let ?s = "vmm_start paging linux create_ok cs vmm_dev_init"
  have "dev_inv (dev ?s)" "rx_queue (dev ?s) = []"
    using dev_inv_init sample_dev_rx
    by (simp_all add: vmm_start_def Let_def dev_inv_def dev_wf_def rx_queue_def)
  then show ?thesis using run_fifo[OF assms] by simp
qed

section \<open>Isolation\<close>

definition same_guest :: "vcpu_context \<Rightarrow> vcpu_context \<Rightarrow> bool" where
  "same_guest c c' \<longleftrightarrow> guest_mem c' = guest_mem c \<and> mem_size c' = mem_size c \<and>
     vcpu_id c' = vcpu_id c \<and> use_paging c' = use_paging c \<and> linux_guest c' = linux_guest c"

definition sys_inv :: "vmm_state \<Rightarrow> bool" where
  "sys_inv s \<longleftrightarrow> length (live s) = length (vcpus s) \<and> dev_inv (dev s) \<and>
     (\<forall>c \<in> set (vcpus s). step_inv c) \<and>
     (finished s \<longrightarrow> all_ended s \<and> \<not> linux_serial_input_enabled (dev s) \<and> stdin_at s = Loop_left)"

lemma step_sys_inv:
  assumes "vmm_step s e t" and "sys_inv s"
  shows "sys_inv t"
proof -
  have dev: "dev_inv (dev t)" using step_fifo[OF assms(1)] assms(2) by (simp add: sys_inv_def)
  show ?thesis
    using assms dev
  proof (induction rule: vmm_step.induct)
    case (exit i s ex env ret ex' ctx' d')
    have "live s ! i \<in> set (live s)" using exit.hyps(1) exit.prems(1) by (simp add: sys_inv_def)
    then have "\<not> all_ended s" using exit.hyps(2) by (simp add: all_ended_def)
    moreover have "step_inv ctx'"
      using exit.prems(1) exit.hyps(1) by (intro exit_step_inv[OF _ exit.hyps(5)]) (simp add: sys_inv_def)
    ultimately show ?case
      using exit.prems by (auto simp: sys_inv_def dest!: set_update_subset_insert[THEN subsetD])
  next
    case (run_failed i s)
    then show ?case
      by (auto simp: sys_inv_def all_ended_def dest!: set_update_subset_insert[THEN subsetD])
  next
    case (thread_end i s)
    then show ?case
      by (auto simp: sys_inv_def all_ended_def dest!: set_update_subset_insert[THEN subsetD])
  qed (auto simp: sys_inv_def all_ended_def)
qed

text \<open>The runs of the system, without the events.\<close>

lemma vmm_run_steps: "vmm_run s evs t \<Longrightarrow> (\<lambda>s t. \<exists>e. vmm_step s e t)\<^sup>*\<^sup>* s t"
  by (induction rule: vmm_run.induct) (auto intro: rtranclp.rtrancl_into_rtrancl)

interpretation sys: step_invariant "\<lambda>s t. \<exists>e. vmm_step s e t" sys_inv
  by unfold_locales (auto intro: step_sys_inv)

lemmas run_sys_inv = sys.run_inv[OF vmm_run_steps]

lemma start_sys_inv:
  "(\<And>c. c \<in> set cs \<Longrightarrow> step_inv c) \<Longrightarrow> dev_inv d \<Longrightarrow> sys_inv (vmm_start paging linux create_ok cs d)"
  by (simp add: sys_inv_def vmm_start_def Let_def dev_inv_def dev_wf_def)

lemma step_same_guest:
  assumes "vmm_step s e t"
  shows "length (vcpus t) = length (vcpus s) \<and>
    (\<forall>i < length (vcpus s). same_guest (vcpus s ! i) (vcpus t ! i))"
  using assms
proof (induction rule: vmm_step.induct)
  case (exit i s ex env ret ex' ctx' d')
  then show ?case using exit_frame[OF exit.hyps(5)] by (auto simp: same_guest_def nth_list_update)
qed (simp_all add: same_guest_def)

interpretation guests: step_preorder "\<lambda>s t. \<exists>e. vmm_step s e t"
    "\<lambda>s t. length (vcpus t) = length (vcpus s) \<and> (\<forall>i < length (vcpus s). same_guest (vcpus s ! i) (vcpus t ! i))"
  by unfold_locales (auto simp: same_guest_def dest!: step_same_guest)

lemmas run_same_guest = guests.run_rel[OF vmm_run_steps]

text \<open>
  C28: While the guests run, the VMM itself never writes guest memory: in every run every vCPU keeps
  its identity, its configuration and, as far as the VMM is concerned, every byte of its memory.
\<close>

theorem run_keeps_guest_memory:
  assumes "vmm_run (vmm_start paging linux create_ok cs d) evs t" and "i < length cs"
  shows "guest_mem (vcpus t ! i) = guest_mem (cs ! i) \<and> mem_size (vcpus t ! i) = mem_size (cs ! i) \<and>
    vcpu_id (vcpus t ! i) = vcpu_id (cs ! i)"
  using run_same_guest[OF assms(1)] assms(2) by (simp add: vmm_start_def Let_def same_guest_def)

lemma update_False: "\<not> bs ! i \<Longrightarrow> \<not> bs[j := False] ! i"
  by (cases "i = j"; cases "j < length bs") (simp_all add: list_update_beyond not_less)

lemma step_dead:
  assumes "vmm_step s e t" and "i < length (live s)" and "\<not> live s ! i"
  shows "i < length (live t) \<and> \<not> live t ! i \<and> vcpus t ! i = vcpus s ! i"
  using assms by (induction rule: vmm_step.induct) (auto simp: nth_list_update update_False)

interpretation ended: step_preorder "\<lambda>s t. \<exists>e. vmm_step s e t"
    "\<lambda>s t. \<forall>i < length (live s). \<not> live s ! i \<longrightarrow>
       i < length (live t) \<and> \<not> live t ! i \<and> vcpus t ! i = vcpus s ! i"
  by unfold_locales (use step_dead in \<open>fastforce+\<close>)

lemma run_dead:
  "vmm_run s evs t \<Longrightarrow> i < length (live s) \<Longrightarrow> \<not> live s ! i \<Longrightarrow>
     i < length (live t) \<and> \<not> live t ! i \<and> vcpus t ! i = vcpus s ! i"
  using ended.run_rel[OF vmm_run_steps] by blast

text \<open>
  The vCPU threads are independent: once the thread of a vCPU has ended, nothing the other
  threads do changes its context or revives it.
\<close>

theorem ended_thread_stays:
  assumes "vmm_run s evs t" and "i < length (live s)" and "\<not> live s ! i"
  shows "\<not> live t ! i \<and> vcpus t ! i = vcpus s ! i"
  using run_dead[OF assms] by simp


section \<open>Worked instances\<close>

text \<open>A paging guest is started, a byte is typed, and the guest asks for it.\<close>

definition sample_sys :: vmm_state where
  "sample_sys = vmm_start True False True [sample_ctx] vmm_dev_init"

lemma sample_sys_fields:
  "vcpus sample_sys = [sample_ctx]" "live sample_sys = [True]" "stdin_at sample_sys = Loop_test"
  "stdin_thread_running sample_sys" "\<not> finished sample_sys" "dev_wf (dev sample_sys)"
  "rx_queue (dev sample_sys) = []"
  using sample_dev_rx
  by (simp_all add: sample_sys_def vmm_start_def Let_def dev_wf_def rx_queue_def)

lemma sample_run:
  "\<exists>t bs. vmm_run sample_sys [Stdin_test, Stdin_read [0x41], Stdin_push 0x41 [0x41],
       Vm_exit 0 (sample_env 2) (KVM_EXIT_IO getchar_request) bs] t \<and> length (vcpus t) = 1"
proof -
  let ?s1 = "sample_sys\<lparr>stdin_at := In_select\<rparr>"
  let ?s1' = "?s1\<lparr>stdin_at := Pushing [0x41]\<rparr>"
  let ?s2 = "?s1'\<lparr>dev := stdin_push 0x41 (dev ?s1'), stdin_at := Pushing []\<rparr>"
  let ?ex = "KVM_EXIT_IO getchar_request"
  have acc: "accepted 0x41 (dev ?s1') = [0x41]"
    by (simp add: accepted_def sample_sys_fields)
  have "vmm_step sample_sys Stdin_test (sample_sys\<lparr>stdin_at :=
      (if stdin_thread_running sample_sys then In_select else Loop_left)\<rparr>)"
    by (rule vmm_step.stdin_test) (simp add: sample_sys_fields)
  then have 0: "vmm_step sample_sys Stdin_test ?s1" by (simp add: sample_sys_fields)
  have 1: "vmm_step ?s1 (Stdin_read [0x41]) ?s1'" by (rule vmm_step.stdin_read) simp_all
  have "vmm_step ?s1' (Stdin_push 0x41 (accepted 0x41 (dev ?s1'))) ?s2"
    by (rule vmm_step.stdin_push) simp
  then have 2: "vmm_step ?s1' (Stdin_push 0x41 [0x41]) ?s2" unfolding acc .
  have "handle_vm_exit (sample_env 2) ?ex sample_ctx (dev ?s2) \<noteq> None"
    by (simp add: handle_vm_exit_def Let_def split: prod.splits)
  then obtain ret ex' ctx' d' where
    ex: "handle_vm_exit (sample_env 2) ?ex (vcpus ?s2 ! 0) (dev ?s2) = Some (ret, ex', ctx', d')"
    by (auto simp: sample_sys_fields)
  have "vmm_step ?s2 (Vm_exit 0 (sample_env 2) ?ex
        (taken (sample_env 2) ?ex ex' (vcpus ?s2 ! 0) ctx' (dev ?s2)))
      (?s2\<lparr>vcpus := (vcpus ?s2)[0 := ctx'], live := (live ?s2)[0 := 0 \<le> ret], dev := d'\<rparr>)"
    by (rule vmm_step.exit[OF _ _ _ _ ex])
      (simp_all add: sample_sys_fields sample_ctx_def io_size_ok_def getchar_request_def)
  from vmm_run.step[OF vmm_run.step[OF vmm_run.step[OF vmm_run.step[OF vmm_run.refl 0] 1] 2] this]
  have "vmm_run sample_sys [Stdin_test, Stdin_read [0x41], Stdin_push 0x41 [0x41], Vm_exit 0 (sample_env 2) ?ex
        (taken (sample_env 2) ?ex ex' (vcpus ?s2 ! 0) ctx' (dev ?s2))]
      (?s2\<lparr>vcpus := (vcpus ?s2)[0 := ctx'], live := (live ?s2)[0 := 0 \<le> ret], dev := d'\<rparr>)"
    by simp
  moreover have "length (vcpus (?s2\<lparr>vcpus := (vcpus ?s2)[0 := ctx'],
      live := (live ?s2)[0 := 0 \<le> ret], dev := d'\<rparr>)) = 1"
    by (simp add: sample_sys_fields)
  ultimately show ?thesis by blast
qed

theorem console_input_fifo_witness:
  "\<exists>t bs. vmm_run sample_sys [Stdin_test, Stdin_read [0x41], Stdin_push 0x41 [0x41],
       Vm_exit 0 (sample_env 2) (KVM_EXIT_IO getchar_request) bs] t \<and> bs @ rx_queue (dev t) = [0x41]"
proof -
  obtain t bs where run: "vmm_run sample_sys [Stdin_test, Stdin_read [0x41], Stdin_push 0x41 [0x41],
       Vm_exit 0 (sample_env 2) (KVM_EXIT_IO getchar_request) bs] t"
    using sample_run by blast
  from console_input_fifo[OF run[unfolded sample_sys_def]] run show ?thesis by auto
qed

theorem run_keeps_guest_memory_witness:
  "\<exists>t evs. vmm_run sample_sys evs t \<and> length evs = 4 \<and> guest_mem (vcpus t ! 0) = guest_mem sample_ctx"
proof -
  obtain t evs where run: "vmm_run sample_sys evs t" "length evs = 4"
    using sample_run by fastforce
  from run_keeps_guest_memory[OF run(1)[unfolded sample_sys_def], of 0] run show ?thesis by auto
qed


theorem ended_thread_stays_witness:
  "\<exists>t. vmm_run (sample_sys\<lparr>live := [False]\<rparr>) [Stdin_test, Stdin_idle] t \<and> vcpus t ! 0 = sample_ctx"
proof -
  let ?s = "sample_sys\<lparr>live := [False]\<rparr>"
  have "vmm_step ?s Stdin_test (?s\<lparr>stdin_at :=
      (if stdin_thread_running ?s then In_select else Loop_left)\<rparr>)"
    by (rule vmm_step.stdin_test) (simp add: sample_sys_fields)
  then have 1: "vmm_step ?s Stdin_test (?s\<lparr>stdin_at := In_select\<rparr>)"
    by (simp add: sample_sys_fields)
  have "vmm_step (?s\<lparr>stdin_at := In_select\<rparr>) Stdin_idle (?s\<lparr>stdin_at := In_select, stdin_at := Loop_test\<rparr>)"
    by (rule vmm_step.stdin_idle) simp
  from vmm_run.step[OF vmm_run.step[OF vmm_run.refl 1] this]
  obtain t where run: "vmm_run ?s [Stdin_test, Stdin_idle] t" by auto
  from ended_thread_stays[OF run, of 0] run show ?thesis by (auto simp: sample_sys_fields)
qed

end
