(* ===== verification/Vmm_Lifecycle.thy ===== *)
theory Vmm_Lifecycle
  imports Vmm_System "HOL-Library.Multiset"
begin

text \<open>
  What the VMM holds of the host (\<^verbatim>\<open>main.c\<close>): descriptors, mappings, threads and the terminal mode,
  from \<^verbatim>\<open>init_kvm\<close> over the set-up of the vCPUs to the clean-up labels of \<^verbatim>\<open>main\<close>. What the calls
  put into guest memory and into the vCPU is the subject of the other theories; here a call has an
  outcome and an effect on what is held. The predicate \<open>host_fails\<close> says which of the successive calls
  fail.
\<close>

section \<open>The host\<close>

datatype map_ptr = Null | Map_failed | Mapping nat

text \<open>The fields of \<^verbatim>\<open>vcpu_context_t\<close> that own something. Static storage is zeroed.\<close>

record vcpu_handle =
  own_fd :: int
  own_run :: map_ptr
  own_mem :: map_ptr

definition zero_handle :: vcpu_handle where
  "zero_handle = \<lparr>own_fd = 0, own_run = Null, own_mem = Null\<rparr>"

record host =
  host_calls :: nat
  host_fails :: "nat \<Rightarrow> bool"
  host_api :: int
  open_fds :: "int list"
  mapped :: "nat list"
  next_mapping :: nat
  host_kvm_fd :: int
  host_vm_fd :: int
  handles :: "vcpu_handle list"
  unjoined :: "nat list"
  stdin_monitor :: bool
  tty :: terminal

text \<open>A call without an effect on what is held.\<close>

definition sys_call :: "host \<Rightarrow> int \<times> host" where
  "sys_call h = (if host_fails h (host_calls h) then - 1 else 0, h\<lparr>host_calls := host_calls h + 1\<rparr>)"

text \<open>A new descriptor is the lowest one that is not open.\<close>

definition lowest_fd :: "int list \<Rightarrow> int" where
  "lowest_fd xs = int (length (takeWhile (\<lambda>n. int n \<in> set xs) [0..<Suc (length xs)]))"

definition sys_open :: "host \<Rightarrow> int \<times> host" where
  "sys_open h =
     (let (r, h) = sys_call h; fd = lowest_fd (open_fds h) in
      if r < 0 then (- 1, h) else (fd, h\<lparr>open_fds := open_fds h @ [fd]\<rparr>))"

definition sys_close :: "int \<Rightarrow> host \<Rightarrow> host" where
  "sys_close fd h = h\<lparr>open_fds := remove1 fd (open_fds h)\<rparr>"

definition sys_mmap :: "host \<Rightarrow> map_ptr \<times> host" where
  "sys_mmap h =
     (let (r, h) = sys_call h; p = next_mapping h in
      if r < 0 then (Map_failed, h) else (Mapping p, h\<lparr>mapped := mapped h @ [p], next_mapping := p + 1\<rparr>))"

definition sys_munmap :: "map_ptr \<Rightarrow> host \<Rightarrow> host" where
  "sys_munmap p h = (case p of Mapping i \<Rightarrow> h\<lparr>mapped := remove1 i (mapped h)\<rparr> | _ \<Rightarrow> h)"

text \<open>\<^verbatim>\<open>if (call < 0) return -1;\<close> followed by the rest.\<close>

definition and_ok :: "int \<times> host \<Rightarrow> (host \<Rightarrow> int \<times> host) \<Rightarrow> int \<times> host" where
  "and_ok r rest = (if fst r < 0 then (- 1, snd r) else rest (snd r))"

section \<open>init_kvm\<close>

definition KVM_API_VERSION :: int where "KVM_API_VERSION = 12"

definition init_kvm :: "bool \<Rightarrow> host \<Rightarrow> int \<times> host" where
  "init_kvm force_irqchip h =
     (let (fd, h) = sys_open h; h = h\<lparr>host_kvm_fd := fd\<rparr> in
      if fd < 0 then (- 1, h)
      else and_ok (sys_call h) (\<lambda>h.
        if host_api h \<noteq> KVM_API_VERSION then (- 1, h)
        else
          (let (fd, h) = sys_open h; h = h\<lparr>host_vm_fd := fd\<rparr> in
           if fd < 0 then (- 1, h)
           else
             (let h = snd (sys_call h); h = (if force_irqchip then snd (sys_call h) else h)
              in (0, h)))))"

section \<open>Setting up a vCPU\<close>

definition set_handle :: "nat \<Rightarrow> (vcpu_handle \<Rightarrow> vcpu_handle) \<Rightarrow> host \<Rightarrow> host" where
  "set_handle i f h = h\<lparr>handles := (handles h)[i := f (handles h ! i)]\<rparr>"

text \<open>\<^verbatim>\<open>memset(ctx, 0, ...)\<close> and \<^verbatim>\<open>ctx->vcpu_fd = -1\<close>.\<close>

definition init_handle :: "nat \<Rightarrow> host \<Rightarrow> host" where
  "init_handle i = set_handle i (\<lambda>_. zero_handle\<lparr>own_fd := - 1\<rparr>)"

definition acquire_memory :: "nat \<Rightarrow> host \<Rightarrow> int \<times> host" where
  "acquire_memory i h =
     (let (p, h) = sys_mmap h; h = set_handle i (\<lambda>c. c\<lparr>own_mem := p\<rparr>) h in
      if p = Map_failed then (- 1, h) else and_ok (sys_call h) (\<lambda>h. (0, h)))"

text \<open>A loader opens a file, and closes it on every path.\<close>

definition load_file :: "host \<Rightarrow> int \<times> host" where
  "load_file h =
     (let (fd, h) = sys_open h in
      if fd < 0 then (- 1, h)
      else (let (r, h) = sys_call h in (r, sys_close fd h)))"

text \<open>The configuration after the last \<^verbatim>\<open>mmap\<close> holds nothing new; it fails if one of its calls does.\<close>

definition acquire_vcpu :: "nat \<Rightarrow> host \<Rightarrow> int \<times> host" where
  "acquire_vcpu i h =
     (let (fd, h) = sys_open h; h = set_handle i (\<lambda>c. c\<lparr>own_fd := fd\<rparr>) h in
      if fd < 0 then (- 1, h)
      else and_ok (sys_call h) (\<lambda>h.
        let (p, h) = sys_mmap h; h = set_handle i (\<lambda>c. c\<lparr>own_run := p\<rparr>) h in
        if p = Map_failed then (- 1, h) else and_ok (sys_call h) (\<lambda>h. (0, h))))"

definition acquire_guest :: "nat \<Rightarrow> host \<Rightarrow> int \<times> host" where
  "acquire_guest i h =
     and_ok (acquire_memory i (init_handle i h)) (\<lambda>h. and_ok (load_file h) (acquire_vcpu i))"

fun acquire_guests :: "nat list \<Rightarrow> host \<Rightarrow> int \<times> host" where
  "acquire_guests [] h = (0, h)"
| "acquire_guests (i # is) h = and_ok (acquire_guest i h) (acquire_guests is)"

text \<open>
  Linux is vCPU 0. The test of the 64-bit entry counts as a call; \<open>initrd\<close> and \<open>debug_all\<close> say whether
  there is an initrd and whether single-stepping is asked for.
\<close>

definition acquire_linux :: "bool \<Rightarrow> bool \<Rightarrow> host \<Rightarrow> int \<times> host" where
  "acquire_linux initrd debug_all h =
     and_ok (acquire_memory 0 (init_handle 0 h)) (\<lambda>h.
     and_ok (load_file h) (\<lambda>h.
     and_ok (if initrd then load_file h else (0, h)) (\<lambda>h.
     and_ok (sys_call h) (\<lambda>h.
     and_ok (acquire_vcpu 0 h) (\<lambda>h.
     and_ok (if debug_all then sys_call h else (0, h)) (\<lambda>h. (0, h)))))))"

section \<open>Clean-up\<close>

definition cleanup_vcpu :: "nat \<Rightarrow> host \<Rightarrow> host" where
  "cleanup_vcpu i h =
     (let c = handles h ! i;
          h = sys_munmap (own_run c) h;
          h = sys_munmap (own_mem c) h
      in if own_fd c \<ge> 0 then sys_close (own_fd c) h else h)"

text \<open>
  \<^verbatim>\<open>restore_terminal\<close> works on descriptor 0; \<open>restore_ok\<close> is the outcome of its call on an open one.
\<close>

definition cleanup_early :: "bool \<Rightarrow> host \<Rightarrow> host" where
  "cleanup_early restore_ok h =
     (let h = h\<lparr>tty := restore_terminal (restore_ok \<and> 0 \<in> set (open_fds h)) (tty h)\<rparr>;
          h = (if host_vm_fd h \<ge> 0 then sys_close (host_vm_fd h) h else h)
      in if host_kvm_fd h \<ge> 0 then sys_close (host_kvm_fd h) h else h)"

definition cleanup_vcpus :: "bool \<Rightarrow> host \<Rightarrow> host" where
  "cleanup_vcpus restore_ok h =
     cleanup_early restore_ok (fold cleanup_vcpu [0..<length (handles h)] h)"

definition cleanup_stdin :: "bool \<Rightarrow> host \<Rightarrow> host" where
  "cleanup_stdin restore_ok h = cleanup_vcpus restore_ok (h\<lparr>stdin_monitor := False\<rparr>)"

section \<open>main\<close>

fun create_threads :: "nat list \<Rightarrow> host \<Rightarrow> int \<times> host" where
  "create_threads [] h = (0, h)"
| "create_threads (i # is) h =
     and_ok (sys_call h) (\<lambda>h. create_threads is (h\<lparr>unjoined := unjoined h @ [i]\<rparr>))"

record run_config =
  rc_paging :: bool
  rc_linux :: bool
  rc_initrd :: bool
  rc_debug_all :: bool
  rc_get_ok :: bool
  rc_set_ok :: bool
  rc_restore_ok :: bool

text \<open>\<^verbatim>\<open>main\<close> after the command line; the result is the exit status.\<close>

definition run_vcpus :: "run_config \<Rightarrow> host \<Rightarrow> int \<times> host" where
  "run_vcpus c h =
     (let h = (if rc_paging c \<or> rc_linux c
               then (let (r, h) = sys_call h in h\<lparr>stdin_monitor := 0 \<le> r\<rparr>) else h);
          (r, h) = create_threads [0..<length (handles h)] h
      in if r < 0 then (1, cleanup_stdin (rc_restore_ok c) h)
         else (0, cleanup_stdin (rc_restore_ok c) (h\<lparr>unjoined := []\<rparr>)))"

definition set_up :: "run_config \<Rightarrow> host \<Rightarrow> int \<times> host" where
  "set_up c h =
     (if rc_linux c then acquire_linux (rc_initrd c) (rc_debug_all c) h
      else acquire_guests [0..<length (handles h)] h)"

definition enter_raw_mode :: "run_config \<Rightarrow> host \<Rightarrow> host" where
  "enter_raw_mode c h =
     (if rc_paging c \<or> rc_linux c then h\<lparr>tty := set_raw_mode (rc_get_ok c) (rc_set_ok c) (tty h)\<rparr> else h)"

definition vmm_main :: "run_config \<Rightarrow> host \<Rightarrow> int \<times> host" where
  "vmm_main c h =
     (let (r, h) = init_kvm (rc_linux c) (enter_raw_mode c h) in
      if r < 0 then (1, cleanup_early (rc_restore_ok c) h)
      else
        (let (r, h) = set_up c h in
         if r < 0 then (1, cleanup_vcpus (rc_restore_ok c) h) else run_vcpus c h))"

section \<open>What is held\<close>

lemma lowest_fd_fresh: "lowest_fd xs \<notin> set xs" and lowest_fd_nonneg: "0 \<le> lowest_fd xs"
proof -
  let ?P = "\<lambda>n. int n \<in> set xs" and ?ns = "[0..<Suc (length xs)]"
  let ?m = "length (takeWhile ?P ?ns)"
  have "?m < Suc (length xs)"
  proof (rule ccontr)
    assume "\<not> ?m < Suc (length xs)"
    then have "length (takeWhile ?P ?ns) = length ?ns" using length_takeWhile_le[of ?P ?ns] by simp
    then have "takeWhile ?P ?ns = ?ns" by (metis takeWhile_dropWhile_id append_Nil2 length_0_conv add_cancel_left_right length_append)
    then have "\<forall>n\<in>set ?ns. ?P n" by (metis set_takeWhileD)
    then have "int ` set ?ns \<subseteq> set xs" by auto
    then have "card (int ` set ?ns) \<le> card (set xs)" by (rule card_mono[rotated]) simp
    also have "\<dots> \<le> length xs" by (rule card_length)
    finally have "card (int ` set ?ns) \<le> length xs" .
    moreover have "card (int ` set ?ns) = Suc (length xs)" by (simp add: card_image del: upt_Suc set_upt) simp
    ultimately show False by simp
  qed
  then show "lowest_fd xs \<notin> set xs"
    using nth_length_takeWhile[of ?P ?ns] by (simp add: lowest_fd_def del: upt_Suc)
qed (simp add: lowest_fd_def)

definition fds_of :: "vcpu_handle list \<Rightarrow> int list" where
  "fds_of cs = filter (\<lambda>fd. 0 \<le> fd) (map own_fd cs)"

definition map_ids :: "map_ptr \<Rightarrow> nat list" where
  "map_ids p = (case p of Mapping i \<Rightarrow> [i] | _ \<Rightarrow> [])"

definition maps_of :: "vcpu_handle list \<Rightarrow> nat list" where
  "maps_of cs = concat (map (\<lambda>c. map_ids (own_run c) @ map_ids (own_mem c)) cs)"

definition vmm_fds :: "host \<Rightarrow> int list" where
  "vmm_fds h = filter (\<lambda>fd. 0 \<le> fd) [host_kvm_fd h, host_vm_fd h]"

lemma held_simps [simp]:
  "fds_of [] = []" "maps_of [] = []" "map_ids Null = []" "map_ids Map_failed = []" "map_ids (Mapping i) = [i]"
  "fds_of (c # cs) = (if 0 \<le> own_fd c then own_fd c # fds_of cs else fds_of cs)"
  "maps_of (c # cs) = map_ids (own_run c) @ map_ids (own_mem c) @ maps_of cs"
  "fds_of (cs @ ds) = fds_of cs @ fds_of ds" "maps_of (cs @ ds) = maps_of cs @ maps_of ds"
  by (simp_all add: fds_of_def maps_of_def map_ids_def)

text \<open>
  The books: with the first \<open>k\<close> contexts initialised, what is open and mapped is what the standard
  streams, the two global descriptors and these contexts own; the other contexts are zero.
\<close>

definition acct :: "nat \<Rightarrow> host \<Rightarrow> bool" where
  "acct k h \<longleftrightarrow> k \<le> length (handles h) \<and>
     mset (open_fds h) = {#0, 1, 2#} + mset (vmm_fds h) + mset (fds_of (take k (handles h))) \<and>
     mset (mapped h) = mset (maps_of (take k (handles h))) \<and>
     drop k (handles h) = replicate (length (handles h) - k) zero_handle"

text \<open>What the set-up of a vCPU leaves alone.\<close>

definition steady :: "host \<Rightarrow> host \<Rightarrow> bool" where
  "steady h h' \<longleftrightarrow> host_kvm_fd h' = host_kvm_fd h \<and> host_vm_fd h' = host_vm_fd h \<and> tty h' = tty h \<and>
     unjoined h' = unjoined h \<and> stdin_monitor h' = stdin_monitor h \<and> length (handles h') = length (handles h)"

lemma steady_refl [simp]: "steady h h"
  by (simp add: steady_def)

lemma steady_trans [trans]: "steady h h' \<Longrightarrow> steady h' h'' \<Longrightarrow> steady h h''"
  by (simp add: steady_def)

lemma acct_Suc:
  assumes "k < length (handles h)"
  shows "acct (Suc k) h \<longleftrightarrow>
    mset (open_fds h) = {#0, 1, 2#} + mset (vmm_fds h) + mset (fds_of (take k (handles h))) +
      mset (fds_of [handles h ! k]) \<and>
    mset (mapped h) = mset (maps_of (take k (handles h))) + mset (maps_of [handles h ! k]) \<and>
    drop (Suc k) (handles h) = replicate (length (handles h) - Suc k) zero_handle"
  using assms by (simp add: acct_def take_Suc_conv_app_nth ac_simps del: held_simps(6,7))

text \<open>A step of the set-up of vCPU \<open>k\<close> keeps the books.\<close>

definition keeps :: "nat \<Rightarrow> host \<Rightarrow> int \<times> host \<Rightarrow> bool" where
  "keeps k h r \<longleftrightarrow> acct k (snd r) \<and> steady h (snd r) \<and> fst r \<in> {0, - 1}"

lemma keeps_and_ok:
  assumes "keeps k h r" and "\<And>h'. acct k h' \<Longrightarrow> steady h h' \<Longrightarrow> fst r = 0 \<Longrightarrow> h' = snd r \<Longrightarrow> keeps k h' (f h')"
  shows "keeps k h (and_ok r f)"
proof (cases "fst r < 0")
  case True
  then show ?thesis using assms(1) by (simp add: keeps_def and_ok_def)
next
  case False
  then have r: "fst r = 0" using assms(1) by (auto simp: keeps_def)
  then have "keeps k (snd r) (f (snd r))" using assms by (simp add: keeps_def)
  then show ?thesis using assms(1) False by (auto simp: keeps_def and_ok_def intro: steady_trans)
qed

lemma keeps_sys_call: "acct k h \<Longrightarrow> keeps k h (sys_call h)"
  by (simp add: keeps_def sys_call_def acct_def steady_def vmm_fds_def)

lemma keeps_done: "acct k h \<Longrightarrow> keeps k h (0, h)"
  by (simp add: keeps_def)

lemma keeps_load_file: "acct k h \<Longrightarrow> keeps k h (load_file h)"
  by (auto simp: keeps_def load_file_def sys_open_def sys_close_def sys_call_def acct_def steady_def
      vmm_fds_def Let_def lowest_fd_nonneg leD[OF lowest_fd_nonneg])

lemma acct_init_handle:
  assumes "acct k h" and "k < length (handles h)"
  shows "acct (Suc k) (init_handle k h)" and "steady h (init_handle k h)"
    and "handles (init_handle k h) ! k = zero_handle\<lparr>own_fd := - 1\<rparr>"
proof -
  have "drop (Suc k) (handles h) = tl (drop k (handles h))" by (simp add: drop_Suc tl_drop)
  also have "\<dots> = replicate (length (handles h) - Suc k) zero_handle"
    using assms(1) by (simp add: acct_def tl_replicate)
  finally have "drop (Suc k) (handles h) = replicate (length (handles h) - Suc k) zero_handle" .
  then show "acct (Suc k) (init_handle k h)"
    using assms by (simp add: acct_Suc init_handle_def set_handle_def)
      (simp add: acct_def vmm_fds_def zero_handle_def)
  show "steady h (init_handle k h)" "handles (init_handle k h) ! k = zero_handle\<lparr>own_fd := - 1\<rparr>"
    using assms(2) by (simp_all add: init_handle_def set_handle_def steady_def)
qed

lemma keeps_acquire_memory:
  assumes "acct (Suc k) h" and "k < length (handles h)" and "own_mem (handles h ! k) = Null"
  shows "keeps (Suc k) h (acquire_memory k h)"
    and "handles (snd (acquire_memory k h)) ! k = (handles h ! k)\<lparr>own_mem := own_mem (handles (snd (acquire_memory k h)) ! k)\<rparr>"
  using assms
  by (auto simp: keeps_def acct_Suc steady_def acquire_memory_def sys_mmap_def sys_call_def set_handle_def
      and_ok_def Let_def vmm_fds_def)

lemma sys_call_handles [simp]: "handles (snd (sys_call h)) = handles h"
  by (simp add: sys_call_def)

text \<open>The steps of \<open>acquire_vcpu\<close> that hold something new.\<close>

definition open_into :: "nat \<Rightarrow> host \<Rightarrow> int \<times> host" where
  "open_into k h =
     (let (fd, h) = sys_open h in (if fd < 0 then - 1 else 0, set_handle k (\<lambda>c. c\<lparr>own_fd := fd\<rparr>) h))"

definition run_into :: "nat \<Rightarrow> host \<Rightarrow> int \<times> host" where
  "run_into k h =
     (let (p, h) = sys_mmap h in (if p = Map_failed then - 1 else 0, set_handle k (\<lambda>c. c\<lparr>own_run := p\<rparr>) h))"

lemma acquire_vcpu_steps:
  "acquire_vcpu k h =
     and_ok (open_into k h) (\<lambda>h. and_ok (sys_call h) (\<lambda>h. and_ok (run_into k h) (\<lambda>h.
     and_ok (sys_call h) (\<lambda>h. (0, h)))))"
proof -
  have "(let (p, h) = sys_mmap h; h = set_handle k (\<lambda>c. c\<lparr>own_run := p\<rparr>) h in
      if p = Map_failed then (- 1, h) else and_ok (sys_call h) (\<lambda>h. (0, h))) =
    and_ok (run_into k h) (\<lambda>h. and_ok (sys_call h) (\<lambda>h. (0, h)))" for h
    by (simp add: run_into_def and_ok_def Let_def split: prod.split)
  then show ?thesis
    unfolding acquire_vcpu_def by (simp add: open_into_def and_ok_def Let_def split: prod.split)
qed

lemma keeps_open_into:
  assumes "acct (Suc k) h" and "k < length (handles h)" and "own_fd (handles h ! k) < 0"
  shows "keeps (Suc k) h (open_into k h)" and "own_run (handles (snd (open_into k h)) ! k) = own_run (handles h ! k)"
  using assms lowest_fd_nonneg[of "open_fds h"]
  by (auto simp: keeps_def acct_Suc steady_def open_into_def sys_open_def sys_call_def set_handle_def Let_def vmm_fds_def)

lemma keeps_run_into:
  assumes "acct (Suc k) h" and "k < length (handles h)" and "own_run (handles h ! k) = Null"
  shows "keeps (Suc k) h (run_into k h)"
  using assms
  by (auto simp: keeps_def acct_Suc steady_def run_into_def sys_mmap_def sys_call_def set_handle_def Let_def vmm_fds_def)

lemma keeps_acquire_vcpu:
  assumes "acct (Suc k) h" and "k < length (handles h)"
    and "own_fd (handles h ! k) < 0" and "own_run (handles h ! k) = Null"
  shows "keeps (Suc k) h (acquire_vcpu k h)"
  unfolding acquire_vcpu_steps
proof (rule keeps_and_ok[OF keeps_open_into(1)[OF assms(1-3)]])
  fix h1 assume h1: "acct (Suc k) h1" "steady h h1" "h1 = snd (open_into k h)"
  have n: "own_run (handles h1 ! k) = Null" unfolding h1(3) keeps_open_into(2)[OF assms(1-3)] by (rule assms(4))
  have k: "k < length (handles h1)" using h1(2) assms(2) by (simp add: steady_def)
  show "keeps (Suc k) h1 (and_ok (sys_call h1) (\<lambda>h. and_ok (run_into k h) (\<lambda>h. and_ok (sys_call h) (\<lambda>h. (0, h)))))"
    by (intro keeps_and_ok keeps_sys_call keeps_run_into keeps_done h1(1); (assumption | simp add: n k))
qed

lemma keeps_steady: "steady h h' \<Longrightarrow> keeps k h' r \<Longrightarrow> keeps k h r"
  by (auto simp: keeps_def intro: steady_trans)

lemma load_file_handles [simp]: "handles (snd (load_file h)) = handles h"
  by (simp add: load_file_def sys_open_def sys_close_def sys_call_def Let_def)

lemma keeps_length: "keeps k h r \<Longrightarrow> length (handles (snd r)) = length (handles h)"
  by (simp add: keeps_def steady_def)

text \<open>A vCPU whose memory is there and that has no descriptor yet.\<close>

definition has_memory_only :: "nat \<Rightarrow> host \<Rightarrow> bool" where
  "has_memory_only k h \<longleftrightarrow> k < length (handles h) \<and> own_fd (handles h ! k) < 0 \<and> own_run (handles h ! k) = Null"

lemma acquire_memory_first:
  assumes "acct k h" and "k < length (handles h)"
  shows "keeps (Suc k) h (acquire_memory k (init_handle k h))"
    and "has_memory_only k (snd (acquire_memory k (init_handle k h)))"
proof -
  let ?h = "init_handle k h"
  note i = acct_init_handle[OF assms]
  have k: "k < length (handles ?h)" using i(2) assms(2) by (simp add: steady_def)
  have null: "own_mem (handles ?h ! k) = Null" unfolding i(3) by (simp add: zero_handle_def)
  note m = keeps_acquire_memory[OF i(1) k null]
  show "keeps (Suc k) h (acquire_memory k ?h)" by (rule keeps_steady[OF i(2) m(1)])
  show "has_memory_only k (snd (acquire_memory k ?h))"
    unfolding has_memory_only_def using keeps_length[OF m(1)] k by (subst (1 2) m(2)) (simp add: i(3) zero_handle_def)
qed

lemma keeps_acquire_guest:
  assumes "acct k h" and "k < length (handles h)"
  shows "keeps (Suc k) h (acquire_guest k h)"
  unfolding acquire_guest_def
proof (rule keeps_and_ok[OF acquire_memory_first(1)[OF assms]])
  fix h1 assume h1: "acct (Suc k) h1" "h1 = snd (acquire_memory k (init_handle k h))"
  have m: "has_memory_only k h1" unfolding h1(2) by (rule acquire_memory_first(2)[OF assms])
  show "keeps (Suc k) h1 (and_ok (load_file h1) (acquire_vcpu k))"
    by (rule keeps_and_ok[OF keeps_load_file[OF h1(1)]])
      (use m in \<open>auto simp: has_memory_only_def intro: keeps_acquire_vcpu\<close>)
qed

lemma keeps_acquire_linux:
  assumes "acct 0 h" and "length (handles h) = 1"
  shows "keeps 1 h (acquire_linux initrd debug_all h)"
proof -
  have z: "0 < length (handles h)" using assms(2) by simp
  note M = acquire_memory_first[OF assms(1) z]
  have if_load: "keeps 1 h1 (if initrd then load_file h1 else (0, h1))" if "acct 1 h1" for h1
    using that by (simp add: keeps_load_file keeps_done)
  have if_debug: "keeps 1 h1 (if debug_all then sys_call h1 else (0, h1))" if "acct 1 h1" for h1
    using that by (simp add: keeps_sys_call keeps_done)
  have hs: "handles (snd (if initrd then load_file h1 else (0, h1))) = handles h1" for h1 by simp
  show ?thesis
    unfolding acquire_linux_def One_nat_def
    by (intro keeps_and_ok M(1) keeps_load_file if_load[unfolded One_nat_def] keeps_sys_call keeps_acquire_vcpu
        if_debug[unfolded One_nat_def] keeps_done; (assumption | use M(2) in \<open>simp add: has_memory_only_def hs\<close>))
qed

lemma acquire_guests_books:
  assumes "acct k h" and "k \<le> n" and "n \<le> length (handles h)"
  shows "\<exists>j\<le>n. acct j (snd (acquire_guests [k..<n] h)) \<and> steady h (snd (acquire_guests [k..<n] h)) \<and>
    fst (acquire_guests [k..<n] h) \<in> {0, - 1} \<and> (fst (acquire_guests [k..<n] h) = 0 \<longrightarrow> j = n) \<and>
    (k < n \<longrightarrow> k < j)"
  using assms
proof (induction "n - k" arbitrary: k h)
  case 0
  then show ?case by auto
next
  case (Suc d)
  then have k: "k < n" "k < length (handles h)" and up: "[k..<n] = k # [Suc k..<n]"
    by (simp_all add: upt_conv_Cons)
  note K = keeps_acquire_guest[OF Suc.prems(1) k(2), unfolded keeps_def]
  show ?case
  proof (cases "fst (acquire_guest k h) = 0")
    case True
    let ?h = "snd (acquire_guest k h)"
    have d: "d = n - Suc k" and le: "Suc k \<le> n" using Suc.hyps(2) k by simp_all
    have A: "acct (Suc k) ?h" and len: "n \<le> length (handles ?h)" using K Suc.prems(3) by (simp_all add: steady_def)
    have "acquire_guests [k..<n] h = acquire_guests [Suc k..<n] ?h" using True up by (simp add: and_ok_def)
    moreover note Suc.hyps(1)[OF d A le len]
    moreover have "k < j" if "Suc k < n \<longrightarrow> Suc k < j" "acct j (snd (acquire_guests [Suc k..<n] ?h))"
      "Suc k = n \<longrightarrow> j = n" for j using that le by auto
    ultimately show ?thesis using K steady_trans[of h ?h] k(1)
      by (cases "Suc k = n") (fastforce simp: le_less)+
  next
    case False
    then have "acquire_guests [k..<n] h = (- 1, snd (acquire_guest k h))" using up K by (auto simp: and_ok_def)
    then show ?thesis using K k by (intro exI[of _ "Suc k"]) simp
  qed
qed

lemma set_up_books:
  assumes "acct 0 h" and "rc_linux c \<Longrightarrow> length (handles h) = 1" and "handles h \<noteq> []"
  shows "\<exists>j\<le>length (handles h). acct j (snd (set_up c h)) \<and> steady h (snd (set_up c h)) \<and>
    fst (set_up c h) \<in> {0, - 1} \<and> (fst (set_up c h) = 0 \<longrightarrow> j = length (handles h)) \<and> 0 < j"
proof (cases "rc_linux c")
  case True
  then show ?thesis
    using keeps_acquire_linux[OF assms(1), of "rc_initrd c" "rc_debug_all c"] assms(2) by (auto simp: set_up_def keeps_def)
next
  case False
  then show ?thesis
    using acquire_guests_books[OF assms(1), of "length (handles h)"] assms(3) by (auto simp: set_up_def)
qed

section \<open>What clean-up releases\<close>

text \<open>The rest of the state; clean-up of the vCPUs changes only what is open and mapped.\<close>

definition same_rest :: "host \<Rightarrow> host \<Rightarrow> bool" where
  "same_rest h h' \<longleftrightarrow> steady h h' \<and> handles h' = handles h"

lemma map_ids_munmap:
  "mset (mapped (sys_munmap p h)) = mset (mapped h) - mset (map_ids p)" "open_fds (sys_munmap p h) = open_fds h"
  "same_rest h (sys_munmap p h)"
  by (cases p; simp add: sys_munmap_def same_rest_def steady_def)+

lemma cleanup_vcpu_effect:
  "mset (open_fds (cleanup_vcpu i h)) = mset (open_fds h) - mset (fds_of [handles h ! i])"
  "mset (mapped (cleanup_vcpu i h)) = mset (mapped h) - mset (maps_of [handles h ! i])"
  "same_rest h (cleanup_vcpu i h)"
proof -
  let ?c = "handles h ! i"
  have r: "same_rest h (sys_munmap (own_mem ?c) (sys_munmap (own_run ?c) h))"
    using map_ids_munmap(3)[of h "own_run ?c"] map_ids_munmap(3)[of "sys_munmap (own_run ?c) h" "own_mem ?c"]
    by (simp add: same_rest_def steady_def)
  show "mset (open_fds (cleanup_vcpu i h)) = mset (open_fds h) - mset (fds_of [?c])"
    "mset (mapped (cleanup_vcpu i h)) = mset (mapped h) - mset (maps_of [?c])"
    by (simp_all add: cleanup_vcpu_def Let_def sys_close_def map_ids_munmap)
  show "same_rest h (cleanup_vcpu i h)"
    using r by (simp add: cleanup_vcpu_def Let_def sys_close_def same_rest_def steady_def)
qed

lemma held_map_Cons:
  "fds_of (map f (i # is)) = fds_of [f i] @ fds_of (map f is)"
  "maps_of (map f (i # is)) = maps_of [f i] @ maps_of (map f is)"
  by simp_all

lemma cleanup_fold:
  "mset (open_fds (fold cleanup_vcpu is h)) = mset (open_fds h) - mset (fds_of (map ((!) (handles h)) is)) \<and>
   mset (mapped (fold cleanup_vcpu is h)) = mset (mapped h) - mset (maps_of (map ((!) (handles h)) is)) \<and>
   same_rest h (fold cleanup_vcpu is h)"
proof (induction "is" arbitrary: h)
  case Nil
  then show ?case by (simp add: same_rest_def)
next
  case (Cons i "is")
  let ?h = "cleanup_vcpu i h"
  have r: "same_rest h ?h" by (rule cleanup_vcpu_effect)
  then have hs: "handles ?h = handles h" by (simp add: same_rest_def)
  note IH = Cons.IH[of ?h, unfolded hs]
  have "same_rest h (fold cleanup_vcpu (i # is) h)" using IH r by (simp add: same_rest_def steady_def)
  moreover have "mset (open_fds (fold cleanup_vcpu (i # is) h)) =
      mset (open_fds h) - mset (fds_of (map ((!) (handles h)) (i # is)))"
    using IH by (simp only: fold.simps o_apply cleanup_vcpu_effect(1) held_map_Cons mset_append diff_diff_add)
  moreover have "mset (mapped (fold cleanup_vcpu (i # is) h)) =
      mset (mapped h) - mset (maps_of (map ((!) (handles h)) (i # is)))"
    using IH by (simp only: fold.simps o_apply cleanup_vcpu_effect(2) held_map_Cons mset_append diff_diff_add)
  ultimately show ?case by blast
qed

lemma held_zero: "fds_of (replicate m zero_handle) = replicate m 0" "maps_of (replicate m zero_handle) = []"
  by (induction m) (simp_all add: zero_handle_def)

lemma vcpus_released:
  assumes A: "acct j h" and nz: "0 \<notin> set (vmm_fds h)"
  defines "h' \<equiv> fold cleanup_vcpu [0..<length (handles h)] h"
  shows "mset (open_fds h') = (if j = length (handles h) then {#0, 1, 2#} else {#1, 2#}) + mset (vmm_fds h)"
    and "mapped h' = []" and "same_rest h h'"
proof -
  let ?n = "length (handles h)"
  have split: "handles h = take j (handles h) @ replicate (?n - j) zero_handle" and j: "j \<le> ?n"
    using A append_take_drop_id[of j "handles h"] by (simp_all add: acct_def)
  have fds: "fds_of (handles h) = fds_of (take j (handles h)) @ replicate (?n - j) 0"
    and maps: "maps_of (handles h) = maps_of (take j (handles h))"
    by (rule arg_cong[OF split, of fds_of, unfolded held_simps(8) held_zero],
        rule arg_cong[OF split, of maps_of, unfolded held_simps(9) held_zero append_Nil2])
  note C = cleanup_fold[of "[0..<length (handles h)]" h, unfolded map_nth, folded h'_def]
  show "same_rest h h'" using C by blast
  have "mset (mapped h') = mset (mapped h) - mset (maps_of (handles h))" using C by blast
  also have "\<dots> = {#}" using A unfolding maps acct_def by (metis diff_cancel)
  finally show "mapped h' = []" by simp
  have "mset (open_fds h') = {#0, 1, 2#} + mset (vmm_fds h) - replicate_mset (?n - j) 0"
  proof -
    have "mset (open_fds h') = mset (open_fds h) - mset (fds_of (handles h))" using C by blast
    also have "\<dots> = ({#0, 1, 2#} + mset (vmm_fds h)) + mset (fds_of (take j (handles h))) -
        (mset (fds_of (take j (handles h))) + replicate_mset (?n - j) 0)"
      using A unfolding fds acct_def by (metis mset_append mset_replicate)
    also have "\<dots> = {#0, 1, 2#} + mset (vmm_fds h) - replicate_mset (?n - j) 0" by (rule multiset_eqI) simp
    finally show ?thesis .
  qed
  also have "\<dots> = (if j = ?n then {#0, 1, 2#} else {#1, 2#}) + mset (vmm_fds h)"
  proof (cases "j = ?n")
    case False
    then obtain d where "?n - j = Suc d" using j by (metis Suc_diff_le diff_Suc_1 diff_is_0_eq le_antisym not0_implies_Suc)
    moreover have z: "count (mset (vmm_fds h)) 0 = 0" using nz by (metis not_in_iff set_mset_mset)
    moreover have "{#0, 1, 2#} + mset (vmm_fds h) - replicate_mset (Suc d) 0 = {#1, 2#} + mset (vmm_fds h)"
      by (intro multiset_eqI) (simp add: z)
    ultimately show ?thesis using False by simp
  qed simp
  finally show "mset (open_fds h') = (if j = ?n then {#0, 1, 2#} else {#1, 2#}) + mset (vmm_fds h)" .
qed

lemma globals_released:
  assumes "mset (open_fds h) = M + mset (vmm_fds h)"
  shows "mset (open_fds (cleanup_early ok h)) = M"
    and "tty (cleanup_early ok h) = restore_terminal (ok \<and> 0 \<in> set (open_fds h)) (tty h)"
    and "mapped (cleanup_early ok h) = mapped h" "unjoined (cleanup_early ok h) = unjoined h"
      "stdin_monitor (cleanup_early ok h) = stdin_monitor h"
  using assms by (auto simp: cleanup_early_def Let_def sys_close_def vmm_fds_def)

lemma cleanup_vcpus_result:
  assumes A: "acct j h" and nz: "0 \<notin> set (vmm_fds h)"
  shows "mset (open_fds (cleanup_vcpus ok h)) = (if j = length (handles h) then {#0, 1, 2#} else {#1, 2#})"
    and "mapped (cleanup_vcpus ok h) = []" and "unjoined (cleanup_vcpus ok h) = unjoined h"
    and "tty (cleanup_vcpus ok h) = restore_terminal (ok \<and> j = length (handles h)) (tty h)"
    and "stdin_monitor (cleanup_vcpus ok h) = stdin_monitor h"
proof -
  let ?h = "fold cleanup_vcpu [0..<length (handles h)] h"
  note R = vcpus_released[OF A nz]
  have v: "vmm_fds ?h = vmm_fds h" using R(3) by (simp add: same_rest_def steady_def vmm_fds_def)
  note G = globals_released[of ?h _ ok, unfolded v, OF R(1)]
  have "0 \<in> set (open_fds ?h) \<longleftrightarrow> 0 \<in># mset (open_fds ?h)" by simp
  then have "0 \<in> set (open_fds ?h) \<longleftrightarrow> j = length (handles h)" unfolding R(1) using nz by auto
  then show "mset (open_fds (cleanup_vcpus ok h)) = (if j = length (handles h) then {#0, 1, 2#} else {#1, 2#})"
    "mapped (cleanup_vcpus ok h) = []" "unjoined (cleanup_vcpus ok h) = unjoined h"
    "tty (cleanup_vcpus ok h) = restore_terminal (ok \<and> j = length (handles h)) (tty h)"
    "stdin_monitor (cleanup_vcpus ok h) = stdin_monitor h"
    using G R(2,3) by (simp_all add: cleanup_vcpus_def same_rest_def steady_def)
qed

section \<open>Runs of the VMM\<close>

definition fresh_host :: "nat \<Rightarrow> host \<Rightarrow> bool" where
  "fresh_host n h \<longleftrightarrow> open_fds h = [0, 1, 2] \<and> mapped h = [] \<and> handles h = replicate n zero_handle \<and>
     host_kvm_fd h = - 1 \<and> host_vm_fd h = - 1 \<and> unjoined h = [] \<and> \<not> stdin_monitor h \<and>
     \<not> termios_saved (tty h)"

lemma first_fds: "lowest_fd [0, 1, 2] = 3" "lowest_fd [0, 1, 2, 3] = 4"
  by code_simp+

lemma init_kvm_books:
  assumes "fresh_host n h"
  shows "fst (init_kvm force h) \<in> {0, - 1}" and "acct 0 (snd (init_kvm force h))"
    and "0 \<notin> set (vmm_fds (snd (init_kvm force h)))" and "handles (snd (init_kvm force h)) = handles h"
    and "tty (snd (init_kvm force h)) = tty h" and "unjoined (snd (init_kvm force h)) = []"
    and "\<not> stdin_monitor (snd (init_kvm force h))"
  using assms
  by (auto simp: fresh_host_def init_kvm_def sys_open_def sys_call_def and_ok_def Let_def first_fds acct_def vmm_fds_def
      KVM_API_VERSION_def)

lemma create_threads_effect:
  "fst (create_threads is h) \<in> {0, - 1} \<and> open_fds (snd (create_threads is h)) = open_fds h \<and>
   mapped (snd (create_threads is h)) = mapped h \<and> handles (snd (create_threads is h)) = handles h \<and>
   host_kvm_fd (snd (create_threads is h)) = host_kvm_fd h \<and> host_vm_fd (snd (create_threads is h)) = host_vm_fd h \<and>
   tty (snd (create_threads is h)) = tty h"
  by (induction "is" arbitrary: h) (auto simp: and_ok_def sys_call_def)

lemma create_threads_failed:
  "is \<noteq> [] \<Longrightarrow> fst (create_threads is h) < 0 \<Longrightarrow> length is = 1 \<Longrightarrow> unjoined (snd (create_threads is h)) = unjoined h"
  by (cases "is") (auto simp: and_ok_def sys_call_def split: if_splits)

text \<open>The books see neither the threads nor the terminal nor the number of calls.\<close>

lemma acct_cong:
  "open_fds h' = open_fds h \<Longrightarrow> mapped h' = mapped h \<Longrightarrow> handles h' = handles h \<Longrightarrow>
   host_kvm_fd h' = host_kvm_fd h \<Longrightarrow> host_vm_fd h' = host_vm_fd h \<Longrightarrow> acct j h' = acct j h \<and> vmm_fds h' = vmm_fds h"
  by (simp add: acct_def vmm_fds_def)

lemma run_vcpus_result:
  assumes A: "acct (length (handles h)) h" and nz: "0 \<notin> set (vmm_fds h)" and "unjoined h = []"
  shows "mset (open_fds (snd (run_vcpus c h))) = {#0, 1, 2#}" and "mapped (snd (run_vcpus c h)) = []"
    and "tty (snd (run_vcpus c h)) = restore_terminal (rc_restore_ok c) (tty h)"
    and "fst (run_vcpus c h) = 0 \<or> length (handles h) = 1 \<Longrightarrow> unjoined (snd (run_vcpus c h)) = []"
    and "\<not> stdin_monitor (snd (run_vcpus c h))"
proof -
  define h1 where "h1 = (if rc_paging c \<or> rc_linux c
    then (let (r, h) = sys_call h in h\<lparr>stdin_monitor := 0 \<le> r\<rparr>) else h)"
  define r where "r = create_threads [0..<length (handles h1)] h1"
  define h2 where "h2 = (snd r)\<lparr>unjoined := (if fst r < 0 then unjoined (snd r) else []), stdin_monitor := False\<rparr>"
  have h1: "open_fds h1 = open_fds h" "mapped h1 = mapped h" "handles h1 = handles h" "host_kvm_fd h1 = host_kvm_fd h"
    "host_vm_fd h1 = host_vm_fd h" "tty h1 = tty h" "unjoined h1 = []"
    using assms(3) by (simp_all add: h1_def sys_call_def)
  note T = create_threads_effect[of "[0..<length (handles h1)]" h1, folded r_def]
  have run: "run_vcpus c h = (if fst r < 0 then 1 else 0, cleanup_vcpus (rc_restore_ok c) h2)"
    by (simp add: run_vcpus_def h1_def[symmetric] Let_def r_def[symmetric] cleanup_stdin_def h2_def split: prod.split)
  have h2: "open_fds h2 = open_fds h" "mapped h2 = mapped h" "handles h2 = handles h" "host_kvm_fd h2 = host_kvm_fd h"
    "host_vm_fd h2 = host_vm_fd h" "tty h2 = tty h"
    using T h1 by (simp_all add: h2_def)
  note B = acct_cong[OF h2(1-5), of "length (handles h)"]
  have A2: "acct (length (handles h)) h2" and nz2: "0 \<notin> set (vmm_fds h2)" using A nz B by simp_all
  note R = cleanup_vcpus_result[OF A2 nz2, of "rc_restore_ok c", unfolded h2(3,6)]
  show "mset (open_fds (snd (run_vcpus c h))) = {#0, 1, 2#}" "mapped (snd (run_vcpus c h)) = []"
    "tty (snd (run_vcpus c h)) = restore_terminal (rc_restore_ok c) (tty h)"
    "\<not> stdin_monitor (snd (run_vcpus c h))"
    using R by (simp_all add: run h2_def)
  show "unjoined (snd (run_vcpus c h)) = []" if "fst (run_vcpus c h) = 0 \<or> length (handles h) = 1"
    using that R(3) create_threads_failed[of "[0..<length (handles h1)]" h1] h1(3,7)
    by (auto simp: run h2_def r_def and_ok_def sys_call_def split: if_splits)
qed

lemma enter_raw_mode_fresh:
  "open_fds (enter_raw_mode c h) = open_fds h" "mapped (enter_raw_mode c h) = mapped h"
  "handles (enter_raw_mode c h) = handles h" "host_kvm_fd (enter_raw_mode c h) = host_kvm_fd h"
  "host_vm_fd (enter_raw_mode c h) = host_vm_fd h" "unjoined (enter_raw_mode c h) = unjoined h"
  "stdin_monitor (enter_raw_mode c h) = stdin_monitor h"
  by (simp_all add: enter_raw_mode_def)

lemma restore_after_raw:
  "\<not> termios_saved (tty h) \<Longrightarrow>
     term_attr (restore_terminal True (tty (enter_raw_mode c h))) = term_attr (tty h)"
  "term_attr (restore_terminal False t) = term_attr t"
  by (simp_all add: enter_raw_mode_def restore_terminal_def set_raw_mode_def Let_def)

text \<open>
  The state after \<^verbatim>\<open>init_kvm\<close>. The terminal is not part of what \<open>init_kvm\<close> looks at, so \<open>fresh_host\<close> may be
  assumed of the host before \<^verbatim>\<open>set_raw_mode\<close>.
\<close>

lemma init_after_raw:
  fixes force :: bool and c :: run_config
  assumes "fresh_host n h"
  defines "h1 \<equiv> snd (init_kvm force (enter_raw_mode c h))"
  shows "fst (init_kvm force (enter_raw_mode c h)) \<in> {0, - 1}" and "acct 0 h1" and "0 \<notin> set (vmm_fds h1)"
    and "handles h1 = replicate n zero_handle" and "tty h1 = tty (enter_raw_mode c h)" and "unjoined h1 = []"
    and "\<not> stdin_monitor h1"
proof -
  let ?h = "(enter_raw_mode c h)\<lparr>tty := tty h\<rparr>"
  have F: "fresh_host n ?h" using assms(1) by (simp add: fresh_host_def enter_raw_mode_fresh)
  have "init_kvm force (g\<lparr>tty := t\<rparr>) = (fst (init_kvm force g), (snd (init_kvm force g))\<lparr>tty := t\<rparr>)" for g t
    by (simp add: init_kvm_def sys_open_def sys_call_def and_ok_def Let_def)
  then have i: "fst (init_kvm force ?h) = fst (init_kvm force (enter_raw_mode c h))"
    "snd (init_kvm force ?h) = h1\<lparr>tty := tty h\<rparr>"
    by (simp_all add: h1_def)
  note B = init_kvm_books[OF F, of force, unfolded i]
  show "fst (init_kvm force (enter_raw_mode c h)) \<in> {0, - 1}" by (rule B(1))
  show "acct 0 h1" "0 \<notin> set (vmm_fds h1)" "handles h1 = replicate n zero_handle" "unjoined h1 = []"
    "\<not> stdin_monitor h1"
    using B(2-4,6,7) F by (simp_all add: acct_def vmm_fds_def fresh_host_def enter_raw_mode_fresh)
  show "tty h1 = tty (enter_raw_mode c h)"
    unfolding h1_def by (simp add: init_kvm_def sys_open_def sys_call_def and_ok_def Let_def)
qed

lemma vmm_main_result:
  assumes F: "fresh_host n h" and "0 < n" and "rc_linux c \<Longrightarrow> n = 1"
  shows "mapped (snd (vmm_main c h)) = [] \<and> set (open_fds (snd (vmm_main c h))) \<subseteq> {0, 1, 2} \<and>
    \<not> stdin_monitor (snd (vmm_main c h)) \<and>
    (fst (vmm_main c h) = 0 \<or> n = 1 \<longrightarrow>
       mset (open_fds (snd (vmm_main c h))) = {#0, 1, 2#} \<and> unjoined (snd (vmm_main c h)) = [] \<and>
       tty (snd (vmm_main c h)) = restore_terminal (rc_restore_ok c) (tty (enter_raw_mode c h)))"
proof -
  define r1 where "r1 = init_kvm (rc_linux c) (enter_raw_mode c h)"
  define r2 where "r2 = set_up c (snd r1)"
  note I = init_after_raw[OF F, of "rc_linux c" c, folded r1_def]
  have main: "vmm_main c h = (if fst r1 < 0 then (1, cleanup_early (rc_restore_ok c) (snd r1))
      else if fst r2 < 0 then (1, cleanup_vcpus (rc_restore_ok c) (snd r2)) else run_vcpus c (snd r2))"
    by (simp add: vmm_main_def r1_def r2_def Let_def split: prod.split)
  have hs: "length (handles (snd r1)) = n" "handles (snd r1) \<noteq> []" using I(4) assms(2) by auto
  obtain j where j: "j \<le> n" "acct j (snd r2)" "steady (snd r1) (snd r2)" "fst r2 \<in> {0, - 1}" "fst r2 = 0 \<longrightarrow> j = n" "0 < j"
    using set_up_books[OF I(2) _ hs(2), of c] assms(3) hs(1) by (auto simp: r2_def)
  have s: "length (handles (snd r2)) = n" "0 \<notin> set (vmm_fds (snd r2))" "unjoined (snd r2) = []"
    "tty (snd r2) = tty (enter_raw_mode c h)" "\<not> stdin_monitor (snd r2)"
    using j(3) hs(1) I(3,5,6,7) by (simp_all add: steady_def vmm_fds_def)
  show ?thesis
  proof (cases "fst r1 < 0")
    case True
    have "mset (open_fds (snd r1)) = {#0, 1, 2#} + mset (vmm_fds (snd r1))" "mapped (snd r1) = []"
      using I(2) by (simp_all add: acct_def)
    moreover from this(1) have "0 \<in> set (open_fds (snd r1))" by (metis set_mset_mset union_iff insertI1 set_mset_add_mset_insert)
    ultimately show ?thesis
      using True globals_released[of "snd r1" "{#0, 1, 2#}" "rc_restore_ok c"] I(5,6,7) main
      by (auto dest: mset_eq_setD simp flip: set_mset_mset)
  next
    case ok: False
    show ?thesis
    proof (cases "fst r2 < 0")
      case True
      then have "vmm_main c h = (1, cleanup_vcpus (rc_restore_ok c) (snd r2))" using ok main by simp
      moreover have "n = 1 \<longrightarrow> j = n" using j(1,6) by simp
      ultimately show ?thesis
        using cleanup_vcpus_result[OF j(2) s(2), of "rc_restore_ok c"] s(1,3,4,5) by (auto simp flip: set_mset_mset)
    next
      case False
      then have m: "vmm_main c h = run_vcpus c (snd r2)" using ok main by simp
      have A: "acct (length (handles (snd r2))) (snd r2)" using False j(2,4,5) s(1) by auto
      show ?thesis
        using run_vcpus_result[OF A s(2,3), of c] s(1,4) unfolding m by (auto simp flip: set_mset_mset)
    qed
  qed
qed

section \<open>Properties\<close>

text \<open>
  C11: the VMM releases what it acquired. Whichever host calls fail, at its end no mapping is left, no
  descriptor but the standard streams is open and the thread that reads the standard input does not run.
  When it ends with status 0, and always with one vCPU, the standard streams are all open, every vCPU
  thread has been joined and, if the call that restores the terminal succeeds, the terminal has its old
  settings.
\<close>

theorem resources_released:
  assumes "fresh_host n h" and "0 < n" and "rc_linux c \<Longrightarrow> n = 1"
  shows "let (status, h') = vmm_main c h in
    mapped h' = [] \<and> set (open_fds h') \<subseteq> {0, 1, 2} \<and> \<not> stdin_monitor h' \<and>
    (status = 0 \<or> n = 1 \<longrightarrow> mset (open_fds h') = {#0, 1, 2#} \<and> unjoined h' = [] \<and>
       (rc_restore_ok c \<longrightarrow> term_attr (tty h') = term_attr (tty h)))"
  using vmm_main_result[OF assms(1,2), of c] assms(3) restore_after_raw(1)[of h c] assms(1)
  by (cases "vmm_main c h"; cases "rc_restore_ok c") (auto simp: fresh_host_def)

definition sample_host :: "nat \<Rightarrow> (nat \<Rightarrow> bool) \<Rightarrow> host" where
  "sample_host n failing =
     (let attr = \<lparr>c_lflag = 0x8A3B, c_iflag = 0x500, c_vmin = 4, c_vtime = 1, c_rest = 0\<rparr> in
      \<lparr>host_calls = 0, host_fails = failing, host_api = 12, open_fds = [0, 1, 2], mapped = [], next_mapping = 0,
       host_kvm_fd = - 1, host_vm_fd = - 1, handles = replicate n zero_handle, unjoined = [], stdin_monitor = False,
       tty = \<lparr>term_isatty = True, term_attr = attr, orig_termios = attr, termios_saved = False\<rparr>\<rparr>)"

definition paging_config :: run_config where
  "paging_config = \<lparr>rc_paging = True, rc_linux = False, rc_initrd = False, rc_debug_all = False,
     rc_get_ok = True, rc_set_ok = True, rc_restore_ok = True\<rparr>"

lemma sample_host_fresh: "fresh_host n (sample_host n failing)"
  by (simp add: fresh_host_def sample_host_def Let_def)

text \<open>One vCPU whose \<^verbatim>\<open>KVM_CREATE_VCPU\<close> fails.\<close>

theorem resources_released_witness:
  "fst (vmm_main paging_config (sample_host 1 (\<lambda>k. k = 8))) = 1 \<and>
   mset (open_fds (snd (vmm_main paging_config (sample_host 1 (\<lambda>k. k = 8))))) = {#0, 1, 2#}"
proof -
  have "fst (vmm_main paging_config (sample_host 1 (\<lambda>k. k = 8))) = 1" by code_simp
  then show ?thesis
    using resources_released[OF sample_host_fresh[of 1 "\<lambda>k. k = 8"], of paging_config]
    by (auto simp: paging_config_def split: prod.splits)
qed

lemma acquire_guests_append:
  "acquire_guests (is @ js) h =
     (if fst (acquire_guests is h) < 0 then (- 1, snd (acquire_guests is h))
      else acquire_guests js (snd (acquire_guests is h)))"
  by (induction "is" arbitrary: h) (auto simp: and_ok_def)

text \<open>
  C12: a guest that cannot be started closes the standard input. When the set-up fails for a guest that is
  not the last one, clean-up also closes the descriptors of the contexts that were not yet initialised,
  which are zero: descriptor 0 is closed, and the terminal cannot be restored from raw mode.
\<close>

theorem failed_guest_closes_stdin:
  assumes F: "fresh_host n h" and "\<not> rc_linux c" and j: "Suc j < n"
    and init: "init_kvm False (enter_raw_mode c h) = (0, h1)"
    and before: "acquire_guests [0..<j] h1 = (0, h2)" and failed: "acquire_guest j h2 = (- 1, h3)"
  shows "let (status, h') = vmm_main c h in
    status = 1 \<and> 0 \<notin> set (open_fds h') \<and> term_attr (tty h') = term_attr (tty (enter_raw_mode c h))"
proof -
  note I = init_after_raw[OF F, of False c, unfolded init snd_conv]
  have n: "length (handles h1) = n" using I(4) by simp
  have B: "acct j h2" "steady h1 h2"
    using acquire_guests_books[OF I(2), of j] j n before by auto
  have "j < length (handles h2)" using B(2) j n by (simp add: steady_def)
  then have K: "acct (Suc j) h3" "steady h2 h3"
    using keeps_acquire_guest[OF B(1)] failed by (simp_all add: keeps_def)
  have up: "[0..<n] = [0..<j] @ j # [Suc j..<n]"
    using upt_add_eq_append[of 0 j "n - j"] j by (simp add: upt_conv_Cons)
  have "set_up c h1 = (- 1, h3)"
    using assms(2) n by (simp add: set_up_def up acquire_guests_append before and_ok_def failed)
  then have m: "vmm_main c h = (1, cleanup_vcpus (rc_restore_ok c) h3)"
    using assms(2) init by (simp add: vmm_main_def)
  have s: "length (handles h3) = n" "0 \<notin> set (vmm_fds h3)" "tty h3 = tty (enter_raw_mode c h)"
    using B(2) K(2) n I(3,5) by (simp_all add: steady_def vmm_fds_def)
  have "Suc j \<noteq> length (handles h3)" using j s(1) by simp
  note R = cleanup_vcpus_result[OF K(1) s(2), of "rc_restore_ok c", unfolded if_not_P[OF this]]
  have "0 \<notin># mset (open_fds (cleanup_vcpus (rc_restore_ok c) h3))" unfolding R(1) by simp
  then show ?thesis using R(4) \<open>Suc j \<noteq> length (handles h3)\<close> s(3) restore_after_raw(2) m by simp
qed

text \<open>The first of two paging guests has no file: standard input is closed, the terminal stays raw.\<close>

theorem failed_guest_closes_stdin_witness:
  "fst (vmm_main paging_config (sample_host 2 (\<lambda>k. k = 6))) = 1 \<and>
   0 \<notin> set (open_fds (snd (vmm_main paging_config (sample_host 2 (\<lambda>k. k = 6))))) \<and>
   c_lflag (term_attr (tty (snd (vmm_main paging_config (sample_host 2 (\<lambda>k. k = 6)))))) = 0x8A30"
proof -
  let ?h = "sample_host 2 (\<lambda>k. k = 6)" and ?c = paging_config
  let ?h1 = "snd (init_kvm False (enter_raw_mode ?c ?h))"
  have "fst (init_kvm False (enter_raw_mode ?c ?h)) = 0" "fst (acquire_guest 0 ?h1) = - 1"
    "c_lflag (term_attr (tty (enter_raw_mode ?c ?h))) = 0x8A30"
    by code_simp+
  then show ?thesis
    using failed_guest_closes_stdin[OF sample_host_fresh[of 2 "\<lambda>k. k = 6"], of ?c 0 ?h1 ?h1 "snd (acquire_guest 0 ?h1)"]
    by (auto simp: paging_config_def prod_eq_iff split: prod.splits)
qed

text \<open>
  When a thread cannot be created, \<^verbatim>\<open>main\<close> unmaps the memory of the vCPUs that run and does not join their
  threads.
\<close>

lemma running_guest_unmapped:
  "let (status, h') = vmm_main paging_config (sample_host 2 (\<lambda>k. k = 22)) in
     status = 1 \<and> mapped h' = [] \<and> unjoined h' = [0]"
  by code_simp

end
