(* ===== verification/Os_Lib.thy ===== *)
theory Os_Lib
  imports Guest_Memory
begin

text \<open>
  The library of the 1K OS (\<^verbatim>\<open>os-1k/common.c\<close>), which kernel and shell share: byte loops over
  memory, C strings, and \<^verbatim>\<open>printf\<close>. Memory is the guest memory of the kernel; reading or writing
  outside it is \<open>None\<close>. What \<^verbatim>\<open>putchar\<close> receives is the list of characters printed.
\<close>

section \<open>Memory and strings\<close>

fun memset :: "gmem \<Rightarrow> nat \<Rightarrow> u8 \<Rightarrow> nat \<Rightarrow> gmem option" where
  "memset m p c 0 = Some m"
| "memset m p c (Suc n) = Option.bind (store8 m p c) (\<lambda>m. memset m (p + 1) c n)"

fun memcpy :: "gmem \<Rightarrow> nat \<Rightarrow> nat \<Rightarrow> nat \<Rightarrow> gmem option" where
  "memcpy m d s 0 = Some m"
| "memcpy m d s (Suc n) =
     do {
       b \<leftarrow> load8 m s;
       m \<leftarrow> store8 m d b;
       memcpy m (d + 1) (s + 1) n
     }"

lemma load8_bound: "load8 m a = Some b \<Longrightarrow> a < gm_size m"
  by (auto simp: load8_def gm_read_def split: if_splits)

lemma load8_store8_measure:
  "load8 m s = Some b \<Longrightarrow> store8 m d c = Some m' \<Longrightarrow> gm_size m' - Suc s < gm_size m - s"
  using load8_bound[of m s b] store8_size[of m d c m'] by simp

text \<open>The loops over strings end at the terminator or at the end of memory.\<close>

function strcpy :: "gmem \<Rightarrow> nat \<Rightarrow> nat \<Rightarrow> gmem option" where
  "strcpy m d s =
     (case load8 m s of
        None \<Rightarrow> None
      | Some c \<Rightarrow>
          (case store8 m d c of
             None \<Rightarrow> None
           | Some m' \<Rightarrow> if c = 0 then Some m' else strcpy m' (d + 1) (s + 1)))"
  by pat_completeness auto
termination
  by (relation "measure (\<lambda>(m, d, s). gm_size m - s)") (auto simp: load8_store8_measure)

function strcmp :: "gmem \<Rightarrow> nat \<Rightarrow> nat \<Rightarrow> int option" where
  "strcmp m s1 s2 =
     (case load8 m s1 of
        None \<Rightarrow> None
      | Some x \<Rightarrow>
          (case load8 m s2 of
             None \<Rightarrow> None
           | Some y \<Rightarrow> if x \<noteq> 0 \<and> y \<noteq> 0 \<and> x = y then strcmp m (s1 + 1) (s2 + 1)
                       else Some (uint x - uint y)))"
  by pat_completeness auto
termination
  by (relation "measure (\<lambda>(m, s1, s2). gm_size m - s1)") (auto dest: load8_bound)

text \<open>The characters that the loop of \<^verbatim>\<open>printf("%s")\<close> reads from memory.\<close>

function read_string :: "gmem \<Rightarrow> nat \<Rightarrow> u8 list option" where
  "read_string m s =
     (case load8 m s of
        None \<Rightarrow> None
      | Some c \<Rightarrow> if c = 0 then Some [] else map_option (Cons c) (read_string m (s + 1)))"
  by pat_completeness auto
termination
  by (relation "measure (\<lambda>(m, s). gm_size m - s)") (auto dest: load8_bound)

declare strcpy.simps [simp del] strcmp.simps [simp del] read_string.simps [simp del]

section \<open>What the memory routines do\<close>

lemma store8_write: "store8 m a b = gm_write m a [b]"
  by (simp add: store8_def)

lemma gm_write_split:
  "gm_write m a (b # bs) = Option.bind (gm_write m a [b]) (\<lambda>m. gm_write m (a + 1) bs)"
  if "bs \<noteq> [] \<or> a < gm_size m"
  using that by (auto simp: gm_write_def splice_def nth_Cons' fun_eq_iff)

lemma memset_fill: "0 < n \<Longrightarrow> memset m p c n = gm_fill m p c n"
proof (induction n arbitrary: m p)
  case 0
  then show ?case by simp
next
  case (Suc n)
  show ?case
  proof (cases n)
    case 0
    then show ?thesis by (simp add: gm_fill_def store8_write)
  next
    case (Suc k)
    have "memset m p c (Suc n) = Option.bind (gm_write m p [c]) (\<lambda>m. gm_fill m (p + 1) c n)"
      using Suc.IH Suc by (simp add: store8_write)
    also have "\<dots> = gm_write m p (c # replicate n c)"
      using Suc by (simp add: gm_write_split gm_fill_def)
    finally show ?thesis by (simp add: gm_fill_def)
  qed
qed

text \<open>\<open>cstring m a s\<close>: at address \<open>a\<close> lies the C string with the characters \<open>s\<close>.\<close>

definition cstring :: "gmem \<Rightarrow> nat \<Rightarrow> u8 list \<Rightarrow> bool" where
  "cstring m a s \<longleftrightarrow> gm_read m a (length s + 1) = Some (s @ [0]) \<and> 0 \<notin> set s"

lemma gm_read_Cons:
  "gm_read m a (Suc n) = Some (b # bs) \<longleftrightarrow> load8 m a = Some b \<and> gm_read m (a + 1) n = Some bs"
proof -
  have "[a..<a + Suc n] = a # [a + 1..<a + 1 + n]" by (simp add: upt_conv_Cons)
  then show ?thesis by (auto simp: gm_read_def load8_def)
qed

lemma gm_read_length: "gm_read m a n = Some bs \<Longrightarrow> length bs = n"
  by (auto simp: gm_read_def split: if_splits)

lemma cstring_Nil: "cstring m a [] \<longleftrightarrow> load8 m a = Some 0"
  by (auto simp: cstring_def gm_read_Cons[of m a 0, simplified] gm_read_def load8_def)

lemma cstring_Cons: "cstring m a (c # s) \<longleftrightarrow> load8 m a = Some c \<and> c \<noteq> 0 \<and> cstring m (a + 1) s"
  by (auto simp: cstring_def gm_read_Cons)

lemma read_string_cstring: "cstring m a s \<Longrightarrow> read_string m a = Some s"
  by (induction s arbitrary: a) (simp_all add: read_string.simps[of m] cstring_Nil cstring_Cons)

lemma strcmp_eq:
  assumes "cstring m a s" and "cstring m b t"
  shows "\<exists>r. strcmp m a b = Some r \<and> (r = 0 \<longleftrightarrow> s = t) \<and>
    (r < 0 \<longleftrightarrow> (s, t) \<in> lexord {(x, y). x < y})"
  using assms
proof (induction s arbitrary: a b t)
  case Nil
  then obtain y where y: "load8 m b = Some y" "y = 0 \<longleftrightarrow> t = []"
    by (cases t) (auto simp: cstring_Nil cstring_Cons)
  have "0 < y \<longleftrightarrow> y \<noteq> 0" by (simp add: word_gt_0)
  then have "0 < uint y \<longleftrightarrow> y \<noteq> 0" by (simp add: word_less_def)
  moreover have "strcmp m a b = Some (- uint y)"
    using Nil(1) y by (simp add: strcmp.simps[of m a] cstring_Nil)
  ultimately show ?case using y(2) by (cases t) auto
next
  case (Cons x s)
  then have x: "load8 m a = Some x" "x \<noteq> 0" "cstring m (a + 1) s" by (simp_all add: cstring_Cons)
  show ?case
  proof (cases t)
    case Nil
    then have "strcmp m a b = Some (uint x)"
      using Cons.prems(2) x by (simp add: strcmp.simps[of m a] cstring_Nil)
    moreover have "0 \<le> uint x" "uint x \<noteq> 0" using x(2) by (simp_all add: uint_0_iff)
    ultimately show ?thesis using Nil by auto
  next
    case (Cons y u)
    then have y: "load8 m b = Some y" "y \<noteq> 0" "cstring m (b + 1) u"
      using Cons.prems(2) by (simp_all add: cstring_Cons)
    show ?thesis
    proof (cases "x = y")
      case True
      then have "strcmp m a b = strcmp m (a + 1) (b + 1)"
        using x y by (simp add: strcmp.simps[of m a b])
      then show ?thesis using Cons.IH[OF x(3) y(3)] True Cons by auto
    next
      case False
      then have "strcmp m a b = Some (uint x - uint y)"
        using x y by (simp add: strcmp.simps[of m a b])
      then show ?thesis using False Cons by (auto simp: word_less_def word_uint_eq_iff)
    qed
  qed
qed

lemma memcpy_write:
  assumes "gm_read m s n = Some bs" and "s + n \<le> d \<or> d + n \<le> s" and "d + n \<le> gm_size m" and "0 < n"
  shows "memcpy m d s n = gm_write m d bs"
  using assms
proof (induction n arbitrary: m d s bs)
  case 0
  then show ?case by simp
next
  case (Suc n)
  then obtain b cs where bs: "bs = b # cs" "load8 m s = Some b" "gm_read m (s + 1) n = Some cs"
    using gm_read_length[OF Suc.prems(1)] by (cases bs) (auto simp: gm_read_Cons)
  obtain m' where w: "gm_write m d [b] = Some m'" using Suc.prems by simp
  have sz: "gm_size m' = gm_size m" by (rule gm_write_size[OF w])
  show ?case
  proof (cases n)
    case 0
    then show ?thesis using bs w by (auto simp: store8_write gm_read_def split: if_splits)
  next
    case (Suc k)
    have "gm_read m' (s + 1) n = Some cs"
      using gm.rd_wr_other[OF w, of "s + 1" n] bs(3) Suc.prems(2) by auto
    then have "memcpy m' (d + 1) (s + 1) n = gm_write m' (d + 1) cs"
      using Suc.prems sz Suc by (intro Suc.IH) auto
    moreover have "cs \<noteq> []" using bs(3) Suc by (auto simp: gm_read_def split: if_splits)
    ultimately show ?thesis using bs w by (simp add: store8_write gm_write_split)
  qed
qed

lemma strcpy_write:
  assumes "cstring m a s" and "a + length s + 1 \<le> d \<or> d + length s + 1 \<le> a"
    and "d + length s + 1 \<le> gm_size m"
  shows "strcpy m d a = gm_write m d (s @ [0])"
  using assms
proof (induction s arbitrary: m a d)
  case Nil
  then show ?case by (simp add: strcpy.simps[of m d a] cstring_Nil store8_write)
next
  case (Cons c s)
  then have c: "load8 m a = Some c" "c \<noteq> 0" "cstring m (a + 1) s" by (simp_all add: cstring_Cons)
  obtain m' where w: "gm_write m d [c] = Some m'" using Cons.prems(3) by simp
  have "cstring m' (a + 1) s"
    using gm.rd_wr_other[OF w, of "a + 1" "length s + 1"] c(3) Cons.prems(2)
    by (auto simp: cstring_def)
  then have "strcpy m' (d + 1) (a + 1) = gm_write m' (d + 1) (s @ [0])"
    using Cons.prems gm_write_size[OF w] by (intro Cons.IH) auto
  then show ?case
    using c w by (simp add: strcpy.simps[of m d a] store8_write gm_write_split)
qed

section \<open>Arithmetic\<close>

text \<open>\<^verbatim>\<open>int\<close> arithmetic that leaves the type is undefined, \<open>None\<close>.\<close>

definition c_int :: "int \<Rightarrow> int option" where
  "c_int i = (if - (2 ^ 31) \<le> i \<and> i < 2 ^ 31 then Some i else None)"

section \<open>printf\<close>

text \<open>A variadic argument: a string, or a 32-bit word that \<^verbatim>\<open>%d\<close> reads signed and \<^verbatim>\<open>%x\<close> unsigned.\<close>

datatype printf_arg = Str "u8 list" | Word u32

function int_divisor :: "u32 \<Rightarrow> u32 \<Rightarrow> u32" where
  "int_divisor magnitude divisor =
     (if magnitude div divisor > 9 then int_divisor magnitude (divisor * 10) else divisor)"
  by pat_completeness auto

lemma divisor_grows:
  fixes m d :: u32
  assumes "m div d > 9"
  shows "unat (d * 10) = unat d * 10" and "unat d * 10 \<le> unat m" and "0 < unat d"
proof -
  have q: "9 < unat m div unat d" using assms by (simp add: word_less_nat_alt unat_div)
  then show d: "0 < unat d" by (cases "unat d") auto
  have "10 \<le> unat m div unat d" using q by simp
  then show le: "unat d * 10 \<le> unat m"
    using d by (simp add: less_eq_div_iff_mult_less_eq mult.commute)
  moreover have "unat m < 2 ^ LENGTH(32)" by (rule unsigned_less)
  ultimately have "unat d * 10 < 2 ^ 32" by simp
  then show "unat (d * 10) = unat d * 10" by (simp add: unat_word_ariths)
qed

termination int_divisor
proof (relation "measure (\<lambda>(m, d). unat m - unat d)")
  fix m d :: u32
  assume "9 < m div d"
  from divisor_grows[OF this]
  show "((m, d * 10), (m, d)) \<in> measure (\<lambda>(m, d). unat m - unat d)" by simp
qed simp

function print_digits :: "u32 \<Rightarrow> u32 \<Rightarrow> u8 list" where
  "print_digits magnitude divisor =
     (if divisor > 0
      then ucast (48 + magnitude div divisor) # print_digits (magnitude mod divisor) (divisor div 10)
      else [])"
  by pat_completeness auto
termination
  by (relation "measure (\<lambda>(m, d). unat d)")
    (auto simp: word_less_nat_alt unat_div)

declare int_divisor.simps [simp del] print_digits.simps [simp del]

definition print_int :: "u32 \<Rightarrow> u8 list" where
  "print_int value =
     (if sint value < 0
      then ascii ''-'' @ print_digits (- value) (int_divisor (- value) 1)
      else print_digits value (int_divisor value 1))"

definition print_hex :: "u32 \<Rightarrow> u8 list" where
  "print_hex value =
     map (\<lambda>i. ascii ''0123456789abcdef'' ! unat (drop_bit (i * 4) value AND 0xf)) [7, 6, 5, 4, 3, 2, 1, 0]"

text \<open>
  The characters \<^verbatim>\<open>printf\<close> prints. A conversion it does not know prints nothing and takes no
  argument. A missing argument or one of the wrong kind is undefined, \<open>None\<close>.
\<close>

fun printf :: "u8 list \<Rightarrow> printf_arg list \<Rightarrow> u8 list option" where
  "printf [] args = Some []"
| "printf [c] args = Some [c]"
| "printf (c # k # rest) args =
     (if c \<noteq> 37 then map_option (Cons c) (printf (k # rest) args)
      else if k = 37 then map_option (Cons 37) (printf rest args)
      else if k = 115 then
        (case args of Str s # args' \<Rightarrow> map_option (append s) (printf rest args') | _ \<Rightarrow> None)
      else if k = 100 then
        (case args of Word w # args' \<Rightarrow> map_option (append (print_int w)) (printf rest args') | _ \<Rightarrow> None)
      else if k = 120 then
        (case args of Word w # args' \<Rightarrow> map_option (append (print_hex w)) (printf rest args') | _ \<Rightarrow> None)
      else printf rest args)"

text \<open>Several calls in a row.\<close>

fun prints :: "(u8 list \<times> printf_arg list) list \<Rightarrow> u8 list option" where
  "prints [] = Some []"
| "prints ((f, args) # fs) = do { s \<leftarrow> printf f args; t \<leftarrow> prints fs; Some (s @ t) }"

abbreviation nl :: "u8 list" where "nl \<equiv> [10]"

section \<open>printf prints decimal numbers\<close>

fun padded :: "nat \<Rightarrow> nat \<Rightarrow> u8 list" where
  "padded 0 n = []"
| "padded (Suc k) n = padded k (n div 10) @ [word_of_nat (48 + n mod 10)]"

lemma padded_front:
  "padded (Suc k) n = word_of_nat (48 + n div 10 ^ k mod 10) # padded k (n mod 10 ^ k)"
proof (induction k arbitrary: n)
  case 0
  then show ?case by simp
next
  case (Suc k)
  have "padded (Suc (Suc k)) n = padded (Suc k) (n div 10) @ [word_of_nat (48 + n mod 10)]" by simp
  also have "\<dots> = word_of_nat (48 + n div 10 div 10 ^ k mod 10) #
      padded k (n div 10 mod 10 ^ k) @ [word_of_nat (48 + n mod 10)]"
    unfolding Suc.IH by simp
  also have "n div 10 div 10 ^ k = n div 10 ^ Suc k" by (simp add: div_mult2_eq)
  also have "n div 10 mod 10 ^ k = (n mod 10 ^ Suc k) div 10"
    using mod_mult2_eq[of n 10 "10 ^ k"] by simp
  also have "n mod 10 = (n mod 10 ^ Suc k) mod 10" by (simp add: mod_mod_cancel)
  finally show ?case by simp
qed

lemma dec_nat_padded: "10 ^ k \<le> n \<Longrightarrow> n < 10 ^ Suc k \<Longrightarrow> dec_nat n = padded (Suc k) n"
proof (induction k arbitrary: n)
  case 0
  then show ?case by (simp add: dec_nat.simps[of n])
next
  case (Suc k)
  have "10 ^ k \<le> n div 10" "n div 10 < 10 ^ Suc k"
    using Suc.prems by (simp_all add: less_eq_div_iff_mult_less_eq mult.commute less_mult_imp_div_less)
  then have "dec_nat (n div 10) = padded (Suc k) (n div 10)" by (rule Suc.IH)
  moreover have "\<not> n < 10"
  proof -
    have "(10 :: nat) \<le> 10 ^ Suc k" by simp
    then show ?thesis using Suc.prems(1) by linarith
  qed
  ultimately show ?case by (simp add: dec_nat.simps[of n])
qed

lemma ucast_digit: "unat (m :: u32) = n \<Longrightarrow> n < 10 \<Longrightarrow> (ucast (48 + m) :: u8) = word_of_nat (48 + n)"
  by (simp add: word_unat_eq_iff unat_word_ariths unat_of_nat unsigned_ucast_eq take_bit_eq_mod)

lemma print_digits_padded:
  "unat d = 10 ^ k \<Longrightarrow> unat m < 10 ^ Suc k \<Longrightarrow> print_digits m d = padded (Suc k) (unat m)"
proof (induction k arbitrary: m d)
  case 0
  then have d: "d = 1" by (simp add: word_unat_eq_iff)
  have "print_digits (m mod d) (d div 10) = []" unfolding d by (simp add: print_digits.simps)
  have "unat m < 10" using 0(2) by simp
  then have "print_digits m d = [word_of_nat (48 + unat m)]"
    using \<open>print_digits (m mod d) (d div 10) = []\<close> ucast_digit[of m "unat m"]
    by (simp add: d print_digits.simps[of m 1])
  then show ?case using \<open>unat m < 10\<close> by simp
next
  case (Suc k)
  have d: "d > 0" using Suc.prems(1) by (simp add: word_less_nat_alt)
  have d10: "unat (d div 10) = 10 ^ k" using Suc.prems(1) by (simp add: unat_div)
  have m: "unat (m mod d) = unat m mod 10 ^ Suc k" "unat (m div d) = unat m div 10 ^ Suc k"
    using Suc.prems(1) by (simp_all add: unat_div unat_mod)
  have "unat m div 10 ^ Suc k < 10"
    using Suc.prems(2) by (simp add: less_mult_imp_div_less)
  then have "ucast (48 + m div d) = (word_of_nat (48 + unat m div 10 ^ Suc k) :: u8)"
    "unat m div 10 ^ Suc k mod 10 = unat m div 10 ^ Suc k"
    using ucast_digit[OF m(2)] by simp_all
  moreover have "print_digits (m mod d) (d div 10) = padded (Suc k) (unat m mod 10 ^ Suc k)"
    using Suc.IH[OF d10, of "m mod d"] m(1) by simp
  ultimately show ?case
    using d by (simp only: print_digits.simps[of m d] padded_front if_True)
qed

lemma int_divisor_power:
  "unat d = 10 ^ k \<Longrightarrow> k = 0 \<or> 10 ^ k \<le> unat m \<Longrightarrow>
     \<exists>j. unat (int_divisor m d) = 10 ^ j \<and> unat m < 10 ^ Suc j \<and> (j = 0 \<or> 10 ^ j \<le> unat m)"
proof (induction m d arbitrary: k rule: int_divisor.induct)
  case (1 m d)
  show ?case
  proof (cases "m div d > 9")
    case True
    note g = divisor_grows[OF True]
    have "unat (d * 10) = 10 ^ Suc k" "10 ^ Suc k \<le> unat m" using g 1(2) by simp_all
    from 1(1)[OF True this(1)] this(2) True show ?thesis by (simp add: int_divisor.simps[of m d])
  next
    case False
    then have "unat m div 10 ^ k \<le> 9"
      using 1(2) by (simp add: word_less_nat_alt unat_div not_less)
    then have "unat m div 10 ^ k < 10" by simp
    then have "unat m < 10 ^ Suc k"
      by (simp add: div_less_iff_less_mult mult.commute)
    then show ?thesis using False 1(2,3) by (intro exI[of _ k]) (simp add: int_divisor.simps[of m d])
  qed
qed

lemma print_digits_dec: "print_digits m (int_divisor m 1) = dec_nat (unat m)"
proof -
  obtain j where j: "unat (int_divisor m 1) = 10 ^ j" "unat m < 10 ^ Suc j" "j = 0 \<or> 10 ^ j \<le> unat m"
    using int_divisor_power[of 1 0 m] by auto
  have "print_digits m (int_divisor m 1) = padded (Suc j) (unat m)"
    by (rule print_digits_padded[OF j(1,2)])
  also have "\<dots> = dec_nat (unat m)"
  proof (cases "10 ^ j \<le> unat m")
    case True
    then show ?thesis using dec_nat_padded[OF _ j(2)] by simp
  next
    case False
    then show ?thesis using j by (auto simp: dec_nat.simps[of "unat m"])
  qed
  finally show ?thesis .
qed

lemma print_int_dec: "print_int w = dec_int (sint w)"
proof (cases "sint w < 0")
  case True
  have "int (unat (- w)) = - sint w"
  proof -
    have "- sint w \<le> 2 ^ 31" using sint_greater_eq[of w] by simp
    have "uint (- w) = uint (word_of_int (- sint w) :: u32)" by simp
    also have "\<dots> = (- sint w) mod 2 ^ 32" unfolding uint_word_of_int by simp
    also have "\<dots> = - sint w"
      using True \<open>- sint w \<le> 2 ^ 31\<close> by (intro mod_pos_pos_trivial) simp_all
    finally show ?thesis by simp
  qed
  then have "unat (- w) = nat (- sint w)" by linarith
  then show ?thesis using True by (simp add: print_int_def dec_int_def print_digits_dec)
next
  case False
  have "uint w = sint w mod 2 ^ 32" by (simp add: uint_sint take_bit_eq_mod)
  also have "\<dots> = sint w"
    using False sint_less[of w] by (intro mod_pos_pos_trivial) simp_all
  finally have "uint w = sint w" .
  then have "unat w = nat (sint w)" by (metis nat_uint_eq)
  then show ?thesis using False by (simp add: print_int_def dec_int_def print_digits_dec)
qed

section \<open>What a format string prints\<close>

text \<open>
  The parts of a format string with their arguments, and the text each stands for, stated without
  the loops of the code: the digits of a number by division.
\<close>

datatype fmt_item = Lit u8 | Percent | Dec u32 | Hex u32 | Text "u8 list"

fun item_format :: "fmt_item \<Rightarrow> u8 list" where
  "item_format (Lit c) = [c]"
| "item_format Percent = ascii ''%%''"
| "item_format (Dec w) = ascii ''%d''"
| "item_format (Hex w) = ascii ''%x''"
| "item_format (Text s) = ascii ''%s''"

fun item_args :: "fmt_item \<Rightarrow> printf_arg list" where
  "item_args (Dec w) = [Word w]"
| "item_args (Hex w) = [Word w]"
| "item_args (Text s) = [Str s]"
| "item_args _ = []"

fun item_text :: "fmt_item \<Rightarrow> u8 list" where
  "item_text (Lit c) = [c]"
| "item_text Percent = ascii ''%''"
| "item_text (Dec w) = dec_int (sint w)"
| "item_text (Hex w) = map (\<lambda>i. hex_digit (unat w div 16 ^ i mod 16)) [7, 6, 5, 4, 3, 2, 1, 0]"
| "item_text (Text s) = s"

lemma printf_lit: "c \<noteq> 37 \<Longrightarrow> printf (c # rest) args = map_option (Cons c) (printf rest args)"
  by (cases rest) simp_all

lemma hex_table: "n < 16 \<Longrightarrow> ascii ''0123456789abcdef'' ! n = hex_digit n"
  by (auto simp: less_Suc_eq numeral_eq_Suc ascii_def hex_digit_def)

lemma unat_nibble: "unat (w AND 0xf :: u32) = unat w mod 16"
proof -
  have "w AND 0xf = take_bit 4 w" by (simp add: take_bit_eq_mask mask_eq_exp_minus_1)
  then show ?thesis by (simp only: unsigned_take_bit_eq) (simp add: take_bit_eq_mod)
qed

lemma print_hex_digits: "print_hex w = item_text (Hex w)"
proof -
  have "ascii ''0123456789abcdef'' ! unat (drop_bit (i * 4) w AND 0xf) = hex_digit (unat w div 16 ^ i mod 16)" for i
  proof -
    have "(2 :: nat) ^ (4 * i) = (2 ^ 4) ^ i" by (rule power_mult)
    then have "(2 :: nat) ^ (i * 4) = 16 ^ i" by (simp add: mult.commute)
    then show ?thesis by (simp add: unat_nibble unat_drop_div hex_table)
  qed
  then show ?thesis by (simp add: print_hex_def)
qed

definition plain :: "fmt_item \<Rightarrow> bool" where
  "plain it = (case it of Lit c \<Rightarrow> c \<noteq> 37 | _ \<Rightarrow> True)"

lemma printf_items:
  "list_all plain items \<Longrightarrow>
     printf (concat (map item_format items)) (concat (map item_args items)) =
       Some (concat (map item_text items))"
proof (induction items)
  case Nil
  then show ?case by simp
next
  case (Cons it items)
  then show ?case
    by (cases it) (simp_all add: plain_def printf_lit ascii_def print_int_dec print_hex_digits del: item_text.simps(4))
qed

section \<open>Properties\<close>

text \<open>
  \<^verbatim>\<open>strcmp\<close> compares two C strings: the result is 0 exactly for equal strings and negative exactly
  when the first comes first in the lexicographic order of unsigned bytes.
\<close>

theorem strcmp_compares:
  assumes "cstring m a s" and "cstring m b t"
  shows "\<exists>r. strcmp m a b = Some r \<and> (r = 0 \<longleftrightarrow> s = t) \<and>
    (r < 0 \<longleftrightarrow> (s, t) \<in> lexord {(x, y). x < y})"
  by (rule strcmp_eq[OF assms])

theorem strcmp_compares_witness:
  "\<exists>r. strcmp \<lparr>gm_size = 4, gm_data = (\<lambda>i. if i = 0 then 97 else if i = 2 then 98 else 0)\<rparr> 0 2 = Some r \<and> r < 0"
proof -
  let ?m = "\<lparr>gm_size = 4, gm_data = (\<lambda>i. if i = 0 then 97 else if i = 2 then 98 else 0 :: u8)\<rparr>"
  have s: "cstring ?m 0 [97]" "cstring ?m 2 [98]"
    by (simp_all add: cstring_Cons cstring_Nil load8_def gm_read_def)
  have "([97], [98]) \<in> lexord {(x :: u8, y). x < y}" by simp
  then show ?thesis using strcmp_compares[OF s] by auto
qed

text \<open>
  C29: \<^verbatim>\<open>printf\<close> prints what its format says: literal characters as they are, \<^verbatim>\<open>%d\<close> as the decimal
  number of the signed argument, the smallest \<^verbatim>\<open>int\<close> included, \<^verbatim>\<open>%x\<close> as eight hexadecimal digits,
  \<^verbatim>\<open>%s\<close> as the string and \<^verbatim>\<open>%%\<close> as one percent sign.
\<close>

theorem printf_prints:
  assumes "list_all plain items"
  shows "printf (concat (map item_format items)) (concat (map item_args items)) =
    Some (concat (map item_text items))"
  by (rule printf_items[OF assms])

theorem printf_prints_witness:
  "printf (ascii ''=%d %x'') [Word 0x80000000, Word 0xBEEF] = Some (ascii ''=-2147483648 0000beef'')"
proof -
  have "list_all plain [Lit 61, Dec 0x80000000, Lit 32, Hex 0xBEEF]" by (simp add: plain_def)
  from printf_prints[OF this] show ?thesis
    by (simp add: ascii_def dec_int_def dec_nat.simps hex_digit_def)
qed

end
