(* ===== verification/User_Lib.thy ===== *)
theory User_Lib
  imports Os_Lib "HOL-Library.Sublist"
begin

text \<open>
  The user library of the 1K OS (\<^verbatim>\<open>os-1k/user.c\<close>): \<^verbatim>\<open>getchar\<close>, \<^verbatim>\<open>readline\<close> and the register contents
  of a \<^verbatim>\<open>syscall\<close>. A user program reads the bytes that the VMM answers to its requests, 0xFF where no
  key was waiting, and writes characters; its result is what it wrote and how it ended.
\<close>

section \<open>Results of user code\<close>

datatype 'a outcome =
    Returns 'a "u8 list"  \<comment> \<open>a value, with the input left\<close>
  | Waits  \<comment> \<open>blocked in \<^verbatim>\<open>getchar\<close>: the input is used up\<close>
  | Exits
  | Undefined

type_synonym 'a io = "u8 list \<times> 'a outcome"

definition say :: "u8 list \<Rightarrow> 'a io \<Rightarrow> 'a io" where
  "say s r = (s @ fst r, snd r)"

lemma say_simps [simp]: "say s (t, r) = (s @ t, r)" "snd (say s p) = snd p" "fst (say s p) = s @ fst p"
  by (simp_all add: say_def)

section \<open>getchar\<close>

text \<open>The answer is sign-extended; -1 means no key, and is asked again.\<close>

fun getchar :: "u8 list \<Rightarrow> (int \<times> u8 list) option" where
  "getchar [] = None"
| "getchar (b # inp) = (if sint b \<noteq> - 1 then Some (sint b, inp) else getchar inp)"

lemma strict_suffix_Cons: "strict_suffix xs (x # xs)"
  by (simp add: strict_suffix_def suffix_ConsI)

lemma getchar_suffix: "getchar inp = Some (ch, inp') \<Longrightarrow> strict_suffix inp' inp"
  by (induction inp)
    (auto split: if_splits intro: strict_suffix_Cons suffix_order.less_trans[OF _ strict_suffix_Cons])

lemma getchar_shorter: "getchar inp = Some (ch, inp') \<Longrightarrow> length inp' < length inp"
  by (rule suffix_length_less[OF getchar_suffix])

section \<open>readline\<close>

definition store_char :: "u8 list \<Rightarrow> int \<Rightarrow> u8 \<Rightarrow> u8 list option" where
  "store_char buf i c = (if 0 \<le> i \<and> nat i < length buf then Some (buf[nat i := c]) else None)"

function discard_line :: "u8 list \<Rightarrow> u8 list option" where
  "discard_line inp =
     (case getchar inp of
        None \<Rightarrow> None
      | Some (ch, inp') \<Rightarrow>
          if ch \<noteq> 10 \<and> ch \<noteq> 13 \<and> ch \<noteq> - 1 then discard_line inp' else Some inp')"
  by pat_completeness auto
termination
  by (relation "measure length") (auto dest: getchar_shorter)

function readline_loop :: "int \<Rightarrow> u8 list \<Rightarrow> int \<Rightarrow> u8 list \<Rightarrow> (int \<times> u8 list) io" where
  "readline_loop bufsz buf pos inp =
     (if pos < bufsz - 1 then
        case getchar inp of
          None \<Rightarrow> ([], Waits)
        | Some (ch, inp') \<Rightarrow>
            if ch = 10 \<or> ch = 13 then
              say [10] (case store_char buf pos 0 of
                          None \<Rightarrow> ([], Undefined)
                        | Some buf \<Rightarrow> ([], Returns (pos, buf) inp'))
            else if ch = 0x08 \<or> ch = 0x7F then
              (if pos > 0 then say [8, 32, 8] (readline_loop bufsz buf (pos - 1) inp')
               else readline_loop bufsz buf pos inp')
            else if 0x20 \<le> ch \<and> ch < 0x7F then
              say [word_of_int ch]
                (case store_char buf pos (word_of_int ch) of
                   None \<Rightarrow> ([], Undefined)
                 | Some buf \<Rightarrow> readline_loop bufsz buf (pos + 1) inp')
            else readline_loop bufsz buf pos inp'
      else
        case store_char buf (bufsz - 1) 0 of
          None \<Rightarrow> ([], Undefined)
        | Some buf \<Rightarrow>
            (case discard_line inp of
               None \<Rightarrow> ([], Waits)
             | Some inp' \<Rightarrow> ([10], Returns (bufsz - 1, buf) inp')))"
  by pat_completeness auto
termination
  by (relation "measure (\<lambda>(bufsz, buf, pos, inp). length inp)") (auto dest: getchar_shorter)

definition readline :: "u8 list \<Rightarrow> int \<Rightarrow> u8 list \<Rightarrow> (int \<times> u8 list) io" where
  "readline buf bufsz inp = readline_loop bufsz buf 0 inp"

declare discard_line.simps [simp del] readline_loop.simps [simp del]

section \<open>syscall\<close>

text \<open>
  The registers at the \<^verbatim>\<open>outb\<close> of \<^verbatim>\<open>syscall\<close>: EAX, EBX, ECX and EDX, whose low half then holds the port.
\<close>

record syscall_regs =
  sc_eax :: u32
  sc_ebx :: u32
  sc_ecx :: u32
  sc_edx :: u32

definition syscall :: "u32 \<Rightarrow> u32 \<Rightarrow> u32 \<Rightarrow> u32 \<Rightarrow> syscall_regs" where
  "syscall sysno arg0 arg1 arg2 =
     \<lparr>sc_eax = sysno, sc_ebx = arg0, sc_ecx = arg1,
      sc_edx = (arg2 AND 0xFFFF0000) OR 0x500\<rparr>"

definition readfile :: "u32 \<Rightarrow> u32 \<Rightarrow> u32 \<Rightarrow> syscall_regs" where
  "readfile filename buf len = syscall 3 filename buf len"

definition writefile :: "u32 \<Rightarrow> u32 \<Rightarrow> u32 \<Rightarrow> syscall_regs" where
  "writefile filename buf len = syscall 4 filename buf len"

section \<open>Safety of readline\<close>

definition printable :: "u8 \<Rightarrow> bool" where
  "printable c \<longleftrightarrow> 0x20 \<le> sint c \<and> sint c < 0x7F"

lemma discard_suffix: "discard_line inp = Some rest \<Longrightarrow> strict_suffix rest inp"
proof (induction inp rule: discard_line.induct)
  case (1 inp)
  from "1.prems" obtain ch inp' where g: "getchar inp = Some (ch, inp')"
    by (subst (asm) discard_line.simps) (auto split: option.splits)
  have "strict_suffix inp' inp" by (rule getchar_suffix[OF g])
  then show ?case
    using "1.IH"[OF g refl] "1.prems" g
    by (subst (asm) (2) discard_line.simps) (auto split: if_splits intro: suffix_order.less_trans)
qed

lemma discard_shorter: "discard_line inp = Some rest \<Longrightarrow> length rest < length inp"
  by (rule suffix_length_less[OF discard_suffix])

text \<open>\<open>line_ok buf bufsz n\<close>: \<open>buf\<close> holds a line of \<open>n\<close> printable characters and its terminator.\<close>

definition line_ok :: "u8 list \<Rightarrow> int \<Rightarrow> int \<Rightarrow> bool" where
  "line_ok buf bufsz n \<longleftrightarrow> 0 \<le> n \<and> n \<le> bufsz - 1 \<and> int (length buf) = bufsz \<and> buf ! nat n = 0 \<and>
     list_all printable (take (nat n) buf)"

lemma sint_byte: "32 \<le> ch \<Longrightarrow> ch < 127 \<Longrightarrow> sint (word_of_int ch :: u8) = ch"
  by (simp add: signed_of_int signed_take_bit_int_eq_self)

lemma readline_loop_ok:
  assumes "int (length buf) = bufsz" and "0 \<le> pos" and "pos \<le> bufsz - 1"
    and "list_all printable (take (nat pos) buf)"
  shows "case snd (readline_loop bufsz buf pos inp) of
      Returns (n, buf') rest \<Rightarrow> line_ok buf' bufsz n \<and> length rest < length inp
    | Waits \<Rightarrow> True | _ \<Rightarrow> False"
  using assms
proof (induction bufsz buf pos inp rule: readline_loop.induct)
  case (1 bufsz buf pos inp)
  note [simp del] = One_nat_def
  have lt: "nat i < length buf" if "0 \<le> i" "i \<le> bufsz - 1" for i using that 1(5) by linarith
  show ?case
  proof (cases "pos < bufsz - 1")
    case full: False
    then have pos: "pos = bufsz - 1" using 1(7) by simp
    have st: "store_char buf pos 0 = Some (buf[nat pos := 0])" using lt[of pos] 1(6,7) by (simp add: store_char_def)
    have ok: "line_ok (buf[nat pos := 0]) bufsz pos"
      using 1(5-8) lt[of pos] by (simp add: line_ok_def)
    show ?thesis
    proof (cases "discard_line inp")
      case None
      then show ?thesis using full st pos by (simp add: readline_loop.simps[of bufsz])
    next
      case (Some rest)
      then show ?thesis using full st pos ok discard_shorter[OF Some] by (simp add: readline_loop.simps[of bufsz])
    qed
  next
    case room: True
    show ?thesis
    proof (cases "getchar inp")
      case None
      then show ?thesis using room by (simp add: readline_loop.simps[of bufsz])
    next
      case (Some p)
      obtain ch inp' where g: "getchar inp = Some (ch, inp')" using Some by (cases p) simp
      note sh = getchar_shorter[OF g]
      have mono: "(case r of Returns (n, buf') rest \<Rightarrow> line_ok buf' bufsz n \<and> length rest < length inp'
          | Waits \<Rightarrow> True | _ \<Rightarrow> False) \<Longrightarrow>
        (case r of Returns (n, buf') rest \<Rightarrow> line_ok buf' bufsz n \<and> length rest < length inp
          | Waits \<Rightarrow> True | _ \<Rightarrow> False)" for r :: "(int \<times> u8 list) outcome"
        using sh by (auto split: outcome.splits)
      consider (nl) "ch = 10 \<or> ch = 13" | (bs) "ch = 0x08 \<or> ch = 0x7F" "\<not> (ch = 10 \<or> ch = 13)"
        | (pr) "0x20 \<le> ch" "ch < 0x7F" | (other) "\<not> (ch = 10 \<or> ch = 13)" "\<not> (ch = 0x08 \<or> ch = 0x7F)"
          "\<not> (0x20 \<le> ch \<and> ch < 0x7F)" by linarith
      then show ?thesis
      proof cases
        case nl
        have "store_char buf pos 0 = Some (buf[nat pos := 0])" using lt[of pos] 1(6,7) by (simp add: store_char_def)
        moreover have "line_ok (buf[nat pos := 0]) bufsz pos"
          using 1(5-8) lt[of pos] by (simp add: line_ok_def)
        ultimately show ?thesis using room g nl sh by (simp add: readline_loop.simps[of bufsz buf pos inp])
      next
        case bs
        show ?thesis
        proof (cases "pos > 0")
          case True
          have "list_all printable (take (nat (pos - 1)) buf)"
            using 1(8) by (auto simp: list_all_length nat_diff_distrib)
          then have "case snd (readline_loop bufsz buf (pos - 1) inp') of
              Returns (n, buf') rest \<Rightarrow> line_ok buf' bufsz n \<and> length rest < length inp'
            | Waits \<Rightarrow> True | _ \<Rightarrow> False"
            using 1(1)[OF room g refl bs(2,1) True] 1(5-7) True by simp
          from mono[OF this] show ?thesis
            using room g bs True by (simp add: readline_loop.simps[of bufsz buf pos inp])
        next
          case False
          from mono[OF 1(2)[OF room g refl bs(2,1) False 1(5-8)]] show ?thesis
            using room g bs False by (simp add: readline_loop.simps[of bufsz buf pos inp])
        qed
      next
        case pr
        let ?buf = "buf[nat pos := word_of_int ch]"
        have st: "store_char buf pos (word_of_int ch) = Some ?buf"
          using lt[of pos] 1(6,7) by (simp add: store_char_def)
        have "printable (word_of_int ch)" using sint_byte[OF pr] pr by (simp add: printable_def)
        then have "list_all printable (take (nat (pos + 1)) ?buf)"
          using 1(6,8) lt[of pos] 1(7) by (simp add: nat_add_distrib take_Suc_conv_app_nth)
        then have "case snd (readline_loop bufsz ?buf (pos + 1) inp') of
              Returns (n, buf') rest \<Rightarrow> line_ok buf' bufsz n \<and> length rest < length inp'
            | Waits \<Rightarrow> True | _ \<Rightarrow> False"
          using 1(3)[OF room g refl _ _ _ st] pr 1(5-7) room by simp
        from mono[OF this] show ?thesis
          using room g pr st by (simp add: readline_loop.simps[of bufsz buf pos inp])
      next
        case other
        from mono[OF 1(4)[OF room g refl other 1(5-8)]] show ?thesis
          using room g other(1,2) eq_False[THEN iffD2, OF other(3)]
          by (simp add: readline_loop.simps[of bufsz buf pos inp] del: de_Morgan_conj)
      qed
    qed
  qed
qed

section \<open>readline is a line editor\<close>

text \<open>
  The abstract editor of lines of at most \<open>cap\<close> characters: a printable key is appended, backspace and
  delete remove the last character, anything else is ignored, up to the key that ends the line; once the
  line is full, every key before that one is dropped. It gives what it shows, and the line with the keys
  not read unless the keys end first.
\<close>

definition edit_key :: "u8 list \<Rightarrow> u8 \<Rightarrow> u8 list" where
  "edit_key line c =
     (if c = 8 \<or> c = 0x7F then butlast line else if printable c then line @ [c] else line)"

definition key_echo :: "u8 list \<Rightarrow> u8 \<Rightarrow> u8 list" where
  "key_echo line c =
     (if c = 8 \<or> c = 0x7F then (if line = [] then [] else [8, 32, 8]) else if printable c then [c] else [])"

definition line_end :: "u8 \<Rightarrow> bool" where
  "line_end c \<longleftrightarrow> c = 10 \<or> c = 13"

fun edit_line :: "nat \<Rightarrow> u8 list \<Rightarrow> u8 list \<Rightarrow> u8 list \<times> (u8 list \<times> u8 list) option" where
  "edit_line cap line [] = ([], None)"
| "edit_line cap line (c # keys) =
     (if line_end c then ([10], Some (line, keys))
      else if length line = cap then edit_line cap line keys
      else apfst ((@) (key_echo line c)) (edit_line cap (edit_key line c) keys))"

lemma sint_key: "sint c = sint d \<longleftrightarrow> c = d" for c d :: u8
  by (auto intro: signed_word_eqI)

lemma key_tests:
  fixes c :: u8
  shows "sint c = 10 \<longleftrightarrow> c = 10" "sint c = 13 \<longleftrightarrow> c = 13" "sint c = 8 \<longleftrightarrow> c = 8" "sint c = 0x7F \<longleftrightarrow> c = 0x7F"
    "sint c = - 1 \<longleftrightarrow> c = 0xFF"
  using sint_key[of c 10] sint_key[of c 13] sint_key[of c 8] sint_key[of c "0x7F"] sint_key[of c "0xFF"]
  by simp_all

lemma readline_skip:
  assumes "pos < bufsz - 1"
  shows "readline_loop bufsz buf pos (0xFF # inp) = readline_loop bufsz buf pos inp"
  using assms by (simp add: readline_loop.simps[of bufsz buf pos])

lemma readline_key:
  assumes "pos < bufsz - 1" and "c \<noteq> 0xFF"
  shows "readline_loop bufsz buf pos (c # inp) =
     (if line_end c then
        say [10] (case store_char buf pos 0 of None \<Rightarrow> ([], Undefined) | Some buf \<Rightarrow> ([], Returns (pos, buf) inp))
      else if c = 8 \<or> c = 0x7F then
        (if pos > 0 then say [8, 32, 8] (readline_loop bufsz buf (pos - 1) inp)
         else readline_loop bufsz buf pos inp)
      else if printable c then
        say [c] (case store_char buf pos c of
                   None \<Rightarrow> ([], Undefined) | Some buf \<Rightarrow> readline_loop bufsz buf (pos + 1) inp)
      else readline_loop bufsz buf pos inp)"
proof -
  have g: "getchar (c # inp) = Some (sint c, inp)" using assms(2) by (simp add: key_tests)
  show ?thesis
    unfolding readline_loop.simps[of bufsz buf pos "c # inp"] g option.case prod.case if_P[OF assms(1)]
      key_tests line_end_def printable_def by simp
qed

lemma discard_key:
  "discard_line (c # inp) = (if c \<noteq> 0xFF \<and> line_end c then Some inp else discard_line inp)"
proof (cases "c = 0xFF")
  case True
  then show ?thesis by (simp add: discard_line.simps[of "0xFF # inp"] discard_line.simps[of inp])
next
  case False
  then have "getchar (c # inp) = Some (sint c, inp)" by (simp add: key_tests)
  then show ?thesis using False by (simp add: discard_line.simps[of "c # inp"] key_tests line_end_def)
qed

lemma edit_line_full:
  "edit_line (length line) line inp =
     (case discard_line inp of None \<Rightarrow> ([], None) | Some rest \<Rightarrow> ([10], Some (line, rest)))"
proof (induction inp)
  case Nil
  show ?case by (simp add: discard_line.simps[of "[]"])
next
  case (Cons c inp)
  have "line_end c \<Longrightarrow> c \<noteq> 0xFF" by (auto simp: line_end_def)
  then show ?case using Cons by (simp add: discard_key)
qed

text \<open>What \<^verbatim>\<open>readline\<close> does, as the result of the editor and a buffer that holds the line.\<close>

definition edited :: "u8 list \<times> (u8 list \<times> u8 list) option \<Rightarrow> u8 list \<Rightarrow> (int \<times> u8 list) io \<Rightarrow> bool" where
  "edited e buf r \<longleftrightarrow> fst r = fst e \<and>
     (case snd e of
        None \<Rightarrow> snd r = Waits
      | Some (line, rest) \<Rightarrow> \<exists>buf'. snd r = Returns (int (length line), buf') rest \<and> length buf' = length buf \<and>
          take (length line) buf' = line \<and> buf' ! length line = 0)"

lemma edited_say [simp]: "edited (apfst ((@) t) e) buf (say t r) \<longleftrightarrow> edited e buf r"
  by (cases e; cases r) (auto simp: edited_def say_def split: option.splits)

lemma apfst_Nil [simp]: "apfst ((@) []) p = p"
  by (cases p) simp

lemma edited_buf: "length buf = length buf' \<Longrightarrow> edited e buf r \<longleftrightarrow> edited e buf' r"
  by (auto simp: edited_def split: option.splits)

lemma readline_loop_edits:
  "length buf = Suc cap \<Longrightarrow> length line \<le> cap \<Longrightarrow> take (length line) buf = line \<Longrightarrow>
     edited (edit_line cap line inp) buf (readline_loop (int cap + 1) buf (int (length line)) inp)"
proof (induction inp arbitrary: buf line)
  case Nil
  then show ?case
    by (cases "length line = cap")
      (simp_all add: edited_def readline_loop.simps[of "int cap + 1"] discard_line.simps[of "[]"] store_char_def)
next
  case (Cons c inp)
  show ?case
  proof (cases "length line = cap")
    case True
    have "store_char buf (int cap) 0 = Some (buf[cap := 0])" using Cons.prems(1) by (simp add: store_char_def)
    then show ?thesis
      using True Cons.prems edit_line_full[of line "c # inp"]
      by (auto simp: edited_def readline_loop.simps[of "int cap + 1"] split: option.split)
  next
    case False
    then have lt: "length line < cap" using Cons.prems(2) by simp
    then have room: "int (length line) < int cap + 1 - 1" "length line < length buf" using Cons.prems(1) by simp_all
    consider (idle) "c = 0xFF" | (fin) "line_end c"
      | (erase) "c = 8 \<or> c = 0x7F" "line \<noteq> []" | (none) "c = 8 \<or> c = 0x7F" "line = []"
      | (put) "printable c" "c \<noteq> 0xFF" "\<not> line_end c" "\<not> (c = 8 \<or> c = 0x7F)"
      | (other) "\<not> printable c" "c \<noteq> 0xFF" "\<not> line_end c" "\<not> (c = 8 \<or> c = 0x7F)"
      by blast
    then show ?thesis
    proof cases
      case idle
      then have "edit_key line c = line" "key_echo line c = []" "\<not> line_end c"
        by (simp_all add: edit_key_def key_echo_def printable_def line_end_def)
      then show ?thesis using Cons.IH[OF Cons.prems] False room(1) idle by (simp add: readline_skip)
    next
      case fin
      then have "c \<noteq> 0xFF" by (auto simp: line_end_def)
      then show ?thesis
        using fin room Cons.prems(3) by (simp add: readline_key store_char_def edited_def)
    next
      case erase
      then have c: "c \<noteq> 0xFF" "\<not> line_end c" by (auto simp: line_end_def)
      have e: "edit_key line c = butlast line" "key_echo line c = [8, 32, 8]"
        using erase by (simp_all add: edit_key_def key_echo_def)
      have "take (length (butlast line)) buf = butlast line"
        using Cons.prems(3) by (metis butlast_conv_take length_butlast take_take min.absorb1 diff_le_self)
      moreover have l: "int (length line) - 1 = int (length (butlast line))" using erase(2) by (cases line) simp_all
      moreover have "length (butlast line) \<le> cap" using Cons.prems(2) by simp
      ultimately have "edited (edit_line cap (butlast line) inp) buf
          (readline_loop (int cap + 1) buf (int (length line) - 1) inp)"
        using Cons.IH[OF Cons.prems(1)] by metis
      then show ?thesis
        using room(1) c erase False by (simp add: readline_key e del: length_butlast)
    next
      case none
      then have "edit_key line c = line" "key_echo line c = []" "\<not> line_end c" "c \<noteq> 0xFF"
        by (auto simp: edit_key_def key_echo_def line_end_def)
      then show ?thesis
        using Cons.IH[OF Cons.prems] False room(1) none by (simp add: readline_key)
    next
      case put
      let ?buf = "buf[length line := c]"
      have e: "edit_key line c = line @ [c]" "key_echo line c = [c]" using put by (simp_all add: edit_key_def key_echo_def)
      have st: "store_char buf (int (length line)) c = Some ?buf" using room(2) by (simp add: store_char_def)
      have "take (length (line @ [c])) ?buf = line @ [c]"
        using Cons.prems(3) room(2) by (simp add: take_Suc_conv_app_nth)
      then have "edited (edit_line cap (line @ [c]) inp) ?buf
          (readline_loop (int cap + 1) ?buf (int (length (line @ [c]))) inp)"
        by (intro Cons.IH) (use Cons.prems(1) lt in simp_all)
      then have "edited (edit_line cap (line @ [c]) inp) buf
          (readline_loop (int cap + 1) ?buf (int (length line) + 1) inp)"
        by (simp add: edited_buf[of ?buf buf] add.commute)
      then show ?thesis using room(1) put st False by (simp add: readline_key e)
    next
      case other
      then have "edit_key line c = line" "key_echo line c = []" by (simp_all add: edit_key_def key_echo_def)
      then show ?thesis
        using Cons.IH[OF Cons.prems] False room(1) other by (simp add: readline_key)
    qed
  qed
qed

section \<open>Properties\<close>

text \<open>
  C24: \<^verbatim>\<open>readline\<close> is memory safe and returns a line. Whatever is typed, with \<open>bufsz\<close> the size of the
  buffer it never writes outside it; either it waits for more input, or it returns a length below
  \<open>bufsz\<close>, the buffer holding that many printable characters and a terminator.
\<close>

theorem readline_safe:
  assumes "int (length buf) = bufsz" and "0 < bufsz"
  shows "case snd (readline buf bufsz inp) of
      Returns (n, buf') rest \<Rightarrow> line_ok buf' bufsz n \<and> length rest < length inp
    | Waits \<Rightarrow> True | _ \<Rightarrow> False"
  unfolding readline_def by (rule readline_loop_ok[OF assms(1)]) (use assms(2) in simp_all)

theorem readline_safe_witness:
  "snd (readline (replicate 8 0) 8 (ascii ''0123456789'' @ [10])) = Returns (7, ascii ''0123456'' @ [0]) []"
proof -
  have "readline (replicate 8 0) 8 (ascii ''0123456789'' @ [10]) =
      (ascii ''0123456'' @ [10], Returns (7, ascii ''0123456'' @ [0]) [])"
    by code_simp
  moreover have "case snd (readline (replicate 8 0) 8 (ascii ''0123456789'' @ [10])) of
      Returns (n, buf') rest \<Rightarrow> line_ok buf' 8 n \<and> length rest < length (ascii ''0123456789'' @ [10])
    | Waits \<Rightarrow> True | _ \<Rightarrow> False"
    by (rule readline_safe) simp_all
  ultimately show ?thesis by simp
qed

text \<open>
  C23: \<^verbatim>\<open>readline\<close> refines a line editor. Whatever is typed, with \<open>bufsz\<close> the size of the buffer it shows
  what the editor of lines of at most \<open>bufsz - 1\<close> characters shows, waits exactly when the editor has not
  seen the end of the line, and otherwise returns the length of the editor's line, the line terminated in
  the buffer and the keys after it; a key too many is dropped with all that follow it on the line.
\<close>

theorem readline_edits:
  assumes "int (length buf) = bufsz" and "0 < bufsz"
  shows "fst (readline buf bufsz keys) = fst (edit_line (length buf - 1) [] keys) \<and>
    (case snd (edit_line (length buf - 1) [] keys) of
       None \<Rightarrow> snd (readline buf bufsz keys) = Waits
     | Some (line, rest) \<Rightarrow>
         \<exists>buf'. snd (readline buf bufsz keys) = Returns (int (length line), buf') rest \<and>
           length buf' = length buf \<and> take (length line) buf' = line \<and> buf' ! length line = 0)"
proof -
  have cap: "bufsz = int (length buf - 1) + 1" "length buf = Suc (length buf - 1)" using assms by simp_all
  have "edited (edit_line (length buf - 1) [] keys) buf (readline buf bufsz keys)"
    unfolding readline_def using readline_loop_edits[OF cap(2), of "[]" keys] cap(1) by simp
  then show ?thesis by (simp add: edited_def)
qed

theorem readline_edits_witness:
  "fst (readline (replicate 4 1) 4 ([97, 98, 8, 0xFF, 99] @ [100, 8, 101, 13, 102])) = [97, 98, 8, 32, 8, 99, 100, 10] \<and>
    (\<exists>buf'. snd (readline (replicate 4 1) 4 ([97, 98, 8, 0xFF, 99] @ [100, 8, 101, 13, 102])) = Returns (3, buf') [102] \<and>
      take 3 buf' = [97, 99, 100])"
proof -
  have len: "length (replicate 4 (1 :: u8)) = 4" "length [97, 99, 100 :: u8] = 3" by simp_all
  have e: "edit_line (4 - 1) [] ([97, 98, 8, 0xFF, 99] @ [100, 8, 101, 13, 102]) =
      ([97, 98, 8, 32, 8, 99, 100, 10], Some ([97, 99, 100], [102]))"
    by code_simp
  have sz: "int (length (replicate 4 (1 :: u8))) = 4" "(0 :: int) < 4" by simp_all
  note R = readline_edits[OF sz, of "[97, 98, 8, 0xFF, 99] @ [100, 8, 101, 13, 102]",
      unfolded len(1) e fst_conv snd_conv option.case prod.case len(2)]
  have three: "int 3 = 3" by simp
  show ?thesis using R unfolding three by blast
qed

end
