(* ===== verification/Os_Shell.thy ===== *)
theory Os_Shell
  imports User_Lib "HOL-Library.Signed_Division"
begin

text \<open>
  The shell of the 1K OS (\<^verbatim>\<open>os-1k/shell.c\<close>): its menu and its nine demos as functions of the input
  typed, on top of \<^verbatim>\<open>readline\<close> and \<^verbatim>\<open>printf\<close>. A demo that reads nothing is the text it prints; \<open>None\<close> is
  undefined behaviour, such as \<^verbatim>\<open>int\<close> overflow. The contents of the local buffers before
  \<^verbatim>\<open>readline\<close> fills them are parameters.
\<close>

section \<open>Composition\<close>

definition io_bind :: "'a io \<Rightarrow> ('a \<Rightarrow> u8 list \<Rightarrow> 'b io) \<Rightarrow> 'b io" where
  "io_bind p f =
     (case snd p of
        Returns x rest \<Rightarrow> say (fst p) (f x rest)
      | Waits \<Rightarrow> (fst p, Waits)
      | Exits \<Rightarrow> (fst p, Exits)
      | Undefined \<Rightarrow> (fst p, Undefined))"

lemma io_bind_cong [fundef_cong]:
  "p = q \<Longrightarrow> (\<And>x rest. snd q = Returns x rest \<Longrightarrow> f x rest = g x rest) \<Longrightarrow> io_bind p f = io_bind q g"
  by (auto simp: io_bind_def split: outcome.splits)

definition show_then :: "u8 list option \<Rightarrow> 'a io \<Rightarrow> 'a io" where
  "show_then s p = (case s of None \<Rightarrow> ([], Undefined) | Some s \<Rightarrow> say s p)"

definition arg :: "int \<Rightarrow> printf_arg" where "arg i = Word (word_of_int i)"

section \<open>The menu and the demos without input\<close>

definition show_menu :: "u8 list option" where
  "show_menu = prints
     [(nl @ ascii ''=== 1K OS Menu ==='' @ nl @ nl, []),
      (ascii ''  1. Multiplication Table (2x1 ~ 9x9)'' @ nl, []),
      (ascii ''  2. Counter (0-9)'' @ nl, []),
      (ascii ''  3. Echo (interactive)'' @ nl, []),
      (ascii ''  4. Fibonacci Sequence'' @ nl, []),
      (ascii ''  5. Prime Numbers (up to 100)'' @ nl, []),
      (ascii ''  6. Calculator'' @ nl, []),
      (ascii ''  7. Factorial (0! ~ 12!)'' @ nl, []),
      (ascii ''  8. GCD (Greatest Common Divisor)'' @ nl, []),
      (ascii ''  9. About 1K OS'' @ nl, []),
      (ascii ''  0. Exit'' @ nl, []),
      (nl @ ascii ''Select: '', [])]"

definition multiplication_demo :: "u8 list option" where
  "multiplication_demo =
     do {
       out \<leftarrow> printf (nl @ ascii ''=== Multiplication Table ==='' @ nl) [];
       for_each [2..9] (\<lambda>i out. do {
         out \<leftarrow> for_each [1..9] (\<lambda>j out. do {
           s \<leftarrow> printf (ascii ''%d*%d=%d '') [arg i, arg j, arg (i * j)];
           Some (out @ s) }) out;
         s \<leftarrow> printf nl [];
         Some (out @ s) }) out
     }"

definition counter_demo :: "u8 list option" where
  "counter_demo =
     do {
       out \<leftarrow> printf (nl @ ascii ''=== Counter 0-9 ==='' @ nl) [];
       out \<leftarrow> for_each [0..9] (\<lambda>i out. do { s \<leftarrow> printf (ascii ''%d '') [arg i]; Some (out @ s) }) out;
       s \<leftarrow> printf nl [];
       Some (out @ s)
     }"

definition fib_step :: "int \<Rightarrow> int \<times> int \<times> u8 list \<Rightarrow> (int \<times> int \<times> u8 list) option" where
  "fib_step i = (\<lambda>(a, b, out). do {
     nxt \<leftarrow> c_int (a + b);
     s \<leftarrow> printf (ascii ''F(%d) = %d'' @ nl) [arg i, arg nxt];
     Some (b, nxt, out @ s) })"

definition fibonacci_demo :: "u8 list option" where
  "fibonacci_demo =
     do {
       out \<leftarrow> prints [(nl @ ascii ''=== Fibonacci Sequence (first 15 numbers) ==='' @ nl, []),
                      (ascii ''F(0) = %d'' @ nl, [arg 0]), (ascii ''F(1) = %d'' @ nl, [arg 1])];
       (a, b, out) \<leftarrow> for_each [2..14] fib_step (0, 1, out);
       Some out
     }"

text \<open>The inner loop of \<^verbatim>\<open>prime_demo\<close>.\<close>

function is_prime_from :: "nat \<Rightarrow> nat \<Rightarrow> bool" where
  "is_prime_from n i =
     (if i * i \<le> n then (if n mod i = 0 then False else is_prime_from n (i + 1)) else True)"
  by pat_completeness auto
termination
proof (relation "measure (\<lambda>(n, i). n + 1 - i)")
  fix n i :: nat
  assume "i * i \<le> n"
  moreover have "i \<le> i * i" by (cases i) simp_all
  ultimately have "i \<le> n" by (rule order.trans[rotated])
  then show "((n, i + 1), (n, i)) \<in> measure (\<lambda>(n, i). n + 1 - i)" by simp
qed simp

declare is_prime_from.simps [simp del]

definition prime_step :: "nat \<Rightarrow> nat \<times> u8 list \<Rightarrow> (nat \<times> u8 list) option" where
  "prime_step n = (\<lambda>(count, out).
     if is_prime_from n 2 then do {
       s \<leftarrow> printf (ascii ''%d '') [arg (int n)];
       t \<leftarrow> (if (count + 1) mod 10 = 0 then printf nl [] else Some []);
       Some (count + 1, out @ s @ t)
     } else Some (count, out))"

definition prime_demo :: "u8 list option" where
  "prime_demo =
     do {
       out \<leftarrow> printf (nl @ ascii ''=== Prime Numbers up to 100 ==='' @ nl) [];
       (count, out) \<leftarrow> for_each [2..<101] prime_step (0, out);
       s \<leftarrow> (if count mod 10 \<noteq> 0 then printf nl [] else Some []);
       t \<leftarrow> printf (ascii ''Total: %d primes'' @ nl) [arg (int count)];
       Some (out @ s @ t)
     }"

definition factorial_step :: "int \<Rightarrow> int \<times> u8 list \<Rightarrow> (int \<times> u8 list) option" where
  "factorial_step n = (\<lambda>(result, out). do {
     result \<leftarrow> c_int (result * n);
     s \<leftarrow> printf (ascii ''%d! = %d'' @ nl) [arg n, arg result];
     Some (result, out @ s) })"

definition factorial_demo :: "u8 list option" where
  "factorial_demo =
     do {
       out \<leftarrow> prints [(nl @ ascii ''=== Factorial Calculator ==='' @ nl, []),
                      (ascii ''Calculating factorials for n = 0 to 12'' @ nl @ nl, []),
                      (ascii ''0! = %d'' @ nl, [arg 1])];
       (result, out) \<leftarrow> for_each [1..12] factorial_step (1, out);
       s \<leftarrow> printf (nl @ ascii ''Note: 13! = 6227020800 (overflow on 32-bit)'' @ nl) [];
       Some (out @ s)
     }"

text \<open>
  The loop of \<^verbatim>\<open>gcd_demo\<close>. The remainder is undefined, and traps, when the quotient is not an \<^verbatim>\<open>int\<close>.
\<close>

definition c_rem :: "int \<Rightarrow> int \<Rightarrow> int option" where
  "c_rem a b = (if b = 0 \<or> c_int (a sdiv b) = None then None else Some (a smod b))"

lemma c_rem_shrinks: "c_rem a b = Some r \<Longrightarrow> r = a smod b \<and> \<bar>r\<bar> < \<bar>b\<bar>"
  by (auto simp: c_rem_def signed_modulo_int_def abs_mult abs_sgn_eq split: if_splits)

function gcd_loop :: "int \<Rightarrow> int \<Rightarrow> int option" where
  "gcd_loop a b =
     (if b \<noteq> 0 then (case c_rem a b of None \<Rightarrow> None | Some r \<Rightarrow> gcd_loop b r) else Some a)"
  by pat_completeness auto
termination
  by (relation "measure (\<lambda>(a, b). nat \<bar>b\<bar>)") (auto dest: c_rem_shrinks)

declare gcd_loop.simps [simp del]

definition gcd_pairs :: "(int \<times> int) list" where
  "gcd_pairs = [(48, 18), (100, 75), (123, 456), (17, 19), (1071, 462)]"

definition gcd_demo :: "u8 list option" where
  "gcd_demo =
     do {
       out \<leftarrow> prints [(nl @ ascii ''=== GCD (Greatest Common Divisor) ==='' @ nl, []),
                      (ascii ''Examples of Euclidean algorithm:'' @ nl @ nl, [])];
       for_each gcd_pairs (\<lambda>(a, b) out. do {
         g \<leftarrow> gcd_loop a b;
         s \<leftarrow> printf (ascii ''GCD(%d, %d) = %d'' @ nl) [arg a, arg b, arg g];
         Some (out @ s) }) out
     }"

definition about_demo :: "u8 list option" where
  "about_demo = prints
     [(nl @ ascii ''=== About 1K OS ==='' @ nl, []),
      (ascii ''1K OS: Operating System in 1000 Lines'' @ nl, []),
      (ascii ''Ported from RISC-V to x86 Protected Mode'' @ nl, []),
      (ascii ''Features:'' @ nl, []),
      (ascii ''  - Protected Mode with Paging'' @ nl, []),
      (ascii ''  - Keyboard and Timer Interrupts'' @ nl, []),
      (ascii ''  - Simple Shell'' @ nl, []),
      (ascii ''  - User Programs: 9 demos'' @ nl, []),
      (nl @ ascii ''Mini-KVM VMM Project'' @ nl, []),
      (ascii ''Educational hypervisor using KVM API'' @ nl, [])]"

section \<open>Echo\<close>

text \<open>A buffer and the string literal it is compared with, as objects in memory.\<close>

definition list_mem :: "u8 list \<Rightarrow> gmem" where
  "list_mem bs = \<lparr>gm_size = length bs, gm_data = (\<lambda>i. bs ! i)\<rparr>"

definition buf_strcmp :: "u8 list \<Rightarrow> u8 list \<Rightarrow> int option" where
  "buf_strcmp buf lit = strcmp (list_mem (buf @ lit @ [0])) 0 (length buf)"

definition buf_string :: "u8 list \<Rightarrow> u8 list option" where
  "buf_string buf = read_string (list_mem buf) 0"

lemma readline_loop_suffix:
  "snd (readline_loop bufsz buf pos inp) = Returns x rest \<Longrightarrow> strict_suffix rest inp"
proof (induction bufsz buf pos inp rule: readline_loop.induct)
  case (1 bufsz buf pos inp)
  show ?case
  proof (cases "pos < bufsz - 1")
    case False
    then show ?thesis
      using "1.prems" discard_suffix[of inp rest]
      by (auto simp: readline_loop.simps[of bufsz buf pos inp] split: option.splits)
  next
    case room: True
    then obtain ch inp' where g: "getchar inp = Some (ch, inp')"
      using "1.prems" by (cases "getchar inp") (auto simp: readline_loop.simps[of bufsz buf pos inp])
    note IH = "1.IH"[OF room g refl]
    show ?thesis
      using "1.prems" room g getchar_suffix[OF g] IH
      unfolding readline_loop.simps[of bufsz buf pos inp]
      by (auto simp del: readline_loop.simps intro: suffix_order.less_trans split: option.splits if_splits)
  qed
qed

lemma readline_suffix: "snd (readline buf bufsz inp) = Returns x rest \<Longrightarrow> strict_suffix rest inp"
  unfolding readline_def by (rule readline_loop_suffix)

lemmas readline_shorter = readline_suffix[THEN suffix_length_less]

function echo_loop :: "u8 list \<Rightarrow> u8 list \<Rightarrow> unit io" where
  "echo_loop line inp =
     show_then (printf (ascii ''$ '') [])
     (io_bind (readline line 64 inp) (\<lambda>p rest. case p of (len, line) \<Rightarrow>
     show_then (if len \<ge> 63 then printf (ascii ''Warning: Input truncated to 63 characters'' @ nl) [] else Some [])
     (case buf_strcmp line (ascii ''quit'') of
        None \<Rightarrow> ([], Undefined)
      | Some r \<Rightarrow>
          if r = 0 then show_then (printf (ascii ''Exiting echo program'' @ nl) []) ([], Returns () rest)
          else show_then (do { s \<leftarrow> buf_string line; printf (ascii ''Echo: %s'' @ nl) [Str s] })
                 (echo_loop line rest))))"
  by pat_completeness auto
termination
  by (relation "measure (\<lambda>(line, inp). length inp)") (auto dest: readline_shorter)

declare echo_loop.simps [simp del]

definition echo_demo :: "u8 list \<Rightarrow> u8 list \<Rightarrow> unit io" where
  "echo_demo line inp =
     show_then (printf (nl @ ascii ''=== Echo Program (type 'quit' to exit) ==='' @ nl) []) (echo_loop line inp)"

section \<open>The calculator\<close>

definition char_at :: "u8 list \<Rightarrow> nat \<Rightarrow> u8 option" where
  "char_at line i = (if i < length line then Some (line ! i) else None)"

lemma char_at_less: "char_at line i = Some c \<Longrightarrow> i < length line"
  by (simp add: char_at_def split: if_splits)

function skip_spaces :: "u8 list \<Rightarrow> nat \<Rightarrow> nat option" where
  "skip_spaces line i =
     (case char_at line i of
        None \<Rightarrow> None
      | Some c \<Rightarrow> if c = 32 then skip_spaces line (i + 1) else Some i)"
  by pat_completeness auto
termination
  by (relation "measure (\<lambda>(line, i). length line - i)") (auto dest: char_at_less)

function parse_digits :: "u8 list \<Rightarrow> nat \<Rightarrow> int \<Rightarrow> (int \<times> nat) option" where
  "parse_digits line i num =
     (case char_at line i of
        None \<Rightarrow> None
      | Some c \<Rightarrow>
          if 48 \<le> sint c \<and> sint c \<le> 57 then
            (case c_int (num * 10) of
               None \<Rightarrow> None
             | Some ten \<Rightarrow>
                 (case c_int (ten + (sint c - 48)) of
                    None \<Rightarrow> None
                  | Some num \<Rightarrow> parse_digits line (i + 1) num))
          else Some (num, i))"
  by pat_completeness auto
termination
  by (relation "measure (\<lambda>(line, i, num). length line - i)") (auto dest: char_at_less)

declare skip_spaces.simps [simp del] parse_digits.simps [simp del]

definition parse_number :: "u8 list \<Rightarrow> nat \<Rightarrow> (int \<times> nat) option" where
  "parse_number line i =
     do {
       c \<leftarrow> char_at line i;
       let negative = (c = 45);
       let i = (if negative then i + 1 else i);
       (num, i) \<leftarrow> parse_digits line i 0;
       num \<leftarrow> (if negative then c_int (- num) else Some num);
       Some (num, i)
     }"

definition calc_line :: "u8 list \<Rightarrow> u8 list option" where
  "calc_line line =
     do {
       i \<leftarrow> skip_spaces line 0;
       (num1, i) \<leftarrow> parse_number line i;
       i \<leftarrow> skip_spaces line i;
       oper \<leftarrow> char_at line i;
       if oper \<noteq> 43 \<and> oper \<noteq> 45 \<and> oper \<noteq> 42 \<and> oper \<noteq> 47
       then printf (ascii ''Error: Invalid operator'' @ nl) []
       else do {
         i \<leftarrow> skip_spaces line (i + 1);
         (num2, i) \<leftarrow> parse_number line i;
         if oper = 47 \<and> num2 = 0 then printf (ascii ''Error: Division by zero'' @ nl) []
         else do {
           result \<leftarrow> (if oper = 43 then c_int (num1 + num2)
                     else if oper = 45 then c_int (num1 - num2)
                     else if oper = 42 then c_int (num1 * num2)
                     else c_int (num1 sdiv num2));
           printf (ascii ''Result: %d'' @ nl) [arg result]
         }
       }
     }"

function calc_loop :: "u8 list \<Rightarrow> u8 list \<Rightarrow> unit io" where
  "calc_loop line inp =
     show_then (printf (ascii ''Calculate: '') [])
     (io_bind (readline line 64 inp) (\<lambda>p rest. case p of (len, line) \<Rightarrow>
     if char_at line 0 = Some 113 \<and> char_at line 1 = Some 0
     then show_then (printf (ascii ''Exiting calculator'' @ nl) []) ([], Returns () rest)
     else show_then (calc_line line) (calc_loop line rest)))"
  by pat_completeness auto
termination
  by (relation "measure (\<lambda>(line, inp). length inp)") (auto dest: readline_shorter)

declare calc_loop.simps [simp del]

definition calculator_demo :: "u8 list \<Rightarrow> u8 list \<Rightarrow> unit io" where
  "calculator_demo line inp =
     show_then (prints [(nl @ ascii ''=== Simple Calculator ==='' @ nl, []),
                        (ascii ''Enter two numbers and operator (+, -, *, /)'' @ nl, []),
                        (ascii ''Example: 12 + 5'' @ nl, []),
                        (ascii ''Type 'q' to quit'' @ nl @ nl, [])]) (calc_loop line inp)"

section \<open>The main loop\<close>

lemma show_then_Returns: "snd (show_then s p) = Returns y rest \<Longrightarrow> snd p = Returns y rest"
  by (cases s) (simp_all add: show_then_def)

lemma io_bind_Returns:
  "snd (io_bind p f) = Returns y rest \<Longrightarrow> \<exists>x r. snd p = Returns x r \<and> snd (f x r) = Returns y rest"
  by (auto simp: io_bind_def split: outcome.splits)

lemma echo_loop_suffix: "snd (echo_loop line inp) = Returns y rest \<Longrightarrow> strict_suffix rest inp"
proof (induction line inp rule: echo_loop.induct)
  case (1 line inp)
  obtain len line' r where r: "snd (readline line 64 inp) = Returns (len, line') r"
    and cont: "snd (case buf_strcmp line' (ascii ''quit'') of
        None \<Rightarrow> ([], Undefined)
      | Some c \<Rightarrow>
          if c = 0 then show_then (printf (ascii ''Exiting echo program'' @ nl) []) ([], Returns () r)
          else show_then (do { s \<leftarrow> buf_string line'; printf (ascii ''Echo: %s'' @ nl) [Str s] })
                 (echo_loop line' r)) = Returns y rest"
    using 1(2) unfolding echo_loop.simps[of line inp]
    by (auto dest!: show_then_Returns io_bind_Returns)
  have "strict_suffix r inp" by (rule readline_suffix[OF r])
  then show ?case
    using cont 1(1)[OF r refl]
    by (auto dest!: show_then_Returns intro: suffix_order.less_trans split: option.splits if_splits)
qed

lemma calc_loop_suffix: "snd (calc_loop line inp) = Returns y rest \<Longrightarrow> strict_suffix rest inp"
proof (induction line inp rule: calc_loop.induct)
  case (1 line inp)
  obtain len line' r where r: "snd (readline line 64 inp) = Returns (len, line') r"
    and cont: "snd (if char_at line' 0 = Some 113 \<and> char_at line' 1 = Some 0
      then show_then (printf (ascii ''Exiting calculator'' @ nl) []) ([], Returns () r)
      else show_then (calc_line line') (calc_loop line' r)) = Returns y rest"
    using 1(2) unfolding calc_loop.simps[of line inp]
    by (auto dest!: show_then_Returns io_bind_Returns)
  have "strict_suffix r inp" by (rule readline_suffix[OF r])
  then show ?case
    using cont 1(1)[OF r refl]
    by (auto dest!: show_then_Returns intro: suffix_order.less_trans split: if_splits)
qed

lemma demos_suffix:
  "snd (echo_demo line inp) = Returns y rest \<Longrightarrow> strict_suffix rest inp"
  "snd (calculator_demo line inp) = Returns y rest \<Longrightarrow> strict_suffix rest inp"
  by (auto simp: echo_demo_def calculator_demo_def dest!: show_then_Returns echo_loop_suffix calc_loop_suffix)

lemmas demos_shorter = demos_suffix[THEN suffix_length_less]

text \<open>What the choices that read no input print; an unknown one is named with \<^verbatim>\<open>%c\<close>.\<close>

definition run_choice :: "u8 \<Rightarrow> u8 list option" where
  "run_choice choice =
     (if choice = 49 then multiplication_demo
      else if choice = 50 then counter_demo
      else if choice = 52 then fibonacci_demo
      else if choice = 53 then prime_demo
      else if choice = 55 then factorial_demo
      else if choice = 56 then gcd_demo
      else if choice = 57 then about_demo
      else prints [(ascii ''Unknown option: %c'' @ nl, [arg (sint choice)]),
                   (ascii ''Please select 0-9'' @ nl, [])])"

function main_loop :: "u8 list \<Rightarrow> u8 list \<Rightarrow> u8 list \<Rightarrow> unit io" where
  "main_loop input line inp =
     show_then show_menu
     (io_bind (readline input 8 inp) (\<lambda>p rest. case p of (len, input) \<Rightarrow>
     (case char_at input 0 of
        None \<Rightarrow> ([], Undefined)
      | Some choice \<Rightarrow>
          if len = 0 \<or> choice = 0 then main_loop input line rest
          else if choice = 48 then
            show_then (prints [(nl @ ascii ''Exiting shell...'' @ nl, []),
                               (ascii ''Thank you for using 1K OS!'' @ nl, [])]) ([], Exits)
          else if choice = 51 then io_bind (echo_demo line rest) (\<lambda>_ rest. main_loop input line rest)
          else if choice = 54 then io_bind (calculator_demo line rest) (\<lambda>_ rest. main_loop input line rest)
          else show_then (run_choice choice) (main_loop input line rest))))"
  by pat_completeness auto
termination
  by (relation "measure (\<lambda>(input, line, inp). length inp)")
    (auto dest!: readline_shorter demos_shorter dest: less_trans)

declare main_loop.simps [simp del]

definition shell_main :: "u8 list \<Rightarrow> u8 list \<Rightarrow> u8 list \<Rightarrow> unit io" where
  "shell_main input line inp =
     show_then (prints [(nl @ ascii ''======================================'' @ nl, []),
                        (ascii ''   Welcome to 1K OS Shell!'' @ nl, []),
                        (ascii ''   Mini-KVM Educational Hypervisor'' @ nl, []),
                        (ascii ''======================================'' @ nl, []),
                        (nl @ ascii ''Type '1-9' to run demos, '0' to exit'' @ nl, [])])
       (main_loop input line inp)"

section \<open>Every text is printed\<close>

lemma texts_defined:
  "show_menu \<noteq> None" "multiplication_demo \<noteq> None" "counter_demo \<noteq> None" "fibonacci_demo \<noteq> None"
  "prime_demo \<noteq> None" "factorial_demo \<noteq> None" "gcd_demo \<noteq> None" "about_demo \<noteq> None"
  by code_simp+

lemma messages_defined:
  "printf (ascii ''$ '') [] \<noteq> None" "printf (ascii ''Warning: Input truncated to 63 characters'' @ nl) [] \<noteq> None"
  "printf (ascii ''Exiting echo program'' @ nl) [] \<noteq> None" "printf (ascii ''Calculate: '') [] \<noteq> None"
  "printf (ascii ''Exiting calculator'' @ nl) [] \<noteq> None"
  "printf (nl @ ascii ''=== Echo Program (type 'quit' to exit) ==='' @ nl) [] \<noteq> None"
  "prints [(nl @ ascii ''=== Simple Calculator ==='' @ nl, []),
           (ascii ''Enter two numbers and operator (+, -, *, /)'' @ nl, []),
           (ascii ''Example: 12 + 5'' @ nl, []), (ascii ''Type 'q' to quit'' @ nl @ nl, [])] \<noteq> None"
  "prints [(nl @ ascii ''Exiting shell...'' @ nl, []), (ascii ''Thank you for using 1K OS!'' @ nl, [])] \<noteq> None"
  "prints [(nl @ ascii ''======================================'' @ nl, []),
           (ascii ''   Welcome to 1K OS Shell!'' @ nl, []), (ascii ''   Mini-KVM Educational Hypervisor'' @ nl, []),
           (ascii ''======================================'' @ nl, []),
           (nl @ ascii ''Type '1-9' to run demos, '0' to exit'' @ nl, [])] \<noteq> None"
  by code_simp+

lemma printf_echo: "printf (ascii ''Echo: %s'' @ nl) [Str s] = Some (ascii ''Echo: '' @ s @ nl)"
  by (simp add: ascii_def)

lemma printf_unknown: "printf (ascii ''Unknown option: %c'' @ nl) args = Some (ascii ''Unknown option: '' @ nl)"
  by (simp add: ascii_def)

lemma run_choice_defined: "run_choice choice \<noteq> None"
proof -
  have "printf (ascii ''Please select 0-9'' @ nl) [] \<noteq> None" by code_simp
  then have "prints [(ascii ''Unknown option: %c'' @ nl, [arg (sint choice)]), (ascii ''Please select 0-9'' @ nl, [])] \<noteq> None"
    unfolding prints.simps printf_unknown by auto
  then show ?thesis unfolding run_choice_def using texts_defined by simp
qed

section \<open>The calculator reads what was typed\<close>

lemma char_at_append [simp]: "char_at (xs @ c # ys) (length xs) = Some c"
  by (simp add: char_at_def)

lemma skip_spaces_stop: "c \<noteq> 32 \<Longrightarrow> skip_spaces (pre @ c # post) (length pre) = Some (length pre)"
  by (simp add: skip_spaces.simps[of _ "length pre"])

lemma skip_one_space:
  assumes "c \<noteq> 32"
  shows "skip_spaces (pre @ 32 # c # post) (length pre) = Some (Suc (length pre))"
proof -
  have "skip_spaces ((pre @ [32]) @ c # post) (length (pre @ [32])) = Some (Suc (length pre))"
    using skip_spaces_stop[OF assms, of "pre @ [32]" post] by simp
  then show ?thesis by (simp add: skip_spaces.simps[of _ "length pre"])
qed

definition digit :: "u8 \<Rightarrow> bool" where "digit c \<longleftrightarrow> 48 \<le> sint c \<and> sint c \<le> 57"

definition digits_value :: "int \<Rightarrow> u8 list \<Rightarrow> int" where
  "digits_value num ds = foldl (\<lambda>num c. num * 10 + (sint c - 48)) num ds"

lemma digits_value_grows: "0 \<le> num \<Longrightarrow> list_all digit ds \<Longrightarrow> num \<le> digits_value num ds"
proof (induction ds arbitrary: num)
  case Nil
  then show ?case by (simp add: digits_value_def)
next
  case (Cons c ds)
  let ?n = "num * 10 + (sint c - 48)"
  have "num \<le> ?n" using Cons.prems by (simp add: digit_def)
  moreover have "?n \<le> digits_value ?n ds" using Cons calculation by (intro Cons.IH) simp_all
  ultimately show ?case by (simp add: digits_value_def)
qed

lemma parse_digits_value:
  "0 \<le> num \<Longrightarrow> list_all digit ds \<Longrightarrow> digits_value num ds < 2 ^ 31 \<Longrightarrow> \<not> digit c \<Longrightarrow>
     parse_digits (pre @ ds @ c # post) (length pre) num = Some (digits_value num ds, length pre + length ds)"
proof (induction ds arbitrary: pre num)
  case Nil
  then have "(48 \<le> sint c \<and> sint c \<le> 57) = False" by (simp add: digit_def)
  then show ?case
    by (simp only: parse_digits.simps[of _ "length pre"] digits_value_def append.simps char_at_append
        option.case if_False) simp
next
  case (Cons d ds)
  let ?n = "num * 10 + (sint d - 48)"
  have d: "48 \<le> sint d" "sint d \<le> 57" "0 \<le> ?n" using Cons.prems by (simp_all add: digit_def)
  have v: "digits_value num (d # ds) = digits_value ?n ds" by (simp add: digits_value_def)
  have "?n \<le> digits_value ?n ds" using Cons.prems d(3) by (intro digits_value_grows) simp_all
  then have c: "c_int (num * 10) = Some (num * 10)" "c_int ?n = Some ?n"
    using Cons.prems d v by (simp_all add: c_int_def)
  have "parse_digits ((pre @ [d]) @ ds @ c # post) (length (pre @ [d])) ?n =
      Some (digits_value ?n ds, length (pre @ [d]) + length ds)"
    using Cons.prems d(3) v by (intro Cons.IH) simp_all
  moreover have "char_at (pre @ d # ds @ c # post) (length pre) = Some d" by simp
  ultimately show ?case
    using c d(1,2) v by (simp add: parse_digits.simps[of _ "length pre" num])
qed

lemma dec_nat_digits: "list_all digit (dec_nat n) \<and> digits_value 0 (dec_nat n) = int n \<and> dec_nat n \<noteq> []"
proof (induction n rule: dec_nat.induct)
  case (1 n)
  have d: "sint (word_of_nat (48 + k) :: u8) = 48 + int k" if "k < 10" for k
  proof -
    from that have "k = 0 \<or> k = 1 \<or> k = 2 \<or> k = 3 \<or> k = 4 \<or> k = 5 \<or> k = 6 \<or> k = 7 \<or> k = 8 \<or> k = 9"
      by arith
    then show ?thesis by auto
  qed
  show ?case
  proof (cases "n < 10")
    case True
    then show ?thesis using d[OF True] by (simp add: dec_nat.simps[of n] digit_def digits_value_def)
  next
    case False
    have m: "n mod 10 < 10" by simp
    have "int (n div 10) * 10 + int (n mod 10) = int n" by (metis div_mult_mod_eq of_nat_add of_nat_mult of_nat_numeral)
    then show ?thesis
      using 1 False d[OF m] by (simp add: dec_nat.simps[of n] digit_def digits_value_def)
  qed
qed

text \<open>A number as \<^verbatim>\<open>printf\<close> writes it, followed by something that is not a digit.\<close>

lemma dec_int_first:
  obtains c ds where "dec_int x = c # ds" and "c \<noteq> 32" and "c = 45 \<longleftrightarrow> x < 0"
proof (cases "x < 0")
  case True
  then show ?thesis using that[of 45 "dec_nat (nat (- x))"] by (simp add: dec_int_def ascii_def)
next
  case False
  obtain c ds where c: "dec_nat (nat x) = c # ds" using dec_nat_digits[of "nat x"] by (cases "dec_nat (nat x)") auto
  then have "digit c" using dec_nat_digits[of "nat x"] by simp
  then have "c \<noteq> 32" "c \<noteq> 45" by (auto simp: digit_def)
  then show ?thesis using that[OF _ _ ] c False by (simp add: dec_int_def)
qed

lemma parse_number_dec:
  assumes "\<bar>x\<bar> < 2 ^ 31" and "\<not> digit c"
  shows "parse_number (pre @ dec_int x @ c # post) (length pre) = Some (x, length pre + length (dec_int x))"
proof (cases "x < 0")
  case True
  have d: "dec_int x = 45 # dec_nat (nat (- x))" using True by (simp add: dec_int_def ascii_def)
  note dig = dec_nat_digits[of "nat (- x)"]
  have "parse_digits ((pre @ [45]) @ dec_nat (nat (- x)) @ c # post) (length (pre @ [45])) 0 =
      Some (digits_value 0 (dec_nat (nat (- x))), length (pre @ [45]) + length (dec_nat (nat (- x))))"
    using dig assms True by (intro parse_digits_value) auto
  moreover have "c_int x = Some x" using assms(1) by (simp add: c_int_def abs_less_iff)
  ultimately show ?thesis
    using dig True unfolding parse_number_def d by (simp add: Let_def)
next
  case False
  obtain e ds where e: "dec_int x = e # ds" "e \<noteq> 45" using dec_int_first[of x] False by metis
  have d: "dec_int x = dec_nat (nat x)" using False by (simp add: dec_int_def)
  note dig = dec_nat_digits[of "nat x"]
  have "parse_digits (pre @ dec_nat (nat x) @ c # post) (length pre) 0 =
      Some (digits_value 0 (dec_nat (nat x)), length pre + length (dec_nat (nat x)))"
    using dig assms False by (intro parse_digits_value) auto
  then have "parse_digits (pre @ dec_int x @ c # post) (length pre) 0 = Some (x, length pre + length (dec_int x))"
    using dig False d by simp
  moreover have "char_at (pre @ dec_int x @ c # post) (length pre) = Some e" by (simp add: e)
  ultimately show ?thesis using e(2) unfolding parse_number_def by (simp add: Let_def)
qed

lemma printf_result:
  assumes "- (2 ^ 31) \<le> r" "r < 2 ^ 31"
  shows "printf (ascii ''Result: %d'' @ nl) [arg r] = Some (ascii ''Result: '' @ dec_int r @ nl)"
proof -
  have "sint (word_of_int r :: u32) = r"
    using assms by (simp add: signed_of_int signed_take_bit_int_eq_self)
  then show ?thesis by (simp add: ascii_def arg_def print_int_dec)
qed

definition calc_result :: "u8 \<Rightarrow> int \<Rightarrow> int \<Rightarrow> int" where
  "calc_result oper x y =
     (if oper = 43 then x + y else if oper = 45 then x - y else if oper = 42 then x * y else x sdiv y)"

lemma calc_line_typed:
  assumes x: "\<bar>x\<bar> < 2 ^ 31" and y: "\<bar>y\<bar> < 2 ^ 31" and oper: "oper \<in> {43, 45, 42, 47}"
  shows "calc_line (dec_int x @ [32, oper, 32] @ dec_int y @ 0 # post) =
    (if oper = 47 \<and> y = 0 then Some (ascii ''Error: Division by zero'' @ nl)
     else map_option (\<lambda>r. ascii ''Result: '' @ dec_int r @ nl) (c_int (calc_result oper x y)))"
proof -
  let ?line = "dec_int x @ [32, oper, 32] @ dec_int y @ 0 # post"
  obtain c cs where c: "dec_int x = c # cs" "c \<noteq> 32" using dec_int_first[of x] by metis
  obtain d ds where d: "dec_int y = d # ds" "d \<noteq> 32" using dec_int_first[of y] by metis
  let ?n = "length (dec_int x)" and ?m = "length (dec_int y)"
  have nd: "\<not> digit 32" "\<not> digit 0" by (simp_all add: digit_def)
  have op32: "oper \<noteq> 32" using oper by auto
  have s1: "skip_spaces ?line 0 = Some 0"
    using skip_spaces_stop[OF c(2), of "[]"] by (simp add: c(1))
  have p1: "parse_number ?line 0 = Some (x, ?n)"
    using parse_number_dec[OF x nd(1), of "[]"] by simp
  have s2: "skip_spaces ?line ?n = Some (?n + 1)"
    using skip_one_space[OF op32, of "dec_int x"] by simp
  have o: "char_at ?line (?n + 1) = Some oper"
    using char_at_append[of "dec_int x @ [32]" oper "32 # dec_int y @ 0 # post"] by simp
  have s3: "skip_spaces ?line (?n + 1 + 1) = Some (?n + 3)"
    using skip_one_space[OF d(2), of "dec_int x @ [32, oper]"] by (simp add: d(1) numeral_3_eq_3)
  have p2: "parse_number ?line (?n + 3) = Some (y, ?n + 3 + ?m)"
    using parse_number_dec[OF y nd(2), of "dec_int x @ [32, oper, 32]" post] by (simp add: numeral_3_eq_3)
  have valid: "\<not> (oper \<noteq> 43 \<and> oper \<noteq> 45 \<and> oper \<noteq> 42 \<and> oper \<noteq> 47)" using oper by auto
  have zero: "printf (ascii ''Error: Division by zero'' @ nl) [] = Some (ascii ''Error: Division by zero'' @ nl)"
    by code_simp
  have res: "Option.bind (c_int r) (\<lambda>r. printf (ascii ''Result: %d'' @ nl) [arg r]) =
      map_option (\<lambda>r. ascii ''Result: '' @ dec_int r @ nl) (c_int r)" for r
    using printf_result[of r] by (auto simp: c_int_def)
  have result: "(if oper = 43 then c_int (x + y) else if oper = 45 then c_int (x - y)
      else if oper = 42 then c_int (x * y) else c_int (x sdiv y)) = c_int (calc_result oper x y)"
    by (simp add: calc_result_def)
  show ?thesis
    unfolding calc_line_def s1 p1 bind.bind_lunit prod.case s2 o if_not_P[OF valid] s3 p2 result res zero ..
qed

lemma calc_messages:
  "printf (ascii ''Error: Invalid operator'' @ nl) [] \<noteq> None"
  "printf (ascii ''Error: Division by zero'' @ nl) [] \<noteq> None"
  by code_simp+

section \<open>When the calculator overflows\<close>

text \<open>
  A text without its leading spaces, the number it starts with, and what follows. \<open>overflows\<close> is about the
  two numbers and the operator of a text: a number that is no \<^verbatim>\<open>int\<close>, or a result that is none.
\<close>

definition strip :: "u8 list \<Rightarrow> u8 list" where
  "strip s = dropWhile (\<lambda>c. c = 32) s"

definition scan_number :: "u8 list \<Rightarrow> int \<times> u8 list" where
  "scan_number s =
     (if s \<noteq> [] \<and> hd s = 45
      then (- digits_value 0 (takeWhile digit (tl s)), dropWhile digit (tl s))
      else (digits_value 0 (takeWhile digit s), dropWhile digit s))"

definition overflows :: "u8 list \<Rightarrow> bool" where
  "overflows s \<longleftrightarrow>
     (let (x, s) = scan_number (strip s) in
      2 ^ 31 \<le> \<bar>x\<bar> \<or>
      (case strip s of
         [] \<Rightarrow> False
       | oper # s \<Rightarrow>
           oper \<in> {43, 45, 42, 47} \<and>
           (let (y, s) = scan_number (strip s) in
            2 ^ 31 \<le> \<bar>y\<bar> \<or> \<not> (oper = 47 \<and> y = 0) \<and> c_int (calc_result oper x y) = None)))"

text \<open>A position in a line, as the rest of the text from there to the terminator.\<close>

definition rest_at :: "u8 list \<Rightarrow> nat \<Rightarrow> u8 list \<Rightarrow> bool" where
  "rest_at line i s \<longleftrightarrow> 0 \<notin> set s \<and> (\<exists>pre post. line = pre @ s @ 0 # post \<and> length pre = i)"

lemma rest_at_char: "rest_at line i s \<Longrightarrow> char_at line i = Some (case s of [] \<Rightarrow> 0 | c # _ \<Rightarrow> c)"
  by (auto simp: rest_at_def split: list.split)

lemma rest_at_Suc: "rest_at line i (c # s) \<Longrightarrow> rest_at line (Suc i) s"
  unfolding rest_at_def by (metis append.assoc append_Cons append_Nil length_append_singleton list.set_intros(2))

lemma skip_spaces_at: "rest_at line i s \<Longrightarrow> \<exists>j. skip_spaces line i = Some j \<and> rest_at line j (strip s)"
proof (induction s arbitrary: i)
  case Nil
  then show ?case using rest_at_char[OF Nil] by (simp add: skip_spaces.simps[of line i] strip_def)
next
  case (Cons c s)
  show ?case
    using rest_at_char[OF Cons.prems] Cons.IH[OF rest_at_Suc[OF Cons.prems]] Cons.prems
    by (auto simp: skip_spaces.simps[of line i] strip_def)
qed

lemma parse_digits_at:
  "rest_at line i s \<Longrightarrow> 0 \<le> num \<Longrightarrow> num < 2 ^ 31 \<Longrightarrow>
     (if digits_value num (takeWhile digit s) < 2 ^ 31
      then \<exists>j. parse_digits line i num = Some (digits_value num (takeWhile digit s), j) \<and>
             rest_at line j (dropWhile digit s)
      else parse_digits line i num = None)"
proof (induction s arbitrary: i num)
  case Nil
  have "char_at line i = Some 0" using rest_at_char[OF Nil(1)] by simp
  then show ?case using Nil by (simp add: parse_digits.simps[of line i] digits_value_def)
next
  case (Cons c s)
  have ch: "char_at line i = Some c" using rest_at_char[OF Cons.prems(1)] by simp
  show ?case
  proof (cases "digit c")
    case False
    then have "(48 \<le> sint c \<and> sint c \<le> 57) = False" by (simp add: digit_def)
    then have "parse_digits line i num = Some (num, i)"
      by (simp only: parse_digits.simps[of line i] ch option.case if_False)
    then show ?thesis using False Cons.prems by (simp add: digits_value_def)
  next
    case True
    then have c: "48 \<le> sint c" "sint c \<le> 57" by (simp_all add: digit_def)
    let ?n = "num * 10 + (sint c - 48)"
    have v: "digits_value num (takeWhile digit (c # s)) = digits_value ?n (takeWhile digit s)"
      using True by (simp add: digits_value_def)
    have n: "0 \<le> ?n" "num * 10 \<le> ?n" "0 \<le> num * 10" using Cons.prems(2) c by simp_all
    show ?thesis
    proof (cases "?n < 2 ^ 31")
      case lt: True
      then have "c_int (num * 10) = Some (num * 10)" "c_int ?n = Some ?n" using n by (simp_all add: c_int_def)
      then have "parse_digits line i num = parse_digits line (i + 1) ?n"
        using ch c by (simp add: parse_digits.simps[of line i])
      then show ?thesis using Cons.IH[OF rest_at_Suc[OF Cons.prems(1)] n(1) lt] v True by simp
    next
      case False
      have "list_all digit (takeWhile digit s)" by (auto simp: list_all_iff dest: set_takeWhileD)
      then have "\<not> digits_value num (takeWhile digit (c # s)) < 2 ^ 31"
        using digits_value_grows[OF n(1)] False unfolding v by (meson not_less order.trans)
      moreover have "parse_digits line i num = None"
      proof -
        have none: "c_int ?n = None" using False by (simp add: c_int_def)
        consider "c_int (num * 10) = None" | "c_int (num * 10) = Some (num * 10)"
          unfolding c_int_def by (metis (full_types))
        moreover have "(48 \<le> sint c \<and> sint c \<le> 57) = True" using c by simp
        ultimately show ?thesis
          by cases (simp_all only: parse_digits.simps[of line i num] ch option.case if_True none)
      qed
      ultimately show ?thesis by simp
    qed
  qed
qed

lemma parse_number_at:
  assumes "rest_at line i s"
  shows "if \<bar>fst (scan_number s)\<bar> < 2 ^ 31
    then \<exists>j. parse_number line i = Some (fst (scan_number s), j) \<and> rest_at line j (snd (scan_number s))
    else parse_number line i = None"
proof -
  have pos: "0 \<le> digits_value 0 (takeWhile digit t)" for t
    by (rule digits_value_grows) (auto simp: list_all_iff dest: set_takeWhileD)
  note ch = rest_at_char[OF assms]
  show ?thesis
  proof (cases "s \<noteq> [] \<and> hd s = 45")
    case True
    then obtain t where s: "s = 45 # t" by (cases s) auto
    have d: "scan_number s = (- digits_value 0 (takeWhile digit t), dropWhile digit t)" by (simp add: scan_number_def s)
    show ?thesis
      using parse_digits_at[OF rest_at_Suc[OF assms[unfolded s]], of 0] pos[of t] ch
      unfolding d by (auto simp: parse_number_def Let_def s c_int_def split: if_splits)
  next
    case False
    then have d: "scan_number s = (digits_value 0 (takeWhile digit s), dropWhile digit s)" by (auto simp: scan_number_def)
    have "(case s of [] \<Rightarrow> 0 | c # _ \<Rightarrow> c) \<noteq> 45" using False by (cases s) auto
    then show ?thesis
      using parse_digits_at[OF assms, of 0] pos[of s] ch
      unfolding d by (auto simp: parse_number_def Let_def split: if_splits)
  qed
qed

text \<open>On a terminated line the calculator is undefined exactly for an overflow.\<close>

lemma calc_line_undefined:
  assumes "rest_at line 0 s"
  shows "calc_line line = None \<longleftrightarrow> overflows s"
proof -
  obtain i1 where 1: "skip_spaces line 0 = Some i1" "rest_at line i1 (strip s)"
    using skip_spaces_at[OF assms] by blast
  obtain x s1 where x: "scan_number (strip s) = (x, s1)" by (cases "scan_number (strip s)")
  note N1 = parse_number_at[OF 1(2), unfolded x fst_conv snd_conv]
  show ?thesis
  proof (cases "\<bar>x\<bar> < 2 ^ 31")
    case False
    then show ?thesis using N1 1(1) x by (simp add: calc_line_def overflows_def)
  next
    case True
    then obtain i2 where 2: "parse_number line i1 = Some (x, i2)" "rest_at line i2 s1" using N1 by auto
    obtain i3 where 3: "skip_spaces line i2 = Some i3" "rest_at line i3 (strip s1)"
      using skip_spaces_at[OF 2(2)] by blast
    note ch = rest_at_char[OF 3(2)]
    have o: "overflows s \<longleftrightarrow> (case strip s1 of
         [] \<Rightarrow> False
       | oper # s \<Rightarrow>
           oper \<in> {43, 45, 42, 47} \<and>
           (let (y, s) = scan_number (strip s) in
            2 ^ 31 \<le> \<bar>y\<bar> \<or> \<not> (oper = 47 \<and> y = 0) \<and> c_int (calc_result oper x y) = None))"
      using x True by (simp add: overflows_def)
    show ?thesis
    proof (cases "strip s1")
      case Nil
      then have "calc_line line = printf (ascii ''Error: Invalid operator'' @ nl) []"
        using 1(1) 2(1) 3(1) ch by (simp add: calc_line_def)
      then show ?thesis using o Nil calc_messages(1) by simp
    next
      case (Cons oper s2)
      show ?thesis
      proof (cases "oper \<in> {43, 45, 42, 47}")
        case False
        then have "calc_line line = printf (ascii ''Error: Invalid operator'' @ nl) []"
          using 1(1) 2(1) 3(1) ch Cons by (simp add: calc_line_def)
        then show ?thesis using o Cons False calc_messages(1) by simp
      next
        case op: True
        obtain i4 where 4: "skip_spaces line (i3 + 1) = Some i4" "rest_at line i4 (strip s2)"
          using skip_spaces_at[OF rest_at_Suc[OF 3(2)[unfolded Cons]]] by auto
        obtain y s3 where y: "scan_number (strip s2) = (y, s3)" by (cases "scan_number (strip s2)")
        note N2 = parse_number_at[OF 4(2), unfolded y fst_conv snd_conv]
        have c: "calc_line line = Option.bind (parse_number line i4) (\<lambda>(y, i).
            if oper = 47 \<and> y = 0 then printf (ascii ''Error: Division by zero'' @ nl) []
            else Option.bind (c_int (calc_result oper x y)) (\<lambda>r. printf (ascii ''Result: %d'' @ nl) [arg r]))"
        proof -
          have valid: "\<not> (oper \<noteq> 43 \<and> oper \<noteq> 45 \<and> oper \<noteq> 42 \<and> oper \<noteq> 47)" using op by auto
          have res: "(if oper = 43 then c_int (x + y) else if oper = 45 then c_int (x - y)
              else if oper = 42 then c_int (x * y) else c_int (x sdiv y)) = c_int (calc_result oper x y)" for y
            by (simp add: calc_result_def)
          show ?thesis
            unfolding calc_line_def 1(1) bind.bind_lunit prod.case 2(1) 3(1) ch Cons list.case if_not_P[OF valid] 4(1) res ..
        qed
        show ?thesis
        proof (cases "\<bar>y\<bar> < 2 ^ 31")
          case False
          then show ?thesis using N2 c o Cons op y by simp
        next
          case yl: True
          then obtain i5 where 5: "parse_number line i4 = Some (y, i5)" using N2 by auto
          show ?thesis
            using yl c o Cons op y 5 calc_messages(2) printf_result
            by (cases "c_int (calc_result oper x y)") (auto simp: c_int_def split: if_splits)
        qed
      qed
    qed
  qed
qed

lemma line_rest_at: "line_ok line bufsz n \<Longrightarrow> rest_at line 0 (take (nat n) line)"
proof -
  assume "line_ok line bufsz n"
  then have n: "nat n < length line" "line ! nat n = 0" "list_all printable (take (nat n) line)"
    by (auto simp: line_ok_def)
  have "0 \<notin> set (take (nat n) line)" using n(3) by (auto simp: list_all_iff printable_def)
  moreover have "line = take (nat n) line @ 0 # drop (Suc (nat n)) line" using id_take_nth_drop[OF n(1)] n(2) by simp
  ultimately show ?thesis unfolding rest_at_def by (metis append_Nil list.size(3))
qed

section \<open>How the shell ends\<close>

text \<open>
  An outcome on the input \<open>inp\<close> that is not undefined, unless some rest of the input starts with a line
  on which the calculator overflows.
\<close>

definition overflowing :: "u8 list \<Rightarrow> bool" where
  "overflowing inp \<longleftrightarrow> (\<exists>echo line rest. edit_line 63 [] inp = (echo, Some (line, rest)) \<and> overflows line)"

definition fine :: "u8 list \<Rightarrow> 'a outcome \<Rightarrow> bool" where
  "fine inp r \<longleftrightarrow> (r = Undefined \<longrightarrow> (\<exists>pre suf. inp = pre @ suf \<and> overflowing suf))"

lemma fine_simps [simp]: "fine inp (Returns x rest)" "fine inp Waits" "fine inp Exits"
  by (simp_all add: fine_def)

lemma fine_suffix: "fine rest r \<Longrightarrow> strict_suffix rest inp \<Longrightarrow> fine inp r"
  by (auto simp: fine_def strict_suffix_def suffix_def) (metis append.assoc)

lemma fine_show_then: "s \<noteq> None \<Longrightarrow> fine inp (snd p) \<Longrightarrow> fine inp (snd (show_then s p))"
  by (auto simp: show_then_def)

lemma fine_io_bind:
  "fine inp (snd p) \<Longrightarrow> (\<And>x rest. snd p = Returns x rest \<Longrightarrow> fine inp (snd (f x rest))) \<Longrightarrow>
     fine inp (snd (io_bind p f))"
  by (cases "snd p") (auto simp: io_bind_def fine_def)

lemma readline_fine:
  assumes "int (length buf) = bufsz" and "0 < bufsz"
  shows "fine inp (snd (readline buf bufsz inp))"
    and "snd (readline buf bufsz inp) = Returns (n, buf') rest \<Longrightarrow> line_ok buf' bufsz n"
  using readline_loop_ok[OF assms(1), of 0 inp] assms(2)
  by (auto simp: readline_def split: outcome.splits)

lemma line_cstring:
  assumes "line_ok line bufsz n"
  shows "cstring (list_mem (line @ xs)) 0 (take (nat n) line)"
proof -
  have n: "nat n < length line" "line ! nat n = 0" "list_all printable (take (nat n) line)"
    using assms by (auto simp: line_ok_def)
  have "0 \<notin> set (take (nat n) line)" using n(3) by (auto simp: list_all_iff printable_def)
  moreover have "gm_read (list_mem (line @ xs)) 0 (nat n + 1) = Some (take (nat n) line @ [0])"
    using n(1,2) by (auto simp: gm_read_def list_mem_def nth_append intro!: nth_equalityI)
  ultimately show ?thesis using n(1) by (simp add: cstring_def)
qed

lemma literal_cstring: "0 \<notin> set s \<Longrightarrow> cstring (list_mem (line @ s @ [0])) (length line) s"
  by (auto simp: cstring_def gm_read_def list_mem_def nth_append intro!: nth_equalityI)

lemma echo_line:
  assumes "line_ok line bufsz n"
  shows "\<exists>r. buf_strcmp line (ascii ''quit'') = Some r \<and> (r = 0 \<longleftrightarrow> take (nat n) line = ascii ''quit'')"
    and "buf_string line = Some (take (nat n) line)"
proof -
  have "0 \<notin> set (ascii ''quit'')" by (simp add: ascii_def)
  from strcmp_eq[OF line_cstring[OF assms] literal_cstring[OF this]]
  show "\<exists>r. buf_strcmp line (ascii ''quit'') = Some r \<and> (r = 0 \<longleftrightarrow> take (nat n) line = ascii ''quit'')"
    unfolding buf_strcmp_def by blast
  show "buf_string line = Some (take (nat n) line)"
    using read_string_cstring[OF line_cstring[OF assms, of "[]"]] by (simp add: buf_string_def)
qed

lemma echo_loop_fine: "length line = 64 \<Longrightarrow> fine inp (snd (echo_loop line inp))"
proof (induction line inp rule: echo_loop.induct)
  case (1 line inp)
  have sz: "int (length line) = 64" using 1(2) by simp
  show ?case
    unfolding echo_loop.simps[of line inp]
  proof (intro fine_show_then messages_defined fine_io_bind readline_fine(1)[OF sz])
    fix p rest
    assume r: "snd (readline line 64 inp) = Returns p rest"
    obtain len line' where p: "p = (len, line')" by (cases p)
    have ok: "line_ok line' 64 len" using readline_fine(2)[OF sz] r p by simp
    obtain c where c: "buf_strcmp line' (ascii ''quit'') = Some c" using echo_line(1)[OF ok] by blast
    have len: "length line' = 64" using ok by (simp add: line_ok_def)
    have ih: "fine inp (snd (echo_loop line' rest))" if "c \<noteq> 0"
      by (rule fine_suffix[OF 1(1)[OF r p[symmetric] c that len] readline_suffix[OF r]])
    show "fine inp (snd (case p of (len, line) \<Rightarrow>
       show_then (if len \<ge> 63 then printf (ascii ''Warning: Input truncated to 63 characters'' @ nl) [] else Some [])
       (case buf_strcmp line (ascii ''quit'') of
          None \<Rightarrow> ([], Undefined)
        | Some r \<Rightarrow>
            if r = 0 then show_then (printf (ascii ''Exiting echo program'' @ nl) []) ([], Returns () rest)
            else show_then (do { s \<leftarrow> buf_string line; printf (ascii ''Echo: %s'' @ nl) [Str s] })
                   (echo_loop line rest))))"
      unfolding p prod.case c option.case echo_line(2)[OF ok]
      using messages_defined(2,3) ih printf_echo
      by (auto intro!: fine_show_then)
  qed simp
qed

lemma readline_line:
  assumes "length buf = 64" and "snd (readline buf 64 inp) = Returns (n, buf') rest"
  shows "\<exists>e. edit_line 63 [] inp = (e, Some (take (nat n) buf', rest))"
proof -
  have "edited (edit_line 63 [] inp) buf (readline buf 64 inp)"
    using readline_loop_edits[of buf 63 "[]" inp] assms(1) by (simp add: readline_def)
  then show ?thesis
    using assms(2) by (cases "edit_line 63 [] inp") (auto simp: edited_def split: option.splits)
qed

lemma calc_loop_fine: "length line = 64 \<Longrightarrow> fine inp (snd (calc_loop line inp))"
proof (induction line inp rule: calc_loop.induct)
  case (1 line inp)
  have sz: "int (length line) = 64" using 1(2) by simp
  show ?case
    unfolding calc_loop.simps[of line inp]
  proof (intro fine_show_then messages_defined fine_io_bind readline_fine(1)[OF sz])
    fix p rest
    assume r: "snd (readline line 64 inp) = Returns p rest"
    obtain len line' where p: "p = (len, line')" by (cases p)
    have ok: "line_ok line' 64 len" using readline_fine(2)[OF sz] r p by simp
    have len: "length line' = 64" using ok by (simp add: line_ok_def)
    have ih: "fine inp (snd (calc_loop line' rest))"
      if "\<not> (char_at line' 0 = Some 113 \<and> char_at line' 1 = Some 0)"
      by (rule fine_suffix[OF 1(1)[OF r p[symmetric] that len] readline_suffix[OF r]])
    show "fine inp (snd (case p of (len, line) \<Rightarrow>
        if char_at line 0 = Some 113 \<and> char_at line 1 = Some 0
        then show_then (printf (ascii ''Exiting calculator'' @ nl) []) ([], Returns () rest)
        else show_then (calc_line line) (calc_loop line rest)))"
    proof (cases "char_at line' 0 = Some 113 \<and> char_at line' 1 = Some 0")
      case True
      then show ?thesis using messages_defined(5) unfolding p by (auto intro!: fine_show_then)
    next
      case False
      show ?thesis
      proof (cases "calc_line line'")
        case None
        then have "overflows (take (nat len) line')" using calc_line_undefined[OF line_rest_at[OF ok]] by blast
        moreover obtain e where e: "edit_line 63 [] inp = (e, Some (take (nat len) line', rest))"
          using readline_line[OF 1(2)] r p by blast
        ultimately have "overflowing inp" by (auto simp: overflowing_def)
        then have "fine inp (snd (show_then (calc_line line') (calc_loop line' rest)))"
          by (force simp: fine_def)
        then show ?thesis unfolding p prod.case if_not_P[OF False] .
      next
        case (Some t)
        then have "fine inp (snd (show_then (calc_line line') (calc_loop line' rest)))"
          using ih[OF False] by (intro fine_show_then) simp_all
        then show ?thesis unfolding p prod.case if_not_P[OF False] .
      qed
    qed
  qed simp
qed

lemma main_loop_fine:
  "length input = 8 \<Longrightarrow> length line = 64 \<Longrightarrow>
     fine inp (snd (main_loop input line inp)) \<and> (\<forall>x rest. snd (main_loop input line inp) \<noteq> Returns x rest)"
proof (induction input line inp rule: main_loop.induct)
  case (1 input line inp)
  define Q :: "u8 list \<Rightarrow> unit outcome \<Rightarrow> bool"
    where "Q i r \<longleftrightarrow> fine i r \<and> (\<forall>x rest. r \<noteq> Returns x rest)" for i r
  have Q_suffix: "Q i r" if "Q rest r" "strict_suffix rest i" for i rest r
    using that fine_suffix by (auto simp: Q_def)
  have Q_show: "Q i (snd (show_then s p))" if "s \<noteq> None" "Q i (snd p)" for i s and p :: "unit io"
    using that by (auto simp: show_then_def Q_def)
  have Q_bind: "Q i (snd (io_bind p f))"
    if "fine i (snd p)" "\<And>x rest. snd p = Returns x rest \<Longrightarrow> Q i (snd (f x rest))"
    for i and p :: "'b io" and f :: "'b \<Rightarrow> u8 list \<Rightarrow> unit io"
    using that by (cases "snd p") (auto simp: io_bind_def Q_def fine_def)
  have sz: "int (length input) = 8" using 1(5) by simp
  have "Q inp (snd (main_loop input line inp))"
    unfolding main_loop.simps[of input line inp]
  proof (intro Q_show texts_defined(1) Q_bind readline_fine(1)[OF sz])
    fix p rest
    assume r: "snd (readline input 8 inp) = Returns p rest"
    obtain len input' where p: "p = (len, input')" by (cases p)
    have ok: "line_ok input' 8 len" using readline_fine(2)[OF sz] r p by simp
    then have len: "length input' = 8" by (simp add: line_ok_def)
    then obtain c where c: "char_at input' 0 = Some c" by (simp add: char_at_def)
    note IH = 1(1-4)[OF r p[symmetric] c, folded Q_def]
    have "Q rest (snd (case p of (len, input) \<Rightarrow>
      (case char_at input 0 of
         None \<Rightarrow> ([], Undefined)
       | Some choice \<Rightarrow>
          if len = 0 \<or> choice = 0 then main_loop input line rest
          else if choice = 48 then
            show_then (prints [(nl @ ascii ''Exiting shell...'' @ nl, []),
                               (ascii ''Thank you for using 1K OS!'' @ nl, [])]) ([], Exits)
          else if choice = 51 then io_bind (echo_demo line rest) (\<lambda>_ rest. main_loop input line rest)
          else if choice = 54 then io_bind (calculator_demo line rest) (\<lambda>_ rest. main_loop input line rest)
          else show_then (run_choice choice) (main_loop input line rest))))" (is "Q rest ?R")
    proof -
      consider (empty) "len = 0 \<or> c = 0" | (exit) "\<not> (len = 0 \<or> c = 0)" "c = 48"
        | (echo) "\<not> (len = 0 \<or> c = 0)" "c = 51" | (calc) "\<not> (len = 0 \<or> c = 0)" "c = 54"
        | (other) "\<not> (len = 0 \<or> c = 0)" "c \<noteq> 48" "c \<noteq> 51" "c \<noteq> 54" by blast
      then show ?thesis
      proof cases
        case empty
        then show ?thesis using IH(1)[OF empty len 1(6)] c by (simp add: p)
      next
        case exit
        have "Q rest (snd (show_then (prints [(nl @ ascii ''Exiting shell...'' @ nl, []),
                               (ascii ''Thank you for using 1K OS!'' @ nl, [])]) ([], Exits)))"
          by (intro Q_show messages_defined) (simp add: Q_def)
        then show ?thesis using exit c unfolding p by simp
      next
        case echo
        have f: "fine rest (snd (echo_demo line rest))"
          unfolding echo_demo_def by (intro fine_show_then messages_defined echo_loop_fine 1(6))
        have "Q rest (snd (io_bind (echo_demo line rest) (\<lambda>_ rest. main_loop input' line rest)))"
          by (rule Q_bind[OF f], rule Q_suffix[rotated, OF demos_suffix(1)], assumption) (use IH(2) echo len 1(6) in auto)
        then show ?thesis using echo c unfolding p by simp
      next
        case calc
        have f: "fine rest (snd (calculator_demo line rest))"
          unfolding calculator_demo_def by (intro fine_show_then messages_defined calc_loop_fine 1(6))
        have "Q rest (snd (io_bind (calculator_demo line rest) (\<lambda>_ rest. main_loop input' line rest)))"
          by (rule Q_bind[OF f], rule Q_suffix[rotated, OF demos_suffix(2)], assumption) (use IH(3) calc len 1(6) in auto)
        then show ?thesis using calc c unfolding p by simp
      next
        case other
        have "Q rest (snd (main_loop input' line rest))" by (rule IH(4)) (use other len 1(6) in auto)
        then have "Q rest (snd (show_then (run_choice c) (main_loop input' line rest)))"
          by (intro Q_show run_choice_defined)
        then show ?thesis using other c unfolding p by simp
      qed
    qed
    then show "Q inp ?R" by (rule Q_suffix[OF _ readline_suffix[OF r]])
  qed simp
  then show ?case by (simp add: Q_def)
qed

section \<open>The arithmetic of the demos\<close>

lemma is_prime_from_iff:
  "2 \<le> i \<Longrightarrow> (\<forall>d. 2 \<le> d \<and> d < i \<longrightarrow> \<not> d dvd n) \<Longrightarrow> 2 \<le> n \<Longrightarrow>
     is_prime_from n i \<longleftrightarrow> (\<forall>d. d dvd n \<longrightarrow> d = 1 \<or> d = n)"
proof (induction n i rule: is_prime_from.induct)
  case (1 n i)
  show ?case
  proof (cases "i * i \<le> n")
    case True
    show ?thesis
    proof (cases "n mod i = 0")
      case div: True
      have "i < i * i" using 1(2) by simp
      then have "i < n" using True by (rule less_le_trans)
      then have "i \<noteq> n" "i \<noteq> 1" using 1(2) by simp_all
      moreover have "i dvd n" using div by (simp add: dvd_eq_mod_eq_0)
      ultimately show ?thesis using True div by (auto simp: is_prime_from.simps[of n i])
    next
      case False
      have "\<forall>d. 2 \<le> d \<and> d < i + 1 \<longrightarrow> \<not> d dvd n"
        using 1(3) False by (auto simp: less_Suc_eq dvd_eq_mod_eq_0)
      then show ?thesis using 1(1)[OF True False] 1(2,4) True False by (simp add: is_prime_from.simps[of n i])
    qed
  next
    case False
    have "d = 1 \<or> d = n" if "d dvd n" for d
    proof (rule ccontr)
      assume d: "\<not> (d = 1 \<or> d = n)"
      obtain e where e: "n = d * e" using \<open>d dvd n\<close> by blast
      have "d \<noteq> 0" using e 1(4) by (cases d) simp_all
      moreover have "e \<noteq> 0" using e 1(4) by (cases e) simp_all
      moreover have "e \<noteq> 1" using e d by auto
      ultimately have "2 \<le> d" "2 \<le> e" using d by arith+
      moreover have "e dvd n" using e by simp
      ultimately have "i \<le> d" "i \<le> e" using 1(3) \<open>d dvd n\<close> by (meson not_less)+
      then have "i * i \<le> d * e" by (rule mult_le_mono)
      then show False using False e by simp
    qed
    then show ?thesis using False by (auto simp: is_prime_from.simps[of n i])
  qed
qed

text \<open>
  Euclid's algorithm on \<^verbatim>\<open>int\<close>: the remainder traps only for the least \<^verbatim>\<open>int\<close> divided by -1, which the loop
  meets in its first two turns or not at all.
\<close>

abbreviation is_int :: "int \<Rightarrow> bool" where "is_int i \<equiv> - (2 ^ 31) \<le> i \<and> i < 2 ^ 31"

abbreviation int_min :: int where "int_min \<equiv> - (2 ^ 31)"

lemma sdiv_is_int: "is_int a \<Longrightarrow> b \<noteq> 0 \<Longrightarrow> \<not> (a = int_min \<and> b = - 1) \<Longrightarrow> is_int (a sdiv b)"
proof -
  assume a: "is_int a" and b: "b \<noteq> 0" "\<not> (a = int_min \<and> b = - 1)"
  have q: "\<bar>a sdiv b\<bar> = \<bar>a\<bar> div \<bar>b\<bar>"
    using b(1) by (cases "a = 0") (simp_all add: signed_divide_int_def abs_mult abs_sgn_eq pos_imp_zdiv_nonneg_iff)
  show "is_int (a sdiv b)"
  proof (cases "\<bar>b\<bar> = 1")
    case True
    then have "b = 1 \<or> b = - 1" by arith
    then show ?thesis using a b(2) by auto
  next
    case False
    then have "\<bar>a\<bar> div \<bar>b\<bar> \<le> \<bar>a\<bar> div 2" using b(1) by (intro zdiv_mono2) auto
    moreover have "\<bar>a\<bar> div 2 \<le> 2 ^ 30" using a by auto
    ultimately show ?thesis using q by auto
  qed
qed

lemma c_rem_int:
  assumes "is_int a" and "is_int b" and "b \<noteq> 0"
  shows "c_rem a b = (if a = int_min \<and> b = - 1 then None else Some (a smod b))"
  using sdiv_is_int[OF assms(1,3)] assms(3) by (auto simp: c_rem_def c_int_def)

lemma smod_small: "b \<noteq> 0 \<Longrightarrow> \<bar>a smod b\<bar> < \<bar>b\<bar>" for a b :: int
  by (simp add: signed_modulo_int_def abs_mult abs_sgn_eq)

lemma gcd_smod: "b \<noteq> 0 \<Longrightarrow> gcd b (a smod b) = gcd a b" for a b :: int
proof -
  assume "b \<noteq> 0"
  have "gcd b (\<bar>a\<bar> mod \<bar>b\<bar>) = gcd a b"
    by (metis abs_abs gcd.commute gcd_abs1_int gcd_abs2_int gcd_red_int)
  then show ?thesis by (cases a "0 :: int" rule: linorder_cases) (simp_all add: signed_modulo_int_def)
qed

lemma gcd_loop_small:
  "is_int a \<Longrightarrow> is_int b \<Longrightarrow> a \<noteq> int_min \<Longrightarrow> b \<noteq> int_min \<Longrightarrow>
     \<exists>g. gcd_loop a b = Some g \<and> is_int g \<and> \<bar>g\<bar> = gcd a b \<and> (0 \<le> a \<and> 0 \<le> b \<longrightarrow> 0 \<le> g)"
proof (induction a b rule: gcd_loop.induct)
  case (1 a b)
  show ?case
  proof (cases "b = 0")
    case True
    then show ?thesis using 1(2) by (simp add: gcd_loop.simps[of a 0])
  next
    case False
    have r: "c_rem a b = Some (a smod b)" using c_rem_int[OF 1(2,3) False] 1(4) by simp
    have s: "is_int (a smod b)" "a smod b \<noteq> int_min" using smod_small[OF False, of a] 1(3) by auto
    have "0 \<le> a smod b" if "0 \<le> a"
      using that by (cases "a = 0") (simp_all add: signed_modulo_int_def pos_mod_sign False)
    then show ?thesis
      using 1(1)[OF False r 1(3) s(1) 1(5) s(2)] False r
      by (auto simp: gcd_loop.simps[of a b] gcd_smod)
  qed
qed

lemma gcd_loop_step:
  "is_int a \<Longrightarrow> is_int b \<Longrightarrow> b \<noteq> 0 \<Longrightarrow>
     gcd_loop a b = (if a = int_min \<and> b = - 1 then None else gcd_loop b (a smod b))"
  by (simp add: gcd_loop.simps[of a b] c_rem_int)

lemma gcd_loop_value:
  assumes a: "is_int a" and b: "is_int b"
  shows "if (a = int_min \<and> b = - 1) \<or> (a = - 1 \<and> b = int_min) then gcd_loop a b = None
    else \<exists>g. gcd_loop a b = Some g \<and> is_int g \<and> \<bar>g\<bar> = gcd a b \<and> (0 \<le> a \<and> 0 \<le> b \<longrightarrow> 0 \<le> g)"
proof (cases "b = 0")
  case True
  then show ?thesis using a by (simp add: gcd_loop.simps[of a 0])
next
  case b0: False
  note step = gcd_loop_step[OF a b b0]
  let ?r = "a smod b"
  have r: "is_int ?r" "?r \<noteq> int_min" "\<bar>?r\<bar> < \<bar>b\<bar>" using smod_small[OF b0, of a] b by auto
  have pos: "0 \<le> ?r" if "0 \<le> a"
    using that by (cases "a = 0") (simp_all add: signed_modulo_int_def pos_mod_sign b0)
  show ?thesis
  proof (cases "b = int_min")
    case False
    then show ?thesis
      using step gcd_loop_small[OF b r(1) False r(2)] pos by (auto simp: gcd_smod b0)
  next
    case bm: True
    show ?thesis
    proof (cases "?r = 0")
      case True
      have "\<not> (a = int_min \<and> b = - 1)" using bm by simp
      then have "gcd_loop a b = gcd_loop b 0" by (simp only: step True if_False)
      then have "gcd_loop a b = Some b" by (simp add: gcd_loop.simps[of b 0])
      moreover have "a \<noteq> - 1" using True bm by (auto simp: signed_modulo_int_def)
      moreover have "\<bar>b\<bar> = gcd a b" using gcd_smod[OF b0, of a] True by simp
      ultimately show ?thesis using b bm by auto
    next
      case r0: False
      note step2 = gcd_loop_step[OF b r(1) r0]
      have "?r = - 1 \<longleftrightarrow> a = - 1"
      proof (cases "a = int_min")
        case True
        then show ?thesis using r0 bm by simp
      next
        case False
        then have "\<bar>a\<bar> < 2 ^ 31" using a by auto
        then show ?thesis using bm by (auto simp: signed_modulo_int_def sgn_if split: if_splits)
      qed
      moreover have s: "is_int (b smod ?r)" "b smod ?r \<noteq> int_min" using smod_small[OF r0, of b] r by auto
      have "\<exists>g. gcd_loop ?r (b smod ?r) = Some g \<and> is_int g \<and> \<bar>g\<bar> = gcd ?r (b smod ?r)"
        using gcd_loop_small[OF r(1) s(1) r(2) s(2)] by blast
      then have "\<exists>g. gcd_loop ?r (b smod ?r) = Some g \<and> is_int g \<and> \<bar>g\<bar> = gcd a b"
        by (simp add: gcd_smod r0 b0 gcd.commute[of ?r b])
      ultimately show ?thesis using step step2 bm by auto
    qed
  qed
qed

lemma printf_factorial: "\<exists>t. printf (ascii ''%d! = %d'' @ nl) [arg i, arg j] = Some t"
  by (simp add: ascii_def arg_def)

lemma factorial_loop:
  "n \<le> 12 \<Longrightarrow> \<exists>t. for_each (map int [1..<Suc n]) factorial_step (1, out) = Some (fact n, t)"
proof (induction n)
  case 0
  then show ?case by simp
next
  case (Suc n)
  then obtain t where t: "for_each (map int [1..<Suc n]) factorial_step (1, out) = Some (fact n, t)" by auto
  have "(fact (Suc n) :: int) \<le> fact 12" using Suc.prems by (intro fact_mono) simp
  also have "\<dots> < 2 ^ 31" by (simp add: fact_numeral)
  finally have "c_int (fact n * int (Suc n)) = Some (fact (Suc n))"
    by (simp add: c_int_def algebra_simps) (smt (verit) fact_ge_zero of_nat_0_le_iff zero_le_mult_iff)
  then have "\<exists>u. factorial_step (int (Suc n)) (fact n, t) = Some (fact (Suc n), u)"
    using printf_factorial[of "int (Suc n)" "fact (Suc n)"] by (auto simp: factorial_step_def simp del: of_nat_Suc)
  moreover have "map int [1..<Suc (Suc n)] = map int [1..<Suc n] @ [int (Suc n)]" by simp
  ultimately show ?case using t by (auto simp: for_each_append simp del: of_nat_Suc upt_Suc)
qed

section \<open>Properties\<close>

text \<open>
  C25: the shell keeps running. For every input it waits for more or exits on the user's choice and
  never returns. It is undefined only when some rest of the input starts with a line of at most 63
  characters with a number that is no \<^verbatim>\<open>int\<close>, or with two numbers whose result is none; no buffer is
  overrun or read past its terminator, and no text is missing.
\<close>

theorem shell_outcome:
  assumes "length input = 8" and "length line = 64"
  shows "snd (shell_main input line inp) = Waits \<or> snd (shell_main input line inp) = Exits \<or>
    (snd (shell_main input line inp) = Undefined \<and> (\<exists>pre suf. inp = pre @ suf \<and> overflowing suf))"
proof -
  have "snd (shell_main input line inp) = snd (main_loop input line inp)"
    using messages_defined(9) unfolding shell_main_def show_then_def by auto
  then show ?thesis
    using main_loop_fine[OF assms, of inp] by (cases "snd (main_loop input line inp)") (auto simp: fine_def)
qed

theorem shell_outcome_witness:
  "snd (shell_main (replicate 8 7) (replicate 64 9) (ascii ''0'' @ nl)) = Exits"
proof -
  have l: "length (replicate 8 (7 :: u8)) = 8" "length (replicate 64 (9 :: u8)) = 64" by simp_all
  have r: "snd (shell_main (replicate 8 7) (replicate 64 9) (ascii ''0'' @ nl)) \<noteq> Waits"
    "snd (shell_main (replicate 8 7) (replicate 64 9) (ascii ''0'' @ nl)) \<noteq> Undefined"
    by code_simp+
  from shell_outcome[OF l, of "ascii ''0'' @ nl"] r show ?thesis by blast
qed

text \<open>
  C26: the calculator computes what was typed. On a line \<open>x op y\<close> with decimal numbers of absolute value
  below two to the 31st it prints the sum, difference, product or truncated quotient, or the message
  for a division by zero; the result is undefined exactly when it is not an \<^verbatim>\<open>int\<close>.
\<close>

theorem calculator_result:
  assumes "\<bar>x\<bar> < 2 ^ 31" and "\<bar>y\<bar> < 2 ^ 31" and "oper \<in> {43, 45, 42, 47}"
  shows "calc_line (dec_int x @ [32, oper, 32] @ dec_int y @ 0 # post) =
    (if oper = 47 \<and> y = 0 then Some (ascii ''Error: Division by zero'' @ nl)
     else map_option (\<lambda>r. ascii ''Result: '' @ dec_int r @ nl) (c_int (calc_result oper x y)))"
  by (rule calc_line_typed[OF assms])

theorem calculator_result_witness:
  "calc_line (dec_int (- 17) @ [32, 47, 32] @ dec_int 5 @ 0 # [1, 2]) = Some (ascii ''Result: '' @ dec_int (- 3) @ nl)"
proof -
  have "\<bar>- 17 :: int\<bar> < 2 ^ 31" "\<bar>5 :: int\<bar> < 2 ^ 31" "(47 :: u8) \<in> {43, 45, 42, 47}" by simp_all
  moreover have "c_int (calc_result 47 (- 17) 5) = Some (- 3)" by code_simp
  ultimately show ?thesis using calculator_result[of "- 17" 5 47 "[1, 2]"] by simp
qed

text \<open>
  The trial division of \<^verbatim>\<open>prime_demo\<close> is a primality test: for every number from 2 on it accepts
  exactly those whose only divisors are 1 and the number.
\<close>

theorem trial_division_prime:
  assumes "2 \<le> n"
  shows "is_prime_from n 2 \<longleftrightarrow> (\<forall>d. d dvd n \<longrightarrow> d = 1 \<or> d = n)"
  by (rule is_prime_from_iff) (use assms in auto)

theorem trial_division_prime_witness: "\<forall>d :: nat. d dvd 97 \<longrightarrow> d = 1 \<or> d = 97"
proof -
  have "is_prime_from 97 2" by code_simp
  then show ?thesis using trial_division_prime[of 97] by simp
qed

text \<open>
  C30: the loop of \<^verbatim>\<open>gcd_demo\<close> ends for all pairs of \<^verbatim>\<open>int\<close> and gives, up to the sign, their greatest
  common divisor, which is not negative for arguments that are not; the two exceptions are the least
  \<^verbatim>\<open>int\<close> and -1 in either order, for which the remainder traps.
\<close>

theorem gcd_loop_correct:
  assumes "- (2 ^ 31) \<le> a \<and> a < 2 ^ 31" and "- (2 ^ 31) \<le> b \<and> b < 2 ^ 31"
  shows "if (a = - (2 ^ 31) \<and> b = - 1) \<or> (a = - 1 \<and> b = - (2 ^ 31)) then gcd_loop a b = None
    else \<exists>g. gcd_loop a b = Some g \<and> - (2 ^ 31) \<le> g \<and> g < 2 ^ 31 \<and> \<bar>g\<bar> = gcd a b \<and>
      (0 \<le> a \<and> 0 \<le> b \<longrightarrow> 0 \<le> g)"
  using gcd_loop_value[OF assms] by (simp only: conj_assoc)

theorem gcd_loop_correct_witness:
  "gcd_loop 1071 462 = Some 21 \<and> gcd 1071 462 = (21 :: int) \<and> gcd_loop (- 1) (- (2 ^ 31)) = None"
proof -
  have g: "gcd_loop 1071 462 = Some 21" by code_simp
  have "gcd 1071 462 = (21 :: int)" using gcd_loop_correct[of 1071 462] unfolding g by simp
  moreover have "gcd_loop (- 1) (- (2 ^ 31)) = None" using gcd_loop_correct[of "- 1" "- (2 ^ 31)"] by simp
  ultimately show ?thesis using g by simp
qed

text \<open>
  12 is the last factorial that fits. The loop of \<^verbatim>\<open>factorial_demo\<close>, run up to any \<open>n\<close>, computes the
  factorial without overflow exactly when \<open>n\<close> is at most the bound 12 of the code.
\<close>

theorem factorial_bound:
  "(\<exists>t. for_each (map int [1..<Suc n]) factorial_step (1, out) = Some (fact n, t)) \<longleftrightarrow> n \<le> 12"
proof
  assume "\<exists>t. for_each (map int [1..<Suc n]) factorial_step (1, out) = Some (fact n, t)"
  then obtain t where t: "for_each (map int [1..<Suc n]) factorial_step (1, out) = Some (fact n, t)" by blast
  show "n \<le> 12"
  proof (rule ccontr)
    assume "\<not> n \<le> 12"
    then have "[1..<Suc n] = [1..<13] @ 13 # [14..<Suc n]"
      using upt_add_eq_append[of 1 13 "Suc n - 13"] by (simp add: upt_conv_Cons)
    moreover obtain u where u: "for_each (map int [1..<13]) factorial_step (1, out) = Some (fact 12, u)"
      using factorial_loop[of 12 out] by auto
    moreover have "factorial_step 13 (fact 12, u) = None"
      by (simp add: factorial_step_def c_int_def fact_numeral)
    ultimately show False using t by (simp add: for_each_append)
  qed
qed (rule factorial_loop)

end
