(* ===== verification/Os_Console.thy ===== *)
theory Os_Console
  imports Vmm_System Os_Shell
begin

text \<open>
  The path of a key from the terminal to the shell of the 1K OS, and of a character back: the stdin
  monitor and the hypercalls of the VMM (\<^verbatim>\<open>main.c\<close>) composed with the user library and the shell
  (\<^verbatim>\<open>os-1k/user.c\<close>, \<^verbatim>\<open>os-1k/shell.c\<close>). The shell is a function of the answers of the VMM; here the
  answers come from the model of the VMM.
\<close>

section \<open>What the VMM answers\<close>

text \<open>
  One turn of the loop in the user's \<^verbatim>\<open>getchar\<close>: the \<^verbatim>\<open>outb\<close> with AL = 2 and the \<^verbatim>\<open>inb\<close> after it, as
  the VMM serves the two exits.
\<close>

definition getchar_turn ::
  "kvm_env \<Rightarrow> vcpu_context \<Rightarrow> vmm_dev \<Rightarrow> u8 \<times> vcpu_context \<times> vmm_dev" where
  "getchar_turn env ctx d =
     (let (_, _, ctx, d) = handle_io env getchar_request ctx d;
          (_, io, ctx, d) = handle_io env (hypercall_answer 1 [0]) ctx d
      in (io_data io ! 0, ctx, d))"

text \<open>Before each turn the monitor pushes the keys of one batch, which may be empty.\<close>

fun answers :: "kvm_env \<Rightarrow> u8 list list \<Rightarrow> vcpu_context \<Rightarrow> vmm_dev \<Rightarrow> u8 list" where
  "answers env [] ctx d = []"
| "answers env (keys # batches) ctx d =
     (let (b, ctx, d) = getchar_turn env ctx (fold stdin_push keys d) in b # answers env batches ctx d)"

text \<open>No key finds the queue of 255 bytes full; \<open>n\<close> is its length.\<close>

fun keys_fit :: "nat \<Rightarrow> u8 list list \<Rightarrow> bool" where
  "keys_fit n [] = True"
| "keys_fit n (keys # batches) \<longleftrightarrow> n + length keys \<le> 255 \<and> keys_fit (n + length keys - 1) batches"

lemma push_keys:
  "dev_inv d \<Longrightarrow> length (rx_queue d) + length keys \<le> 255 \<Longrightarrow>
     dev_inv (fold stdin_push keys d) \<and> rx_queue (fold stdin_push keys d) = rx_queue d @ keys"
proof (induction keys arbitrary: d)
  case (Cons b keys)
  have "dev_wf d" using Cons.prems(1) by (simp add: dev_inv_def)
  then have "rx_queue (stdin_push b d) = rx_queue d @ [b]"
    using stdin_push_rx(2)[of d b] Cons.prems(2) by (simp add: accepted_def)
  then show ?case using Cons.IH[of "stdin_push b d"] stdin_push_inv[OF Cons.prems(1)] Cons.prems(2) by simp
qed simp

definition asks_getchar :: "kvm_env \<Rightarrow> bool" where
  "asks_getchar env \<longleftrightarrow> (\<exists>regs. env_regs env = Some regs \<and> ucast (rax regs AND 0xFF) = HC_GETCHAR)"

lemma io_linux_guest:
  "handle_io env io ctx d = (ret, io', ctx', d') \<Longrightarrow> linux_guest ctx' = linux_guest ctx"
  by (auto simp: handle_io_def handle_hypercall_out_def handle_hypercall_in_def Let_def
      split: io_direction.splits if_splits option.splits prod.splits)

lemma getchar_turn_answer:
  assumes d: "dev_inv d" and g: "\<not> linux_guest ctx" "asks_getchar env"
    and turn: "getchar_turn env ctx d = (b, ctx', d')"
  shows "b = (case rx_queue d of [] \<Rightarrow> 0xFF | c # _ \<Rightarrow> c)" and "rx_queue d' = tl (rx_queue d)"
    and "dev_inv d'" and "\<not> linux_guest ctx'"
proof -
  obtain r1 io1 c1 d1 where 1: "handle_io env getchar_request ctx d = (r1, io1, c1, d1)" by (metis prod_cases4)
  obtain r2 io2 c2 d2 where 2: "handle_io env (hypercall_answer 1 [0]) c1 d1 = (r2, io2, c2, d2)"
    by (metis prod_cases4)
  have eq: "b = io_data io2 ! 0" "ctx' = c2" "d' = d2" using turn 1 2 by (simp_all add: getchar_turn_def)
  obtain regs where regs: "env_regs env = Some regs" "ucast (rax regs AND 0xFF) = HC_GETCHAR"
    using g(2) by (auto simp: asks_getchar_def)
  have "dev_wf d" using d by (simp add: dev_inv_def)
  note P = getchar_protocol[OF this g(1) regs 1 2]
  show "b = (case rx_queue d of [] \<Rightarrow> 0xFF | c # _ \<Rightarrow> c)" "rx_queue d' = tl (rx_queue d)"
    using P eq by simp_all
  show "dev_inv d'" using handle_io_inv[OF handle_io_inv[OF d 1] 2] eq by simp
  show "\<not> linux_guest ctx'" using io_linux_guest[OF 1] io_linux_guest[OF 2] g(1) eq by simp
qed

text \<open>The answers without the idle ones are the keys in order, up to those still in the queue.\<close>

abbreviation keys_of :: "u8 list \<Rightarrow> u8 list" where "keys_of \<equiv> filter (\<lambda>b. b \<noteq> 0xFF)"

text \<open>The keys that have been handed over after these requests: each takes the oldest key waiting, if any.\<close>

fun typed_by :: "u8 list \<Rightarrow> u8 list list \<Rightarrow> u8 list" where
  "typed_by q [] = []"
| "typed_by q (keys # batches) =
     (case q @ keys of [] \<Rightarrow> typed_by [] batches | c # q \<Rightarrow> c # typed_by q batches)"

lemma typed_by_prefix: "prefix (typed_by q batches) (q @ concat batches)"
proof (induction q batches rule: typed_by.induct)
  case (2 q keys batches)
  show ?case
  proof (cases "q @ keys")
    case Nil
    then show ?thesis using 2(1) by simp
  next
    case (Cons c r)
    have "q @ concat (keys # batches) = c # r @ concat batches" by (simp add: Cons append_assoc[symmetric] del: append_assoc)
    then show ?thesis using 2(2)[OF Cons] Cons by (simp del: concat.simps)
  qed
qed simp

lemma typed_by_idle: "length q \<le> n \<Longrightarrow> typed_by q (replicate n []) = q"
proof (induction n arbitrary: q)
  case (Suc n)
  then show ?case by (cases q) auto
qed simp

text \<open>Enough requests take every key.\<close>

lemma typed_by_all:
  "length (q @ concat batches) \<le> n \<Longrightarrow> typed_by q (batches @ replicate n []) = q @ concat batches"
proof (induction q batches rule: typed_by.induct)
  case (1 q)
  then show ?case by (simp add: typed_by_idle)
next
  case (2 q keys batches)
  show ?case
  proof (cases "q @ keys")
    case Nil
    then show ?thesis using 2(1,3) by simp
  next
    case (Cons c r)
    have "q @ concat (keys # batches) = c # r @ concat batches" by (simp add: Cons append_assoc[symmetric] del: append_assoc)
    then show ?thesis using 2(2)[OF Cons] 2(3) Cons by (simp del: concat.simps)
  qed
qed

lemma keys_fit_idle: "k \<le> 255 \<Longrightarrow> keys_fit k batches \<Longrightarrow> keys_fit k (batches @ replicate n [])"
proof (induction k batches rule: keys_fit.induct)
  case (1 k)
  then show ?case by (induction n arbitrary: k) auto
next
  case (2 k keys batches)
  then show ?case by (auto simp: le_diff_conv)
qed

lemma answers_are_keys:
  assumes "dev_inv d" and "\<not> linux_guest ctx" and "asks_getchar env"
    and "keys_fit (length (rx_queue d)) batches" and "0xFF \<notin> set (rx_queue d @ concat batches)"
  shows "keys_of (answers env batches ctx d) = typed_by (rx_queue d) batches"
  using assms
proof (induction env batches ctx d rule: answers.induct)
  case (2 env keys batches ctx d)
  let ?d = "fold stdin_push keys d"
  have q: "dev_inv ?d" "rx_queue ?d = rx_queue d @ keys"
    using push_keys[of d keys] "2.prems"(1,4) by simp_all
  obtain b ctx' d' where t: "getchar_turn env ctx ?d = (b, ctx', d')" by (metis prod_cases3)
  note T = getchar_turn_answer[OF q(1) "2.prems"(2,3) t, unfolded q(2)]
  have "keys_fit (length (rx_queue d')) batches" using "2.prems"(4) T(2) by simp
  moreover have "0xFF \<notin> set (rx_queue d' @ concat batches)"
  proof -
    have "set (tl xs) \<subseteq> set xs" for xs :: "u8 list" by (cases xs) auto
    from this[of "rx_queue d @ keys"] show ?thesis using "2.prems"(5) unfolding T(2) by auto
  qed
  ultimately have IH: "keys_of (answers env batches ctx' d') = typed_by (rx_queue d') batches"
    using "2.IH"[OF t[symmetric] HOL.refl HOL.refl T(3,4) "2.prems"(3)] by blast
  show ?case
  proof (cases "rx_queue d @ keys")
    case Nil
    then show ?thesis using T(1,2) IH t by simp
  next
    case (Cons c q)
    then have "c \<noteq> 0xFF" using "2.prems"(5) by (metis UnCI concat.simps(2) list.set_intros(1) set_append append.assoc)
    then show ?thesis using T(1,2) IH t Cons by simp
  qed
qed simp

section \<open>Programs do not see idle answers\<close>

text \<open>\<open>settle p\<close>: the result \<open>p\<close> with the idle answers dropped from the input left.\<close>

fun settle_outcome :: "'a outcome \<Rightarrow> 'a outcome" where
  "settle_outcome (Returns x rest) = Returns x (keys_of rest)"
| "settle_outcome Waits = Waits"
| "settle_outcome Exits = Exits"
| "settle_outcome Undefined = Undefined"

definition settle :: "'a io \<Rightarrow> 'a io" where
  "settle p = (fst p, settle_outcome (snd p))"

lemma settle_simps [simp]:
  "settle (t, r) = (t, settle_outcome r)" "fst (settle p) = fst p" "settle (say t p) = say t (settle p)"
  "settle (if b then p else q) = (if b then settle p else settle q)"
  by (simp_all add: settle_def say_def)

lemma settle_show_then: "settle (show_then t p) = show_then t (settle p)"
  by (cases t) (simp_all add: show_then_def)

lemma settle_io_bind:
  assumes "\<And>x rest. snd p = Returns x rest \<Longrightarrow> f (x) (keys_of rest) = settle (g x rest)"
  shows "io_bind (settle p) f = settle (io_bind p g)"
  using assms by (cases "snd p") (simp_all add: io_bind_def settle_def say_def)

lemma sint_idle: "sint (b :: u8) = - 1 \<longleftrightarrow> b = 0xFF"
proof -
  have "sint (0xFF :: u8) = - 1" by simp
  then show ?thesis by (metis signed_word_eqI)
qed

lemma getchar_keys: "getchar (keys_of inp) = map_option (apsnd keys_of) (getchar inp)"
  by (induction inp) (simp_all add: sint_idle)

lemma discard_keys: "discard_line (keys_of inp) = map_option keys_of (discard_line inp)"
proof (induction inp rule: discard_line.induct)
  case (1 inp)
  show ?case
  proof (cases "getchar inp")
    case None
    then show ?thesis by (simp add: discard_line.simps[of inp] discard_line.simps[of "keys_of inp"] getchar_keys)
  next
    case (Some p)
    then show ?thesis
      using 1[OF Some] by (cases p)
        (simp add: discard_line.simps[of inp] discard_line.simps[of "keys_of inp"] getchar_keys)
  qed
qed

lemma readline_loop_keys:
  "readline_loop bufsz buf pos (keys_of inp) = settle (readline_loop bufsz buf pos inp)"
proof (induction bufsz buf pos inp rule: readline_loop.induct)
  case (1 bufsz buf pos inp)
  show ?case
  proof (cases "pos < bufsz - 1")
    case False
    then show ?thesis
      by (simp add: readline_loop.simps[of bufsz buf pos] discard_keys split: option.split)
  next
    case room: True
    show ?thesis
    proof (cases "getchar inp")
      case None
      then show ?thesis using room by (simp add: readline_loop.simps[of bufsz buf pos] getchar_keys)
    next
      case (Some p)
      obtain ch inp' where g: "getchar inp = Some (ch, inp')" using Some by (cases p) auto
      note IH = "1.IH"[OF room g HOL.refl]
      show ?thesis
        using room g IH
        by (simp add: readline_loop.simps[of bufsz buf pos inp] readline_loop.simps[of bufsz buf pos "keys_of inp"]
            getchar_keys split: option.split)
    qed
  qed
qed

lemma readline_keys: "readline buf bufsz (keys_of inp) = settle (readline buf bufsz inp)"
  unfolding readline_def by (rule readline_loop_keys)

lemma echo_loop_keys: "echo_loop line (keys_of inp) = settle (echo_loop line inp)"
proof (induction line inp rule: echo_loop.induct)
  case (1 line inp)
  show ?case
    unfolding echo_loop.simps[of line inp] echo_loop.simps[of line "keys_of inp"] settle_show_then readline_keys
  proof (rule arg_cong[of _ _ "show_then _"], rule settle_io_bind, goal_cases)
    case (1 p rest)
    then show ?case
      using "1.IH"[OF 1]
      by (cases p) (auto simp: settle_show_then split: option.split)
  qed
qed

lemma calc_loop_keys: "calc_loop line (keys_of inp) = settle (calc_loop line inp)"
proof (induction line inp rule: calc_loop.induct)
  case (1 line inp)
  show ?case
    unfolding calc_loop.simps[of line inp] calc_loop.simps[of line "keys_of inp"] settle_show_then readline_keys
  proof (rule arg_cong[of _ _ "show_then _"], rule settle_io_bind, goal_cases)
    case (1 p rest)
    then show ?case
      using "1.IH"[OF 1]
      by (cases p) (auto simp: settle_show_then)
  qed
qed

lemma demos_keys:
  "echo_demo line (keys_of inp) = settle (echo_demo line inp)"
  "calculator_demo line (keys_of inp) = settle (calculator_demo line inp)"
  by (simp_all add: echo_demo_def calculator_demo_def settle_show_then echo_loop_keys calc_loop_keys)

lemma main_loop_keys: "main_loop input line (keys_of inp) = settle (main_loop input line inp)"
proof (induction input line inp rule: main_loop.induct)
  case (1 input line inp)
  show ?case
    unfolding main_loop.simps[of input line inp] main_loop.simps[of input line "keys_of inp"] settle_show_then readline_keys
  proof (rule arg_cong[of _ _ "show_then _"], rule settle_io_bind, goal_cases)
    case (1 p rest)
    obtain len input' where p: "p = (len, input')" by (cases p)
    show ?case
    proof (cases "char_at input' 0")
      case None
      then show ?thesis by (simp add: p)
    next
      case (Some choice)
      note IH = "1.IH"[OF 1 p[symmetric] Some]
      show ?thesis
        using IH by (simp add: p Some settle_show_then demos_keys settle_io_bind)
    qed
  qed
qed

lemma shell_keys: "shell_main input line (keys_of inp) = settle (shell_main input line inp)"
  by (simp add: shell_main_def settle_show_then main_loop_keys)

section \<open>System calls\<close>

text \<open>The exit that the \<^verbatim>\<open>outb\<close> of \<^verbatim>\<open>syscall\<close> causes, with the registers it leaves for the VMM.\<close>

definition syscall_env :: "syscall_regs \<Rightarrow> kvm_env" where
  "syscall_env r =
     \<lparr>env_regs = Some (zero_regs\<lparr>rax := ucast (sc_eax r), rbx := ucast (sc_ebx r), rcx := ucast (sc_ecx r),
                                rdx := ucast (sc_edx r)\<rparr>),
      env_sregs = None, env_debug_ok = True\<rparr>"

definition syscall_out :: "syscall_regs \<Rightarrow> io_exit" where
  "syscall_out r = \<lparr>io_direction = KVM_EXIT_IO_OUT, io_size = 1, io_port = ucast (sc_edx r), io_data = [ucast (sc_eax r)]\<rparr>"

definition do_syscall :: "syscall_regs \<Rightarrow> vcpu_context \<Rightarrow> vmm_dev \<Rightarrow> int \<times> vcpu_context \<times> vmm_dev" where
  "do_syscall r ctx d = (let (ret, _, ctx, d) = handle_io (syscall_env r) (syscall_out r) ctx d in (ret, ctx, d))"

definition user_putchar :: "u8 \<Rightarrow> syscall_regs" where
  "user_putchar ch = syscall 1 (scast ch) 0 0"

definition write_text :: "vcpu_context \<Rightarrow> u8 list \<Rightarrow> vmm_dev \<Rightarrow> vmm_dev" where
  "write_text ctx text d = fold (\<lambda>ch d. snd (snd (do_syscall (user_putchar ch) ctx d))) text d"

lemma syscall_port: "ucast (sc_edx (syscall n a b c)) = HYPERCALL_PORT"
proof -
  have "ucast ((c AND 0xFFFF0000) OR 0x500) =
      (ucast c AND ucast (0xFFFF0000 :: u32) OR ucast (0x500 :: u32) :: u16)"
    by (simp only: unsigned_or_eq unsigned_and_eq)
  also have "ucast (0xFFFF0000 :: u32) = (0 :: u16)" by code_simp
  also have "ucast (0x500 :: u32) = (0x500 :: u16)" by code_simp
  finally show ?thesis by (simp add: syscall_def HYPERCALL_PORT_def)
qed

lemma syscall_char: "(ucast (ucast (scast (ch :: u8) :: u32) AND 0xFF :: u64) :: u8) = ch"
proof -
  have "(0xFF :: u64) = mask 8" by (simp add: mask_eq_exp_minus_1)
  show ?thesis unfolding \<open>0xFF = mask 8\<close> by (intro bit_word_eqI) (auto simp: bit_simps)
qed

lemma syscall_hypercall:
  "\<not> linux_guest ctx \<Longrightarrow>
     do_syscall (syscall n a b c) ctx d =
     handle_hypercall_out ctx (zero_regs\<lparr>rax := ucast n, rbx := ucast a, rcx := ucast b,
       rdx := ucast (sc_edx (syscall n a b c))\<rparr>) d"
  using syscall_port[of n a b c]
  by (simp add: do_syscall_def handle_io_def syscall_env_def syscall_out_def split: prod.split)
    (simp add: syscall_def)

lemma putchar_console:
  assumes "\<not> linux_guest ctx" and "num_vcpus d \<le> 1"
  shows "do_syscall (user_putchar ch) ctx d = (0, ctx, d\<lparr>console := console d @ [ch]\<rparr>)"
  using assms
  by (simp add: user_putchar_def syscall_hypercall handle_hypercall_out_def hc_defs vcpu_putchar_def syscall_char)

lemma write_text_console:
  "\<not> linux_guest ctx \<Longrightarrow> num_vcpus d \<le> 1 \<Longrightarrow> write_text ctx text d = d\<lparr>console := console d @ text\<rparr>"
  by (induction "text" arbitrary: d) (simp_all add: write_text_def putchar_console)

text \<open>A system call as a result of \<^verbatim>\<open>KVM_RUN\<close> in the loop of the thread.\<close>

definition syscall_exit :: "syscall_regs \<Rightarrow> (kvm_env \<times> kvm_exit) option" where
  "syscall_exit r = Some (syscall_env r, KVM_EXIT_IO (syscall_out r))"

lemma syscall_exit_served:
  assumes "\<not> linux_guest ctx" and "\<not> singlestep_paused ctx" and "do_syscall r (ctx\<lparr>exit_count := exit_count ctx + 1\<rparr>) d = (ret, ctx', d')"
    and "running ctx"
  shows "vcpu_thread (syscall_exit r # rs) ctx d =
    (if ret < 0 then Some (Thread_done, ctx', d') else vcpu_thread rs ctx' d')"
  using assms
  by (auto simp: syscall_exit_def do_syscall_def handle_vm_exit_def resume_singlestep_def Let_def split: prod.splits)

lemma file_syscall_fails:
  assumes "\<not> linux_guest ctx" and "r = readfile filename buf len \<or> r = writefile filename buf len"
  shows "do_syscall r ctx d = (- 1, ctx, d)"
  using assms by (auto simp: readfile_def writefile_def syscall_hypercall handle_hypercall_out_def hc_defs)

lemma putchars_run:
  assumes "running ctx" "\<not> linux_guest ctx" "\<not> singlestep_paused ctx" "num_vcpus d \<le> 1"
  shows "vcpu_thread (map (\<lambda>c. syscall_exit (user_putchar c)) text @ rs) ctx d =
    vcpu_thread rs (ctx\<lparr>exit_count := exit_count ctx + int (length text)\<rparr>) (d\<lparr>console := console d @ text\<rparr>)"
  using assms
proof (induction "text" arbitrary: ctx d)
  case (Cons c cs)
  let ?ctx = "ctx\<lparr>exit_count := exit_count ctx + 1\<rparr>"
  have "do_syscall (user_putchar c) ?ctx d = (0, ?ctx, d\<lparr>console := console d @ [c]\<rparr>)"
    using Cons.prems by (intro putchar_console) simp_all
  from syscall_exit_served[OF Cons.prems(2,3) this Cons.prems(1)] Cons.IH[of ?ctx] Cons.prems
  show ?case by (simp add: add.assoc)
qed simp

section \<open>Properties\<close>

text \<open>
  C6: a session with the shell through the VMM, with one vCPU. However the keys are spread over the
  requests of the shell, as long as none finds the queue full or is 0xFF, the shell behaves as on the
  keys handed over so far, each request having taken the oldest one waiting: it ends in the same way, and
  the console shows what the shell writes on those keys. They are a beginning of the keys typed, and
  after as many further requests as there are keys they are all of them.
\<close>

theorem shell_session:
  assumes "dev_inv d" and "\<not> linux_guest ctx" and "asks_getchar env" and "num_vcpus d \<le> 1"
    and "keys_fit (length (rx_queue d)) batches" and "0xFF \<notin> set (rx_queue d @ concat batches)"
  shows "settle (shell_main input line (answers env batches ctx d)) =
      shell_main input line (typed_by (rx_queue d) batches) \<and>
    console (write_text ctx (fst (shell_main input line (answers env batches ctx d))) d) =
      console d @ fst (shell_main input line (typed_by (rx_queue d) batches)) \<and>
    prefix (typed_by (rx_queue d) batches) (rx_queue d @ concat batches) \<and>
    (\<forall>n \<ge> length (rx_queue d @ concat batches).
      settle (shell_main input line (answers env (batches @ replicate n []) ctx d)) =
        shell_main input line (rx_queue d @ concat batches))"
proof (intro conjI allI impI)
  let ?r = "shell_main input line (answers env batches ctx d)"
  show s: "settle ?r = shell_main input line (typed_by (rx_queue d) batches)"
    unfolding shell_keys[symmetric] answers_are_keys[OF assms(1-3,5,6)] ..
  then have "fst ?r = fst (shell_main input line (typed_by (rx_queue d) batches))" by (metis settle_simps(2))
  then show "console (write_text ctx (fst ?r) d) =
      console d @ fst (shell_main input line (typed_by (rx_queue d) batches))"
    using write_text_console[OF assms(2,4)] by simp
  show "prefix (typed_by (rx_queue d) batches) (rx_queue d @ concat batches)" by (rule typed_by_prefix)
  fix n
  assume n: "length (rx_queue d @ concat batches) \<le> n"
  have "length (rx_queue d) \<le> 255" by (simp add: rx_queue_def kb_count_def KEYBOARD_BUFFER_SIZE_def less_Suc_eq_le[symmetric])
  then have f: "keys_fit (length (rx_queue d)) (batches @ replicate n [])" by (rule keys_fit_idle[OF _ assms(5)])
  have "0xFF \<notin> set (rx_queue d @ concat (batches @ replicate n []))" using assms(6) by simp
  from answers_are_keys[OF assms(1-3) f this]
  show "settle (shell_main input line (answers env (batches @ replicate n []) ctx d)) =
      shell_main input line (rx_queue d @ concat batches)"
    unfolding shell_keys[symmetric] typed_by_all[OF n] by simp
qed

theorem shell_session_witness:
  "settle (shell_main (replicate 8 0) (replicate 64 0)
       (answers (sample_env 2) [[], ascii ''0'', [], nl, []] sample_ctx vmm_dev_init)) =
     shell_main (replicate 8 0) (replicate 64 0) (ascii ''0'' @ nl)"
proof -
  have rx: "rx_queue vmm_dev_init = []" by (rule sample_dev_rx)
  have 1: "\<not> linux_guest sample_ctx" "num_vcpus vmm_dev_init \<le> 1" "asks_getchar (sample_env 2)"
    by (simp_all add: sample_ctx_def zero_context_def vmm_dev_init_def asks_getchar_def sample_env_def hc_defs zero_regs_def)
  have 2: "keys_fit (length (rx_queue vmm_dev_init)) [[], ascii ''0'', [], nl, []]"
    "0xFF \<notin> set (rx_queue vmm_dev_init @ concat [[], ascii ''0'', [], nl, []])"
    unfolding rx by code_simp+
  have c: "typed_by (rx_queue vmm_dev_init) [[], ascii ''0'', [], nl, []] = ascii ''0'' @ nl" unfolding rx by code_simp
  show ?thesis
    using shell_session[OF dev_inv_init 1(1,3,2) 2, of "replicate 8 0" "replicate 64 0"] unfolding c by blast
qed

text \<open>
  C37: the file system calls end the guest. The VMM does not know the numbers of \<^verbatim>\<open>readfile\<close> and
  \<^verbatim>\<open>writefile\<close>: a program that has written some text and then makes one of the two calls has its text on
  the console, and its vCPU thread ends there, with nothing answered and no exit after it handled.
\<close>

theorem file_syscalls_unsupported:
  assumes "running ctx" and "\<not> linux_guest ctx" and "\<not> singlestep_paused ctx" and "num_vcpus d \<le> 1"
    and "r = readfile filename buf len \<or> r = writefile filename buf len"
  shows "vcpu_thread (map (\<lambda>c. syscall_exit (user_putchar c)) written @ syscall_exit r # rs) ctx d =
    Some (Thread_done, ctx\<lparr>exit_count := exit_count ctx + int (length written) + 1\<rparr>,
      d\<lparr>console := console d @ written\<rparr>)"
proof -
  let ?ctx = "ctx\<lparr>exit_count := exit_count ctx + int (length written)\<rparr>" and ?d = "d\<lparr>console := console d @ written\<rparr>"
  have c: "\<not> linux_guest ?ctx" "\<not> singlestep_paused ?ctx" "running ?ctx" using assms(1-3) by simp_all
  have "do_syscall r (?ctx\<lparr>exit_count := exit_count ?ctx + 1\<rparr>) ?d = (- 1, ?ctx\<lparr>exit_count := exit_count ?ctx + 1\<rparr>, ?d)"
    by (rule file_syscall_fails[OF _ assms(5)]) (use c(1) in simp)
  from syscall_exit_served[OF c(1,2) this c(3)] show ?thesis
    unfolding putchars_run[OF assms(1-4)] by (simp add: add.assoc)
qed

theorem file_syscalls_unsupported_witness:
  "vcpu_thread (map (\<lambda>c. syscall_exit (user_putchar c)) (ascii ''>'') @
       syscall_exit (readfile 0x1000100 0x1000200 64) # [syscall_exit (user_putchar 33)]) sample_ctx vmm_dev_init =
     Some (Thread_done, sample_ctx\<lparr>exit_count := exit_count sample_ctx + 2\<rparr>,
       vmm_dev_init\<lparr>console := console vmm_dev_init @ ascii ''>''\<rparr>)"
  using file_syscalls_unsupported[of sample_ctx vmm_dev_init "readfile 0x1000100 0x1000200 64" "0x1000100" "0x1000200" 64
      "ascii ''>''" "[syscall_exit (user_putchar 33)]"]
  by (simp add: sample_ctx_def zero_context_def vmm_dev_init_def ascii_def)

end
