(* ===== verification/Os_Memory.thy ===== *)
theory Os_Memory
  imports Os_Lib Paging32
begin

text \<open>
  The memory of the 1K OS kernel (\<^verbatim>\<open>os-1k/kernel.c\<close>): the bump allocator \<^verbatim>\<open>alloc_pages\<close>, the page
  tables that \<^verbatim>\<open>map_page\<close> writes, and the address space \<^verbatim>\<open>create_process\<close> builds. The kernel runs
  on the page tables of the VMM, so its pointers reach the 4 MB of RAM at their own address and at
  0x80000000; an access elsewhere faults. The abstract view of an address space is a map from page
  numbers to page table entries.
\<close>

section \<open>State and faults\<close>

record kernel_mem =
  kram :: gmem
  next_paddr :: u32

datatype kfault = Panic | Page_Fault

definition and_then :: "'e + 'a \<Rightarrow> ('a \<Rightarrow> 'e + 'b) \<Rightarrow> 'e + 'b" where
  "and_then r f = (case r of Inl e \<Rightarrow> Inl e | Inr x \<Rightarrow> f x)"

lemma and_then_simps [simp]: "and_then (Inl e) f = Inl e" "and_then (Inr x) f = f x"
  by (simp_all add: and_then_def)

lemma and_then_Inr: "and_then r f = Inr y \<longleftrightarrow> (\<exists>x. r = Inr x \<and> f x = Inr y)"
  by (cases r) simp_all

definition or_fault :: "'a option \<Rightarrow> kfault + 'a" where
  "or_fault r = (case r of None \<Rightarrow> Inl Page_Fault | Some x \<Rightarrow> Inr x)"

lemma or_fault_simps [simp]: "or_fault (Some x) = Inr x" "or_fault None = Inl Page_Fault"
  by (simp_all add: or_fault_def)

fun kfor :: "'i list \<Rightarrow> ('i \<Rightarrow> 's \<Rightarrow> 'e + 's) \<Rightarrow> 's \<Rightarrow> 'e + 's" where
  "kfor [] body s = Inr s"
| "kfor (i # is) body s = and_then (body i s) (kfor is body)"

text \<open>The offset in RAM that a kernel pointer reaches.\<close>

definition kaddr :: "u32 \<Rightarrow> nat" where
  "kaddr va = (if va < 0x400000 then unat va else unat (va - 0x80000000))"

definition free_ram_end :: u32 where "free_ram_end = 0x803FF000"

section \<open>The allocator and the page tables\<close>

definition alloc_pages :: "u32 \<Rightarrow> kernel_mem \<Rightarrow> kfault + (u32 \<times> kernel_mem)" where
  "alloc_pages n k =
     (let vaddr = next_paddr k; nxt = next_paddr k + n * 4096 in
      if nxt > free_ram_end then Inl Panic
      else and_then (or_fault (memset (kram k) (kaddr vaddr) 0 (unat (n * 4096))))
             (\<lambda>m. Inr (vaddr, \<lparr>kram = m, next_paddr = nxt\<rparr>)))"

definition map_page :: "u32 \<Rightarrow> u32 \<Rightarrow> u32 \<Rightarrow> u32 \<Rightarrow> kernel_mem \<Rightarrow> kfault + kernel_mem" where
  "map_page page_table vaddr paddr flags k =
     (if vaddr AND 0xFFF \<noteq> 0 then Inl Panic
      else if paddr AND 0xFFF \<noteq> 0 then Inl Panic
      else
        let pde_at = kaddr page_table + 4 * pd_index vaddr in
        and_then (or_fault (load32 (kram k) pde_at)) (\<lambda>pde.
        and_then
          (if pde AND 1 = 0 then
             and_then (alloc_pages 1 k) (\<lambda>(pt_vaddr, k).
             and_then (or_fault (store32 (kram k) pde_at
                         (((pt_vaddr - 0x80000000) AND 0xFFFFF000) OR 1 OR 2 OR 4)))
               (\<lambda>m. Inr (k\<lparr>kram := m\<rparr>)))
           else Inr k) (\<lambda>k.
        and_then (or_fault (load32 (kram k) pde_at)) (\<lambda>pde.
        and_then (or_fault (store32 (kram k)
                   (kaddr ((pde AND 0xFFFFF000) + 0x80000000) + 4 * pt_index vaddr)
                   ((paddr AND 0xFFFFF000) OR flags OR 1)))
          (\<lambda>m. Inr (k\<lparr>kram := m\<rparr>))))))"

section \<open>Addresses\<close>

lemma page_mask: "(0xFFFFF000 :: u32) = NOT 0xFFF" by simp

lemma aligned_dvd: "w AND 0xFFF = 0 \<longleftrightarrow> 4096 dvd unat w" for w :: u32
proof -
  have "w AND 0xFFF = take_bit 12 w" unfolding mask12 by (simp add: take_bit_eq_mask)
  moreover have "unat (take_bit 12 w) = unat w mod 4096"
    by (subst unsigned_take_bit_eq) (simp add: take_bit_eq_mod)
  ultimately show ?thesis by (metis dvd_eq_mod_eq_0 unat_0 unat_eq_zero)
qed

lemma aligned_page: "w AND 0xFFF = 0 \<Longrightarrow> w AND 0xFFFFF000 = w" for w :: u32
  unfolding page_mask by (auto simp: bit_eq_iff bit_simps)

lemma unat_small: "t < 0x400000 \<Longrightarrow> unat (word_of_nat t :: u32) = t"
  by (simp add: unat_of_nat)

lemma unat_kernel: "t < 0x400000 \<Longrightarrow> unat (word_of_nat t + 0x80000000 :: u32) = t + 0x80000000"
  by (simp add: unat_word_ariths unat_of_nat)

lemma kaddr_kernel: "t < 0x400000 \<Longrightarrow> kaddr (word_of_nat t + 0x80000000) = t"
  using unat_kernel[of t] by (simp add: kaddr_def word_less_nat_alt unat_of_nat)

lemma table_entry:
  assumes "4096 dvd t" and "t < 0x400000"
  shows "(word_of_nat t :: u32) AND 0xFFF = 0"
    and "((word_of_nat t :: u32) OR 7) AND 1 \<noteq> 0"
    and "((word_of_nat t :: u32) OR 7) AND 0xFFFFF000 = word_of_nat t"
    and "((word_of_nat t :: u32) AND 0xFFFFF000) OR 1 OR 2 OR 4 = word_of_nat t OR 7"
proof -
  show a: "(word_of_nat t :: u32) AND 0xFFF = 0"
    using assms by (simp add: aligned_dvd unat_small)
  show "((word_of_nat t :: u32) OR 7) AND 1 \<noteq> 0"
    using page_entry_flags[OF a, of 7 1] by simp
  show "((word_of_nat t :: u32) OR 7) AND 0xFFFFF000 = word_of_nat t"
    unfolding page_mask by (rule page_entry_page[OF a]) simp
  show "((word_of_nat t :: u32) AND 0xFFFFF000) OR 1 OR 2 OR 4 = word_of_nat t OR 7"
    unfolding aligned_page[OF a] by (simp add: or.assoc)
qed

section \<open>What the allocator promises\<close>

text \<open>\<open>free_from k hi\<close>: RAM from offset \<open>hi\<close> up to the end of the free area is unallocated.\<close>

definition free_from :: "kernel_mem \<Rightarrow> nat \<Rightarrow> bool" where
  "free_from k hi \<longleftrightarrow> next_paddr k = word_of_nat hi + 0x80000000 \<and> 4096 dvd hi \<and>
     hi \<le> 0x3FF000 \<and> 0x3FF000 \<le> gm_size (kram k)"

lemma alloc_page:
  assumes "free_from k hi"
  shows "alloc_pages 1 k =
    (if hi + 4096 \<le> 0x3FF000
     then Inr (word_of_nat hi + 0x80000000,
       \<lparr>kram = the (gm_fill (kram k) hi 0 4096), next_paddr = word_of_nat (hi + 4096) + 0x80000000\<rparr>)
     else Inl Panic)"
proof -
  have hi: "hi < 0x400000" "next_paddr k = word_of_nat hi + 0x80000000"
    using assms by (auto simp: free_from_def)
  have nxt: "next_paddr k + 1 * 4096 = word_of_nat (hi + 4096) + 0x80000000"
    by (simp add: hi(2))
  have "hi + 4096 < 0x80000000" using hi(1) by simp
  then have "unat (word_of_nat (hi + 4096) + 0x80000000 :: u32) = hi + 4096 + 0x80000000"
    by (simp only: unat_word_ariths unat_of_nat) simp
  then have cmp: "word_of_nat (hi + 4096) + 0x80000000 > free_ram_end \<longleftrightarrow> \<not> hi + 4096 \<le> 0x3FF000"
    unfolding word_less_nat_alt free_ram_end_def by auto
  have fill: "memset (kram k) hi 0 4096 = gm_fill (kram k) hi 0 4096"
    by (rule memset_fill) simp
  have "\<exists>m. gm_fill (kram k) hi 0 4096 = Some m" if "hi + 4096 \<le> 0x3FF000"
    using that assms store_defined(3)[of hi 4096 "kram k" 0] by (auto simp: free_from_def)
  then show ?thesis
    unfolding alloc_pages_def Let_def nxt cmp
    by (auto simp: hi(2) kaddr_kernel[OF hi(1)] fill)
qed

lemma alloc_page_ok:
  assumes "free_from k hi" and "hi + 4096 \<le> 0x3FF000"
  obtains k' where "alloc_pages 1 k = Inr (word_of_nat hi + 0x80000000, k')"
    and "free_from k' (hi + 4096)" and "gm_fill (kram k) hi 0 4096 = Some (kram k')"
proof -
  obtain m where m: "gm_fill (kram k) hi 0 4096 = Some m" "gm_size m = gm_size (kram k)"
    using assms store_defined(3)[of hi 4096 "kram k" 0] by (auto simp: free_from_def)
  show ?thesis
  proof (rule that)
    show "alloc_pages 1 k = Inr (word_of_nat hi + 0x80000000,
        \<lparr>kram = m, next_paddr = word_of_nat (hi + 4096) + 0x80000000\<rparr>)"
      using assms(2) m(1) by (simp only: alloc_page[OF assms(1)]) simp
  qed (use assms m in \<open>auto simp: free_from_def\<close>)
qed

section \<open>Address spaces\<close>

text \<open>
  \<open>address_space m lo hi pd T P\<close>: at offset \<open>pd\<close> lies a page directory whose tables, by directory
  index, are at the offsets \<open>T\<close>; directory and tables are different pages of \<open>[lo, hi)\<close>, and
  the entry of page number \<open>n\<close> is \<open>P n\<close>, 0 where there is no table.
\<close>

definition address_space ::
  "gmem \<Rightarrow> nat \<Rightarrow> nat \<Rightarrow> nat \<Rightarrow> (nat \<Rightarrow> nat option) \<Rightarrow> (nat \<Rightarrow> u32) \<Rightarrow> bool" where
  "address_space m lo hi pd T P \<longleftrightarrow>
     4096 dvd pd \<and> lo \<le> pd \<and> pd + 4096 \<le> hi \<and> hi \<le> 0x3FF000 \<and> hi \<le> gm_size m \<and>
     (\<forall>i<1024. load32 m (pd + 4 * i) = Some (case T i of None \<Rightarrow> 0 | Some t \<Rightarrow> word_of_nat t OR 7)) \<and>
     (\<forall>i<1024. \<forall>t. T i = Some t \<longrightarrow> 4096 dvd t \<and> lo \<le> t \<and> t + 4096 \<le> hi \<and> t \<noteq> pd) \<and>
     (\<forall>i<1024. \<forall>j<1024. \<forall>t. T i = Some t \<and> T j = Some t \<longrightarrow> i = j) \<and>
     (\<forall>i<1024. \<forall>j<1024. case T i of None \<Rightarrow> P (1024 * i + j) = 0
        | Some t \<Rightarrow> load32 m (t + 4 * j) = Some (P (1024 * i + j)))"

lemma address_spaceD:
  assumes "address_space m lo hi pd T P"
  shows "4096 dvd pd" "lo \<le> pd" "pd + 4096 \<le> hi" "hi \<le> 0x3FF000" "hi \<le> gm_size m"
    and "i < 1024 \<Longrightarrow> load32 m (pd + 4 * i) = Some (case T i of None \<Rightarrow> 0 | Some t \<Rightarrow> word_of_nat t OR 7)"
    and "i < 1024 \<Longrightarrow> T i = Some t \<Longrightarrow> 4096 dvd t \<and> lo \<le> t \<and> t + 4096 \<le> hi \<and> t \<noteq> pd"
    and "i < 1024 \<Longrightarrow> j < 1024 \<Longrightarrow> T i = Some t \<Longrightarrow> T j = Some t \<Longrightarrow> i = j"
    and "i < 1024 \<Longrightarrow> j < 1024 \<Longrightarrow> T i = None \<Longrightarrow> P (1024 * i + j) = 0"
    and "i < 1024 \<Longrightarrow> j < 1024 \<Longrightarrow> T i = Some t \<Longrightarrow> load32 m (t + 4 * j) = Some (P (1024 * i + j))"
  using assms by (auto simp: address_space_def split: option.splits)

lemma address_spaceI:
  assumes "4096 dvd pd" "lo \<le> pd" "pd + 4096 \<le> hi" "hi \<le> 0x3FF000" "hi \<le> gm_size m"
    and "\<And>i. i < 1024 \<Longrightarrow>
      load32 m (pd + 4 * i) = Some (case T i of None \<Rightarrow> 0 | Some t \<Rightarrow> word_of_nat t OR 7)"
    and "\<And>i t. T i = Some t \<Longrightarrow> i < 1024 \<Longrightarrow> 4096 dvd t \<and> lo \<le> t \<and> t + 4096 \<le> hi \<and> t \<noteq> pd"
    and "\<And>i j t. T i = Some t \<Longrightarrow> T j = Some t \<Longrightarrow> i < 1024 \<Longrightarrow> j < 1024 \<Longrightarrow> i = j"
    and "\<And>i j. T i = None \<Longrightarrow> i < 1024 \<Longrightarrow> j < 1024 \<Longrightarrow> P (1024 * i + j) = 0"
    and "\<And>i j t. T i = Some t \<Longrightarrow> i < 1024 \<Longrightarrow> j < 1024 \<Longrightarrow> load32 m (t + 4 * j) = Some (P (1024 * i + j))"
  shows "address_space m lo hi pd T P"
  unfolding address_space_def using assms by (intro conjI allI impI) (simp_all split: option.splits)

lemma pages_apart:
  fixes a b :: nat
  assumes "4096 dvd a" and "4096 dvd b" and "a \<noteq> b"
  shows "a + 4096 \<le> b \<or> b + 4096 \<le> a"
  using assms by (auto elim!: dvdE)

text \<open>The page number of an address, by its two indices.\<close>

definition page_number :: "u32 \<Rightarrow> nat" where
  "page_number va = 1024 * pd_index va + pt_index va"

lemma page_number_eq: "page_number va = unat va div 4096"
proof -
  have "unat va div 2 ^ 22 = unat va div 2 ^ 12 div 1024"
    by (simp add: div_mult2_eq[symmetric])
  then show ?thesis
    unfolding page_number_def pd_index_eq pt_index_eq by (simp add: mult_div_mod_eq)
qed

lemma page_number_eqD:
  assumes "1024 * i + j = 1024 * i' + j'" and "j < 1024" and "j' < (1024::nat)"
  shows "i = i' \<and> j = j'"
proof -
  have "(1024 * i + j) div 1024 = i" "(1024 * i' + j') div 1024 = i'" using assms(2,3) by simp_all
  then show ?thesis using assms(1) by auto
qed

text \<open>What the walk of the processor finds in an address space.\<close>

lemma address_space_walk:
  assumes "address_space m lo hi pd T P"
  shows "walk_page_tables_32bit m (word_of_nat pd) va =
    Some (if P (page_number va) AND 1 = 0 then Not_Present
          else Physical ((P (page_number va) AND NOT 0xFFF) OR (va AND 0xFFF)))"
proof -
  note D = address_spaceD[OF assms]
  have pd: "pd < 0x400000" using D(3,4) by simp
  have cr3: "unat (word_of_nat pd AND NOT 0xFFF :: u32) = pd"
    unfolding page_mask[symmetric] aligned_page[OF table_entry(1)[OF D(1) pd]] by (rule unat_small[OF pd])
  show ?thesis
  proof (cases "T (pd_index va)")
    case None
    then have "load32 m (unat (word_of_nat pd AND NOT 0xFFF :: u32) + 4 * pd_index va) = Some 0"
      unfolding cr3 using D(6)[OF pd_index_less[of va]] by simp
    moreover have "P (page_number va) = 0"
      unfolding page_number_def by (rule D(9)[OF pd_index_less pt_index_less None])
    ultimately show ?thesis by (simp add: walk_absent)
  next
    case (Some t)
    then have t: "4096 dvd t" "t < 0x400000" using D(7)[OF pd_index_less[of va] Some] D(4) by auto
    let ?e = "word_of_nat t OR 7 :: u32"
    have e: "load32 m (unat (word_of_nat pd AND NOT 0xFFF :: u32) + 4 * pd_index va) = Some ?e"
      unfolding cr3 using D(6)[OF pd_index_less[of va]] Some by simp
    have p: "load32 m (unat (?e AND NOT 0xFFF) + 4 * pt_index va) = Some (P (page_number va))"
      unfolding page_mask[symmetric] table_entry(3)[OF t] unat_small[OF t(2)] page_number_def
      by (rule D(10)[OF pd_index_less pt_index_less Some])
    have "?e AND 0x80 = 0" using page_entry_flags[OF table_entry(1)[OF t], of 7 "0x80"] by simp
    then show ?thesis
      unfolding walk_page_tables_32bit_def Let_def
      using e p table_entry(2)[OF t] by simp
  qed
qed

section \<open>map_page updates one entry of the address space\<close>

text \<open>Writing the entry once the table exists.\<close>

lemma address_space_store:
  assumes A: "address_space m lo hi pd T P" and t: "T (pd_index va) = Some t"
    and w: "store32 m (t + 4 * pt_index va) e = Some m'"
  shows "address_space m' lo hi pd T (P(page_number va := e))"
proof -
  note D = address_spaceD[OF A]
  note i = pd_index_less[of va] and j = pt_index_less[of va]
  note T = D(7)[OF i t]
  have off: "load32 m' b = load32 m b" if "b + 4 \<le> t \<or> t + 4096 \<le> b" for b
    by (rule load32_store32_other[OF w]) (use that j in auto)
  have dir: "load32 m' (pd + 4 * i) = load32 m (pd + 4 * i)" if "i < 1024" for i
    by (rule off) (use that pages_apart[of pd t] T D(1) in auto)
  have tab: "load32 m' (s + 4 * j') = Some ((P(page_number va := e)) (1024 * i' + j'))"
    if s: "T i' = Some s" "i' < 1024" "j' < 1024" for i' j' s
  proof (cases "i' = pd_index va")
    case True
    then have "s = t" using s t by simp
    show ?thesis
    proof (cases "j' = pt_index va")
      case True
      then show ?thesis using load32_store32[OF w] \<open>i' = pd_index va\<close> \<open>s = t\<close> by (simp add: page_number_def)
    next
      case False
      then have "load32 m' (t + 4 * j') = load32 m (t + 4 * j')"
        by (intro load32_store32_other[OF w]) linarith
      then show ?thesis using D(10)[OF s(2,3,1)] False \<open>i' = pd_index va\<close> \<open>s = t\<close>
        by (simp add: page_number_def)
    qed
  next
    case False
    then have "s \<noteq> t" using D(8)[OF s(2) i] s(1) t by blast
    then have "load32 m' (s + 4 * j') = load32 m (s + 4 * j')"
      using pages_apart[of s t] T D(7)[OF s(2,1)] s(3) by (intro off) auto
    moreover have "1024 * i' + j' \<noteq> page_number va"
      using page_number_eqD[OF _ s(3) j] False by (auto simp: page_number_def)
    ultimately show ?thesis using D(10)[OF s(2,3,1)] by simp
  qed
  have none: "(P(page_number va := e)) (1024 * i' + j') = 0"
    if "T i' = None" "i' < 1024" "j' < 1024" for i' j'
  proof -
    have "i' \<noteq> pd_index va" using that(1) t by auto
    then have "1024 * i' + j' \<noteq> page_number va"
      using page_number_eqD[OF _ that(3) j] by (auto simp: page_number_def)
    then show ?thesis using D(9)[OF that(2,3,1)] by simp
  qed
  show ?thesis
  proof (rule address_spaceI)
    show "load32 m' (pd + 4 * i') = Some (case T i' of None \<Rightarrow> 0 | Some t \<Rightarrow> word_of_nat t OR 7)"
      if "i' < 1024" for i' using dir[OF that] D(6)[OF that] by simp
  qed (use D(1-5,7,8) tab none store32_size[OF w] in auto)
qed

text \<open>Adding an empty table first, when the directory has none.\<close>

lemma address_space_new_table:
  assumes A: "address_space m lo hi pd T P" and i: "i < 1024" "T i = None"
    and hi: "4096 dvd hi" "hi + 4096 \<le> 0x3FF000"
    and f: "gm_fill m hi 0 4096 = Some m1"
    and w: "store32 m1 (pd + 4 * i) (word_of_nat hi OR 7) = Some m2"
  shows "address_space m2 lo (hi + 4096) pd (T(i := Some hi)) P"
proof -
  note D = address_spaceD[OF A]
  have sz: "hi + 4096 \<le> gm_size m2"
    using f store32_size[OF w] gm_fill_size[OF f] by (auto simp: gm_fill_def gm_write_def split: if_splits)
  have old: "load32 m2 b = load32 m b" if "b + 4 \<le> pd \<or> pd + 4096 \<le> b" "b + 4 \<le> hi" for b
  proof -
    have "load32 m2 b = load32 m1 b" by (rule load32_store32_other[OF w]) (use that i in auto)
    also have "\<dots> = load32 m b" by (rule load32_fill_other[OF f]) (use that in auto)
    finally show ?thesis .
  qed
  have dir: "load32 m2 (pd + 4 * i') =
      Some (case (T(i := Some hi)) i' of None \<Rightarrow> 0 | Some t \<Rightarrow> word_of_nat t OR 7)" if "i' < 1024" for i'
  proof (cases "i' = i")
    case True
    then show ?thesis using load32_store32[OF w] by simp
  next
    case False
    then have "load32 m2 (pd + 4 * i') = load32 m1 (pd + 4 * i')"
      by (intro load32_store32_other[OF w]) linarith
    also have "\<dots> = load32 m (pd + 4 * i')"
      by (rule load32_fill_other[OF f]) (use that D(3) in auto)
    finally show ?thesis using D(6)[OF that] False by simp
  qed
  have tab: "load32 m2 (t + 4 * j) = Some (P (1024 * i' + j))"
    if t: "(T(i := Some hi)) i' = Some t" "i' < 1024" "j < 1024" for i' j t
  proof (cases "i' = i")
    case True
    then have "t = hi" using t by simp
    have "load32 m2 (t + 4 * j) = load32 m1 (t + 4 * j)"
      by (rule load32_store32_other[OF w]) (use \<open>t = hi\<close> D(3) i in auto)
    also have "\<dots> = Some 0" by (rule load32_fill0[OF f]) (use \<open>t = hi\<close> t(3) in auto)
    finally show ?thesis using D(9)[OF i(1) t(3) i(2)] True by simp
  next
    case False
    then have s: "T i' = Some t" using t by simp
    have "load32 m2 (t + 4 * j) = load32 m (t + 4 * j)"
      using D(7)[OF t(2) s] pages_apart[of t pd] D(1) t(3) by (intro old) auto
    then show ?thesis using D(10)[OF t(2,3) s] by simp
  qed
  have new: "t + 4096 \<le> hi" if "T i' = Some t" "i' < 1024" for i' t using D(7)[OF that(2,1)] by simp
  show ?thesis
  proof (rule address_spaceI)
    show "4096 dvd t \<and> lo \<le> t \<and> t + 4096 \<le> hi + 4096 \<and> t \<noteq> pd"
      if "(T(i := Some hi)) i' = Some t" "i' < 1024" for i' t
      using that D(2,3) D(7)[of i' t] hi(1) by (cases "i' = i") auto
    show "i' = j'" if "(T(i := Some hi)) i' = Some t" "(T(i := Some hi)) j' = Some t"
      "i' < 1024" "j' < 1024" for i' j' t
      using that D(8)[of i' j' t] new[of i' t] new[of j' t] by (cases "i' = i"; cases "j' = i") auto
    show "P (1024 * i' + j) = 0" if "(T(i := Some hi)) i' = None" "i' < 1024" "j < 1024" for i' j
      using that D(9)[of i' j] by (cases "i' = i") auto
  qed (use D(1,2,3) hi(2) sz dir tab in \<open>simp_all del: fun_upd_apply\<close>)
qed

text \<open>\<open>untouched pd T hi b n\<close>: the bytes \<open>[b, b + n)\<close> are allocated and in no table.\<close>

definition untouched :: "nat \<Rightarrow> (nat \<Rightarrow> nat option) \<Rightarrow> nat \<Rightarrow> nat \<Rightarrow> nat \<Rightarrow> bool" where
  "untouched pd T hi b n \<longleftrightarrow> b + n \<le> hi \<and> (b + n \<le> pd \<or> pd + 4096 \<le> b) \<and>
     (\<forall>i<1024. \<forall>t. T i = Some t \<longrightarrow> b + n \<le> t \<or> t + 4096 \<le> b)"

text \<open>\<open>apart pd T b n\<close>: the bytes \<open>[b, b + n)\<close> are neither in the directory nor in a table.\<close>

definition apart :: "nat \<Rightarrow> (nat \<Rightarrow> nat option) \<Rightarrow> nat \<Rightarrow> nat \<Rightarrow> bool" where
  "apart pd T b n \<longleftrightarrow> (b + n \<le> pd \<or> pd + 4096 \<le> b) \<and>
     (\<forall>i<1024. \<forall>t. T i = Some t \<longrightarrow> b + n \<le> t \<or> t + 4096 \<le> b)"

lemma untouched_table:
  "untouched pd T hi b n \<Longrightarrow> untouched pd (T(i := Some hi)) (hi + 4096) b n"
  by (auto simp: untouched_def)

text \<open>
  The first half of \<^verbatim>\<open>map_page\<close>: after it the directory has a table for the address.
\<close>

definition ensure_table :: "u32 \<Rightarrow> u32 \<Rightarrow> kernel_mem \<Rightarrow> kfault + kernel_mem" where
  "ensure_table page_table vaddr k =
     (let pde_at = kaddr page_table + 4 * pd_index vaddr in
      and_then (or_fault (load32 (kram k) pde_at)) (\<lambda>pde.
        if pde AND 1 = 0 then
          and_then (alloc_pages 1 k) (\<lambda>(pt_vaddr, k).
          and_then (or_fault (store32 (kram k) pde_at
                      (((pt_vaddr - 0x80000000) AND 0xFFFFF000) OR 1 OR 2 OR 4)))
            (\<lambda>m. Inr (k\<lparr>kram := m\<rparr>)))
        else Inr k))"

lemma ensure_table_ok:
  assumes F: "free_from k hi" and A: "address_space (kram k) lo hi pd T P"
    and room: "T (pd_index va) \<noteq> None \<or> hi + 4096 \<le> 0x3FF000"
  defines "T' \<equiv> (if T (pd_index va) = None then T(pd_index va := Some hi) else T)"
    and "hi' \<equiv> (if T (pd_index va) = None then hi + 4096 else hi)"
  obtains k' where "ensure_table (word_of_nat pd + 0x80000000) va k = Inr k'"
    and "free_from k' hi'" and "address_space (kram k') lo hi' pd T' P"
    and "\<And>b n. apart pd T' b n \<Longrightarrow> gm_read (kram k') b n = gm_read (kram k) b n"
proof (cases "T (pd_index va)")
  case (Some t)
  note D = address_spaceD[OF A]
  have pd: "pd < 0x400000" using D(3,4) by simp
  have t: "4096 dvd t" "t < 0x400000" using D(7)[OF pd_index_less Some] D(4) by auto
  have "ensure_table (word_of_nat pd + 0x80000000) va k = Inr k"
    unfolding ensure_table_def Let_def kaddr_kernel[OF pd] D(6)[OF pd_index_less]
    using Some table_entry(2)[OF t] by simp
  then show ?thesis using that[of k] F A Some unfolding T'_def hi'_def by simp
next
  case None
  note D = address_spaceD[OF A]
  have pd: "pd < 0x400000" using D(3,4) by simp
  have hi: "4096 dvd hi" "hi + 4096 \<le> 0x3FF000" "hi < 0x400000"
    using F room None by (auto simp: free_from_def)
  obtain k1 where a: "alloc_pages 1 k = Inr (word_of_nat hi + 0x80000000, k1)"
    "free_from k1 (hi + 4096)" "gm_fill (kram k) hi 0 4096 = Some (kram k1)"
    by (rule alloc_page_ok[OF F hi(2)])
  have "pd + 4 * pd_index va + 4 \<le> gm_size (kram k1)"
    using D(3,5) pd_index_less[of va] gm_fill_size[OF a(3)] by simp
  then obtain m2 where w: "store32 (kram k1) (pd + 4 * pd_index va) (word_of_nat hi OR 7) = Some m2"
    using store_defined(1) by blast
  have "ensure_table (word_of_nat pd + 0x80000000) va k = Inr (k1\<lparr>kram := m2\<rparr>)"
    unfolding ensure_table_def Let_def kaddr_kernel[OF pd] D(6)[OF pd_index_less]
    using None a(1) w table_entry(4)[OF hi(1,3)] by simp
  moreover have "free_from (k1\<lparr>kram := m2\<rparr>) hi'"
    using a(2) store32_size[OF w] None by (simp add: free_from_def hi'_def)
  moreover have "address_space m2 lo hi' pd T' P"
    using address_space_new_table[OF A pd_index_less None hi(1,2) a(3) w] None
    by (simp add: T'_def hi'_def)
  moreover have "gm_read m2 b n = gm_read (kram k) b n" if "apart pd T' b n" for b n
  proof -
    have u: "b + n \<le> hi \<or> hi + 4096 \<le> b" "b + n \<le> pd \<or> pd + 4096 \<le> b"
      using that None pd_index_less[of va] unfolding apart_def T'_def by auto
    have "gm_read m2 b n = gm_read (kram k1) b n"
      by (rule store_frame(2)[OF w]) (use u(2) pd_index_less[of va] in auto)
    also have "\<dots> = gm_read (kram k) b n" by (rule gm_fill_frame[OF a(3)]) (use u(1) in auto)
    finally show ?thesis .
  qed
  ultimately show ?thesis using that[of "k1\<lparr>kram := m2\<rparr>"] by simp
qed

lemma ensure_table_full:
  assumes F: "free_from k hi" and A: "address_space (kram k) lo hi pd T P"
    and full: "T (pd_index va) = None" "\<not> hi + 4096 \<le> 0x3FF000"
  shows "ensure_table (word_of_nat pd + 0x80000000) va k = Inl Panic"
proof -
  note D = address_spaceD[OF A]
  have pd: "pd < 0x400000" using D(3,4) by simp
  show ?thesis
    unfolding ensure_table_def Let_def kaddr_kernel[OF pd] D(6)[OF pd_index_less] alloc_page[OF F]
    using full by simp
qed

lemma map_page_ensure:
  "map_page page_table vaddr paddr flags k =
     (if vaddr AND 0xFFF \<noteq> 0 then Inl Panic
      else if paddr AND 0xFFF \<noteq> 0 then Inl Panic
      else
        let pde_at = kaddr page_table + 4 * pd_index vaddr in
        and_then (ensure_table page_table vaddr k) (\<lambda>k.
        and_then (or_fault (load32 (kram k) pde_at)) (\<lambda>pde.
        and_then (or_fault (store32 (kram k)
                   (kaddr ((pde AND 0xFFFFF000) + 0x80000000) + 4 * pt_index vaddr)
                   ((paddr AND 0xFFFFF000) OR flags OR 1)))
          (\<lambda>m. Inr (k\<lparr>kram := m\<rparr>)))))"
proof -
  have assoc: "and_then (or_fault r) (\<lambda>x. and_then (f x) g) = and_then (and_then (or_fault r) f) g"
    for r :: "u32 option" and f :: "u32 \<Rightarrow> kfault + kernel_mem" and g :: "kernel_mem \<Rightarrow> kfault + kernel_mem"
    by (cases r) simp_all
  show ?thesis unfolding map_page_def ensure_table_def Let_def assoc ..
qed

text \<open>
  \<^verbatim>\<open>map_page\<close> in an address space with room for a table: the entry of the page is set, every other
  entry and every byte outside the tables is what it was.
\<close>

lemma map_page_writes:
  assumes F: "free_from k hi" and A: "address_space (kram k) lo hi pd T P"
    and room: "T (pd_index va) \<noteq> None \<or> hi + 4096 \<le> 0x3FF000"
    and al: "va AND 0xFFF = 0" "pa AND 0xFFF = 0"
  defines "T' \<equiv> (if T (pd_index va) = None then T(pd_index va := Some hi) else T)"
    and "hi' \<equiv> (if T (pd_index va) = None then hi + 4096 else hi)"
  obtains k' where "map_page (word_of_nat pd + 0x80000000) va pa flags k = Inr k'"
    and "free_from k' hi'"
    and "address_space (kram k') lo hi' pd T' (P(page_number va := pa OR flags OR 1))"
    and "\<And>b n. apart pd T' b n \<Longrightarrow> gm_read (kram k') b n = gm_read (kram k) b n"
proof -
  obtain k1 where e: "ensure_table (word_of_nat pd + 0x80000000) va k = Inr k1"
    "free_from k1 hi'" "address_space (kram k1) lo hi' pd T' P"
    and fr: "\<And>b n. apart pd T' b n \<Longrightarrow> gm_read (kram k1) b n = gm_read (kram k) b n"
    using ensure_table_ok[OF F A room] unfolding T'_def hi'_def by blast
  note D = address_spaceD[OF e(3)]
  obtain t where t: "T' (pd_index va) = Some t"
    unfolding T'_def by (cases "T (pd_index va)") auto
  note tt = D(7)[OF pd_index_less t]
  have pd: "pd < 0x400000" "t < 0x400000" using D(3,4) tt by auto
  have "t + 4 * pt_index va + 4 \<le> gm_size (kram k1)" using tt D(5) pt_index_less[of va] by simp
  then obtain m where w: "store32 (kram k1) (t + 4 * pt_index va) (pa OR flags OR 1) = Some m"
    using store_defined(1) by blast
  have "map_page (word_of_nat pd + 0x80000000) va pa flags k = Inr (k1\<lparr>kram := m\<rparr>)"
    unfolding map_page_ensure Let_def kaddr_kernel[OF pd(1)] e(1) and_then_simps
      D(6)[OF pd_index_less] t option.case or_fault_simps table_entry(3)[OF conjunct1[OF tt] pd(2)]
      kaddr_kernel[OF pd(2)] aligned_page[OF al(2)] w
    using al by simp
  moreover have "free_from (k1\<lparr>kram := m\<rparr>) hi'"
    using e(2) store32_size[OF w] by (simp add: free_from_def)
  moreover have "address_space m lo hi' pd T' (P(page_number va := pa OR flags OR 1))"
    by (rule address_space_store[OF e(3) t w])
  moreover have "gm_read m b n = gm_read (kram k) b n" if u: "apart pd T' b n" for b n
  proof -
    have "b + n \<le> t \<or> t + 4096 \<le> b" using u t pd_index_less by (auto simp: apart_def)
    then have "gm_read m b n = gm_read (kram k1) b n"
      using pt_index_less[of va] by (intro store_frame(2)[OF w]) auto
    also have "\<dots> = gm_read (kram k) b n" by (rule fr[OF u])
    finally show ?thesis .
  qed
  ultimately show ?thesis using that[of "k1\<lparr>kram := m\<rparr>"] by simp
qed

lemma map_page_ok:
  assumes F: "free_from k hi" and A: "address_space (kram k) lo hi pd T P"
    and room: "T (pd_index va) \<noteq> None \<or> hi + 4096 \<le> 0x3FF000"
    and al: "va AND 0xFFF = 0" "pa AND 0xFFF = 0"
  defines "T' \<equiv> (if T (pd_index va) = None then T(pd_index va := Some hi) else T)"
    and "hi' \<equiv> (if T (pd_index va) = None then hi + 4096 else hi)"
  obtains k' where "map_page (word_of_nat pd + 0x80000000) va pa flags k = Inr k'"
    and "free_from k' hi'"
    and "address_space (kram k') lo hi' pd T' (P(page_number va := pa OR flags OR 1))"
    and "\<And>b n. untouched pd T' hi' b n \<Longrightarrow> b + n \<le> hi \<Longrightarrow> gm_read (kram k') b n = gm_read (kram k) b n"
proof (rule map_page_writes[OF F A room al, where flags = flags, folded T'_def hi'_def])
  fix k'
  assume k': "map_page (word_of_nat pd + 0x80000000) va pa flags k = Inr k'" "free_from k' hi'"
    "address_space (kram k') lo hi' pd T' (P(page_number va := pa OR flags OR 1))"
    and fr: "\<And>b n. apart pd T' b n \<Longrightarrow> gm_read (kram k') b n = gm_read (kram k) b n"
  show thesis by (rule that[OF k']) (rule fr, simp add: apart_def untouched_def)
qed

lemma map_page_full:
  assumes "free_from k hi" and "address_space (kram k) lo hi pd T P"
    and "T (pd_index va) = None" "\<not> hi + 4096 \<le> 0x3FF000"
  shows "map_page (word_of_nat pd + 0x80000000) va pa flags k = Inl Panic"
  unfolding map_page_ensure Let_def ensure_table_full[OF assms] by simp

section \<open>The address space of a process\<close>

text \<open>
  The part of \<^verbatim>\<open>create_process\<close> that builds the page tables: 4 MB of RAM at 0x80000000 and at 0 for
  the kernel, the pages of the image, and zeroed pages up to the end of the user stack. The result
  is the kernel's pointer to the page directory.
\<close>

definition user_base :: u32 where "user_base = 0x01000000"
definition user_stack_top :: u32 where "user_stack_top = 0x01004000"

definition map_kernel :: "u32 \<Rightarrow> u32 \<Rightarrow> kernel_mem \<Rightarrow> kfault + kernel_mem" where
  "map_kernel page_table base =
     kfor (map (\<lambda>i. base + 4096 * word_of_nat i) [0..<1024])
       (\<lambda>vaddr. map_page page_table vaddr (vaddr - base) 2)"

definition map_image_page :: "u32 \<Rightarrow> u32 \<Rightarrow> u32 \<Rightarrow> u32 \<Rightarrow> kernel_mem \<Rightarrow> kfault + kernel_mem" where
  "map_image_page page_table img image_size off k =
     and_then (alloc_pages 1 k) (\<lambda>(page_vaddr, k).
       let remaining = image_size - off;
           copy_size = (if 4096 \<le> remaining then 4096 else remaining) in
       and_then (or_fault (memcpy (kram k) (kaddr page_vaddr) (kaddr (img + off)) (unat copy_size)))
         (\<lambda>m. map_page page_table (user_base + off) (page_vaddr - 0x80000000) (4 OR 2) (k\<lparr>kram := m\<rparr>)))"

definition map_stack_page :: "u32 \<Rightarrow> u32 \<Rightarrow> kernel_mem \<Rightarrow> kfault + kernel_mem" where
  "map_stack_page page_table vaddr k =
     and_then (alloc_pages 1 k) (\<lambda>(page_vaddr, k).
       map_page page_table vaddr (page_vaddr - 0x80000000) (4 OR 2) k)"

definition build_address_space :: "u32 \<Rightarrow> u32 \<Rightarrow> kernel_mem \<Rightarrow> kfault + (u32 \<times> kernel_mem)" where
  "build_address_space img image_size k =
     and_then (alloc_pages 1 k) (\<lambda>(page_table, k).
     and_then (map_kernel page_table 0x80000000 k) (\<lambda>k.
     and_then (map_kernel page_table 0 k) (\<lambda>k.
     and_then
       (kfor (map (\<lambda>i. 4096 * word_of_nat i) [0..<(unat image_size + 4095) div 4096])
          (map_image_page page_table img image_size) k) (\<lambda>k.
     let code_end = user_base + ((image_size + 4096 - 1) AND NOT (4096 - 1)) in
     and_then
       (kfor (map (\<lambda>i. code_end + 4096 * word_of_nat i)
                [0..<(unat user_stack_top - unat code_end + 4095) div 4096])
          (map_stack_page page_table) k) (\<lambda>k.
     Inr (page_table, k))))))"

lemma kfor_append: "kfor (xs @ ys) body s = and_then (kfor xs body s) (kfor ys body)"
proof (induction xs arbitrary: s)
  case Nil
  then show ?case by simp
next
  case (Cons x xs)
  then show ?case by (cases "body x s") simp_all
qed

lemma page_of_base:
  assumes "i0 < 1024" and "i < 1024"
  shows "unat (word_of_nat (0x400000 * i0) + 4096 * word_of_nat i :: u32) = 0x400000 * i0 + 4096 * i"
    and "pd_index (word_of_nat (0x400000 * i0) + 4096 * word_of_nat i) = i0"
    and "page_number (word_of_nat (0x400000 * i0) + 4096 * word_of_nat i) = 1024 * i0 + i"
    and "(word_of_nat (0x400000 * i0) + 4096 * word_of_nat i :: u32) AND 0xFFF = 0"
proof -
  have "word_of_nat (0x400000 * i0) + 4096 * word_of_nat i = (word_of_nat (0x400000 * i0 + 4096 * i) :: u32)"
    by simp
  moreover have "0x400000 * i0 + 4096 * i < 2 ^ 32" using assms by simp
  ultimately show u: "unat (word_of_nat (0x400000 * i0) + 4096 * word_of_nat i :: u32) = 0x400000 * i0 + 4096 * i"
    by (simp only: unat_of_nat) simp
  show "pd_index (word_of_nat (0x400000 * i0) + 4096 * word_of_nat i) = i0"
    unfolding pd_index_eq u using assms by simp
  have "0x400000 * i0 + 4096 * i = 4096 * (1024 * i0 + i)" by simp
  then show "page_number (word_of_nat (0x400000 * i0) + 4096 * word_of_nat i) = 1024 * i0 + i"
    unfolding page_number_eq u by simp
  show "(word_of_nat (0x400000 * i0) + 4096 * word_of_nat i :: u32) AND 0xFFF = 0"
    unfolding aligned_dvd u by (intro dvd_add) simp_all
qed

text \<open>A window of RAM in one directory entry.\<close>

lemma map_window:
  assumes F: "free_from k hi" and A: "address_space (kram k) lo hi pd T P"
    and i0: "T i0 = None" "i0 < 1024" and room: "hi + 4096 \<le> 0x3FF000"
    and n: "0 < n" "n \<le> 1024"
  shows "\<exists>k'. kfor (map (\<lambda>i. word_of_nat (0x400000 * i0) + 4096 * word_of_nat i) [0..<n])
      (\<lambda>va. map_page (word_of_nat pd + 0x80000000) va (va - word_of_nat (0x400000 * i0)) 2) k = Inr k' \<and>
    free_from k' (hi + 4096) \<and>
    address_space (kram k') lo (hi + 4096) pd (T(i0 := Some hi))
      (\<lambda>p. if 1024 * i0 \<le> p \<and> p < 1024 * i0 + n then 4096 * word_of_nat (p - 1024 * i0) OR 2 OR 1 else P p) \<and>
    (\<forall>b l. untouched pd T hi b l \<longrightarrow> gm_read (kram k') b l = gm_read (kram k) b l)"
  using n
proof (induction n)
  case 0
  then show ?case by simp
next
  case (Suc n)
  let ?va = "\<lambda>i. word_of_nat (0x400000 * i0) + 4096 * word_of_nat i :: u32"
  let ?body = "\<lambda>va. map_page (word_of_nat pd + 0x80000000) va (va - word_of_nat (0x400000 * i0)) 2"
  let ?P = "\<lambda>n p. if 1024 * i0 \<le> p \<and> p < 1024 * i0 + n then 4096 * word_of_nat (p - 1024 * i0) OR 2 OR 1 else P p"
  have lt: "n < 1024" using Suc.prems by simp
  note pb = page_of_base[OF i0(2) lt]
  have pa: "?va n - word_of_nat (0x400000 * i0) = 4096 * word_of_nat n" by simp
  have al: "(4096 * word_of_nat n :: u32) AND 0xFFF = 0"
    using page_of_base(4)[of 0 n] lt by simp
  have upd: "(?P n)(1024 * i0 + n := 4096 * word_of_nat n OR 2 OR 1) = ?P (Suc n)"
    by (rule ext) auto
  have un: "untouched pd (T(i0 := Some hi)) (hi + 4096) b l \<and> b + l \<le> hi + 4096" if "untouched pd T hi b l" for b l
    using untouched_table[OF that, of i0] that by (auto simp: untouched_def)
  show ?case
  proof (cases "n = 0")
    case True
    obtain k' where k': "?body (?va n) k = Inr k'" "free_from k' (hi + 4096)"
      "address_space (kram k') lo (hi + 4096) pd (T(i0 := Some hi)) (P(1024 * i0 + n := 4096 * word_of_nat n OR 2 OR 1))"
      "\<And>b l. untouched pd (T(i0 := Some hi)) (hi + 4096) b l \<Longrightarrow> b + l \<le> hi \<Longrightarrow> gm_read (kram k') b l = gm_read (kram k) b l"
      using map_page_ok[OF F A, of "?va n" "4096 * word_of_nat n" 2] room pb al i0 unfolding pa pb by auto
    have "P(1024 * i0 + n := 4096 * word_of_nat n OR 2 OR 1) = ?P (Suc n)"
      using True by (intro ext) auto
    moreover have "gm_read (kram k') b l = gm_read (kram k) b l" if "untouched pd T hi b l" for b l
      using k'(4)[of b l] un[OF that] that by (simp add: untouched_def)
    ultimately show ?thesis using k' True by (intro exI[of _ k']) (simp del: fun_upd_apply)
  next
    case False
    then obtain k1 where k1: "kfor (map ?va [0..<n]) ?body k = Inr k1" "free_from k1 (hi + 4096)"
      "address_space (kram k1) lo (hi + 4096) pd (T(i0 := Some hi)) (?P n)"
      "\<And>b l. untouched pd T hi b l \<Longrightarrow> gm_read (kram k1) b l = gm_read (kram k) b l"
      using Suc.IH lt False by (auto simp del: fun_upd_apply)
    obtain k' where k': "?body (?va n) k1 = Inr k'" "free_from k' (hi + 4096)"
      "address_space (kram k') lo (hi + 4096) pd (T(i0 := Some hi)) ((?P n)(1024 * i0 + n := 4096 * word_of_nat n OR 2 OR 1))"
      "\<And>b l. untouched pd (T(i0 := Some hi)) (hi + 4096) b l \<Longrightarrow> b + l \<le> hi + 4096 \<Longrightarrow>
        gm_read (kram k') b l = gm_read (kram k1) b l"
      using map_page_ok[OF k1(2,3), of "?va n" "4096 * word_of_nat n" 2] pb al
      unfolding pa pb fun_upd_same by (auto simp del: fun_upd_apply)
    have "kfor (map ?va [0..<Suc n]) ?body k = Inr k'"
      using k1(1) k'(1) by (simp add: kfor_append)
    moreover have "gm_read (kram k') b l = gm_read (kram k) b l" if "untouched pd T hi b l" for b l
      using k'(4)[of b l] un[OF that] k1(4)[OF that] by simp
    ultimately show ?thesis using k'(2,3) unfolding upd by (intro exI[of _ k']) (simp del: fun_upd_apply)
  qed
qed

section \<open>The user pages\<close>

lemma load32_cong:
  assumes "gm_read m' b 4 = gm_read m b 4"
  shows "load32 m' b = load32 m b"
  using assms by (simp add: load32_def)

lemma address_space_frame:
  assumes A: "address_space m lo hi pd T P"
    and same: "\<And>b n. b + n \<le> hi \<Longrightarrow> gm_read m' b n = gm_read m b n"
    and hi': "hi \<le> hi'" "hi' \<le> 0x3FF000" "hi' \<le> gm_size m'"
  shows "address_space m' lo hi' pd T P"
proof -
  note D = address_spaceD[OF A]
  have l: "load32 m' b = load32 m b" if "b + 4 \<le> hi" for b
    by (rule load32_cong[OF same[OF that]])
  show ?thesis
  proof (rule address_spaceI)
    show "load32 m' (pd + 4 * i) = Some (case T i of None \<Rightarrow> 0 | Some t \<Rightarrow> word_of_nat t OR 7)"
      if "i < 1024" for i using l[of "pd + 4 * i"] D(3) D(6)[OF that] that by simp
    show "load32 m' (t + 4 * j) = Some (P (1024 * i + j))"
      if "T i = Some t" "i < 1024" "j < 1024" for i j t
      using l[of "t + 4 * j"] D(7)[OF that(2,1)] D(10)[OF that(2,3,1)] that(3) by simp
    show "4096 dvd t \<and> lo \<le> t \<and> t + 4096 \<le> hi' \<and> t \<noteq> pd" if "T i = Some t" "i < 1024" for i t
      using D(7)[OF that(2,1)] hi'(1) by simp
  qed (use D hi' in auto)
qed

text \<open>
  \<open>user_space m0 lo hi pd P k pages\<close>: the pages of the list, each an offset in RAM and its contents,
  are mapped from \<open>user_base\<close> on with all rights, \<open>P\<close> holds for the other pages, and RAM below \<open>lo\<close>
  is as in \<open>m0\<close>. Allocation started at \<open>hi\<close>; the first page brings a page table along.
\<close>

definition user_top :: "nat \<Rightarrow> (nat \<times> u8 list) list \<Rightarrow> nat" where
  "user_top hi pages = (if pages = [] then hi else hi + 4096 * (length pages + 1))"

definition with_user_pages :: "(nat \<times> u8 list) list \<Rightarrow> (nat \<Rightarrow> u32) \<Rightarrow> nat \<Rightarrow> u32" where
  "with_user_pages pages P n =
     (if 4096 \<le> n \<and> n < 4096 + length pages
      then word_of_nat (fst (pages ! (n - 4096))) OR (4 OR 2) OR 1 else P n)"

definition user_space ::
  "gmem \<Rightarrow> nat \<Rightarrow> nat \<Rightarrow> nat \<Rightarrow> (nat \<Rightarrow> u32) \<Rightarrow> kernel_mem \<Rightarrow> (nat \<times> u8 list) list \<Rightarrow> bool" where
  "user_space m0 lo hi pd P k pages \<longleftrightarrow>
     (\<exists>T. free_from k (user_top hi pages) \<and>
        address_space (kram k) lo (user_top hi pages) pd T (with_user_pages pages P) \<and>
        (T 4 = None \<longleftrightarrow> pages = []) \<and>
        (\<forall>(d, c) \<in> set pages. 4096 dvd d \<and> lo \<le> d \<and> untouched pd T (user_top hi pages) d 4096 \<and>
           gm_read (kram k) d 4096 = Some c)) \<and>
     distinct (map fst pages) \<and>
     (\<forall>b n. b + n \<le> lo \<longrightarrow> gm_read (kram k) b n = gm_read m0 b n)"

lemma with_user_pages_snoc:
  "(with_user_pages pages P)(4096 + length pages := word_of_nat d OR (4 OR 2) OR 1) =
     with_user_pages (pages @ [(d, c)]) P"
  by (rule ext) (auto simp: with_user_pages_def nth_append)

lemma user_page:
  assumes "j < 1024"
  shows "pd_index (user_base + 4096 * word_of_nat j) = 4"
    and "page_number (user_base + 4096 * word_of_nat j) = 4096 + j"
    and "(user_base + 4096 * word_of_nat j) AND 0xFFF = 0"
    and "unat (user_base + 4096 * word_of_nat j) = 0x1000000 + 4096 * j"
  using page_of_base[of 4 j] assms by (simp_all add: user_base_def)

lemma user_space_alloc:
  assumes U: "user_space m0 lo hi pd P k pages"
    and n: "length pages < 1024" and room: "hi + 4096 * (length pages + 2) \<le> 0x3FF000"
  obtains d k1 where "alloc_pages 1 k = Inr (word_of_nat d + 0x80000000, k1)"
    and "d < 0x400000" "lo \<le> d" "d + 4096 \<le> gm_size (kram k1)"
    and "gm_read (kram k1) d 4096 = Some (replicate 4096 0)"
    and "\<And>b n. b + n \<le> d \<Longrightarrow> gm_read (kram k1) b n = gm_read (kram k) b n"
    and "\<And>m c. gm_size m = gm_size (kram k1) \<Longrightarrow> gm_read m d 4096 = Some c \<Longrightarrow>
      (\<And>b n. b + n \<le> d \<Longrightarrow> gm_read m b n = gm_read (kram k1) b n) \<Longrightarrow>
      \<exists>k'. map_page (word_of_nat pd + 0x80000000) (user_base + 4096 * word_of_nat (length pages))
             (word_of_nat d) (4 OR 2) (k1\<lparr>kram := m\<rparr>) = Inr k' \<and>
           user_space m0 lo hi pd P k' (pages @ [(d, c)])"
proof -
  define d where "d = user_top hi pages"
  have d2: "d + 4096 + (if pages = [] then 4096 else 0) = user_top hi (pages @ [(d, c)])" for c
    by (simp add: d_def user_top_def)
  have up: "d + 4096 \<le> 0x3FF000" "pages = [] \<Longrightarrow> d + 8192 \<le> 0x3FF000"
    using room by (auto simp: d_def user_top_def split: if_splits)
  have dist: "distinct (map fst pages)"
    and low: "\<And>b n. b + n \<le> lo \<Longrightarrow> gm_read (kram k) b n = gm_read m0 b n"
    using U unfolding user_space_def by simp_all
  obtain T where T': "free_from k d" "address_space (kram k) lo d pd T (with_user_pages pages P)"
    "T 4 = None \<longleftrightarrow> pages = []"
    "\<forall>(e, c) \<in> set pages. 4096 dvd e \<and> lo \<le> e \<and> untouched pd T d e 4096 \<and> gm_read (kram k) e 4096 = Some c"
    using U unfolding user_space_def d_def[symmetric] by (elim conjE exE)
  have T4: "4096 dvd e \<and> lo \<le> e \<and> untouched pd T d e 4096 \<and> gm_read (kram k) e 4096 = Some c"
    if "(e, c) \<in> set pages" for e c using T'(4) that by auto
  note T = T'(1-3) T4
  note D = address_spaceD[OF T(2)]
  have lo: "lo \<le> d" using D(2,3) by simp
  obtain k1 where a: "alloc_pages 1 k = Inr (word_of_nat d + 0x80000000, k1)"
    "free_from k1 (d + 4096)" "gm_fill (kram k) d 0 4096 = Some (kram k1)"
    by (rule alloc_page_ok[OF T(1) up(1)])
  have same: "gm_read (kram k1) b n = gm_read (kram k) b n" if "b + n \<le> d" for b n
    by (rule gm_fill_frame[OF a(3)]) (use that in simp)
  show ?thesis
  proof (rule that[OF a(1)])
    show "d < 0x400000" "lo \<le> d" using up lo by simp_all
    show "d + 4096 \<le> gm_size (kram k1)" using a(2) up by (simp add: free_from_def)
    show "gm_read (kram k1) d 4096 = Some (replicate 4096 0)" by (rule gm_read_fill[OF a(3)]) simp_all
    show "gm_read (kram k1) b n = gm_read (kram k) b n" if "b + n \<le> d" for b n by (rule same[OF that])
  next
    fix m c
    assume m: "gm_size m = gm_size (kram k1)" "gm_read m d 4096 = Some c"
      "\<And>b n. b + n \<le> d \<Longrightarrow> gm_read m b n = gm_read (kram k1) b n"
    let ?va = "user_base + 4096 * word_of_nat (length pages)" and ?k = "k1\<lparr>kram := m\<rparr>"
    let ?T = "if T 4 = None then T(4 := Some (d + 4096)) else T"
    let ?hi = "if T 4 = None then d + 4096 + 4096 else d + 4096"
    let ?P = "(with_user_pages pages P)(4096 + length pages := word_of_nat d OR (4 OR 2) OR 1)"
    have F: "free_from ?k (d + 4096)" using a(2) m(1) by (simp add: free_from_def)
    have "d + 4096 \<le> gm_size m" using a(2) m(1) up by (simp add: free_from_def)
    then have A: "address_space (kram ?k) lo (d + 4096) pd T (with_user_pages pages P)"
      using m(3) same up by (intro address_space_frame[OF T(2)]) auto
    have "4096 dvd d" using T(1) by (simp add: free_from_def)
    then have al: "(word_of_nat d :: u32) AND 0xFFF = 0"
      using up by (intro table_entry(1)) auto
    have r: "T 4 \<noteq> None \<or> d + 4096 + 4096 \<le> 0x3FF000" using T(3) up(2) by (cases "T 4") auto
    have sel: "kram ?k = m" by simp
    obtain k' where k': "map_page (word_of_nat pd + 0x80000000) ?va (word_of_nat d) (4 OR 2) ?k = Inr k'"
      "free_from k' ?hi" "address_space (kram k') lo ?hi pd ?T ?P"
      "\<And>b n. untouched pd ?T ?hi b n \<Longrightarrow> b + n \<le> d + 4096 \<Longrightarrow> gm_read (kram k') b n = gm_read m b n"
      by (rule map_page_ok[OF F A, of ?va "word_of_nat d" "4 OR 2", unfolded user_page(1,2)[OF n] sel,
            OF r user_page(3)[OF n] al]) blast
    have top: "?hi = user_top hi (pages @ [(d, c)])"
      using d2[of c] T(3) by (cases "pages = []") (simp_all add: add.commute)
    have old: "untouched pd ?T ?hi e 4096" if "untouched pd T d e 4096" for e
      using that by (auto simp: untouched_def)
    have new: "untouched pd ?T ?hi d 4096"
      using D(3) D(7) by (fastforce simp: untouched_def)
    have pages': "4096 dvd e \<and> lo \<le> e \<and> untouched pd ?T ?hi e 4096 \<and> gm_read (kram k') e 4096 = Some c'"
      if "(e, c') \<in> set (pages @ [(d, c)])" for e c'
    proof (cases "(e, c') \<in> set pages")
      case True
      note e = T(4)[OF True]
      have u: "untouched pd ?T ?hi e 4096" using old e by blast
      have "e + 4096 \<le> d" using e by (simp add: untouched_def)
      then show ?thesis using e u k'(4)[OF u] m(3)[of e 4096] same[of e 4096] by simp
    next
      case False
      then have "e = d" "c' = c" using that by auto
      then show ?thesis using \<open>4096 dvd d\<close> lo new k'(4)[OF new] m(2) by simp
    qed
    have dist': "distinct (map fst (pages @ [(d, c)]))"
    proof -
      have "d \<noteq> fst x" if "x \<in> set pages" for x
        using T(4)[of "fst x" "snd x"] that by (auto simp: untouched_def)
      then show ?thesis using dist by auto
    qed
    have low': "gm_read (kram k') b n = gm_read m0 b n" if "b + n \<le> lo" for b n
    proof -
      have "untouched pd ?T ?hi b n"
        using that D(2) D(7) lo by (fastforce simp: untouched_def)
      then have "gm_read (kram k') b n = gm_read m b n" using that lo by (intro k'(4)) auto
      then show ?thesis using m(3)[of b n] same[of b n] low[OF that] that lo by simp
    qed
    have "user_space m0 lo hi pd P k' (pages @ [(d, c)])"
      unfolding user_space_def top[symmetric]
    proof (intro conjI exI[of _ ?T])
      show "free_from k' ?hi" by (rule k'(2))
      show "address_space (kram k') lo ?hi pd ?T (with_user_pages (pages @ [(d, c)]) P)"
        using k'(3) unfolding with_user_pages_snoc[of pages P d c] .
      show "?T 4 = None \<longleftrightarrow> pages @ [(d, c)] = []" by simp
      show "\<forall>(e, c') \<in> set (pages @ [(d, c)]). 4096 dvd e \<and> lo \<le> e \<and> untouched pd ?T ?hi e 4096 \<and>
          gm_read (kram k') e 4096 = Some c'"
        using pages' by blast
      show "distinct (map fst (pages @ [(d, c)]))" by (rule dist')
      show "\<forall>b n. b + n \<le> lo \<longrightarrow> gm_read (kram k') b n = gm_read m0 b n" using low' by blast
    qed
    then show "\<exists>k'. map_page (word_of_nat pd + 0x80000000) ?va (word_of_nat d) (4 OR 2) ?k = Inr k' \<and>
        user_space m0 lo hi pd P k' (pages @ [(d, c)])"
      using k'(1) by blast
  qed
qed

section \<open>The loops over the user pages\<close>

lemma gm_read_append:
  assumes "gm_read m a (length xs) = Some xs" and "gm_read m (a + length xs) n = Some ys"
  shows "gm_read m a (length xs + n) = Some (xs @ ys)"
proof -
  have "[a..<a + (length xs + n)] = [a..<a + length xs] @ [a + length xs..<a + length xs + n]"
    using upt_add_eq_append[of a "a + length xs" n] by (simp add: add.assoc)
  then show ?thesis using assms by (simp add: gm_read_def split: if_splits)
qed

definition zero_page :: "u8 list" where "zero_page = replicate 4096 0"

text \<open>The \<open>i\<close>-th page of an image, padded with zeros.\<close>

definition image_page :: "u8 list \<Rightarrow> nat \<Rightarrow> u8 list" where
  "image_page bs i = (let c = take 4096 (drop (4096 * i) bs) in c @ replicate (4096 - length c) 0)"

definition page_count :: "nat \<Rightarrow> nat" where "page_count n = (n + 4095) div 4096"

lemma gm_write_zero_page:
  assumes "gm_read m d 4096 = Some (replicate 4096 0)" and "length c \<le> 4096"
    and w: "gm_write m d c = Some m'"
  shows "gm_read m' d 4096 = Some (c @ replicate (4096 - length c) 0)"
proof -
  have "gm_read m (d + length c) (4096 - length c) = Some (replicate (4096 - length c) 0)"
    using gm_read_slice[OF assms(1), of "length c" "4096 - length c"] assms(2) by simp
  then have "gm_read m' (d + length c) (4096 - length c) = Some (replicate (4096 - length c) 0)"
    using gm.rd_wr_other[OF w, of "d + length c" "4096 - length c"] by simp
  from gm_read_append[OF gm.rd_wr_same[OF w] this] show ?thesis using assms(2) by simp
qed

lemma image_address:
  assumes "src + off < 0x400000"
  shows "kaddr (word_of_nat src + 0x80000000 + word_of_nat off) = src + off"
proof -
  have "word_of_nat src + 0x80000000 + word_of_nat off = (word_of_nat (src + off) + 0x80000000 :: u32)" by simp
  then show ?thesis by (simp only: kaddr_kernel[OF assms])
qed

lemma map_image_loop:
  assumes U: "user_space m0 lo hi pd P k []"
    and img: "gm_read m0 src (length bs) = Some bs" "src + length bs \<le> lo"
    and n: "n \<le> page_count (length bs)" and room: "n = 0 \<or> hi + 4096 * (n + 1) \<le> 0x3FF000"
  shows "\<exists>k' pages. kfor (map (\<lambda>i. 4096 * word_of_nat i) [0..<n])
      (map_image_page (word_of_nat pd + 0x80000000) (word_of_nat src + 0x80000000) (word_of_nat (length bs))) k
        = Inr k' \<and>
    user_space m0 lo hi pd P k' pages \<and> map snd pages = map (image_page bs) [0..<n]"
  using n room
proof (induction n)
  case 0
  then show ?case using U by auto
next
  case (Suc n)
  let ?body = "map_image_page (word_of_nat pd + 0x80000000) (word_of_nat src + 0x80000000) (word_of_nat (length bs))"
  obtain k1 pages where k1: "kfor (map (\<lambda>i. 4096 * word_of_nat i) [0..<n]) ?body k = Inr k1"
    "user_space m0 lo hi pd P k1 pages" "map snd pages = map (image_page bs) [0..<n]"
    using Suc by auto
  have len: "length pages = n" using arg_cong[OF k1(3), of length] by simp
  have "Suc n \<le> (length bs + 4095) div 4096" using Suc.prems(1) by (simp add: page_count_def)
  then have "Suc n * 4096 \<le> length bs + 4095" by (simp add: less_eq_div_iff_mult_less_eq)
  then have off: "4096 * n < length bs" by simp
  have room': "n < 1024" "hi + 4096 * (n + 2) \<le> 0x3FF000" using Suc.prems(2) by simp_all
  obtain d k2 where a: "alloc_pages 1 k1 = Inr (word_of_nat d + 0x80000000, k2)"
    "d < 0x400000" "lo \<le> d" "d + 4096 \<le> gm_size (kram k2)"
    "gm_read (kram k2) d 4096 = Some (replicate 4096 0)"
    "\<And>b n. b + n \<le> d \<Longrightarrow> gm_read (kram k2) b n = gm_read (kram k1) b n"
    and step: "\<And>m c. gm_size m = gm_size (kram k2) \<Longrightarrow> gm_read m d 4096 = Some c \<Longrightarrow>
      (\<And>b n. b + n \<le> d \<Longrightarrow> gm_read m b n = gm_read (kram k2) b n) \<Longrightarrow>
      \<exists>k'. map_page (word_of_nat pd + 0x80000000) (user_base + 4096 * word_of_nat n)
             (word_of_nat d) (4 OR 2) (k2\<lparr>kram := m\<rparr>) = Inr k' \<and>
           user_space m0 lo hi pd P k' (pages @ [(d, c)])"
    by (rule user_space_alloc[OF k1(2), unfolded len, OF room']) blast
  define c where "c = take 4096 (drop (4096 * n) bs)"
  have c: "length c = min 4096 (length bs - 4096 * n)" by (simp add: c_def)
  have small: "length bs < 2 ^ 32" using img(2) a(2,3) by simp
  have rem: "unat (word_of_nat (length bs) - 4096 * word_of_nat n :: u32) = length bs - 4096 * n"
  proof -
    have "word_of_nat (length bs) - 4096 * word_of_nat n = (word_of_nat (length bs - 4096 * n) :: u32)"
      using off by (simp add: of_nat_diff)
    then show ?thesis using small by (simp add: unat_of_nat)
  qed
  have size: "unat (if (4096 :: u32) \<le> word_of_nat (length bs) - 4096 * word_of_nat n then 4096
      else word_of_nat (length bs) - 4096 * word_of_nat n :: u32) = length c"
    using rem by (auto simp: word_le_nat_alt c)
  have "take (length c) (drop (4096 * n) bs) = c" by (auto simp: c_def min_def)
  moreover have "4096 * n + length c \<le> length bs" using off c by simp
  ultimately have "gm_read m0 (src + 4096 * n) (length c) = Some c"
    using gm_read_slice[OF img(1), of "4096 * n" "length c"] by simp
  moreover have le: "src + 4096 * n + length c \<le> lo" using img(2) off c by simp
  ultimately have rd: "gm_read (kram k2) (src + 4096 * n) (length c) = Some c"
    using a(6)[of "src + 4096 * n" "length c"] a(3) k1(2) by (simp add: user_space_def)
  have dst: "d + length c \<le> gm_size (kram k2)" using a(4) c by simp
  obtain m where w: "gm_write (kram k2) d c = Some m" using dst by simp
  have "memcpy (kram k2) d (src + 4096 * n) (length c) = gm_write (kram k2) d c"
    by (rule memcpy_write[OF rd]) (use le a(3) dst off c in auto)
  moreover have "kaddr (word_of_nat src + 0x80000000 + 4096 * word_of_nat n) = src + 4096 * n"
    using image_address[of src "4096 * n"] le a(2,3) by simp
  ultimately have cp: "memcpy (kram k2) (kaddr (word_of_nat d + 0x80000000))
      (kaddr (word_of_nat src + 0x80000000 + 4096 * word_of_nat n)) (length c) = Some m"
    using w by (simp only: kaddr_kernel[OF a(2)])
  have img_page: "c @ replicate (4096 - length c) 0 = image_page bs n"
    by (simp add: image_page_def c_def Let_def)
  have other: "gm_read m b l = gm_read (kram k2) b l" if "b + l \<le> d" for b l
    by (rule gm.rd_wr_other[OF w]) (use that in simp)
  obtain k' where k': "map_page (word_of_nat pd + 0x80000000) (user_base + 4096 * word_of_nat n)
             (word_of_nat d) (4 OR 2) (k2\<lparr>kram := m\<rparr>) = Inr k'"
    "user_space m0 lo hi pd P k' (pages @ [(d, image_page bs n)])"
    using step[OF gm_write_size[OF w] gm_write_zero_page[OF a(5) _ w, unfolded img_page] other] c by auto
  have "?body (4096 * word_of_nat n) k1 = Inr k'"
    unfolding map_image_page_def a(1) and_then_simps prod.case Let_def size cp or_fault_simps
    using k'(1) by simp
  then have "kfor (map (\<lambda>i. 4096 * word_of_nat i) [0..<Suc n]) ?body k = Inr k'"
    using k1(1) by (simp add: kfor_append)
  then show ?case using k'(2) k1(3) by (intro exI[of _ k'] exI[of _ "pages @ [(d, image_page bs n)]"]) simp
qed

lemma map_stack_loop:
  assumes U: "user_space m0 lo hi pd P k pages"
    and room: "n = 0 \<or> hi + 4096 * (length pages + n + 1) \<le> 0x3FF000"
  shows "\<exists>k' zs. kfor (map (\<lambda>i. user_base + 4096 * word_of_nat (length pages) + 4096 * word_of_nat i) [0..<n])
      (map_stack_page (word_of_nat pd + 0x80000000)) k = Inr k' \<and>
    user_space m0 lo hi pd P k' (pages @ zs) \<and> map snd zs = replicate n zero_page"
  using room
proof (induction n)
  case 0
  then show ?case using U by auto
next
  case (Suc n)
  let ?va = "\<lambda>i. user_base + 4096 * word_of_nat (length pages) + 4096 * word_of_nat i"
  obtain k1 zs where k1: "kfor (map ?va [0..<n]) (map_stack_page (word_of_nat pd + 0x80000000)) k = Inr k1"
    "user_space m0 lo hi pd P k1 (pages @ zs)" "map snd zs = replicate n zero_page"
    using Suc by auto
  have len: "length zs = n" using arg_cong[OF k1(3), of length] by simp
  have room': "length (pages @ zs) < 1024" "hi + 4096 * (length (pages @ zs) + 2) \<le> 0x3FF000"
    using Suc.prems len by simp_all
  obtain d k2 where a: "alloc_pages 1 k1 = Inr (word_of_nat d + 0x80000000, k2)"
    "gm_read (kram k2) d 4096 = Some (replicate 4096 0)"
    and step: "\<And>m c. gm_size m = gm_size (kram k2) \<Longrightarrow> gm_read m d 4096 = Some c \<Longrightarrow>
      (\<And>b n. b + n \<le> d \<Longrightarrow> gm_read m b n = gm_read (kram k2) b n) \<Longrightarrow>
      \<exists>k'. map_page (word_of_nat pd + 0x80000000) (user_base + 4096 * word_of_nat (length (pages @ zs)))
             (word_of_nat d) (4 OR 2) (k2\<lparr>kram := m\<rparr>) = Inr k' \<and>
           user_space m0 lo hi pd P k' ((pages @ zs) @ [(d, c)])"
    by (rule user_space_alloc[OF k1(2) room']) blast
  obtain k' where k': "map_page (word_of_nat pd + 0x80000000) (user_base + 4096 * word_of_nat (length (pages @ zs)))
             (word_of_nat d) (4 OR 2) (k2\<lparr>kram := kram k2\<rparr>) = Inr k'"
    "user_space m0 lo hi pd P k' ((pages @ zs) @ [(d, zero_page)])"
    using step[OF refl a(2)] by (auto simp: zero_page_def)
  have va: "?va n = user_base + 4096 * word_of_nat (length (pages @ zs))"
    using len by (simp add: algebra_simps)
  have "map_stack_page (word_of_nat pd + 0x80000000) (?va n) k1 = Inr k'"
    unfolding va map_stack_page_def a(1) and_then_simps prod.case using k'(1) by simp
  then have "kfor (map ?va [0..<Suc n]) (map_stack_page (word_of_nat pd + 0x80000000)) k = Inr k'"
    using k1(1) by (simp add: kfor_append)
  then show ?case using k'(2) k1(3)
    by (intro exI[of _ k'] exI[of _ "zs @ [(d, zero_page)]"]) (simp add: replicate_append_same)
qed

section \<open>The address space that is built\<close>

lemma round_down: "w AND NOT 0xFFF = word_of_nat (4096 * (unat w div 4096))" for w :: u32
proof -
  have "w AND NOT (mask 12) = push_bit 12 (drop_bit 12 w)"
    by (rule bit_word_eqI) (auto simp: bit_simps)
  also have "drop_bit 12 w = word_of_nat (unat w div 4096)"
    using unat_less_2p32[of w] by (simp add: word_unat_eq_iff unat_drop_div unat_of_nat)
  also have "push_bit 12 (word_of_nat (unat w div 4096)) = (word_of_nat (4096 * (unat w div 4096)) :: u32)"
    by (simp add: push_bit_eq_mult mult.commute)
  finally show ?thesis unfolding mask12 .
qed

text \<open>What a process sees at a virtual address: the two windows of the kernel, and its pages.\<close>

definition process_view :: "(nat \<times> u8 list) list \<Rightarrow> u32 \<Rightarrow> walk_result" where
  "process_view pages va =
     (let j = (unat va - 0x1000000) div 4096 in
      if va < 0x400000 then Physical va
      else if 0x80000000 \<le> va \<and> va < 0x80400000 then Physical (va - 0x80000000)
      else if 0x1000000 \<le> va \<and> j < length pages
      then Physical (word_of_nat (fst (pages ! j)) OR (va AND 0xFFF))
      else Not_Present)"

definition kernel_entries :: "nat \<Rightarrow> u32" where
  "kernel_entries n =
     (if n < 1024 then 4096 * word_of_nat n OR 2 OR 1
      else if 524288 \<le> n \<and> n < 525312 then 4096 * word_of_nat (n - 524288) OR 2 OR 1 else 0)"

lemma walk_entry:
  fixes page f va :: u32
  assumes "page AND 0xFFF = 0" and "f AND NOT 0xFFF = 0" and "f AND 1 \<noteq> 0"
  shows "(if (page OR f) AND 1 = 0 then Not_Present
      else Physical (((page OR f) AND NOT 0xFFF) OR (va AND 0xFFF))) = Physical (page OR (va AND 0xFFF))"
  using page_entry_flags[OF assms(1), of f 1] page_entry_page[OF assms(1,2)] assms(3) by simp

lemma window_entry:
  fixes va :: u32
  shows "4096 * word_of_nat (unat va div 4096 mod 1024) OR (va AND 0xFFF) = take_bit 22 va"
    and "(4096 * word_of_nat (unat va div 4096 mod 1024) :: u32) AND 0xFFF = 0"
proof -
  have "(word_of_nat (pt_index va) :: u32) = drop_bit 12 va AND 0x3FF"
    by (simp add: pt_index_def)
  then have "4096 * word_of_nat (unat va div 4096 mod 1024) = push_bit 12 (drop_bit 12 va AND 0x3FF)"
    using pt_index_eq[of va] by (simp add: push_bit_eq_mult mult.commute)
  then show "4096 * word_of_nat (unat va div 4096 mod 1024) OR (va AND 0xFFF) = take_bit 22 va"
    and "(4096 * word_of_nat (unat va div 4096 mod 1024) :: u32) AND 0xFFF = 0"
    by (simp_all only: page_join page_shift_aligned)
qed

lemma process_walk:
  assumes A: "address_space m lo hi pd T (with_user_pages pages kernel_entries)"
    and pages: "\<And>d c. (d, c) \<in> set pages \<Longrightarrow> 4096 dvd d \<and> d < 0x400000"
    and n: "length pages \<le> 1024"
  shows "walk_page_tables_32bit m (word_of_nat pd) va = Some (process_view pages va)"
proof -
  define p where "p = unat va div 4096"
  let ?e = "with_user_pages pages kernel_entries p"
  have w: "walk_page_tables_32bit m (word_of_nat pd) va =
      Some (if ?e AND 1 = 0 then Not_Present else Physical ((?e AND NOT 0xFFF) OR (va AND 0xFFF)))"
    using address_space_walk[OF A, of va] by (simp add: page_number_eq p_def)
  have le: "va < 0x400000 \<longleftrightarrow> p < 1024" "0x80000000 \<le> va \<and> va < 0x80400000 \<longleftrightarrow> 524288 \<le> p \<and> p < 525312"
    "0x1000000 \<le> va \<longleftrightarrow> 4096 \<le> p"
    unfolding word_less_nat_alt word_le_nat_alt p_def by auto
  have j: "4096 \<le> p \<Longrightarrow> (unat va - 0x1000000) div 4096 = p - 4096"
    unfolding p_def by (simp add: div_le_dividend)
  have entry: "walk_page_tables_32bit m (word_of_nat pd) va = Some (Physical (page OR (va AND 0xFFF)))"
    if "?e = page OR f" "page AND 0xFFF = 0" "f AND NOT 0xFFF = 0" "f AND 1 \<noteq> 0" for page f
    using w walk_entry[OF that(2-4), of va] by (simp only: that(1))
  consider "p < 1024" | "524288 \<le> p" "p < 525312"
    | "4096 \<le> p" "p < 4096 + length pages" "p < 524288" "\<not> p < 1024"
    | "\<not> p < 1024" "\<not> (524288 \<le> p \<and> p < 525312)" "\<not> (4096 \<le> p \<and> p < 4096 + length pages)"
    using n by linarith
  then show ?thesis
  proof cases
    case 1
    then have "?e = 4096 * word_of_nat (unat va div 4096 mod 1024) OR 3"
      by (simp add: with_user_pages_def kernel_entries_def p_def or.assoc)
    moreover have "take_bit 22 va = va" by (rule take22_low) (use 1 p_def in simp)
    ultimately show ?thesis
      using entry[where f = 3, OF _ window_entry(2)[of va]] 1 unfolding window_entry(1)[of va]
      by (simp add: process_view_def le)
  next
    case 2
    have "p - 524288 = unat va div 4096 mod 1024"
    proof -
      obtain q where "p = 524288 + q" using 2 le_Suc_ex by blast
      then have "p = q + 512 * 1024" "q < 1024" using 2 by simp_all
      then have "p mod 1024 = q" by (simp only: mod_mult_self1 mod_less)
      then show ?thesis using \<open>p = q + 512 * 1024\<close> by (simp add: p_def[symmetric])
    qed
    then have "?e = 4096 * word_of_nat (unat va div 4096 mod 1024) OR 3"
      using 2 n by (simp add: with_user_pages_def kernel_entries_def or.assoc)
    moreover have "take_bit 22 va = va - 0x80000000"
      using 2 by (intro take22_high) (simp_all add: p_def)
    ultimately show ?thesis
      using entry[where f = 3, OF _ window_entry(2)[of va]] 2 unfolding window_entry(1)[of va]
      by (simp add: process_view_def le)
  next
    case 3
    let ?d = "fst (pages ! (p - 4096))"
    have "(?d, snd (pages ! (p - 4096))) \<in> set pages" using 3 by simp
    then have "(word_of_nat ?d :: u32) AND 0xFFF = 0" using pages table_entry(1) by blast
    moreover have "?e = word_of_nat ?d OR 7" using 3 by (simp add: with_user_pages_def or.assoc)
    ultimately show ?thesis
      using entry[where page = "word_of_nat ?d" and f = 7] 3 j
      by (simp add: process_view_def le Let_def)
  next
    case 4
    then have "?e = 0" by (auto simp: with_user_pages_def kernel_entries_def)
    then show ?thesis using w 4 j by (auto simp: process_view_def le Let_def)
  qed
qed

text \<open>With memory for the four tables and the user pages, the address space is built.\<close>

lemma user_spaceD:
  assumes "user_space m0 lo hi pd P k pages"
  shows "free_from k (user_top hi pages)"
    and "\<exists>T. address_space (kram k) lo (user_top hi pages) pd T (with_user_pages pages P)"
    and "(d, c) \<in> set pages \<Longrightarrow>
      4096 dvd d \<and> lo \<le> d \<and> d + 4096 \<le> user_top hi pages \<and> gm_read (kram k) d 4096 = Some c"
    and "distinct (map fst pages)"
    and "b + n \<le> lo \<Longrightarrow> gm_read (kram k) b n = gm_read m0 b n"
  using assms by (auto simp: user_space_def untouched_def)

lemma build_address_space_ok:
  fixes bs :: "u8 list"
  defines "n \<equiv> page_count (length bs)"
  assumes F: "free_from k hi" and room: "hi + 4096 * (max 4 n + 4) \<le> 0x3FF000"
    and img: "gm_read (kram k) src (length bs) = Some bs" "src + length bs \<le> hi"
  shows "\<exists>k' pages. build_address_space (word_of_nat src + 0x80000000) (word_of_nat (length bs)) k =
      Inr (word_of_nat hi + 0x80000000, k') \<and>
    user_space (kram k) hi (hi + 12288) hi kernel_entries k' pages \<and>
    map snd pages = map (image_page bs) [0..<n] @ replicate (4 - n) zero_page"
proof -
  have hi: "hi < 0x400000" "4096 dvd hi" using room F by (auto simp: free_from_def)
  have nroom: "hi + 12288 + 4096 * (n + 1) \<le> 0x3FF000" "hi + 12288 + 4096 * 5 \<le> 0x3FF000"
    using room by (auto simp: max_def split: if_splits)
  obtain k1 where a: "alloc_pages 1 k = Inr (word_of_nat hi + 0x80000000, k1)"
    "free_from k1 (hi + 4096)" "gm_fill (kram k) hi 0 4096 = Some (kram k1)"
    by (rule alloc_page_ok[OF F]) (use room in auto)
  have A1: "address_space (kram k1) hi (hi + 4096) hi (\<lambda>_. None) (\<lambda>_. 0)"
  proof (rule address_spaceI)
    show "load32 (kram k1) (hi + 4 * i) = Some (case None of None \<Rightarrow> 0 | Some t \<Rightarrow> word_of_nat t OR 7)"
      if "i < 1024" for i using load32_fill0[OF a(3), of "hi + 4 * i"] that by simp
  qed (use a(2) hi room in \<open>auto simp: free_from_def\<close>)
  have low1: "gm_read (kram k1) b l = gm_read (kram k) b l" if "b + l \<le> hi" for b l
    by (rule gm_fill_frame[OF a(3)]) (use that in simp)
  have base: "word_of_nat (0x400000 * 512) = (0x80000000 :: u32)" "word_of_nat (0x400000 * 0) = (0 :: u32)"
    by simp_all
  have num: "hi + 4096 + 4096 = hi + 8192" "1024 * 512 = (524288 :: nat)" "524288 + 1024 = (525312 :: nat)"
    "hi + 8192 + 4096 = hi + 12288" by simp_all
  obtain k2 where k2: "map_kernel (word_of_nat hi + 0x80000000) 0x80000000 k1 = Inr k2"
    "free_from k2 (hi + 8192)"
    "address_space (kram k2) hi (hi + 8192) hi ((\<lambda>_. None)(512 := Some (hi + 4096)))
      (\<lambda>p. if 524288 \<le> p \<and> p < 525312 then 4096 * word_of_nat (p - 524288) OR 2 OR 1 else 0)"
    "\<And>b l. b + l \<le> hi \<Longrightarrow> gm_read (kram k2) b l = gm_read (kram k1) b l"
    using map_window[OF a(2) A1, of 512 1024] room unfolding base map_kernel_def num
    by (auto simp: untouched_def simp del: fun_upd_apply)
  obtain k3 where k3: "map_kernel (word_of_nat hi + 0x80000000) 0 k2 = Inr k3"
    "free_from k3 (hi + 12288)"
    "address_space (kram k3) hi (hi + 12288) hi ((\<lambda>_. None)(512 := Some (hi + 4096), 0 := Some (hi + 8192)))
      kernel_entries"
    "\<And>b l. b + l \<le> hi \<Longrightarrow> gm_read (kram k3) b l = gm_read (kram k2) b l"
  proof -
    have e: "(\<lambda>p. if 1024 * 0 \<le> p \<and> p < 1024 * 0 + 1024 then 4096 * word_of_nat (p - 1024 * 0) OR 2 OR 1
        else if 524288 \<le> p \<and> p < 525312 then 4096 * word_of_nat (p - 524288) OR 2 OR 1 else 0) = kernel_entries"
      by (rule ext) (auto simp: kernel_entries_def)
    have u: "untouched hi ((\<lambda>_. None)(512 := Some (hi + 4096))) (hi + 8192) b l" if "b + l \<le> hi" for b l
      using that by (auto simp: untouched_def)
    have r: "((\<lambda>_. None)(512 := Some (hi + 4096))) (0 :: nat) = None" by simp
    have r': "hi + 8192 + 4096 \<le> 0x3FF000" using room by simp
    from map_window[OF k2(2,3) r _ r', of 1024, unfolded e base num] that u show thesis
      unfolding map_kernel_def by (auto simp del: fun_upd_apply)
  qed
  have U: "user_space (kram k) hi (hi + 12288) hi kernel_entries k3 []"
  proof -
    have "with_user_pages [] kernel_entries = kernel_entries"
      by (rule ext) (auto simp: with_user_pages_def)
    then show ?thesis
      unfolding user_space_def user_top_def using k3(2,3,4) k2(4) low1
      by (intro conjI exI[of _ "(\<lambda>_. None)(512 := Some (hi + 4096), 0 := Some (hi + 8192))"]) simp_all
  qed
  obtain k4 pages where k4: "kfor (map (\<lambda>i. 4096 * word_of_nat i) [0..<n])
      (map_image_page (word_of_nat hi + 0x80000000) (word_of_nat src + 0x80000000) (word_of_nat (length bs))) k3
        = Inr k4"
    "user_space (kram k) hi (hi + 12288) hi kernel_entries k4 pages"
    "map snd pages = map (image_page bs) [0..<n]"
    using map_image_loop[OF U img, of n] nroom by (auto simp: n_def)
  have len: "length pages = n" using arg_cong[OF k4(3), of length] by simp
  obtain k5 zs where k5: "kfor (map (\<lambda>i. user_base + 4096 * word_of_nat n + 4096 * word_of_nat i) [0..<4 - n])
      (map_stack_page (word_of_nat hi + 0x80000000)) k4 = Inr k5"
    "user_space (kram k) hi (hi + 12288) hi kernel_entries k5 (pages @ zs)"
    "map snd zs = replicate (4 - n) zero_page"
  proof -
    have "4 - n = 0 \<or> hi + 12288 + 4096 * (length pages + (4 - n) + 1) \<le> 0x3FF000"
      using nroom(2) len by (cases "n \<le> 4") simp_all
    from map_stack_loop[OF k4(2) this] that len show thesis by auto
  qed
  have small: "length bs < 0x400000" using img(2) hi(1) by simp
  have un: "unat (word_of_nat (length bs) :: u32) = length bs" using small by (simp add: unat_of_nat)
  have code_end: "user_base + ((word_of_nat (length bs) + 4096 - 1) AND NOT (4096 - 1)) =
      user_base + 4096 * word_of_nat n"
  proof -
    have "(word_of_nat (length bs) + 4096 - 1 :: u32) = word_of_nat (length bs + 4095)" by simp
    moreover have "unat (word_of_nat (length bs + 4095) :: u32) = length bs + 4095"
      unfolding unat_of_nat using small by simp
    ultimately have "(word_of_nat (length bs) + 4096 - 1 :: u32) AND NOT 0xFFF = word_of_nat (4096 * n)"
      using round_down[of "word_of_nat (length bs) + 4096 - 1"] by (simp only: n_def page_count_def)
    then show ?thesis by simp
  qed
  have "n < 1024" using room by simp
  then have count: "page_count (unat user_stack_top - unat (user_base + 4096 * word_of_nat n)) = 4 - n"
    unfolding page_count_def user_page(4)[OF \<open>n < 1024\<close>] user_stack_top_def by simp
  have "build_address_space (word_of_nat src + 0x80000000) (word_of_nat (length bs)) k =
      Inr (word_of_nat hi + 0x80000000, k5)"
    unfolding build_address_space_def a(1) and_then_simps prod.case k2(1) k3(1) un
      page_count_def[symmetric] n_def[symmetric] k4(1) Let_def code_end count k5(1)
    by simp
  then show ?thesis using k5(2,3) k4(3) by (intro exI[of _ k5] exI[of _ "pages @ zs"]) simp
qed

section \<open>Properties\<close>


lemma gm_read_zeros:
  "a + n \<le> s \<Longrightarrow> gm_read \<lparr>gm_size = s, gm_data = \<lambda>_. 0\<rparr> a n = Some (replicate n 0)"
  by (simp add: gm_read_def map_replicate_const)

lemma fresh_address_space:
  assumes "4096 dvd pd" "lo \<le> pd" "pd + 4096 \<le> hi" "hi \<le> 0x3FF000"
  shows "address_space \<lparr>gm_size = 0x400000, gm_data = \<lambda>_. 0\<rparr> lo hi pd (\<lambda>_. None) (\<lambda>_. 0)"
proof (rule address_spaceI)
  show "load32 \<lparr>gm_size = 0x400000, gm_data = \<lambda>_. 0\<rparr> (pd + 4 * i) =
      Some (case None of None \<Rightarrow> 0 | Some t \<Rightarrow> word_of_nat t OR 7)" if "i < 1024" for i
    using that assms by (simp add: load32_def gm_read_zeros from_le_zeros)
qed (use assms in simp_all)


text \<open>
  C14: the address space of a new process. With memory for four tables and its pages, the kernel gets a
  page directory in which the process sees RAM at 0 and at 0x80000000, its image from \<open>user_base\<close> on,
  page by page and padded with zeros, zeroed pages up to the end of the user stack, and nothing
  else. The user pages are different physical pages, none of them below the memory in use before,
  which is unchanged.
\<close>

theorem process_address_space:
  assumes F: "free_from k hi" and room: "hi + 4096 * (max 4 (page_count (length bs)) + 4) \<le> 0x3FF000"
    and img: "gm_read (kram k) src (length bs) = Some bs" "src + length bs \<le> hi"
  shows "\<exists>pt k' pages.
    build_address_space (word_of_nat src + 0x80000000) (word_of_nat (length bs)) k = Inr (pt, k') \<and>
    (\<forall>va. walk_page_tables_32bit (kram k') (pt - 0x80000000) va = Some (process_view pages va)) \<and>
    map snd pages = map (image_page bs) [0..<page_count (length bs)] @ replicate (4 - page_count (length bs)) zero_page \<and>
    (\<forall>(d, c) \<in> set pages. gm_read (kram k') d 4096 = Some c \<and> 4096 dvd d \<and> hi \<le> d) \<and>
    distinct (map fst pages) \<and>
    (\<forall>b l. b + l \<le> hi \<longrightarrow> gm_read (kram k') b l = gm_read (kram k) b l)"
proof -
  obtain k' pages where b: "build_address_space (word_of_nat src + 0x80000000) (word_of_nat (length bs)) k =
      Inr (word_of_nat hi + 0x80000000, k')"
    "user_space (kram k) hi (hi + 12288) hi kernel_entries k' pages"
    "map snd pages = map (image_page bs) [0..<page_count (length bs)] @ replicate (4 - page_count (length bs)) zero_page"
    using build_address_space_ok[OF F room img] by blast
  note U = user_spaceD[OF b(2)]
  have top: "user_top (hi + 12288) pages \<le> 0x3FF000" using U(1) by (simp add: free_from_def)
  have "length pages = max 4 (page_count (length bs))" using arg_cong[OF b(3), of length] by simp
  then have n: "length pages \<le> 1024" using room by simp
  have page: "4096 dvd d \<and> d < 0x400000" if "(d, c) \<in> set pages" for d c using U(3)[OF that] top by simp
  obtain T where "address_space (kram k') hi (user_top (hi + 12288) pages) hi T (with_user_pages pages kernel_entries)"
    using U(2) by blast
  then have "walk_page_tables_32bit (kram k') (word_of_nat hi) va = Some (process_view pages va)" for va
    by (rule process_walk) (use page n in auto)
  then show ?thesis
    using b(1,3) U(3,4,5)
    by (intro exI[of _ "word_of_nat hi + 0x80000000"] exI[of _ k'] exI[of _ pages]) auto
qed

theorem process_address_space_witness:
  "\<exists>pt k' (pages :: (nat \<times> u8 list) list).
    build_address_space (word_of_nat 0x2000 + 0x80000000) (word_of_nat (length [0xEB, 0xFE :: u8]))
      \<lparr>kram = \<lparr>gm_size = 0x400000, gm_data = (\<lambda>i. if i = 0x2000 then 0xEB else if i = 0x2001 then 0xFE else 0)\<rparr>,
       next_paddr = 0x80010000\<rparr> = Inr (pt, k') \<and>
    walk_page_tables_32bit (kram k') (pt - 0x80000000) 0x01000001 =
      Some (Physical (word_of_nat (fst (pages ! 0)) OR 1)) \<and>
    snd (pages ! 0) = [0xEB, 0xFE] @ replicate 4094 0"
proof -
  let ?k = "\<lparr>kram = \<lparr>gm_size = 0x400000, gm_data = (\<lambda>i. if i = 0x2000 then 0xEB else if i = 0x2001 then 0xFE else 0)\<rparr>,
       next_paddr = 0x80010000\<rparr>"
  have F: "free_from ?k 0x10000" by (simp add: free_from_def)
  have img: "gm_read (kram ?k) 0x2000 (length [0xEB, 0xFE :: u8]) = Some [0xEB, 0xFE]"
    by (simp add: gm_read_def upt_conv_Cons)
  have n: "page_count (length [0xEB, 0xFE :: u8]) = 1" by (simp add: page_count_def)
  have room: "0x10000 + 4096 * (max 4 (page_count (length [0xEB, 0xFE :: u8])) + 4) \<le> (0x3FF000 :: nat)"
    unfolding n by simp
  have below: "0x2000 + length [0xEB, 0xFE :: u8] \<le> 0x10000" by simp
  obtain pt k' pages where p: "build_address_space (word_of_nat 0x2000 + 0x80000000)
      (word_of_nat (length [0xEB, 0xFE :: u8])) ?k = Inr (pt, k')"
    "\<forall>va. walk_page_tables_32bit (kram k') (pt - 0x80000000) va = Some (process_view pages va)"
    "map snd pages = map (image_page [0xEB, 0xFE]) [0..<1] @ replicate (4 - 1) zero_page"
    using process_address_space[OF F room img below, unfolded n] by blast
  have "pages \<noteq> []" using p(3) by auto
  then have "process_view pages 0x01000001 = Physical (word_of_nat (fst (pages ! 0)) OR 1)"
    by (simp add: process_view_def)
  moreover have "snd (pages ! 0) = image_page [0xEB, 0xFE] 0"
    using p(3) \<open>pages \<noteq> []\<close> by (cases pages) auto
  moreover have "image_page [0xEB, 0xFE] 0 = [0xEB, 0xFE] @ replicate 4094 0"
    by (simp add: image_page_def Let_def)
  ultimately have "snd (pages ! 0) = [0xEB, 0xFE] @ replicate 4094 0"
    "walk_page_tables_32bit (kram k') (pt - 0x80000000) 0x01000001 = Some (Physical (word_of_nat (fst (pages ! 0)) OR 1))"
    using p(2) by simp_all
  then show ?thesis using p(1) by blast
qed

end
