(* ===== verification/Os_Process.thy ===== *)
theory Os_Process
  imports Os_Memory Descriptors
begin

text \<open>
  Processes of the 1K OS (\<^verbatim>\<open>os-1k/kernel.c\<close>): the process table, \<^verbatim>\<open>create_process\<close>, the round-robin
  choice of \<^verbatim>\<open>yield\<close>, \<^verbatim>\<open>switch_context\<close> on the kernel stacks in RAM, and \<^verbatim>\<open>setup_idt_entry\<close>. A
  process pointer is an index in the table. The linker decides the addresses of \<^verbatim>\<open>procs\<close> and
  \<^verbatim>\<open>user_entry\<close>, which are parameters.
\<close>

section \<open>State\<close>

definition PROCS_MAX :: nat where "PROCS_MAX = 8"

datatype proc_state = PROC_UNUSED | PROC_RUNNABLE | PROC_EXITED

record process =
  pid :: nat
  pstate :: proc_state
  psp :: u32
  page_table :: u32

record kernel =
  kmem :: kernel_mem
  procs :: "process list"
  current_proc :: nat
  idle_proc :: nat

text \<open>The registers a context switch works on.\<close>

record cpu =
  eip :: u32
  esp :: u32
  ebp :: u32
  edi :: u32
  esi :: u32
  ebx :: u32
  cr3 :: u32

section \<open>Stack accesses\<close>

definition push :: "u32 \<Rightarrow> u32 \<times> gmem \<Rightarrow> kfault + (u32 \<times> gmem)" where
  "push v = (\<lambda>(sp, m). and_then (or_fault (store32 m (kaddr (sp - 4)) v)) (\<lambda>m. Inr (sp - 4, m)))"

definition pop :: "gmem \<Rightarrow> u32 \<Rightarrow> kfault + (u32 \<times> u32)" where
  "pop m sp = and_then (or_fault (load32 m (kaddr sp))) (\<lambda>v. Inr (v, sp + 4))"

section \<open>create_process\<close>

text \<open>\<^verbatim>\<open>sizeof(struct process)\<close> is 8208; the stack is its last field.\<close>

definition stack_end :: "u32 \<Rightarrow> nat \<Rightarrow> u32" where
  "stack_end procs_base i = procs_base + 8208 * word_of_nat i + 8208"

definition find_slot :: "process list \<Rightarrow> nat option" where
  "find_slot ps = find (\<lambda>i. pstate (ps ! i) = PROC_UNUSED) [0..<PROCS_MAX]"

definition create_process ::
  "u32 \<Rightarrow> u32 \<Rightarrow> u32 \<Rightarrow> u32 \<Rightarrow> kernel \<Rightarrow> kfault + (nat \<times> kernel)" where
  "create_process procs_base user_entry img image_size k =
     (case find_slot (procs k) of
        None \<Rightarrow> Inl Panic
      | Some i \<Rightarrow>
          and_then (kfor [0, 0, 0, 0, user_entry] push (stack_end procs_base i, kram (kmem k))) (\<lambda>(sp, m).
          and_then (build_address_space img image_size ((kmem k)\<lparr>kram := m\<rparr>)) (\<lambda>(pt, km).
          Inr (i, k\<lparr>kmem := km,
                   procs := (procs k)[i := \<lparr>pid = i + 1, pstate = PROC_RUNNABLE, psp = sp,
                                            page_table = pt - 0x80000000\<rparr>]\<rparr>))))"

section \<open>switch_context and yield\<close>

definition switch_context :: "nat \<Rightarrow> nat \<Rightarrow> cpu \<times> kernel \<Rightarrow> kfault + (cpu \<times> kernel)" where
  "switch_context prev nxt = (\<lambda>(c, k).
     and_then (kfor [ebx c, esi c, edi c, ebp c] push (esp c, kram (kmem k))) (\<lambda>(sp, m).
     let ps = (procs k)[prev := (procs k ! prev)\<lparr>psp := sp\<rparr>];
         sp = psp (ps ! nxt) in
     and_then (pop m sp) (\<lambda>(r_ebp, sp).
     and_then (pop m sp) (\<lambda>(r_edi, sp).
     and_then (pop m sp) (\<lambda>(r_esi, sp).
     and_then (pop m sp) (\<lambda>(r_ebx, sp).
     and_then (pop m sp) (\<lambda>(r_eip, sp).
     Inr (c\<lparr>ebp := r_ebp, edi := r_edi, esi := r_esi, ebx := r_ebx, eip := r_eip, esp := sp\<rparr>,
          k\<lparr>kmem := (kmem k)\<lparr>kram := m\<rparr>, procs := ps\<rparr>))))))))"

definition schedulable :: "process \<Rightarrow> bool" where
  "schedulable p \<longleftrightarrow> pstate p = PROC_RUNNABLE \<and> pid p > 0"

text \<open>The loop of \<^verbatim>\<open>yield\<close> over the table.\<close>

definition next_process :: "process list \<Rightarrow> nat \<Rightarrow> nat \<Rightarrow> nat" where
  "next_process ps idle cur =
     (case find (\<lambda>i. schedulable (ps ! ((pid (ps ! cur) + i) mod PROCS_MAX))) [0..<PROCS_MAX] of
        Some i \<Rightarrow> (pid (ps ! cur) + i) mod PROCS_MAX
      | None \<Rightarrow> idle)"

definition yield :: "cpu \<times> kernel \<Rightarrow> kfault + (cpu \<times> kernel)" where
  "yield = (\<lambda>(c, k).
     let nxt = next_process (procs k) (idle_proc k) (current_proc k); prev = current_proc k in
     if nxt = prev then Inr (c, k)
     else switch_context prev nxt (c\<lparr>cr3 := page_table (procs k ! nxt)\<rparr>, k\<lparr>current_proc := nxt\<rparr>))"

section \<open>setup_idt_entry\<close>

definition setup_idt_entry :: "nat \<Rightarrow> u32 \<Rightarrow> u32 \<Rightarrow> gmem \<Rightarrow> kfault + gmem" where
  "setup_idt_entry vector handler dpl m =
     (let flags = 0x8E00 OR push_bit 13 (dpl AND 0x3) in
      and_then (or_fault (store32 m (kaddr 0x528 + 4 * (vector * 2 + 0))
                          (push_bit 16 (handler AND 0xFFFF) OR 0x0008))) (\<lambda>m.
      or_fault (store32 m (kaddr 0x528 + 4 * (vector * 2 + 1)) ((handler AND 0xFFFF0000) OR flags))))"

section \<open>The scheduler\<close>

text \<open>
  In the table of a running system slot \<open>i\<close> holds the process with pid \<open>i + 1\<close>, except that the idle
  process in slot 0 has pid 0.
\<close>

definition proc_table :: "process list \<Rightarrow> bool" where
  "proc_table ps \<longleftrightarrow> length ps = PROCS_MAX \<and>
     list_all (\<lambda>i. schedulable (ps ! i) \<longrightarrow> pid (ps ! i) = i + 1) [0..<PROCS_MAX]"

lemma find_upt_Some:
  "find P [0..<n] = Some i \<longleftrightarrow> i < n \<and> P i \<and> (\<forall>j<i. \<not> P j)"
  by (auto simp: find_Some_iff)

lemma find_upt_None: "find P [0..<n] = None \<longleftrightarrow> (\<forall>j<n. \<not> P j)"
  by (auto simp: find_None_iff)

lemma next_process_cases:
  obtains (found) i where "i < PROCS_MAX"
      "next_process ps idle cur = (pid (ps ! cur) + i) mod PROCS_MAX"
      "schedulable (ps ! ((pid (ps ! cur) + i) mod PROCS_MAX))"
      "\<And>j. j < i \<Longrightarrow> \<not> schedulable (ps ! ((pid (ps ! cur) + j) mod PROCS_MAX))"
  | (none) "next_process ps idle cur = idle"
      "\<And>j. j < PROCS_MAX \<Longrightarrow> \<not> schedulable (ps ! ((pid (ps ! cur) + j) mod PROCS_MAX))"
proof (cases "find (\<lambda>i. schedulable (ps ! ((pid (ps ! cur) + i) mod PROCS_MAX))) [0..<PROCS_MAX]")
  case None
  then have "\<forall>j<PROCS_MAX. \<not> schedulable (ps ! ((pid (ps ! cur) + j) mod PROCS_MAX))"
    by (simp add: find_upt_None)
  then show ?thesis using None by (intro none) (simp_all add: next_process_def)
next
  case (Some i)
  then have "i < PROCS_MAX \<and> schedulable (ps ! ((pid (ps ! cur) + i) mod PROCS_MAX)) \<and>
      (\<forall>j<i. \<not> schedulable (ps ! ((pid (ps ! cur) + j) mod PROCS_MAX)))"
    by (simp add: find_upt_Some)
  then show ?thesis using Some by (intro found[of i]) (simp_all add: next_process_def)
qed

text \<open>The cyclic distance from one slot to another.\<close>

definition slots_ahead :: "nat \<Rightarrow> nat \<Rightarrow> nat" where
  "slots_ahead s t = (t + PROCS_MAX - s mod PROCS_MAX) mod PROCS_MAX"

lemma slots_ahead:
  assumes "t < PROCS_MAX"
  shows "slots_ahead s t < PROCS_MAX" and "(s + slots_ahead s t) mod PROCS_MAX = t"
proof -
  show "slots_ahead s t < PROCS_MAX" by (simp add: slots_ahead_def PROCS_MAX_def)
  have "(s + slots_ahead s t) mod PROCS_MAX = (s mod PROCS_MAX + (t + PROCS_MAX - s mod PROCS_MAX)) mod PROCS_MAX"
    unfolding slots_ahead_def by (simp add: mod_add_left_eq mod_add_right_eq)
  also have "s mod PROCS_MAX + (t + PROCS_MAX - s mod PROCS_MAX) = t + PROCS_MAX"
    using mod_less_divisor[of PROCS_MAX s] by (simp add: PROCS_MAX_def)
  finally show "(s + slots_ahead s t) mod PROCS_MAX = t" using assms by simp
qed

lemma slots_ahead_unique:
  assumes "x < PROCS_MAX"
  shows "slots_ahead s ((s + x) mod PROCS_MAX) = x"
proof -
  define r where "r = s mod 8"
  have r: "r < 8" "x < 8" using assms by (simp_all add: r_def PROCS_MAX_def)
  have t: "(s + x) mod 8 = (if r + x < 8 then r + x else r + x - 8)"
  proof -
    have "(s + x) mod 8 = (r + x) mod 8" unfolding r_def by (simp add: mod_add_left_eq)
    then show ?thesis using r by (auto simp: mod_if)
  qed
  show ?thesis
    unfolding slots_ahead_def PROCS_MAX_def r_def[symmetric] t using r by (auto simp: mod_if)
qed

lemma slots_ahead_later:
  assumes "t < PROCS_MAX" and "i < slots_ahead s t"
  shows "slots_ahead ((s + i) mod PROCS_MAX + 1) t < slots_ahead s t"
proof -
  define d where "d = slots_ahead s t"
  have d: "d < PROCS_MAX" "(s + d) mod PROCS_MAX = t" "i < d"
    using slots_ahead[OF assms(1), of s] assms(2) by (simp_all add: d_def)
  have "((s + i) mod PROCS_MAX + (1 + (d - i - 1))) mod PROCS_MAX = ((s + i) + (1 + (d - i - 1))) mod PROCS_MAX"
    by (rule mod_add_left_eq)
  also have "\<dots> = t" using d by simp
  finally have "slots_ahead ((s + i) mod PROCS_MAX + 1) t = d - i - 1"
    using slots_ahead_unique[of "d - i - 1" "(s + i) mod PROCS_MAX + 1"] d(1) by simp
  then show ?thesis using d(3) by (simp add: d_def)
qed

text \<open>One step of the schedule either reaches the waiting process or comes closer to it.\<close>

lemma next_process_closer:
  fixes idle cur :: nat
  assumes ps: "proc_table ps" and t: "t < PROCS_MAX" "schedulable (ps ! t)"
  defines "nxt \<equiv> next_process ps idle cur"
  shows "nxt = t \<or> (schedulable (ps ! nxt) \<and> nxt < PROCS_MAX \<and> pid (ps ! nxt) = nxt + 1 \<and>
    slots_ahead (nxt + 1) t < slots_ahead (pid (ps ! cur)) t)"
proof (cases rule: next_process_cases[of ps idle cur])
  case (found i)
  let ?s = "pid (ps ! cur)"
  have n: "nxt = (?s + i) mod PROCS_MAX" "schedulable (ps ! nxt)" using found(2,3) by (simp_all add: nxt_def)
  then have lt: "nxt < PROCS_MAX" by (simp add: PROCS_MAX_def)
  have le: "i \<le> slots_ahead ?s t"
    using found(4)[of "slots_ahead ?s t"] slots_ahead(2)[OF t(1), of ?s] t(2) by (cases "i \<le> slots_ahead ?s t") auto
  show ?thesis
  proof (cases "i = slots_ahead ?s t")
    case True
    then show ?thesis using n(1) slots_ahead(2)[OF t(1), of ?s] by simp
  next
    case False
    then have "slots_ahead (nxt + 1) t < slots_ahead ?s t"
      unfolding n(1) using le by (intro slots_ahead_later[OF t(1)]) simp
    moreover have "pid (ps ! nxt) = nxt + 1" using ps n(2) lt by (simp add: proc_table_def list_all_iff)
    ultimately show ?thesis using n(2) lt by simp
  qed
next
  case none
  then show ?thesis using slots_ahead[OF t(1), of "pid (ps ! cur)"] t(2) by metis
qed

text \<open>
  The contract of a fair choice between \<open>bound\<close> waiting clients: a choice is the client itself or one from which
  it is fewer choices away, as long as what the distance depends on is \<open>kept\<close>.
\<close>

locale fair_choice =
  fixes ok :: "'t \<Rightarrow> bool"
    and ready :: "'t \<Rightarrow> nat \<Rightarrow> bool"
    and pick :: "'t \<Rightarrow> nat \<Rightarrow> nat"
    and kept :: "'t \<Rightarrow> 't \<Rightarrow> nat \<Rightarrow> bool"
    and dist :: "'t \<Rightarrow> nat \<Rightarrow> nat \<Rightarrow> nat"
    and bound :: nat
  assumes closer: "ok ps \<Longrightarrow> t < bound \<Longrightarrow> ready ps t \<Longrightarrow> kept ps ps' (pick ps cur) \<Longrightarrow>
      pick ps cur = t \<or> dist ps' (pick ps cur) t < dist ps cur t"
    and dist_bound: "t < bound \<Longrightarrow> dist ps cur t < bound"
begin

lemma chosen_within:
  assumes "\<And>n. ok (ps n)" and "t < bound" and "\<And>n. ready (ps n) t"
    and "\<And>n. cur (Suc n) = pick (ps n) (cur n)" and "\<And>n. kept (ps n) (ps (Suc n)) (cur (Suc n))"
  shows "dist (ps n) (cur n) t < d \<Longrightarrow> \<exists>m. n < m \<and> m \<le> n + d \<and> cur m = t"
proof (induction d arbitrary: n)
  case (Suc d)
  show ?case
  proof (cases "cur (Suc n) = t")
    case True
    then show ?thesis by (intro exI[of _ "Suc n"]) simp
  next
    case False
    then have "dist (ps (Suc n)) (cur (Suc n)) t < d"
      using closer[OF assms(1,2,3), of n "ps (Suc n)" "cur n"] assms(4,5) Suc.prems by auto
    then obtain m where "Suc n < m" "m \<le> Suc n + d" "cur m = t" using Suc.IH by blast
    then show ?thesis by (intro exI[of _ m]) simp
  qed
qed simp

lemma chosen:
  assumes "\<And>n. ok (ps n)" and "t < bound" and "\<And>n. ready (ps n) t"
    and "\<And>n. cur (Suc n) = pick (ps n) (cur n)" and "\<And>n. kept (ps n) (ps (Suc n)) (cur (Suc n))"
  shows "\<exists>m. n < m \<and> m \<le> n + bound \<and> cur m = t"
  by (rule chosen_within[where ps = ps, OF assms dist_bound[OF assms(2)]])

end

interpretation rr: fair_choice proc_table "\<lambda>ps i. schedulable (ps ! i)" "\<lambda>ps. next_process ps idle"
    "\<lambda>ps ps' i. pid (ps' ! i) = pid (ps ! i)" "\<lambda>ps cur. slots_ahead (pid (ps ! cur))" PROCS_MAX for idle
proof unfold_locales
  fix ps ps' :: "process list" and t cur :: nat
  assume "proc_table ps" "t < PROCS_MAX" "schedulable (ps ! t)"
    and "pid (ps' ! next_process ps idle cur) = pid (ps ! next_process ps idle cur)"
  then show "next_process ps idle cur = t \<or>
      slots_ahead (pid (ps' ! next_process ps idle cur)) t < slots_ahead (pid (ps ! cur)) t"
    using next_process_closer[of ps t idle cur] by auto
qed (rule slots_ahead(1))

section \<open>Context switches\<close>

lemma push_ok:
  assumes "store32 m (kaddr (sp - 4)) v = Some m'"
  shows "push v (sp, m) = Inr (sp - 4, m')"
  using assms by (simp add: push_def)

lemma push_cases:
  assumes "push v (sp, m) = Inr r"
  obtains m' where "store32 m (kaddr (sp - 4)) v = Some m'" and "r = (sp - 4, m')"
  using assms by (cases "store32 m (kaddr (sp - 4)) v") (auto simp: push_def)

lemma pop_ok: "load32 m (kaddr sp) = Some v \<Longrightarrow> pop m sp = Inr (v, sp + 4)"
  by (simp add: pop_def)

text \<open>
  \<open>frame_at m sp vs\<close>: the words \<open>vs\<close> lie from kernel address \<open>sp\<close> upwards.
\<close>

fun frame_at :: "gmem \<Rightarrow> u32 \<Rightarrow> u32 list \<Rightarrow> bool" where
  "frame_at m sp [] = True"
| "frame_at m sp (v # vs) = (load32 m (kaddr sp) = Some v \<and> frame_at m (sp + 4) vs)"

text \<open>What a switch restores is the frame at the saved stack pointer of the next process.\<close>

lemma switch_context_restores:
  assumes save: "kfor [ebx c, esi c, edi c, ebp c] push (esp c, kram (kmem k)) = Inr (sp, m)"
    and ne: "prev \<noteq> nxt"
    and frame: "frame_at m (psp (procs k ! nxt)) [v_ebp, v_edi, v_esi, v_ebx, v_eip]"
  shows "switch_context prev nxt (c, k) =
    Inr (c\<lparr>ebp := v_ebp, edi := v_edi, esi := v_esi, ebx := v_ebx, eip := v_eip,
           esp := psp (procs k ! nxt) + 20\<rparr>,
         k\<lparr>kmem := (kmem k)\<lparr>kram := m\<rparr>,
           procs := (procs k)[prev := (procs k ! prev)\<lparr>psp := sp\<rparr>]\<rparr>)"
proof -
  have sel: "(procs k)[prev := (procs k ! prev)\<lparr>psp := sp\<rparr>] ! nxt = procs k ! nxt" using ne by simp
  have add: "psp (procs k ! nxt) + 4 + 4 + 4 + 4 + 4 = psp (procs k ! nxt) + 20" by simp
  show ?thesis
    unfolding switch_context_def prod.case save and_then_simps Let_def sel
    using frame by (simp add: pop_ok add.assoc)
qed

text \<open>The effect of a sequence of pushes below a kernel address with room in RAM.\<close>

definition stack_room :: "gmem \<Rightarrow> u32 \<Rightarrow> nat \<Rightarrow> nat \<Rightarrow> bool" where
  "stack_room m sp a n \<longleftrightarrow> sp = word_of_nat a + 0x80000000 \<and> 4 * n \<le> a \<and> a < 0x400000 \<and> a \<le> gm_size m"

lemma push_list:
  "stack_room m sp a (length vs) \<Longrightarrow>
   \<exists>m'. kfor vs push (sp, m) = Inr (word_of_nat (a - 4 * length vs) + 0x80000000, m') \<and>
     gm_size m' = gm_size m \<and>
     (\<forall>i<length vs. load32 m' (a - 4 * (i + 1)) = Some (vs ! i)) \<and>
     (\<forall>b n. b + n \<le> a - 4 * length vs \<or> a \<le> b \<longrightarrow> gm_read m' b n = gm_read m b n)"
proof (induction vs arbitrary: m sp a)
  case Nil
  then show ?case by (simp add: stack_room_def)
next
  case (Cons v vs)
  then have a: "sp = word_of_nat a + 0x80000000" "4 * length vs + 4 \<le> a" "a < 0x400000" "a \<le> gm_size m"
    by (auto simp: stack_room_def)
  have sp: "sp - 4 = word_of_nat (a - 4) + 0x80000000" using a(1,2) by (simp add: of_nat_diff)
  have k: "kaddr (sp - 4) = a - 4" unfolding sp by (rule kaddr_kernel) (use a(3) in simp)
  obtain m1 where w: "store32 m (a - 4) v = Some m1" "gm_size m1 = gm_size m"
    using store_defined(1)[of "a - 4" m v] a by auto
  have p: "push v (sp, m) = Inr (sp - 4, m1)" using w(1) by (simp add: push_def k)
  have "stack_room m1 (sp - 4) (a - 4) (length vs)" using a w(2) sp by (auto simp: stack_room_def)
  from Cons.IH[OF this] obtain m' where
    m': "kfor vs push (sp - 4, m1) = Inr (word_of_nat (a - 4 - 4 * length vs) + 0x80000000, m')"
    "gm_size m' = gm_size m1"
    "\<And>i. i < length vs \<Longrightarrow> load32 m' (a - 4 - 4 * (i + 1)) = Some (vs ! i)"
    "\<And>b n. b + n \<le> a - 4 - 4 * length vs \<or> a - 4 \<le> b \<Longrightarrow> gm_read m' b n = gm_read m1 b n"
    by auto
  have first: "load32 m' (a - 4) = Some v"
    using load32_cong[OF m'(4)[of "a - 4" 4]] load32_store32[OF w(1)] by simp
  have regs: "load32 m' (a - 4 * (i + 1)) = Some ((v # vs) ! i)" if "i < length (v # vs)" for i
    using that first m'(3)[of "i - 1"] by (cases i) (simp_all add: diff_diff_eq add.commute)
  have fr: "gm_read m' b n = gm_read m b n" if "b + n \<le> a - 4 * length (v # vs) \<or> a \<le> b" for b n
  proof -
    have "gm_read m' b n = gm_read m1 b n" using that by (intro m'(4)) auto
    also have "\<dots> = gm_read m b n" by (rule store_frame(2)[OF w(1)]) (use that a(2) in auto)
    finally show ?thesis .
  qed
  have "a - 4 - 4 * length vs = a - 4 * length (v # vs)" by simp
  then show ?case using p m'(1,2) w(2) regs fr by (intro exI[of _ m']) (simp only: kfor.simps and_then_simps, simp)
qed

lemma frame_at_nth:
  "sp = word_of_nat p + 0x80000000 \<Longrightarrow> p + 4 * length ws \<le> 0x400000 \<Longrightarrow>
     frame_at m sp ws \<longleftrightarrow> (\<forall>i<length ws. load32 m (p + 4 * i) = Some (ws ! i))"
proof (induction ws arbitrary: sp p)
  case Nil
  then show ?case by simp
next
  case (Cons w ws)
  have "kaddr sp = p" unfolding Cons.prems(1) by (rule kaddr_kernel) (use Cons.prems(2) in simp)
  moreover have "sp + 4 = word_of_nat (p + 4) + 0x80000000" using Cons.prems(1) by simp
  ultimately show ?case
    using Cons.IH[of "sp + 4" "p + 4"] Cons.prems(2)
    by (auto simp: All_less_Suc2 algebra_simps nth_Cons')
qed

text \<open>So pushing a list leaves it, last value first, as the frame at the new stack pointer.\<close>

lemma push_frame:
  assumes "stack_room m sp a (length vs)"
  obtains m' where "kfor vs push (sp, m) = Inr (word_of_nat (a - 4 * length vs) + 0x80000000, m')"
    and "gm_size m' = gm_size m"
    and "frame_at m' (word_of_nat (a - 4 * length vs) + 0x80000000) (rev vs)"
    and "\<And>b n. b + n \<le> a - 4 * length vs \<or> a \<le> b \<Longrightarrow> gm_read m' b n = gm_read m b n"
proof -
  obtain m' where m': "kfor vs push (sp, m) = Inr (word_of_nat (a - 4 * length vs) + 0x80000000, m')"
    "gm_size m' = gm_size m" "\<And>i. i < length vs \<Longrightarrow> load32 m' (a - 4 * (i + 1)) = Some (vs ! i)"
    "\<And>b n. b + n \<le> a - 4 * length vs \<or> a \<le> b \<Longrightarrow> gm_read m' b n = gm_read m b n"
    using push_list[OF assms] by blast
  have a: "4 * length vs \<le> a" "a < 0x400000" using assms by (auto simp: stack_room_def)
  have "load32 m' (a - 4 * length vs + 4 * i) = Some (rev vs ! i)" if "i < length vs" for i
  proof -
    have "a - 4 * length vs + 4 * i = a - 4 * (length vs - 1 - i + 1)" using that a(1) by auto
    then show ?thesis using m'(3)[of "length vs - 1 - i"] that by (simp add: rev_nth)
  qed
  then have "frame_at m' (word_of_nat (a - 4 * length vs) + 0x80000000) (rev vs)"
    using a by (subst frame_at_nth[OF refl]) auto
  then show ?thesis using that m' by blast
qed

lemma frame_at_snoc:
  "frame_at m sp (ws @ [w]) \<longleftrightarrow>
     frame_at m sp ws \<and> load32 m (kaddr (sp + 4 * word_of_nat (length ws))) = Some w"
  by (induction ws arbitrary: sp) (auto simp: algebra_simps)

lemma frame_at_cong:
  assumes "sp = word_of_nat p + 0x80000000" and "p + 4 * length ws \<le> 0x400000"
    and "gm_read m' p (4 * length ws) = gm_read m p (4 * length ws)" and "frame_at m sp ws"
  shows "frame_at m' sp ws"
proof -
  have "load32 m' (p + 4 * i) = Some (ws ! i)" if "i < length ws" for i
  proof -
    have l: "load32 m (p + 4 * i) = Some (ws ! i)" using assms(4) that frame_at_nth[OF assms(1,2)] by blast
    then have "load32 m (p + 4 * (length ws - 1)) \<noteq> None"
      using assms(4) that frame_at_nth[OF assms(1,2)] by auto
    then have "p + 4 * (length ws - 1) + 4 \<le> gm_size m" unfolding load_defined by simp
    then have "p + 4 * length ws \<le> gm_size m" using that by (cases "length ws") auto
    then obtain bs where bs: "gm_read m p (4 * length ws) = Some bs" by (auto simp: gm_read_def)
    have "4 * i + 4 \<le> 4 * length ws" using that by simp
    then have "gm_read m' (p + 4 * i) 4 = gm_read m (p + 4 * i) 4"
      using gm_read_slice[OF bs, of "4 * i" 4] gm_read_slice[OF trans[OF assms(3) bs], of "4 * i" 4] by simp
    from load32_cong[OF this] l show ?thesis by simp
  qed
  then show ?thesis using frame_at_nth[OF assms(1,2)] by blast
qed

text \<open>A switch from a process with room on its stack to one whose frame lies elsewhere.\<close>

lemma switch_context_ok:
  assumes room: "stack_room (kram (kmem k)) (esp c) a 4" and ne: "prev \<noteq> nxt"
    and p: "psp (procs k ! nxt) = word_of_nat p + 0x80000000" "p + 20 \<le> 0x400000" "p + 20 \<le> a - 16 \<or> a \<le> p"
    and frame: "frame_at (kram (kmem k)) (psp (procs k ! nxt)) [v_ebp, v_edi, v_esi, v_ebx, v_eip]"
  obtains m where "switch_context prev nxt (c, k) =
      Inr (c\<lparr>ebp := v_ebp, edi := v_edi, esi := v_esi, ebx := v_ebx, eip := v_eip,
             esp := psp (procs k ! nxt) + 20\<rparr>,
           k\<lparr>kmem := (kmem k)\<lparr>kram := m\<rparr>,
             procs := (procs k)[prev := (procs k ! prev)\<lparr>psp := word_of_nat (a - 16) + 0x80000000\<rparr>]\<rparr>)"
    and "frame_at m (word_of_nat (a - 16) + 0x80000000) [ebp c, edi c, esi c, ebx c]"
    and "gm_size m = gm_size (kram (kmem k))"
    and "\<And>b n. b + n \<le> a - 16 \<or> a \<le> b \<Longrightarrow> gm_read m b n = gm_read (kram (kmem k)) b n"
proof -
  let ?vs = "[ebx c, esi c, edi c, ebp c]"
  have "length ?vs = 4" by simp
  then have "stack_room (kram (kmem k)) (esp c) a (length ?vs)" using room by (simp only:)
  then obtain m where m: "kfor ?vs push (esp c, kram (kmem k)) = Inr (word_of_nat (a - 4 * length ?vs) + 0x80000000, m)"
    "gm_size m = gm_size (kram (kmem k))"
    "frame_at m (word_of_nat (a - 4 * length ?vs) + 0x80000000) (rev ?vs)"
    "\<And>b n. b + n \<le> a - 4 * length ?vs \<or> a \<le> b \<Longrightarrow> gm_read m b n = gm_read (kram (kmem k)) b n"
    by (rule push_frame) blast
  have len: "4 * length ?vs = 16" "rev ?vs = [ebp c, edi c, esi c, ebx c]" by simp_all
  note m = m[unfolded len]
  have "frame_at m (psp (procs k ! nxt)) [v_ebp, v_edi, v_esi, v_ebx, v_eip]"
    by (rule frame_at_cong[OF p(1) _ _ frame]) (use p(2,3) m(4)[of p 20] in auto)
  from switch_context_restores[OF m(1) ne this] show ?thesis using m(2-4) by (intro that)
qed

section \<open>Properties\<close>

text \<open>
  C15: \<^verbatim>\<open>yield\<close> is fair. However the states of the other processes change, a process that stays
  runnable is chosen again after at most eight calls of \<^verbatim>\<open>yield\<close>, from whichever process they start.
\<close>

theorem yield_is_fair:
  assumes "\<And>n. proc_table (ps n)" and "t < PROCS_MAX" and "\<And>n. schedulable (ps n ! t)"
    and "\<And>n. cur (Suc n) = next_process (ps n) idle (cur n)"
    and "\<And>n. pid (ps (Suc n) ! cur (Suc n)) = pid (ps n ! cur (Suc n))"
  shows "\<exists>m. n < m \<and> m \<le> n + 8 \<and> cur m = t"
  using rr.chosen[where ps = ps and t = t and cur = cur and idle = idle, OF assms] by (simp add: PROCS_MAX_def)

definition three_procs :: "process list" where
  "three_procs =
     map (\<lambda>i. \<lparr>pid = (if i = 0 then 0 else i + 1),
               pstate = (if i < 3 then PROC_RUNNABLE else PROC_UNUSED), psp = 0, page_table = 0\<rparr>) [0..<8]"

lemma three_procs_table: "proc_table three_procs" "schedulable (three_procs ! 2)"
  by (simp_all add: three_procs_def proc_table_def schedulable_def PROCS_MAX_def upt_conv_Cons)

theorem yield_is_fair_witness:
  "\<exists>m. 0 < m \<and> m \<le> 0 + 8 \<and> ((next_process three_procs 0) ^^ m) 1 = 2"
proof -
  define cur where "cur = (\<lambda>n. ((next_process three_procs 0) ^^ n) (1 :: nat))"
  have "2 < PROCS_MAX" by (simp add: PROCS_MAX_def)
  from yield_is_fair[OF three_procs_table(1) this three_procs_table(2), of cur 0 0] show ?thesis
    by (simp add: cur_def)
qed

text \<open>
  \<^verbatim>\<open>yield\<close> chooses the next process in cyclic order of the slots after the current one that is
  runnable and not idle, and the idle process exactly when there is none: an exited or unused slot
  is never chosen.
\<close>

theorem next_process_round_robin:
  "(\<exists>i<PROCS_MAX. next_process ps idle cur = (pid (ps ! cur) + i) mod PROCS_MAX \<and>
       schedulable (ps ! next_process ps idle cur) \<and>
       (\<forall>j<i. \<not> schedulable (ps ! ((pid (ps ! cur) + j) mod PROCS_MAX)))) \<or>
     (next_process ps idle cur = idle \<and> (\<forall>t<PROCS_MAX. \<not> schedulable (ps ! t)))"
proof (cases rule: next_process_cases[of ps idle cur])
  case (found i)
  then show ?thesis by auto
next
  case none
  have "\<not> schedulable (ps ! t)" if "t < PROCS_MAX" for t
    using none(2)[of "slots_ahead (pid (ps ! cur)) t"] slots_ahead[OF that, of "pid (ps ! cur)"] by simp
  then show ?thesis using none(1) by simp
qed

theorem next_process_round_robin_witness: "next_process three_procs 0 1 = 2"
proof -
  have "PROCS_MAX = 8" "pid (three_procs ! 1) = 2"
    by (simp_all add: PROCS_MAX_def three_procs_def)
  then have two: "(pid (three_procs ! 1) + 0) mod PROCS_MAX = 2" by simp
  from next_process_round_robin[of three_procs 0 1] show ?thesis
  proof (elim disjE exE conjE)
    fix i
    assume i: "next_process three_procs 0 1 = (pid (three_procs ! 1) + i) mod PROCS_MAX"
      "\<forall>j<i. \<not> schedulable (three_procs ! ((pid (three_procs ! 1) + j) mod PROCS_MAX))"
    have "\<not> 0 < i"
    proof
      assume "0 < i"
      from i(2)[rule_format, OF this] three_procs_table(2) two show False by simp
    qed
    then show ?thesis using i(1) two by simp
  next
    assume "\<forall>t<PROCS_MAX. \<not> schedulable (three_procs ! t)"
    then show ?thesis using three_procs_table(2) \<open>PROCS_MAX = 8\<close> by simp
  qed
qed

text \<open>
  C16: a context switch away and back is transparent. A process that called \<^verbatim>\<open>switch_context\<close> and is
  switched to later, its stack frame and saved stack pointer unchanged, returns to its caller with
  the callee-saved registers it had, its stack pointer just above the return address.
\<close>

theorem switch_context_roundtrip:
  assumes ab: "a \<noteq> b" "a < length (procs k)"
    and room: "stack_room (kram (kmem k)) (esp c) s 4" "s + 4 \<le> 0x400000"
    and ret: "load32 (kram (kmem k)) s = Some ret"
    and away: "psp (procs k ! b) = word_of_nat p + 0x80000000" "p + 20 \<le> 0x400000" "p + 20 \<le> s - 16 \<or> s \<le> p"
      "frame_at (kram (kmem k)) (psp (procs k ! b)) [v_ebp, v_edi, v_esi, v_ebx, v_eip]"
    and first: "switch_context a b (c, k) = Inr (c1, k1)"
    and kept: "psp (procs k2 ! a) = psp (procs k1 ! a)"
      "gm_read (kram (kmem k2)) (s - 16) 20 = gm_read (kram (kmem k1)) (s - 16) 20"
    and room2: "stack_room (kram (kmem k2)) (esp c2) s2 4" "s + 4 \<le> s2 - 16 \<or> s2 \<le> s - 16"
  shows "\<exists>c3 k3. switch_context b a (c2, k2) = Inr (c3, k3) \<and>
    eip c3 = ret \<and> esp c3 = esp c + 4 \<and>
    ebx c3 = ebx c \<and> esi c3 = esi c \<and> edi c3 = edi c \<and> ebp c3 = ebp c"
proof -
  obtain m where m: "switch_context a b (c, k) =
      Inr (c\<lparr>ebp := v_ebp, edi := v_edi, esi := v_esi, ebx := v_ebx, eip := v_eip,
             esp := psp (procs k ! b) + 20\<rparr>,
           k\<lparr>kmem := (kmem k)\<lparr>kram := m\<rparr>,
             procs := (procs k)[a := (procs k ! a)\<lparr>psp := word_of_nat (s - 16) + 0x80000000\<rparr>]\<rparr>)"
    "frame_at m (word_of_nat (s - 16) + 0x80000000) [ebp c, edi c, esi c, ebx c]"
    "\<And>b n. b + n \<le> s - 16 \<or> s \<le> b \<Longrightarrow> gm_read m b n = gm_read (kram (kmem k)) b n"
    by (rule switch_context_ok[OF room(1) ab(1) away]) blast
  have k1: "kram (kmem k1) = m" "psp (procs k1 ! a) = word_of_nat (s - 16) + 0x80000000"
    using first m(1) ab(2) by auto
  have s: "16 \<le> s" "esp c = word_of_nat s + 0x80000000" using room(1) by (auto simp: stack_room_def)
  have lim: "s - 16 + 20 \<le> 0x400000" using room(2) by simp
  have r: "load32 m s = Some ret" using load32_cong[OF m(3)[of s 4]] ret by simp
  have frame: "frame_at m (word_of_nat (s - 16) + 0x80000000) [ebp c, edi c, esi c, ebx c, ret]"
  proof -
    have "word_of_nat (s - 16) + 0x80000000 + 4 * word_of_nat (length [ebp c, edi c, esi c, ebx c]) =
        (word_of_nat s + 0x80000000 :: u32)"
      using s(1) by (simp add: of_nat_diff)
    moreover have "kaddr (word_of_nat s + 0x80000000) = s" by (rule kaddr_kernel) (use room(2) in simp)
    ultimately have "frame_at m (word_of_nat (s - 16) + 0x80000000) ([ebp c, edi c, esi c, ebx c] @ [ret])"
      unfolding frame_at_snoc using r m(2) by (simp only: simp_thms)
    then show ?thesis by (simp only: append.simps)
  qed
  have frame2: "frame_at (kram (kmem k2)) (psp (procs k2 ! a)) [ebp c, edi c, esi c, ebx c, ret]"
    unfolding kept(1) k1(2)
    by (rule frame_at_cong[OF refl _ _ frame]) (use lim kept(2) k1(1) in auto)
  have away2: "psp (procs k2 ! a) = word_of_nat (s - 16) + 0x80000000" "s - 16 + 20 \<le> 0x400000"
    "s - 16 + 20 \<le> s2 - 16 \<or> s2 \<le> s - 16"
    using kept(1) k1(2) lim room2(2) s(1) by (simp, simp, linarith)
  obtain m' where "switch_context b a (c2, k2) =
      Inr (c2\<lparr>ebp := ebp c, edi := edi c, esi := esi c, ebx := ebx c, eip := ret,
             esp := psp (procs k2 ! a) + 20\<rparr>,
           k2\<lparr>kmem := (kmem k2)\<lparr>kram := m'\<rparr>,
             procs := (procs k2)[b := (procs k2 ! b)\<lparr>psp := word_of_nat (s2 - 16) + 0x80000000\<rparr>]\<rparr>)"
    by (rule switch_context_ok[OF room2(1) ab(1)[symmetric] away2 frame2]) blast
  moreover have "psp (procs k2 ! a) + 20 = esp c + 4"
    unfolding kept(1) k1(2) s(2) using s(1) by (simp add: of_nat_diff)
  ultimately show ?thesis by simp
qed

lemma mask_halves: "(0xFFFF :: u32) = mask 16" "(0xFFFF0000 :: u32) = NOT (mask 16)"
  by (simp_all add: mask_eq_exp_minus_1)

lemma hi_bits: "drop_bit 16 c = 0 \<Longrightarrow> \<not> bit c (16 + n)" for c :: "'a::len word"
  using bit_drop_bit_eq[of 16 c] by (simp add: fun_eq_iff)

lemma hi_bits': "drop_bit 16 c = 0 \<Longrightarrow> \<not> bit c (24 + n)" for c :: "'a::len word"
  using hi_bits[of c "8 + n"] by (simp add: add.assoc[symmetric])

lemma idt_bytes_low:
  fixes h c :: u32
  shows "(ucast (push_bit 16 (h AND 0xFFFF) OR c) :: u8) = ucast c"
  and "(ucast (drop_bit 8 (push_bit 16 (h AND 0xFFFF) OR c)) :: u8) = ucast (drop_bit 8 c)"
  unfolding mask_halves
  by (rule bit_word_eqI, auto simp: bit_simps)+

lemma idt_bytes_high:
  fixes h c :: u32
  assumes "drop_bit 16 c = 0"
  shows "(ucast (drop_bit 16 (push_bit 16 (h AND 0xFFFF) OR c)) :: u8) = ucast h"
  and "(ucast (drop_bit 24 (push_bit 16 (h AND 0xFFFF) OR c)) :: u8) = ucast (drop_bit 8 h)"
  and "(ucast (drop_bit 16 ((h AND 0xFFFF0000) OR c)) :: u8) = ucast (drop_bit 16 h)"
  and "(ucast (drop_bit 24 ((h AND 0xFFFF0000) OR c)) :: u8) = ucast (drop_bit 24 h)"
  unfolding mask_halves
  by (rule bit_word_eqI, auto simp: bit_simps hi_bits[OF assms] hi_bits'[OF assms])+

lemma join_high:
  fixes h :: u32
  shows "(ucast (ucast (drop_bit 16 h) :: u8) :: u32) OR push_bit 8 (ucast (ucast (drop_bit 24 h) :: u8)) = drop_bit 16 h"
proof (rule bit_word_eqI)
  fix n assume "n < LENGTH(32)"
  show "bit ((ucast (ucast (drop_bit 16 h) :: u8) :: u32) OR push_bit 8 (ucast (ucast (drop_bit 24 h) :: u8))) n = bit (drop_bit 16 h) n"
  proof (cases "n < 8")
    case False
    then obtain j where "n = 8 + j" using le_Suc_ex not_less by blast
    then show ?thesis using bit_imp_le_length[of h "24 + j"] by (auto simp: bit_simps)
  qed (auto simp: bit_simps)
qed

lemma join_low:
  fixes h :: u32
  shows "(ucast (ucast h :: u8) :: u16) OR push_bit 8 (ucast (ucast (drop_bit 8 h) :: u8)) = ucast h"
proof (rule bit_word_eqI)
  fix n assume "n < LENGTH(16)"
  show "bit ((ucast (ucast h :: u8) :: u16) OR push_bit 8 (ucast (ucast (drop_bit 8 h) :: u8))) n = bit (ucast h :: u16) n"
  proof (cases "n < 8")
    case False
    then obtain j where "n = 8 + j" using le_Suc_ex not_less by blast
    then show ?thesis  using \<open>n < LENGTH(16)\<close> by (auto simp: bit_simps)
  qed (auto simp: bit_simps)
qed

lemma high_half:
  "push_bit 16 (drop_bit 16 h) = h AND (0xFFFF0000 :: u32)"
 unfolding mask_halves by (rule bit_word_eqI) (auto simp: bit_simps)

text \<open>
  An interrupt gate as \<^verbatim>\<open>setup_idt_entry\<close> writes it. Read in the format of the processor, the gate's
  code selector is the low half of the handler's address, and the low half of its offset is 8: the
  two halves of the first word are swapped, so the gate does not lead to the handler in segment 8.
\<close>

theorem idt_entry_halves_swapped:
  assumes "setup_idt_entry vector handler dpl m = Inr m'"
  shows "map_option (\<lambda>d. (gate_offset (gate_of_bytes d), gate_selector (gate_of_bytes d)))
      (gm_read m' (0x528 + 8 * vector) 8) =
    Some ((handler AND 0xFFFF0000) OR 8, ucast handler)"
proof -
  define flags where "flags = 0x8E00 OR push_bit 13 (dpl AND 0x3)"
  define w0 where "w0 = push_bit 16 (handler AND 0xFFFF) OR 8"
  define w1 where "w1 = (handler AND 0xFFFF0000) OR flags"
  let ?a = "0x528 + 8 * vector"
  have k: "kaddr 0x528 = 0x528" by (simp add: kaddr_def)
  have at: "kaddr 0x528 + 4 * (vector * 2 + 0) = ?a" "kaddr 0x528 + 4 * (vector * 2 + 1) = ?a + 4"
    unfolding k by simp_all
  have "and_then (or_fault (store32 m ?a w0)) (\<lambda>m. or_fault (store32 m (?a + 4) w1)) = Inr m'"
    using assms unfolding setup_idt_entry_def Let_def at flags_def[symmetric] w0_def w1_def .
  then obtain m1 where w: "gm_write m ?a (le_bytes 4 w0) = Some m1" "gm_write m1 (?a + 4) (le_bytes 4 w1) = Some m'"
    unfolding store32_def by (cases "gm_write m ?a (le_bytes 4 w0)")
      (auto simp: or_fault_def split: option.splits)
  have "gm_read m' ?a 4 = Some (le_bytes 4 w0)"
    using gm.rd_wr_same[OF w(1)] gm.rd_wr_other[OF w(2), of ?a 4] by simp
  moreover have "gm_read m' (?a + 4) 4 = Some (le_bytes 4 w1)" using gm.rd_wr_same[OF w(2)] by simp
  ultimately have rd: "gm_read m' ?a 8 = Some (le_bytes 4 w0 @ le_bytes 4 w1)"
    using gm_read_append[of m' ?a "le_bytes 4 w0" 4 "le_bytes 4 w1"] by simp
  have "drop_bit 16 flags = 0"
  proof -
    have "drop_bit 16 (push_bit 13 (dpl AND mask 2)) = 0" by (rule bit_word_eqI) (auto simp: bit_simps)
    moreover have "(3 :: u32) = mask 2" by (simp add: mask_eq_exp_minus_1)
    ultimately show ?thesis by (simp add: flags_def)
  qed
  note high = idt_bytes_high(3,4)[OF this, of handler]
  have eight: "drop_bit 16 (8 :: u32) = 0" by simp
  let ?g = "gate_of_bytes (le_bytes 4 w0 @ le_bytes 4 w1)"
  have "(gate_offset ?g, gate_selector ?g) =
      (from_le [8, 0, ucast (drop_bit 16 handler), ucast (drop_bit 24 handler)],
       from_le [ucast handler, ucast (drop_bit 8 handler)])"
    unfolding gate_of_bytes_def le_bytes_4 w0_def w1_def idt_bytes_low idt_bytes_high(1,2)[OF eight] high
    by (simp del: from_le.simps)
  also have "\<dots> = ((handler AND 0xFFFF0000) OR 8, ucast handler)"
    using join_high[of handler] join_low[of handler] high_half[of handler]
    by (simp add: or.commute)
  finally show ?thesis using rd by simp
qed

theorem idt_entry_halves_swapped_witness:
  "\<exists>m'. setup_idt_entry 0x20 0x80001234 0 \<lparr>gm_size = 0x1000, gm_data = \<lambda>_. 0\<rparr> = Inr m' \<and>
     map_option (\<lambda>d. (gate_offset (gate_of_bytes d), gate_selector (gate_of_bytes d))) (gm_read m' 0x628 8) =
       Some (0x80000008, 0x1234)"
proof -
  have "\<exists>m'. setup_idt_entry 0x20 0x80001234 0 \<lparr>gm_size = 0x1000, gm_data = \<lambda>_. 0\<rparr> = Inr m'"
    by (simp add: setup_idt_entry_def kaddr_def store32_def)
  then obtain m' where m': "setup_idt_entry 0x20 0x80001234 0 \<lparr>gm_size = 0x1000, gm_data = \<lambda>_. 0\<rparr> = Inr m'"
    by blast
  have "ucast (0x80001234 :: u32) = (0x1234 :: u16)" "((0x80001234 :: u32) AND 0xFFFF0000) OR 8 = 0x80000008"
    by simp_all
  from idt_entry_halves_swapped[OF m', unfolded this] show ?thesis using m' by simp
qed

lemma zero_memory_frame:
  assumes "p + 20 \<le> 0x400000"
  shows "frame_at \<lparr>gm_size = 0x400000, gm_data = \<lambda>_. 0\<rparr> (word_of_nat p + 0x80000000) [0, 0, 0, 0, 0]"
proof -
  have "load32 \<lparr>gm_size = 0x400000, gm_data = \<lambda>_. 0\<rparr> (p + 4 * i) = Some (replicate 5 0 ! i)" if "i < 5" for i
    using assms that by (simp add: load32_def gm_read_zeros from_le_zeros)
  then have "frame_at \<lparr>gm_size = 0x400000, gm_data = \<lambda>_. 0\<rparr> (word_of_nat p + 0x80000000) (replicate 5 0)"
    using assms by (subst frame_at_nth[OF refl]) auto
  moreover have "replicate 5 0 = [0, 0, 0, 0, 0 :: u32]" by (simp add: numeral_eq_Suc)
  ultimately show ?thesis by (simp only:)
qed

definition two_procs :: "process list" where
  "two_procs = [\<lparr>pid = 1, pstate = PROC_RUNNABLE, psp = 0, page_table = 0\<rparr>,
                \<lparr>pid = 2, pstate = PROC_RUNNABLE, psp = 0x80003000, page_table = 0\<rparr>]"

theorem switch_context_roundtrip_witness:
  "\<exists>c1 k1 c3 k3.
     switch_context 0 1
       (\<lparr>eip = 0, esp = 0x80002000, ebp = 1, edi = 2, esi = 3, ebx = 4, cr3 = 0\<rparr>,
        \<lparr>kmem = \<lparr>kram = \<lparr>gm_size = 0x400000, gm_data = \<lambda>_. 0\<rparr>, next_paddr = 0\<rparr>, procs = two_procs,
         current_proc = 0, idle_proc = 0\<rparr>) = Inr (c1, k1) \<and> ebx c1 = 0 \<and>
     switch_context 1 0 (c1, k1) = Inr (c3, k3) \<and> ebx c3 = 4 \<and> ebp c3 = 1 \<and> esp c3 = 0x80002004"
proof -
  let ?c = "\<lparr>eip = 0, esp = 0x80002000, ebp = 1, edi = 2, esi = 3, ebx = 4, cr3 = 0\<rparr>"
  let ?k = "\<lparr>kmem = \<lparr>kram = \<lparr>gm_size = 0x400000, gm_data = \<lambda>_. 0\<rparr>, next_paddr = 0\<rparr>, procs = two_procs,
         current_proc = 0, idle_proc = 0\<rparr>"
  have ab: "(0 :: nat) \<noteq> 1" "0 < length (procs ?k)" by (simp_all add: two_procs_def)
  have room: "stack_room (kram (kmem ?k)) (esp ?c) 0x2000 4" "0x2000 + 4 \<le> (0x400000 :: nat)"
    by (simp_all add: stack_room_def)
  have ret: "load32 (kram (kmem ?k)) 0x2000 = Some 0"
    by (simp add: load32_def gm_read_zeros from_le_zeros)
  have away: "psp (procs ?k ! 1) = word_of_nat 0x3000 + 0x80000000" "0x3000 + 20 \<le> (0x400000 :: nat)"
    "0x3000 + 20 \<le> (0x2000 - 16 :: nat) \<or> 0x2000 \<le> (0x3000 :: nat)"
    "frame_at (kram (kmem ?k)) (psp (procs ?k ! 1)) [0, 0, 0, 0, 0]"
    using zero_memory_frame[of "0x3000"] by (simp_all add: two_procs_def del: frame_at.simps)
  obtain c1 k1 where first: "switch_context 0 1 (?c, ?k) = Inr (c1, k1)"
    "ebx c1 = 0" "esp c1 = word_of_nat 0x3014 + 0x80000000" "gm_size (kram (kmem k1)) = 0x400000"
    by (rule switch_context_ok[OF room(1) ab(1) away]) (simp add: two_procs_def)
  have room2: "stack_room (kram (kmem k1)) (esp c1) 0x3014 4"
    "0x2000 + 4 \<le> (0x3014 - 16 :: nat) \<or> 0x3014 \<le> (0x2000 - 16 :: nat)"
    using first(3,4) by (simp_all add: stack_room_def)
  from switch_context_roundtrip[OF ab room ret away first(1) refl refl room2] show ?thesis
    using first(1,2) by auto
qed

lemma create_process_ok:
  assumes slot: "find_slot (procs k) = Some i"
    and base: "procs_base = word_of_nat pb + 0x80000000" "pb + 8208 * 8 \<le> hi"
    and F: "free_from (kmem k) hi" and room: "hi + 4096 * (max 4 (page_count (length bs)) + 4) \<le> 0x3FF000"
    and img: "gm_read (kram (kmem k)) src (length bs) = Some bs" "src + length bs \<le> pb"
  obtains k' pages where
    "create_process procs_base user_entry (word_of_nat src + 0x80000000) (word_of_nat (length bs)) k = Inr (i, k')"
    and "procs k' = (procs k)[i := \<lparr>pid = i + 1, pstate = PROC_RUNNABLE,
           psp = word_of_nat (pb + 8208 * (i + 1) - 20) + 0x80000000, page_table = word_of_nat hi\<rparr>]"
    and "i < PROCS_MAX" and "gm_size (kram (kmem k')) \<ge> 0x3FF000"
    and "frame_at (kram (kmem k')) (word_of_nat (pb + 8208 * (i + 1) - 20) + 0x80000000) [user_entry, 0, 0, 0, 0]"
    and "\<And>va. walk_page_tables_32bit (kram (kmem k')) (word_of_nat hi) va = Some (process_view pages va)"
    and "map snd pages = map (image_page bs) [0..<page_count (length bs)] @ replicate (4 - page_count (length bs)) zero_page"
    and "free_from (kmem k') (hi + 4096 * (max 4 (page_count (length bs)) + 4))"
    and "\<And>d c. (d, c) \<in> set pages \<Longrightarrow> gm_read (kram (kmem k')) d 4096 = Some c"
    and "\<And>b n. b + n \<le> pb \<Longrightarrow> gm_read (kram (kmem k')) b n = gm_read (kram (kmem k)) b n"
    and "current_proc k' = current_proc k" "idle_proc k' = idle_proc k"
proof -
  define a where "a = pb + 8208 * (i + 1)"
  have i: "i < 8" using slot by (simp add: find_slot_def find_upt_Some PROCS_MAX_def)
  then have a: "pb + 8208 \<le> a" "a \<le> hi" using base(2) by (simp_all add: a_def)
  have "stack_end procs_base i = word_of_nat a + 0x80000000"
    by (simp add: stack_end_def base(1) a_def algebra_simps)
  then have "stack_room (kram (kmem k)) (stack_end procs_base i) a (length [0, 0, 0, 0, user_entry])"
    using F a by (simp add: stack_room_def free_from_def)
  then obtain m where m: "kfor [0, 0, 0, 0, user_entry] push (stack_end procs_base i, kram (kmem k)) =
      Inr (word_of_nat (a - 4 * length [0, 0, 0, 0, user_entry]) + 0x80000000, m)"
    "gm_size m = gm_size (kram (kmem k))"
    "frame_at m (word_of_nat (a - 4 * length [0, 0, 0, 0, user_entry]) + 0x80000000) (rev [0, 0, 0, 0, user_entry])"
    "\<And>b n. b + n \<le> a - 4 * length [0, 0, 0, 0, user_entry] \<or> a \<le> b \<Longrightarrow> gm_read m b n = gm_read (kram (kmem k)) b n"
    by (rule push_frame) blast
  have len: "4 * length [0, 0, 0, 0, user_entry] = 20" "rev [0, 0, 0, 0, user_entry] = [user_entry, 0, 0, 0, 0]"
    by simp_all
  note m = m[unfolded len]
  let ?km = "(kmem k)\<lparr>kram := m\<rparr>"
  have F': "free_from ?km hi" using F m(2) by (simp add: free_from_def)
  have img': "gm_read (kram ?km) src (length bs) = Some bs" "src + length bs \<le> hi"
    using m(4)[of src "length bs"] img a by simp_all
  obtain km pages where b: "build_address_space (word_of_nat src + 0x80000000) (word_of_nat (length bs)) ?km =
      Inr (word_of_nat hi + 0x80000000, km)"
    "user_space (kram ?km) hi (hi + 12288) hi kernel_entries km pages"
    "map snd pages = map (image_page bs) [0..<page_count (length bs)] @ replicate (4 - page_count (length bs)) zero_page"
    using build_address_space_ok[OF F' room img'] by blast
  note U = user_spaceD[OF b(2)]
  have frame: "frame_at (kram km) (word_of_nat (a - 20) + 0x80000000) [user_entry, 0, 0, 0, 0]"
    by (rule frame_at_cong[OF refl _ _ m(3)]) (use a U(5)[of "a - 20" 20] room in auto)
  have top: "user_top (hi + 12288) pages \<le> 0x3FF000" using U(1) by (simp add: free_from_def)
  have "length pages = max 4 (page_count (length bs))" using arg_cong[OF b(3), of length] by simp
  then have n: "length pages \<le> 1024" using room by simp
  have page: "4096 dvd d \<and> d < 0x400000" if "(d, c) \<in> set pages" for d c using U(3)[OF that] top by simp
  obtain T where "address_space (kram km) hi (user_top (hi + 12288) pages) hi T (with_user_pages pages kernel_entries)"
    using U(2) by blast
  then have walk: "walk_page_tables_32bit (kram km) (word_of_nat hi) va = Some (process_view pages va)" for va
    by (rule process_walk) (use page n in auto)
  let ?p = "\<lparr>pid = i + 1, pstate = PROC_RUNNABLE, psp = word_of_nat (a - 20) + 0x80000000, page_table = word_of_nat hi\<rparr>"
  have "create_process procs_base user_entry (word_of_nat src + 0x80000000) (word_of_nat (length bs)) k =
      Inr (i, k\<lparr>kmem := km, procs := (procs k)[i := ?p]\<rparr>)"
    unfolding create_process_def slot option.case m(1) and_then_simps prod.case b(1) by simp
  moreover have "free_from km (hi + 4096 * (max 4 (page_count (length bs)) + 4))"
  proof -
    have "pages \<noteq> []" using \<open>length pages = _\<close> by auto
    then have "user_top (hi + 12288) pages = hi + 4096 * (max 4 (page_count (length bs)) + 4)"
      using \<open>length pages = _\<close> by (simp add: user_top_def)
    then show ?thesis using U(1) by simp
  qed
  moreover have "gm_read (kram km) b n = gm_read (kram (kmem k)) b n" if "b + n \<le> pb" for b n
    using U(5)[of b n] m(4)[of b n] that a by simp
  ultimately show ?thesis
    using that[of "k\<lparr>kmem := km, procs := (procs k)[i := ?p]\<rparr>" pages] i frame walk b(3) U(1,3)
    by (simp add: a_def PROCS_MAX_def free_from_def)
qed

text \<open>The same with the new process as one value.\<close>

lemma create_process_result:
  assumes "find_slot (procs k) = Some i"
    and "procs_base = word_of_nat pb + 0x80000000" "pb + 8208 * 8 \<le> hi"
    and "free_from (kmem k) hi" and "hi + 4096 * (max 4 (page_count (length bs)) + 4) \<le> 0x3FF000"
    and "gm_read (kram (kmem k)) src (length bs) = Some bs" "src + length bs \<le> pb"
  shows "\<exists>k' p pages.
    create_process procs_base user_entry (word_of_nat src + 0x80000000) (word_of_nat (length bs)) k = Inr (i, k') \<and>
    procs k' = (procs k)[i := p] \<and> i < PROCS_MAX \<and> pid p = i + 1 \<and> pstate p = PROC_RUNNABLE \<and>
    frame_at (kram (kmem k')) (psp p) [user_entry, 0, 0, 0, 0] \<and>
    (\<forall>va. walk_page_tables_32bit (kram (kmem k')) (page_table p) va = Some (process_view pages va)) \<and>
    map snd pages = map (image_page bs) [0..<page_count (length bs)] @ replicate (4 - page_count (length bs)) zero_page \<and>
    (\<forall>d c. (d, c) \<in> set pages \<longrightarrow> gm_read (kram (kmem k')) d 4096 = Some c) \<and>
    (\<forall>b n. b + n \<le> pb \<longrightarrow> gm_read (kram (kmem k')) b n = gm_read (kram (kmem k)) b n) \<and>
    free_from (kmem k') (hi + 4096 * (max 4 (page_count (length bs)) + 4)) \<and> idle_proc k' = idle_proc k"
    (is "\<exists>k' p pages. ?Q k' p pages")
proof (rule create_process_ok[OF assms, of user_entry])
  let ?p = "\<lparr>pid = i + 1, pstate = PROC_RUNNABLE,
           psp = word_of_nat (pb + 8208 * (i + 1) - 20) + 0x80000000, page_table = word_of_nat hi\<rparr>"
  fix k' pages
  assume *: "create_process procs_base user_entry (word_of_nat src + 0x80000000) (word_of_nat (length bs)) k = Inr (i, k')"
    "procs k' = (procs k)[i := ?p]" "i < PROCS_MAX"
    "frame_at (kram (kmem k')) (word_of_nat (pb + 8208 * (i + 1) - 20) + 0x80000000) [user_entry, 0, 0, 0, 0]"
    "\<And>va. walk_page_tables_32bit (kram (kmem k')) (word_of_nat hi) va = Some (process_view pages va)"
    "map snd pages = map (image_page bs) [0..<page_count (length bs)] @ replicate (4 - page_count (length bs)) zero_page"
    "free_from (kmem k') (hi + 4096 * (max 4 (page_count (length bs)) + 4))"
    "\<And>d c. (d, c) \<in> set pages \<Longrightarrow> gm_read (kram (kmem k')) d 4096 = Some c"
    "\<And>b n. b + n \<le> pb \<Longrightarrow> gm_read (kram (kmem k')) b n = gm_read (kram (kmem k)) b n"
    "idle_proc k' = idle_proc k"
  then have "?Q k' ?p pages" unfolding process.select_convs by blast
  then show ?thesis by blast
qed

text \<open>
  \<^verbatim>\<open>create_process\<close> takes the first unused slot. With memory for the address space, the slot holds a
  runnable process with pid one above the slot, whose page table gives the view of
  \<open>process_address_space\<close> and whose stack starts with the five words that were pushed; no other
  slot changes.
\<close>

theorem process_created:
  assumes "find_slot (procs k) = Some i"
    and "procs_base = word_of_nat pb + 0x80000000" "pb + 8208 * 8 \<le> hi"
    and "free_from (kmem k) hi" and "hi + 4096 * (max 4 (page_count (length bs)) + 4) \<le> 0x3FF000"
    and "gm_read (kram (kmem k)) src (length bs) = Some bs" "src + length bs \<le> pb"
  shows "\<exists>k' p pages.
    create_process procs_base user_entry (word_of_nat src + 0x80000000) (word_of_nat (length bs)) k = Inr (i, k') \<and>
    procs k' = (procs k)[i := p] \<and> i < PROCS_MAX \<and> pid p = i + 1 \<and> pstate p = PROC_RUNNABLE \<and>
    frame_at (kram (kmem k')) (psp p) [user_entry, 0, 0, 0, 0] \<and>
    (\<forall>va. walk_page_tables_32bit (kram (kmem k')) (page_table p) va = Some (process_view pages va)) \<and>
    map snd pages = map (image_page bs) [0..<page_count (length bs)] @ replicate (4 - page_count (length bs)) zero_page"
  using create_process_result[OF assms, of user_entry] by blast

definition idle_kernel :: kernel where
  "idle_kernel =
     \<lparr>kmem = \<lparr>kram = \<lparr>gm_size = 0x400000, gm_data = \<lambda>_. 0\<rparr>, next_paddr = 0x80030000\<rparr>,
      procs = replicate 8 \<lparr>pid = 0, pstate = PROC_UNUSED, psp = 0, page_table = 0\<rparr>,
      current_proc = 0, idle_proc = 0\<rparr>"

lemma idle_kernel_ready:
  "find_slot (procs idle_kernel) = Some 0"
  "0x80010000 = word_of_nat 0x10000 + (0x80000000 :: u32)" "0x10000 + 8208 * 8 \<le> (0x30000 :: nat)"
  "free_from (kmem idle_kernel) 0x30000"
  "0x30000 + 4096 * (max 4 (page_count (length ([] :: u8 list))) + 4) \<le> (0x3FF000 :: nat)"
  "gm_read (kram (kmem idle_kernel)) 0x1000 (length ([] :: u8 list)) = Some []"
  "0x1000 + length ([] :: u8 list) \<le> 0x10000"
  by (simp_all add: idle_kernel_def find_slot_def PROCS_MAX_def upt_conv_Cons free_from_def
      page_count_def gm_read_def)

theorem process_created_witness:
  "\<exists>k' p. create_process 0x80010000 0x80001500 0x80001000 0 idle_kernel = Inr (0, k') \<and>
     procs k' = (procs idle_kernel)[0 := p] \<and> pid p = 1 \<and>
     walk_page_tables_32bit (kram (kmem k')) (page_table p) 0x80001500 = Some (Physical 0x1500)"
proof -
  obtain k' p pages where k':
    "create_process 0x80010000 0x80001500 (word_of_nat 0x1000 + 0x80000000) (word_of_nat (length ([] :: u8 list)))
       idle_kernel = Inr (0, k')"
    "procs k' = (procs idle_kernel)[0 := p]" "pid p = 0 + 1"
    "\<forall>va. walk_page_tables_32bit (kram (kmem k')) (page_table p) va = Some (process_view pages va)"
    using process_created[OF idle_kernel_ready, of "0x80001500"] by blast
  have "process_view pages 0x80001500 = Physical 0x1500" by (simp add: process_view_def)
  then show ?thesis using k' by auto
qed

text \<open>
  C38: the first switch to a new process. \<^verbatim>\<open>create_process\<close> leaves the entry address where
  \<^verbatim>\<open>switch_context\<close> pops EBP, so the switch to a process that has not run yet returns to address 0,
  with the entry address in EBP.
\<close>

theorem first_switch_returns_to_zero:
  assumes created: "create_process procs_base user_entry (word_of_nat src + 0x80000000) (word_of_nat (length bs)) k = Inr (i, k')"
    and "find_slot (procs k) = Some i" "length (procs k) = PROCS_MAX"
    and "procs_base = word_of_nat pb + 0x80000000" "pb + 8208 * 8 \<le> hi"
    and "free_from (kmem k) hi" and "hi + 4096 * (max 4 (page_count (length bs)) + 4) \<le> 0x3FF000"
    and "gm_read (kram (kmem k)) src (length bs) = Some bs" "src + length bs \<le> pb"
    and "prev \<noteq> i" and stack: "stack_room (kram (kmem k')) (esp c) s 4" "s \<le> pb + 8208 * i + 16 \<or> pb + 8208 * (i + 1) \<le> s - 16"
  shows "\<exists>c2 k2. switch_context prev i (c, k') = Inr (c2, k2) \<and> eip c2 = 0 \<and> ebp c2 = user_entry"
proof -
  let ?p = "\<lparr>pid = i + 1, pstate = PROC_RUNNABLE,
           psp = word_of_nat (pb + 8208 * (i + 1) - 20) + 0x80000000, page_table = word_of_nat hi\<rparr>"
  have k': "procs k' = (procs k)[i := ?p]" "i < PROCS_MAX"
    "frame_at (kram (kmem k')) (word_of_nat (pb + 8208 * (i + 1) - 20) + 0x80000000) [user_entry, 0, 0, 0, 0]"
    by (rule create_process_ok[OF assms(2,4-9), of user_entry]; use created in auto)+
  let ?sp = "pb + 8208 * (i + 1) - 20"
  have "hi \<le> 0x3FF000" using assms(7) by simp
  then have lim: "?sp + 20 \<le> 0x400000" using assms(5) k'(2) by (simp add: PROCS_MAX_def)
  have psp: "psp (procs k' ! i) = word_of_nat ?sp + 0x80000000" using k'(1,2) assms(3) by simp
  have away: "?sp + 20 \<le> s - 16 \<or> s \<le> ?sp" using stack(2) by auto
  show ?thesis
    by (rule switch_context_ok[OF stack(1) assms(10) psp lim away k'(3)[folded psp]]) simp
qed

theorem first_switch_returns_to_zero_witness:
  "\<exists>k' c2 k2. create_process 0x80010000 0x80001500 0x80001000 0 idle_kernel = Inr (0, k') \<and>
     switch_context 1 0 (\<lparr>eip = 0x80001234, esp = 0x80014000, ebp = 1, edi = 2, esi = 3, ebx = 4, cr3 = 0\<rparr>, k') =
       Inr (c2, k2) \<and> eip c2 = 0 \<and> ebp c2 = 0x80001500"
proof -
  let ?c = "\<lparr>eip = 0x80001234, esp = 0x80014000, ebp = 1, edi = 2, esi = 3, ebx = 4, cr3 = 0\<rparr>"
  obtain k' where k': "create_process 0x80010000 0x80001500 (word_of_nat 0x1000 + 0x80000000)
      (word_of_nat (length ([] :: u8 list))) idle_kernel = Inr (0, k')" "0x3FF000 \<le> gm_size (kram (kmem k'))"
    by (rule create_process_ok[OF idle_kernel_ready]) blast
  have n: "length (procs idle_kernel) = PROCS_MAX" by (simp add: idle_kernel_def PROCS_MAX_def)
  have stack: "stack_room (kram (kmem k')) (esp ?c) 0x14000 4"
    "0x14000 \<le> 0x10000 + 8208 * 0 + (16 :: nat) \<or> 0x10000 + 8208 * (0 + 1) \<le> (0x14000 - 16 :: nat)"
    using k'(2) by (simp_all add: stack_room_def)
  from first_switch_returns_to_zero[OF k'(1) idle_kernel_ready(1) n idle_kernel_ready(2-7) _ stack, of 1]
  show ?thesis using k'(1) by auto
qed

end
