(* ===== verification/Os_Fs.thy ===== *)
theory Os_Fs
  imports Os_Memory
begin

text \<open>
  The in-memory filesystem of the 1K OS (\<^verbatim>\<open>os-1k/kernel.c\<close>): the file table \<^verbatim>\<open>files\<close> and the tar
  image \<^verbatim>\<open>disk\<close>, both in RAM, with \<^verbatim>\<open>oct2int\<close>, \<^verbatim>\<open>fs_flush\<close>, \<^verbatim>\<open>fs_init\<close> and \<^verbatim>\<open>fs_lookup\<close>. The linker
  decides where the arrays and the string \<^verbatim>\<open>"ustar"\<close> lie, so their offsets in RAM are parameters.
\<close>

section \<open>Layout\<close>

definition FILES_MAX :: nat where "FILES_MAX = 2"
definition DISK_MAX_SIZE :: nat where "DISK_MAX_SIZE = 2560"

text \<open>
  \<^verbatim>\<open>struct file\<close> has 1132 bytes: \<^verbatim>\<open>in_use\<close>, \<^verbatim>\<open>name\<close> at 4, \<^verbatim>\<open>data\<close> at 104 and \<^verbatim>\<open>size\<close> at 1128. In
  \<^verbatim>\<open>struct tar_header\<close>, of 512 bytes, \<^verbatim>\<open>mode\<close> is at 100, \<^verbatim>\<open>size\<close> at 124, \<^verbatim>\<open>checksum\<close> at 148,
  \<^verbatim>\<open>type\<close> at 156, \<^verbatim>\<open>magic\<close> at 257, \<^verbatim>\<open>version\<close> at 263.
\<close>

record fs_layout =
  files_at :: nat
  disk_at :: nat
  ustar_at :: nat

definition file_addr :: "fs_layout \<Rightarrow> nat \<Rightarrow> nat" where
  "file_addr L i = files_at L + 1132 * i"

section \<open>Octal numbers\<close>

text \<open>The bytes of a header field that a loop fills from its last byte on with octal digits.\<close>

fun octal_field :: "nat \<Rightarrow> int \<Rightarrow> u8 list" where
  "octal_field 0 v = []"
| "octal_field (Suc n) v = octal_field n (v sdiv 8) @ [word_of_int (v smod 8 + 48)]"

fun oct2int_from :: "int \<Rightarrow> u8 list \<Rightarrow> int option" where
  "oct2int_from dec [] = Some dec"
| "oct2int_from dec (c # cs) =
     (if sint c < 48 \<or> sint c > 55 then Some dec
      else Option.bind (c_int (dec * 8 + (sint c - 48))) (\<lambda>dec. oct2int_from dec cs))"

definition oct2int :: "u8 list \<Rightarrow> int option" where
  "oct2int cs = oct2int_from 0 cs"

section \<open>fs_flush\<close>

definition align_up :: "u32 \<Rightarrow> u32" where
  "align_up n = (n + 512 - 1) AND NOT (512 - 1)"

definition flush_file :: "fs_layout \<Rightarrow> nat \<Rightarrow> gmem \<times> u32 \<Rightarrow> (gmem \<times> u32) option" where
  "flush_file L i = (\<lambda>(m, off).
     let f = file_addr L i; h = disk_at L + unat off in
     do {
       in_use \<leftarrow> load32 m f;
       if in_use = 0 then Some (m, off)
       else do {
         m \<leftarrow> memset m h 0 512;
         m \<leftarrow> strcpy m h (f + 4);
         m \<leftarrow> gm_write m (h + 100) (ascii ''000644'' @ [0]);
         m \<leftarrow> gm_write m (h + 257) (ascii ''ustar'' @ [0]);
         m \<leftarrow> gm_write m (h + 263) (ascii ''00'' @ [0]);
         m \<leftarrow> store8 m (h + 156) 48;
         filesz \<leftarrow> load32 m (f + 1128);
         m \<leftarrow> gm_write m (h + 124) (octal_field 12 (sint filesz));
         bytes \<leftarrow> gm_read m h 512;
         let checksum = 32 * 8 + sum_list (map uint bytes);
         m \<leftarrow> gm_write m (h + 148) (octal_field 6 checksum);
         size \<leftarrow> load32 m (f + 1128);
         m \<leftarrow> memcpy m (h + 512) (f + 104) (unat size);
         size \<leftarrow> load32 m (f + 1128);
         Some (m, off + align_up (512 + size))
       }
     })"

definition fs_flush :: "fs_layout \<Rightarrow> gmem \<Rightarrow> (gmem \<times> u8 list) option" where
  "fs_flush L m =
     do {
       m \<leftarrow> memset m (disk_at L) 0 DISK_MAX_SIZE;
       (m, off) \<leftarrow> for_each [0..<FILES_MAX] (flush_file L) (m, 0);
       out \<leftarrow> printf (ascii ''wrote %d bytes to disk'' @ [10]) [Word (word_of_nat DISK_MAX_SIZE)];
       Some (m, out)
     }"

section \<open>fs_init\<close>

text \<open>One turn of the loop; the flag of the result says whether the loop goes on.\<close>

definition init_file ::
  "fs_layout \<Rightarrow> nat \<Rightarrow> gmem \<times> u32 \<Rightarrow> kfault + (bool \<times> gmem \<times> u32 \<times> u8 list)" where
  "init_file L i = (\<lambda>(m, off).
     let f = file_addr L i; h = disk_at L + unat off in
     and_then (or_fault (load8 m h)) (\<lambda>c.
     if c = 0 then Inr (False, m, off, [])
     else and_then (or_fault (strcmp m (h + 257) (ustar_at L))) (\<lambda>r.
     if r \<noteq> 0 then Inl Panic
     else or_fault (do {
       cs \<leftarrow> gm_read m (h + 124) 12;
       filesz \<leftarrow> oct2int cs;
       m \<leftarrow> store32 m f 1;
       m \<leftarrow> strcpy m (f + 4) h;
       m \<leftarrow> memcpy m (f + 104) (h + 512) (unat (word_of_int filesz :: u32));
       m \<leftarrow> store32 m (f + 1128) (word_of_int filesz);
       name \<leftarrow> read_string m (f + 4);
       out \<leftarrow> printf (ascii ''file: %s, size=%d'' @ [10]) [Str name, Word (word_of_int filesz)];
       Some (True, m, off + align_up (512 + word_of_int filesz), out)
     }))))"

fun init_loop :: "fs_layout \<Rightarrow> nat list \<Rightarrow> gmem \<times> u32 \<Rightarrow> kfault + (gmem \<times> u8 list)" where
  "init_loop L [] s = Inr (fst s, [])"
| "init_loop L (i # is) s =
     and_then (init_file L i s) (\<lambda>(go, m, off, out).
       if go then and_then (init_loop L is (m, off)) (\<lambda>(m, out'). Inr (m, out @ out'))
       else Inr (m, []))"

definition fs_init :: "fs_layout \<Rightarrow> gmem \<Rightarrow> kfault + (gmem \<times> u8 list)" where
  "fs_init L m = init_loop L [0..<FILES_MAX] (m, 0)"

section \<open>fs_lookup\<close>

text \<open>The result is the index of the file, \<open>Some None\<close> for \<^verbatim>\<open>NULL\<close>.\<close>

fun lookup_from :: "fs_layout \<Rightarrow> gmem \<Rightarrow> nat \<Rightarrow> nat list \<Rightarrow> nat option option" where
  "lookup_from L m filename [] = Some None"
| "lookup_from L m filename (i # is) =
     Option.bind (strcmp m (file_addr L i + 4) filename)
       (\<lambda>r. if r = 0 then Some (Some i) else lookup_from L m filename is)"

definition fs_lookup :: "fs_layout \<Rightarrow> gmem \<Rightarrow> nat \<Rightarrow> nat option option" where
  "fs_lookup L m filename = lookup_from L m filename [0..<FILES_MAX]"

section \<open>Octal round trip\<close>

lemma length_octal_field [simp]: "length (octal_field n v) = n"
  by (induction n arbitrary: v) simp_all

lemma oct2int_from_append:
  "oct2int_from d cs = Some e \<Longrightarrow> list_all (\<lambda>c. 48 \<le> sint c \<and> sint c \<le> 55) cs \<Longrightarrow>
     oct2int_from d (cs @ ds) = oct2int_from e ds"
  by (induction cs arbitrary: d) (auto simp: bind_eq_Some_conv)

lemma sint_digit:
  assumes "0 \<le> d" "d < 8"
  shows "sint (word_of_int (d + 48) :: u8) = d + 48"
proof -
  from assms have "d = 0 \<or> d = 1 \<or> d = 2 \<or> d = 3 \<or> d = 4 \<or> d = 5 \<or> d = 6 \<or> d = 7" by arith
  then show ?thesis by auto
qed

lemma octal_field_oct2int:
  "0 \<le> v \<Longrightarrow> v < 8 ^ n \<Longrightarrow> v < 2 ^ 31 \<Longrightarrow>
     oct2int_from 0 (octal_field n v) = Some v \<and> list_all (\<lambda>c. 48 \<le> sint c \<and> sint c \<le> 55) (octal_field n v)"
proof (induction n arbitrary: v)
  case 0
  then show ?case by simp
next
  case (Suc n)
  have sd: "v sdiv 8 = v div 8" "v smod 8 = v mod 8"
    using Suc.prems(1) by (cases "v = 0"; simp add: signed_divide_int_def signed_modulo_int_def)+
  have ih: "oct2int_from 0 (octal_field n (v div 8)) = Some (v div 8)"
    "list_all (\<lambda>c. 48 \<le> sint c \<and> sint c \<le> 55) (octal_field n (v div 8))"
    using Suc.IH[of "v div 8"] Suc.prems by auto
  have dig: "sint (word_of_int (v mod 8 + 48) :: u8) = v mod 8 + 48" by (rule sint_digit) simp_all
  define c where "c = (word_of_int (v mod 8 + 48) :: u8)"
  have "0 \<le> v mod 8" "v mod 8 < 8" by simp_all
  then have c: "\<not> sint c < 48" "\<not> 55 < sint c" "v div 8 * 8 + (sint c - 48) = v"
    unfolding c_def dig by (linarith, linarith, simp)
  then have "oct2int_from (v div 8) [c] = Some v"
    using Suc.prems by (simp add: c_int_def)
  then show ?case
    using oct2int_from_append[OF ih] ih(2) c unfolding c_def by (simp add: sd not_less)
qed

section \<open>Sequences of writes\<close>

text \<open>A header is a sequence of writes, each an offset with its bytes.\<close>

definition wr_list :: "(nat \<times> u8 list) list \<Rightarrow> gmem \<Rightarrow> gmem option" where
  "wr_list ws m = for_each ws (\<lambda>(a, bs) m. gm_write m a bs) m"

lemma wr_list_Nil [simp]: "wr_list [] m = Some m"
  by (simp add: wr_list_def)

lemma wr_list_Cons [simp]: "wr_list ((a, bs) # ws) m = Option.bind (gm_write m a bs) (wr_list ws)"
  by (cases "gm_write m a bs") (simp_all add: wr_list_def)

lemma wr_list_append: "wr_list (xs @ ys) m = Option.bind (wr_list xs m) (wr_list ys)"
  by (cases "wr_list xs m") (simp_all add: wr_list_def for_each_append)

lemma wr_list_size: "wr_list ws m = Some m' \<Longrightarrow> gm_size m' = gm_size m"
  by (induction ws arbitrary: m) (auto simp: bind_eq_Some_conv gm_write_size)

lemma wr_list_frame:
  "wr_list ws m = Some m' \<Longrightarrow> list_all (\<lambda>(a, bs). a + length bs \<le> b \<or> b + n \<le> a) ws \<Longrightarrow>
     gm_read m' b n = gm_read m b n"
proof (induction ws arbitrary: m)
  case Nil
  then show ?case by simp
next
  case (Cons w ws)
  obtain a bs where w: "w = (a, bs)" by (cases w)
  with Cons.prems obtain m1 where m1: "gm_write m a bs = Some m1" "wr_list ws m1 = Some m'"
    by (auto simp: bind_eq_Some_conv)
  have "gm_read m' b n = gm_read m1 b n" using Cons.IH[OF m1(2)] Cons.prems(2) by simp
  also have "\<dots> = gm_read m b n" by (rule gm.rd_wr_other[OF m1(1)]) (use Cons.prems(2) w in simp)
  finally show ?case .
qed

lemma wr_list_read:
  assumes "wr_list (xs @ (a, bs) # ys) m = Some m'"
    and "list_all (\<lambda>(b, cs). b + length cs \<le> a \<or> a + length bs \<le> b) ys"
  shows "gm_read m' a (length bs) = Some bs"
proof -
  obtain m1 m2 where m: "wr_list xs m = Some m1" "gm_write m1 a bs = Some m2" "wr_list ys m2 = Some m'"
    using assms(1) by (auto simp: wr_list_append bind_eq_Some_conv)
  show ?thesis using wr_list_frame[OF m(3) assms(2)] gm.rd_wr_same[OF m(2)] by simp
qed

lemma wr_list_defined:
  "list_all (\<lambda>(a, bs). a + length bs \<le> gm_size m) ws \<Longrightarrow> \<exists>m'. wr_list ws m = Some m'"
proof (induction ws arbitrary: m)
  case Nil
  then show ?case by simp
next
  case (Cons w ws)
  obtain a bs where w: "w = (a, bs)" by (cases w)
  then obtain m1 where m1: "gm_write m a bs = Some m1" using Cons.prems by simp
  have "gm_size m1 = gm_size m" by (rule gm_write_size[OF m1])
  then show ?case using Cons.IH[of m1] Cons.prems m1 w by simp
qed

lemma gm_write_Nil: "a \<le> gm_size m \<Longrightarrow> gm_write m a [] = Some m"
proof -
  assume "a \<le> gm_size m"
  moreover have "splice (gm_data m) a [] = gm_data m" by (rule ext) (auto simp: splice_def)
  ultimately show ?thesis by (cases m) (simp add: gm_write_def)
qed

lemma memcpy_wr:
  assumes "gm_read m s n = Some bs" and "s + n \<le> d \<or> d + n \<le> s" and "d + n \<le> gm_size m"
  shows "memcpy m d s n = gm_write m d bs"
proof (cases "n = 0")
  case True
  then show ?thesis using assms gm_write_Nil[of d m] gm_read_length[OF assms(1)] by simp
qed (use memcpy_write[OF assms] in simp)

lemma cstring_frame: "gm_read m' a (length s + 1) = gm_read m a (length s + 1) \<Longrightarrow> cstring m' a s = cstring m a s"
  by (simp add: cstring_def)

section \<open>Files and headers\<close>

text \<open>What a slot of the file table holds, and what a header of the image says.\<close>

definition file_is :: "gmem \<Rightarrow> nat \<Rightarrow> u8 list \<Rightarrow> u8 list \<Rightarrow> bool" where
  "file_is m f name data \<longleftrightarrow> (\<exists>u. load32 m f = Some u \<and> u \<noteq> 0) \<and> cstring m (f + 4) name \<and>
     load32 m (f + 1128) = Some (word_of_nat (length data)) \<and> gm_read m (f + 104) (length data) = Some data \<and>
     name \<noteq> [] \<and> length name \<le> 99 \<and> length data \<le> 1024"

definition header_at :: "gmem \<Rightarrow> nat \<Rightarrow> u8 list \<Rightarrow> u8 list \<Rightarrow> bool" where
  "header_at m h name data \<longleftrightarrow> cstring m h name \<and> cstring m (h + 257) (ascii ''ustar'') \<and>
     gm_read m (h + 124) 12 = Some (octal_field 12 (int (length data))) \<and>
     gm_read m (h + 512) (length data) = Some data \<and>
     name \<noteq> [] \<and> length name \<le> 99 \<and> length data \<le> 1024"

lemma file_is_frame:
  assumes "file_is m f name data" and "\<And>b n. f \<le> b \<Longrightarrow> b + n \<le> f + 1132 \<Longrightarrow> gm_read m' b n = gm_read m b n"
  shows "file_is m' f name data"
  using assms(1) assms(2)[of f 4] assms(2)[of "f + 4" "length name + 1"] assms(2)[of "f + 1128" 4]
    assms(2)[of "f + 104" "length data"]
  by (auto simp: file_is_def load32_def cstring_def)

lemma header_at_frame:
  assumes "header_at m h name data"
    and "\<And>b n. h \<le> b \<Longrightarrow> b + n \<le> h + 512 + length data \<Longrightarrow> gm_read m' b n = gm_read m b n"
  shows "header_at m' h name data"
  using assms(1) assms(2)[of h "length name + 1"] assms(2)[of "h + 257" "length (ascii ''ustar'') + 1"] assms(2)[of "h + 124" 12]
    assms(2)[of "h + 512" "length data"]
  by (auto simp: header_at_def cstring_def)

text \<open>The writes that \<^verbatim>\<open>fs_flush\<close> makes for one file; only the checksum is left open.\<close>

definition header_writes :: "nat \<Rightarrow> u8 list \<Rightarrow> u8 list \<Rightarrow> u8 list \<Rightarrow> (nat \<times> u8 list) list" where
  "header_writes h name data cs =
     [(h, replicate 512 0), (h, name @ [0]), (h + 100, ascii ''000644'' @ [0]), (h + 257, ascii ''ustar'' @ [0]),
      (h + 263, ascii ''00'' @ [0]), (h + 156, [48]), (h + 124, octal_field 12 (int (length data))),
      (h + 148, cs), (h + 512, data)]"

lemma memset_wr: "0 < n \<Longrightarrow> memset m a c n = gm_write m a (replicate n c)"
  by (simp add: memset_fill gm_fill_def)

lemma flush_file_ok:
  assumes F: "file_is m (file_addr L i) name data" and h: "h = disk_at L + unat off"
    and size: "h + 512 + length data \<le> gm_size m"
    and apart: "file_addr L i + 1132 \<le> h \<or> h + 512 + length data \<le> file_addr L i"
  obtains m' cs where "flush_file L i (m, off) = Some (m', off + align_up (512 + word_of_nat (length data)))"
    and "wr_list (header_writes h name data cs) m = Some m'" and "length cs = 6"
proof -
  let ?f = "file_addr L i" and ?n = "length data"
  have N: "length name \<le> 99" "?n \<le> 1024" using F by (simp_all add: file_is_def)
  obtain u where u: "load32 m ?f = Some u" "u \<noteq> 0" using F by (auto simp: file_is_def)
  have region: "file_is mj ?f name data"
    if "wr_list ws m = Some mj" "list_all (\<lambda>(a, bs). h \<le> a \<and> a + length bs \<le> h + 512 + ?n) ws" for ws mj
  proof (rule file_is_frame[OF F])
    fix b n assume "?f \<le> b" "b + n \<le> ?f + 1132"
    with that(2) apart show "gm_read mj b n = gm_read m b n"
      by (intro wr_list_frame[OF that(1)]) (auto simp: list_all_iff)
  qed
  have bound: "\<exists>m'. gm_write m1 a bs = Some m' \<and> gm_size m' = gm_size m"
    if "gm_size m1 = gm_size m" "a + length bs \<le> h + 512 + ?n" for m1 a bs
    using that size by simp
  obtain m1 where m1: "gm_write m h (replicate 512 0) = Some m1" "gm_size m1 = gm_size m"
    using bound[of m h "replicate 512 0"] by auto
  obtain m2 where m2: "gm_write m1 h (name @ [0]) = Some m2" "gm_size m2 = gm_size m"
    using bound[OF m1(2), of h "name @ [0]"] N by auto
  obtain m3 where m3: "gm_write m2 (h + 100) (ascii ''000644'' @ [0]) = Some m3" "gm_size m3 = gm_size m"
    using bound[OF m2(2), of "h + 100" "ascii ''000644'' @ [0]"] by auto
  obtain m4 where m4: "gm_write m3 (h + 257) (ascii ''ustar'' @ [0]) = Some m4" "gm_size m4 = gm_size m"
    using bound[OF m3(2), of "h + 257" "ascii ''ustar'' @ [0]"] by auto
  obtain m5 where m5: "gm_write m4 (h + 263) (ascii ''00'' @ [0]) = Some m5" "gm_size m5 = gm_size m"
    using bound[OF m4(2), of "h + 263" "ascii ''00'' @ [0]"] by auto
  obtain m6 where m6: "gm_write m5 (h + 156) [48] = Some m6" "gm_size m6 = gm_size m"
    using bound[OF m5(2), of "h + 156" "[48]"] by auto
  let ?oct = "octal_field 12 (int ?n)"
  obtain m7 where m7: "gm_write m6 (h + 124) ?oct = Some m7" "gm_size m7 = gm_size m"
    using bound[OF m6(2), of "h + 124" ?oct] by auto
  obtain bytes where bytes: "gm_read m7 h 512 = Some bytes"
    using m7(2) size by (simp add: gm_read_def)
  define cs where "cs = octal_field 6 (32 * 8 + sum_list (map uint bytes))"
  have cs: "length cs = 6" by (simp add: cs_def)
  obtain m8 where m8: "gm_write m7 (h + 148) cs = Some m8" "gm_size m8 = gm_size m"
    using bound[OF m7(2), of "h + 148" cs] cs by auto
  obtain m9 where m9: "gm_write m8 (h + 512) data = Some m9" "gm_size m9 = gm_size m"
    using bound[OF m8(2), of "h + 512" data] by auto
  let ?ws = "header_writes h name data cs"
  have w1: "wr_list [(h, replicate 512 0)] m = Some m1" using m1 by simp
  have w6: "wr_list (take 6 ?ws) m = Some m6"
    using m1 m2 m3 m4 m5 m6 by (simp add: header_writes_def)
  have w8: "wr_list (take 8 ?ws) m = Some m8"
    using m1 m2 m3 m4 m5 m6 m7 m8 by (simp add: header_writes_def)
  have w9: "wr_list ?ws m = Some m9"
    using m1 m2 m3 m4 m5 m6 m7 m8 m9 by (simp add: header_writes_def)
  have in_h: "list_all (\<lambda>(a, bs). h \<le> a \<and> a + length bs \<le> h + 512 + ?n) ?ws"
    using N cs by (simp add: header_writes_def)
  have F1: "file_is m1 ?f name data" by (rule region[OF w1]) simp
  have F6: "file_is m6 ?f name data" by (rule region[OF w6]) (use in_h in \<open>simp add: header_writes_def\<close>)
  have F8: "file_is m8 ?f name data" by (rule region[OF w8]) (use in_h in \<open>simp add: header_writes_def\<close>)
  have F9: "file_is m9 ?f name data" by (rule region[OF w9 in_h])
  have s1: "memset m h 0 512 = Some m1" using m1(1) by (simp add: memset_wr)
  have s2: "strcpy m1 h (?f + 4) = Some m2"
  proof -
    have "strcpy m1 h (?f + 4) = gm_write m1 h (name @ [0])"
      by (rule strcpy_write) (use F1 apart N m1(2) size in \<open>auto simp: file_is_def\<close>)
    then show ?thesis using m2(1) by simp
  qed
  have len32: "sint (word_of_nat ?n :: u32) = int ?n" "unat (word_of_nat ?n :: u32) = ?n"
    using N(2) by (simp_all add: unat_of_nat sint_uint signed_take_bit_int_eq_self uint_nat)
  have s9: "memcpy m8 (h + 512) (?f + 104) ?n = Some m9"
  proof -
    have "gm_read m8 (?f + 104) ?n = Some data" using F8 by (simp add: file_is_def)
    then have "memcpy m8 (h + 512) (?f + 104) ?n = gm_write m8 (h + 512) data"
      by (rule memcpy_wr) (use apart N m8(2) size in auto)
    then show ?thesis using m9(1) by simp
  qed
  have l: "load32 mj (?f + 1128) = Some (word_of_nat ?n)" if "file_is mj ?f name data" for mj
    using that by (simp add: file_is_def)
  have "flush_file L i (m, off) = Some (m9, off + align_up (512 + word_of_nat ?n))"
    unfolding flush_file_def prod.case Let_def h[symmetric]
    using u s1 s2 m3(1) m4(1) m5(1) m6(1) l[OF F6] len32 m7(1) bytes m8(1)[unfolded cs_def] l[OF F8] s9 l[OF F9]
    by (simp add: store8_write)
  then show ?thesis using that w9 cs by blast
qed

lemma cstring_write:
  assumes "wr_list (xs @ (a, s @ [0]) # ys) m = Some m'" and "0 \<notin> set s"
    and "list_all (\<lambda>(b, cs). b + length cs \<le> a \<or> a + length (s @ [0]) \<le> b) ys"
  shows "cstring m' a s"
  using wr_list_read[OF assms(1,3)] assms(2) by (simp add: cstring_def)

lemma header_written:
  assumes w: "wr_list (header_writes h name data cs) m = Some m'" and cs: "length cs = 6"
    and name: "name \<noteq> []" "length name \<le> 99" "0 \<notin> set name" and data: "length data \<le> 1024"
  shows "header_at m' h name data"
    and "b + n \<le> h \<or> h + 512 + length data \<le> b \<Longrightarrow> gm_read m' b n = gm_read m b n"
proof -
  let ?ws = "header_writes h name data cs"
  have name: "cstring m' h name"
    by (rule cstring_write[of "take 1 ?ws" _ _ "drop 2 ?ws"])
      (use w cs name in \<open>simp_all add: header_writes_def\<close>)
  have ustar: "cstring m' (h + 257) (ascii ''ustar'')"
    by (rule cstring_write[of "take 3 ?ws" _ _ "drop 4 ?ws"])
      (use w cs in \<open>simp_all add: header_writes_def ascii_def\<close>)
  have size: "gm_read m' (h + 124) 12 = Some (octal_field 12 (int (length data)))"
    using wr_list_read[of "take 6 ?ws" "h + 124" "octal_field 12 (int (length data))" "drop 7 ?ws" m m'] w cs
    by (simp add: header_writes_def)
  have content: "gm_read m' (h + 512) (length data) = Some data"
    using wr_list_read[of "take 8 ?ws" "h + 512" data "drop 9 ?ws" m m'] w cs
    by (simp add: header_writes_def)
  show "header_at m' h name data"
    using name ustar size content assms(3-6) by (simp add: header_at_def)
  show "gm_read m' b n = gm_read m b n" if "b + n \<le> h \<or> h + 512 + length data \<le> b"
    by (rule wr_list_frame[OF w]) (use that cs assms(4) in \<open>auto simp: header_writes_def\<close>)
qed

lemma file_name_nonzero: "file_is m f name data \<Longrightarrow> 0 \<notin> set name"
  by (simp add: file_is_def cstring_def)

text \<open>Offsets in the image as the code computes them.\<close>

definition sectors :: "nat \<Rightarrow> nat" where "sectors n = (n + 511) div 512 * 512"

lemma sectors_bounds: "n \<le> sectors n" "n \<le> 1024 \<Longrightarrow> sectors n \<le> 1024"
proof -
  have *: "(n + 511) div 512 * 512 + (n + 511) mod 512 = n + 511" by (rule div_mult_mod_eq)
  have **: "(n + 511) mod 512 < 512" by simp
  show "n \<le> sectors n" using * ** unfolding sectors_def by linarith
  assume "n \<le> 1024"
  then have "(n + 511) div 512 < 3" by (simp add: div_less_iff_less_mult)
  then show "sectors n \<le> 1024" unfolding sectors_def by linarith
qed

lemma align_up_sectors:
  assumes "n \<le> 0x10000"
  shows "unat (align_up (512 + word_of_nat n)) = 512 + sectors n"
proof -
  have e: "(512 + word_of_nat n + 512 - 1 :: u32) = word_of_nat (n + 1023)" by simp
  have "word_of_nat (n + 1023) AND NOT (mask 9) = push_bit 9 (drop_bit 9 (word_of_nat (n + 1023) :: u32))"
    by (rule bit_word_eqI) (auto simp: bit_simps)
  also have "\<dots> = word_of_nat ((n + 1023) div 512 * 512)"
  proof -
    have "unat (word_of_nat (n + 1023) :: u32) = n + 1023"
      unfolding unat_of_nat using assms by simp
    then have "unat (drop_bit 9 (word_of_nat (n + 1023) :: u32)) = (n + 1023) div 512"
      by (simp only: unat_drop_div) simp
    moreover have "unat (word_of_nat ((n + 1023) div 512) :: u32) = (n + 1023) div 512"
      unfolding unat_of_nat using assms by simp
    ultimately have "drop_bit 9 (word_of_nat (n + 1023) :: u32) = word_of_nat ((n + 1023) div 512)"
      by (simp only: word_unat_eq_iff)
    then show ?thesis by (simp add: push_bit_eq_mult)
  qed
  also have "(n + 1023) div 512 * 512 = 512 + sectors n"
  proof -
    have "(n + 1023) div 512 = (n + 511) div 512 + 1" using div_add_self2[of 512 "n + 511"] by simp
    then show ?thesis by (simp add: sectors_def)
  qed
  finally have "align_up (512 + word_of_nat n) = word_of_nat (512 + sectors n)"
    unfolding align_up_def e by (simp add: mask_eq_exp_minus_1)
  moreover have "512 + sectors n < 2 ^ 32" using assms by (simp add: sectors_def)
  ultimately show ?thesis by (simp only: unat_of_nat) simp
qed

text \<open>Where the arrays may lie.\<close>

definition fs_layout_ok :: "fs_layout \<Rightarrow> gmem \<Rightarrow> nat \<Rightarrow> bool" where
  "fs_layout_ok L m n \<longleftrightarrow> disk_at L + n \<le> gm_size m \<and> files_at L + 2264 \<le> gm_size m \<and>
     (files_at L + 2264 \<le> disk_at L \<or> disk_at L + n \<le> files_at L)"

lemma fs_flush_ok:
  assumes L: "fs_layout_ok L m (max 2560 (512 + sectors (length d0) + 512 + length d1))"
    and F: "file_is m (file_addr L 0) n0 d0" "file_is m (file_addr L 1) n1 d1"
  obtains m' where "fs_flush L m = Some (m', ascii ''wrote 2560 bytes to disk'' @ [10])"
    and "header_at m' (disk_at L) n0 d0"
    and "header_at m' (disk_at L + 512 + sectors (length d0)) n1 d1"
    and "\<And>b n. b + n \<le> disk_at L \<or>
      disk_at L + max 2560 (512 + sectors (length d0) + 512 + length d1) \<le> b \<Longrightarrow> gm_read m' b n = gm_read m b n"
    and "gm_size m' = gm_size m"
proof -
  let ?D = "max 2560 (512 + sectors (length d0) + 512 + length d1)" and ?h = "disk_at L"
  let ?h1 = "disk_at L + 512 + sectors (length d0)"
  have sz: "?h + ?D \<le> gm_size m" using L by (simp add: fs_layout_ok_def)
  have fa: "file_addr L 0 = files_at L" "file_addr L 1 = files_at L + 1132" by (simp_all add: file_addr_def)
  have apart: "files_at L + 2264 \<le> ?h \<or> ?h + ?D \<le> files_at L" using L by (simp add: fs_layout_ok_def)
  have len: "length d0 \<le> 1024" "length d1 \<le> 1024" using F by (simp_all add: file_is_def)
  have sec: "length d0 \<le> sectors (length d0)" "sectors (length d0) \<le> 1024"
    using len(1) by (auto intro: sectors_bounds)
  obtain m0 where m0: "memset m ?h 0 2560 = Some m0" "gm_write m ?h (replicate 2560 0) = Some m0"
    "gm_size m0 = gm_size m"
    using sz by (auto simp: memset_wr)
  have fr0: "gm_read m0 b n = gm_read m b n" if "b + n \<le> ?h \<or> ?h + 2560 \<le> b" for b n
    by (rule gm.rd_wr_other[OF m0(2)]) (use that in auto)
  have F0: "file_is m0 (file_addr L 0) n0 d0"
    by (rule file_is_frame[OF F(1)], rule fr0) (use apart fa in auto)
  have F0': "file_is m0 (file_addr L 1) n1 d1"
    by (rule file_is_frame[OF F(2)], rule fr0) (use apart fa in auto)
  obtain m1 c1 where m1: "flush_file L 0 (m0, 0) = Some (m1, 0 + align_up (512 + word_of_nat (length d0)))"
    "wr_list (header_writes ?h n0 d0 c1) m0 = Some m1" "length c1 = 6"
    by (rule flush_file_ok[OF F0, of ?h 0]) (use sz sec apart fa m0(3) in auto)
  note H1 = header_written[OF m1(2,3)]
  have nm: "n0 \<noteq> []" "length n0 \<le> 99" "0 \<notin> set n0" "n1 \<noteq> []" "length n1 \<le> 99" "0 \<notin> set n1"
    using F file_name_nonzero[OF F(1)] file_name_nonzero[OF F(2)] by (auto simp: file_is_def)
  have off: "unat (0 + align_up (512 + word_of_nat (length d0))) = 512 + sectors (length d0)"
    using align_up_sectors[of "length d0"] len(1) by simp
  have fr1: "gm_read m1 b n = gm_read m0 b n" if "b + n \<le> ?h \<or> ?h + 512 + length d0 \<le> b" for b n
    by (rule H1(2)[OF nm(1-3) len(1) that])
  have F1: "file_is m1 (file_addr L 1) n1 d1"
    by (rule file_is_frame[OF F0'], rule fr1) (use apart fa sec in auto)
  have sz1: "gm_size m1 = gm_size m" using wr_list_size[OF m1(2)] m0(3) by simp
  obtain m2 c2 where m2: "flush_file L 1 (m1, 0 + align_up (512 + word_of_nat (length d0))) =
      Some (m2, 0 + align_up (512 + word_of_nat (length d0)) + align_up (512 + word_of_nat (length d1)))"
    "wr_list (header_writes ?h1 n1 d1 c2) m1 = Some m2" "length c2 = 6"
    by (rule flush_file_ok[OF F1, of ?h1 "0 + align_up (512 + word_of_nat (length d0))"])
      (use sz sec apart fa sz1 off in auto)
  note H2 = header_written[OF m2(2,3)]
  have fr2: "gm_read m2 b n = gm_read m1 b n" if "b + n \<le> ?h1 \<or> ?h1 + 512 + length d1 \<le> b" for b n
    by (rule H2(2)[OF nm(4-6) len(2) that])
  have out: "printf (ascii ''wrote %d bytes to disk'' @ [10]) [Word (word_of_nat DISK_MAX_SIZE)] =
      Some (ascii ''wrote 2560 bytes to disk'' @ [10])"
    by code_simp
  show ?thesis
  proof (rule that)
    show "fs_flush L m = Some (m2, ascii ''wrote 2560 bytes to disk'' @ [10])"
      unfolding fs_flush_def out using m0(1) m1(1) m2(1)
      by (simp add: DISK_MAX_SIZE_def FILES_MAX_def upt_conv_Cons)
    show "header_at m2 ?h n0 d0"
      by (rule header_at_frame[OF H1(1)[OF nm(1-3) len(1)]], rule fr2) (use sec in auto)
    show "header_at m2 ?h1 n1 d1" by (rule H2(1)[OF nm(4-6) len(2)])
    show "gm_size m2 = gm_size m" using wr_list_size[OF m2(2)] sz1 by simp
    show "gm_read m2 b n = gm_read m b n" if "b + n \<le> ?h \<or> ?h + ?D \<le> b" for b n
    proof -
      have "2560 \<le> ?D" "512 + sectors (length d0) + 512 + length d1 \<le> ?D" by simp_all
      then have "b + n \<le> ?h1 \<or> ?h1 + 512 + length d1 \<le> b" "b + n \<le> ?h \<or> ?h + 512 + length d0 \<le> b"
        "b + n \<le> ?h \<or> ?h + 2560 \<le> b"
        using that sec by linarith+
      then show ?thesis using fr2 fr1 fr0 by simp
    qed
  qed
qed

lemma printf_file:
  "printf (ascii ''file: %s, size=%d'' @ [10]) [Str s, Word w] =
     Some (ascii ''file: '' @ s @ ascii '', size='' @ print_int w @ [10])"
  by (simp add: ascii_def)

lemma init_file_ok:
  assumes H: "header_at m h name data" and h: "h = disk_at L + unat off"
    and ustar: "cstring m (ustar_at L) (ascii ''ustar'')"
    and f: "file_addr L i + 1132 \<le> gm_size m"
      "file_addr L i + 1132 \<le> h \<or> h + 512 + length data \<le> file_addr L i"
  obtains m' where "init_file L i (m, off) = Inr (True, m', off + align_up (512 + word_of_nat (length data)),
      ascii ''file: '' @ name @ ascii '', size='' @ print_int (word_of_nat (length data)) @ [10])"
    and "file_is m' (file_addr L i) name data"
    and "\<And>b n. b + n \<le> file_addr L i \<or> file_addr L i + 1132 \<le> b \<Longrightarrow> gm_read m' b n = gm_read m b n"
    and "gm_size m' = gm_size m"
proof -
  let ?f = "file_addr L i" and ?n = "length data"
  have N: "name \<noteq> []" "length name \<le> 99" "?n \<le> 1024" and z: "0 \<notin> set name"
    using H by (simp_all add: header_at_def cstring_def)
  have names: "cstring m h name" "cstring m (h + 257) (ascii ''ustar'')"
    "gm_read m (h + 124) 12 = Some (octal_field 12 (int ?n))" "gm_read m (h + 512) ?n = Some data"
    using H by (simp_all add: header_at_def)
  obtain c where c: "load8 m h = Some c" "c \<noteq> 0"
    using names(1) N(1) by (cases name) (auto simp: cstring_Cons)
  have magic: "strcmp m (h + 257) (ustar_at L) = Some 0"
    using strcmp_eq[OF names(2) ustar] by auto
  have oct: "oct2int (octal_field 12 (int ?n)) = Some (int ?n)"
    unfolding oct2int_def using octal_field_oct2int[of "int ?n" 12] N(3) by simp
  let ?w = "word_of_nat ?n :: u32"
  have w: "word_of_int (int ?n) = ?w" "unat ?w = ?n" using N(3) by (simp_all add: unat_of_nat)
  let ?ws = "[(?f, le_bytes 4 (1 :: u32)), (?f + 4, name @ [0]), (?f + 104, data), (?f + 1128, le_bytes 4 ?w)]"
  obtain m1 where m1: "gm_write m ?f (le_bytes 4 (1 :: u32)) = Some m1" "gm_size m1 = gm_size m"
    using f(1) by auto
  obtain m2 where m2: "gm_write m1 (?f + 4) (name @ [0]) = Some m2" "gm_size m2 = gm_size m"
    using f(1) m1(2) N(2) by auto
  obtain m3 where m3: "gm_write m2 (?f + 104) data = Some m3" "gm_size m3 = gm_size m"
    using f(1) m2(2) N(3) by auto
  obtain m4 where m4: "gm_write m3 (?f + 1128) (le_bytes 4 ?w) = Some m4" "gm_size m4 = gm_size m"
    using f(1) m3(2) by auto
  have ws: "wr_list ?ws m = Some m4" using m1(1) m2(1) m3(1) m4(1) by simp
  have fr: "gm_read m1 b k = gm_read m b k" "gm_read m2 b k = gm_read m b k"
    if "h \<le> b" "b + k \<le> h + 512 + ?n" for b k
  proof -
    show "gm_read m1 b k = gm_read m b k"
      by (rule gm.rd_wr_other[OF m1(1)]) (use that f(2) in auto)
    then show "gm_read m2 b k = gm_read m b k"
      using gm.rd_wr_other[OF m2(1), of b k] that f(2) N(2) by auto
  qed
  have s2: "strcpy m1 (?f + 4) h = Some m2"
  proof -
    have "cstring m1 h name" using names(1) fr(1)[of h "length name + 1"] N(2) by (simp add: cstring_def)
    then have "strcpy m1 (?f + 4) h = gm_write m1 (?f + 4) (name @ [0])"
      by (rule strcpy_write) (use f N(2) m1(2) in auto)
    then show ?thesis using m2(1) by simp
  qed
  have s3: "memcpy m2 (?f + 104) (h + 512) ?n = Some m3"
  proof -
    have "gm_read m2 (h + 512) ?n = Some data" using names(4) fr(2)[of "h + 512" ?n] by simp
    then have "memcpy m2 (?f + 104) (h + 512) ?n = gm_write m2 (?f + 104) data"
      by (rule memcpy_wr) (use f N(3) m2(2) in auto)
    then show ?thesis using m3(1) by simp
  qed
  have used: "load32 m4 ?f = Some 1"
    using wr_list_read[of "[]" ?f "le_bytes 4 (1 :: u32)" "tl ?ws" m m4] ws N(2)
    by (simp add: load32_def from_le_le_bytes)
  have name': "cstring m4 (?f + 4) name"
    by (rule cstring_write[of "take 1 ?ws" _ _ "drop 2 ?ws"]) (use ws z N(2) in simp_all)
  have size: "load32 m4 (?f + 1128) = Some ?w"
    using wr_list_read[of "take 3 ?ws" "?f + 1128" "le_bytes 4 ?w" "[]" m m4] ws
    by (simp add: load32_def from_le_le_bytes)
  have content: "gm_read m4 (?f + 104) ?n = Some data"
    using wr_list_read[of "take 2 ?ws" "?f + 104" data "drop 3 ?ws" m m4] ws N(3) by simp
  have "init_file L i (m, off) = Inr (True, m4, off + align_up (512 + ?w),
      ascii ''file: '' @ name @ ascii '', size='' @ print_int ?w @ [10])"
    unfolding init_file_def prod.case Let_def h[symmetric]
    using c magic names(3) oct m1(1) s2 s3 m4(1) read_string_cstring[OF name'] printf_file[of name ?w] w
    by (simp add: store32_def)
  moreover have "file_is m4 ?f name data"
    using used name' size content N by (simp add: file_is_def)
  moreover have "gm_read m4 b n = gm_read m b n" if "b + n \<le> ?f \<or> ?f + 1132 \<le> b" for b n
    by (rule wr_list_frame[OF ws]) (use that N in auto)
  ultimately show ?thesis using that m4(2) by blast
qed

lemma gm_read_within:
  assumes "gm_read m' a n = gm_read m a n" and "a + n \<le> gm_size m" and "a \<le> b" and "b + k \<le> a + n"
  shows "gm_read m' b k = gm_read m b k"
proof -
  obtain bs where bs: "gm_read m a n = Some bs" using assms(2) by (auto simp: gm_read_def)
  obtain i where i: "b = a + i" using assms(3) le_Suc_ex by blast
  have "i + k \<le> n" using assms(4) i by simp
  then show ?thesis
    using gm_read_slice[OF bs, of i k] gm_read_slice[OF trans[OF assms(1) bs], of i k] by (simp add: i)
qed

text \<open>A memory with two files \<^verbatim>\<open>a\<close> and \<^verbatim>\<open>b\<close> of \<open>1 + 256 * s\<close> zero bytes.\<close>

definition sample_layout :: fs_layout where
  "sample_layout = \<lparr>files_at = 0, disk_at = 0x1000, ustar_at = 0x4000\<rparr>"

definition sample_fs :: "u8 \<Rightarrow> gmem" where
  "sample_fs s = \<lparr>gm_size = 0x10000, gm_data =
     (\<lambda>x. if x = 0 \<or> x = 1132 \<or> x = 1128 \<or> x = 2260 then 1 else if x = 4 then 97
          else if x = 1136 then 98 else if x = 1129 \<or> x = 2261 then s else 0)\<rparr>"

lemma gm_read_const:
  "a + n \<le> gm_size m \<Longrightarrow> (\<And>x. a \<le> x \<Longrightarrow> x < a + n \<Longrightarrow> gm_data m x = c) \<Longrightarrow>
     gm_read m a n = Some (replicate n c)"
  by (auto simp: gm_read_def intro!: nth_equalityI)

lemma sample_layout: "n \<le> 0x8000 \<Longrightarrow> fs_layout_ok sample_layout (sample_fs s) n"
  by (simp add: fs_layout_ok_def sample_layout_def sample_fs_def)

lemma sample_files:
  assumes "n = 1 + 256 * unat s" and "n \<le> 1024"
  shows "file_is (sample_fs s) (file_addr sample_layout 0) [97] (replicate n 0)"
    and "file_is (sample_fs s) (file_addr sample_layout 1) [98] (replicate n 0)"
proof -
  have four: "[a..<a + 4] = [a, a + 1, a + 2, a + 3]" for a :: nat by (simp add: upt_rec)
  have size: "from_le [1, s, 0, 0] = (word_of_nat n :: u32)"
  proof -
    have "unat s < 256" using unsigned_less[of s] by simp
    have "from_le [1, s, 0, 0] = (1 OR push_bit 8 (ucast s) :: u32)" by simp
    also have "\<dots> = 1 + push_bit 8 (ucast s)" by (rule disjunctive_add[symmetric]) (auto simp: bit_simps)
    also have "push_bit 8 (ucast s :: u32) = 256 * word_of_nat (unat s)" by (simp add: push_bit_eq_mult)
    finally show ?thesis by (simp add: assms(1))
  qed
  let ?m = "sample_fs s"
  have D: "gm_data ?m 0 = 1" "gm_data ?m (Suc 0) = 0" "gm_data ?m (Suc (Suc 0)) = 0" "gm_data ?m 3 = 0" "gm_data ?m 4 = 97"
    "gm_data ?m 5 = 0" "gm_data ?m 1128 = 1" "gm_data ?m 1129 = s" "gm_data ?m 1130 = 0" "gm_data ?m 1131 = 0"
    "gm_data ?m 1132 = 1" "gm_data ?m 1133 = 0" "gm_data ?m 1134 = 0" "gm_data ?m 1135 = 0"
    "gm_data ?m 1136 = 98" "gm_data ?m 1137 = 0" "gm_data ?m 2260 = 1" "gm_data ?m 2261 = s"
    "gm_data ?m 2262 = 0" "gm_data ?m 2263 = 0"
    by (simp_all add: sample_fs_def)
  have zero: "gm_data ?m x = 0" if "104 \<le> x \<and> x < 1128 \<or> 1236 \<le> x \<and> x < 2260" for x
    using that by (auto simp: sample_fs_def)
  have sz: "gm_size ?m = 0x10000" by (simp add: sample_fs_def)
  have l8: "load8 ?m a = Some (gm_data ?m a)" if "a < 0x10000" for a
    using that by (simp add: load8_def gm_read_def sz)
  have l32: "load32 ?m a = Some (from_le [gm_data ?m a, gm_data ?m (a + 1), gm_data ?m (a + 2), gm_data ?m (a + 3)])"
    if "a + 4 \<le> 0x10000" for a
    using that by (simp add: load32_def gm_read_def sz four del: from_le.simps)
  have c: "gm_read ?m 104 n = Some (replicate n 0)" "gm_read ?m 1236 n = Some (replicate n 0)"
    by (rule gm_read_const; use assms(2) zero sz in auto)+
  have one: "from_le [1, 0, 0, 0] = (1 :: u32)" by simp
  show "file_is ?m (file_addr sample_layout 0) [97] (replicate n 0)"
    using assms(2) c(1) by (simp add: file_is_def file_addr_def sample_layout_def cstring_Cons cstring_Nil l8 l32 D size one
        del: from_le.simps)
  show "file_is ?m (file_addr sample_layout 1) [98] (replicate n 0)"
    using assms(2) c(2) by (simp add: file_is_def file_addr_def sample_layout_def cstring_Cons cstring_Nil l8 l32 D size one
        del: from_le.simps)
qed

section \<open>Properties\<close>

text \<open>
  C21: files survive a round trip through the image. When the two files fit, \<^verbatim>\<open>fs_flush\<close> succeeds, and
  \<^verbatim>\<open>fs_init\<close> on any memory that holds the same image, whatever its file table, restores both files
  with their names, sizes and contents.
\<close>

theorem fs_roundtrip:
  assumes L: "fs_layout_ok L m 2560" and fits: "512 + sectors (length d0) + 512 + length d1 \<le> 2560"
    and F: "file_is m (file_addr L 0) n0 d0" "file_is m (file_addr L 1) n1 d1"
    and apart: "ustar_at L + 6 \<le> files_at L \<or> files_at L + 2264 \<le> ustar_at L"
  shows "\<exists>m1 out. fs_flush L m = Some (m1, out) \<and>
    (\<forall>m2. gm_size m2 = gm_size m \<and> gm_read m2 (disk_at L) 2560 = gm_read m1 (disk_at L) 2560 \<and>
       cstring m2 (ustar_at L) (ascii ''ustar'') \<longrightarrow>
       (\<exists>m3 out. fs_init L m2 = Inr (m3, out) \<and>
          file_is m3 (file_addr L 0) n0 d0 \<and> file_is m3 (file_addr L 1) n1 d1))"
proof -
  let ?h = "disk_at L" and ?s0 = "sectors (length d0)"
  have max: "max 2560 (512 + ?s0 + 512 + length d1) = 2560" using fits by simp
  obtain m1 where m1: "fs_flush L m = Some (m1, ascii ''wrote 2560 bytes to disk'' @ [10])"
    "header_at m1 ?h n0 d0" "header_at m1 (?h + 512 + ?s0) n1 d1" "gm_size m1 = gm_size m"
    by (rule fs_flush_ok[OF _ F, unfolded max, OF L]) blast
  have len: "length d0 \<le> 1024" "length d1 \<le> 1024" using F by (simp_all add: file_is_def)
  have sec: "length d0 \<le> ?s0" by (rule sectors_bounds)
  have off: "unat (0 + align_up (512 + word_of_nat (length d0))) = 512 + ?s0"
    using align_up_sectors[of "length d0"] len(1) by simp
  have fa: "file_addr L 0 = files_at L" "file_addr L 1 = files_at L + 1132" by (simp_all add: file_addr_def)
  have lay: "?h + 2560 \<le> gm_size m" "files_at L + 2264 \<le> gm_size m"
    "files_at L + 2264 \<le> ?h \<or> ?h + 2560 \<le> files_at L"
    using L by (simp_all add: fs_layout_ok_def)
  have "\<exists>m3 out. fs_init L m2 = Inr (m3, out) \<and> file_is m3 (file_addr L 0) n0 d0 \<and> file_is m3 (file_addr L 1) n1 d1"
    if m2: "gm_size m2 = gm_size m" "gm_read m2 ?h 2560 = gm_read m1 ?h 2560"
      "cstring m2 (ustar_at L) (ascii ''ustar'')" for m2
  proof -
    have same: "gm_read m2 b n = gm_read m1 b n" if "?h \<le> b" "b + n \<le> ?h + 2560" for b n
      by (rule gm_read_within[OF m2(2)]) (use that lay m1(4) in auto)
    have H0: "header_at m2 ?h n0 d0"
      by (rule header_at_frame[OF m1(2)], rule same) (use fits sec in auto)
    have H1: "header_at m2 (?h + 512 + ?s0) n1 d1"
      by (rule header_at_frame[OF m1(3)], rule same) (use fits in auto)
    obtain a where a: "init_file L 0 (m2, 0) = Inr (True, a, 0 + align_up (512 + word_of_nat (length d0)),
        ascii ''file: '' @ n0 @ ascii '', size='' @ print_int (word_of_nat (length d0)) @ [10])"
      "file_is a (file_addr L 0) n0 d0"
      "\<And>b n. b + n \<le> file_addr L 0 \<or> file_addr L 0 + 1132 \<le> b \<Longrightarrow> gm_read a b n = gm_read m2 b n"
      "gm_size a = gm_size m2"
      by (rule init_file_ok[OF H0 _ m2(3), of 0 0]) (use lay m2(1) fa fits sec in auto)
    have H1': "header_at a (?h + 512 + ?s0) n1 d1"
      by (rule header_at_frame[OF H1], rule a(3)) (use lay fits fa in auto)
    have ustar: "cstring a (ustar_at L) (ascii ''ustar'')"
      using m2(3) a(3)[of "ustar_at L" "length (ascii ''ustar'') + 1"] apart fa by (auto simp: cstring_def)
    obtain b where b: "init_file L 1 (a, 0 + align_up (512 + word_of_nat (length d0))) =
        Inr (True, b, 0 + align_up (512 + word_of_nat (length d0)) + align_up (512 + word_of_nat (length d1)),
        ascii ''file: '' @ n1 @ ascii '', size='' @ print_int (word_of_nat (length d1)) @ [10])"
      "file_is b (file_addr L 1) n1 d1"
      "\<And>c n. c + n \<le> file_addr L 1 \<or> file_addr L 1 + 1132 \<le> c \<Longrightarrow> gm_read b c n = gm_read a c n"
      by (rule init_file_ok[OF H1' _ ustar, of "0 + align_up (512 + word_of_nat (length d0))" 1])
        (use lay m2(1) fa fits a(4) off in auto)
    have "file_is b (file_addr L 0) n0 d0"
      by (rule file_is_frame[OF a(2)], rule b(3)) (use fa in auto)
    moreover have "[0..<FILES_MAX] = [0, 1]" by (simp add: FILES_MAX_def upt_conv_Cons)
    ultimately show ?thesis
      unfolding fs_init_def using a(1) b(1,2) by simp
  qed
  then show ?thesis using m1(1) by blast
qed

theorem fs_roundtrip_witness:
  "\<exists>m1 m2 m3 out. fs_flush sample_layout (sample_fs 0) = Some (m1, out) \<and>
     gm_write m1 0x4000 (ascii ''ustar'' @ [0]) = Some m2 \<and>
     (\<exists>out. fs_init sample_layout m2 = Inr (m3, out)) \<and> file_is m3 (file_addr sample_layout 1) [98] [0]"
proof -
  have F: "file_is (sample_fs 0) (file_addr sample_layout 0) [97] [0]"
    "file_is (sample_fs 0) (file_addr sample_layout 1) [98] [0]"
    using sample_files[of 1 0] by simp_all
  have fits: "512 + sectors (length [0 :: u8]) + 512 + length [0 :: u8] \<le> 2560" by (simp add: sectors_def)
  have apart: "ustar_at sample_layout + 6 \<le> files_at sample_layout \<or> files_at sample_layout + 2264 \<le> ustar_at sample_layout"
    by (simp add: sample_layout_def)
  obtain m1 out where m1: "fs_flush sample_layout (sample_fs 0) = Some (m1, out)"
    and init: "\<And>m2. gm_size m2 = gm_size (sample_fs 0) \<and>
       gm_read m2 (disk_at sample_layout) 2560 = gm_read m1 (disk_at sample_layout) 2560 \<and>
       cstring m2 (ustar_at sample_layout) (ascii ''ustar'') \<Longrightarrow>
       \<exists>m3 out. fs_init sample_layout m2 = Inr (m3, out) \<and>
          file_is m3 (file_addr sample_layout 0) [97] [0] \<and> file_is m3 (file_addr sample_layout 1) [98] [0]"
    using fs_roundtrip[OF sample_layout fits F apart] by auto
  have sz: "gm_size m1 = 0x10000"
    by (rule fs_flush_ok[OF sample_layout F]) (use m1 in \<open>auto simp: sectors_def sample_fs_def\<close>)
  obtain m2 where m2: "gm_write m1 0x4000 (ascii ''ustar'' @ [0]) = Some m2" "gm_size m2 = 0x10000"
    using sz by simp
  have "cstring m2 (ustar_at sample_layout) (ascii ''ustar'')"
    using gm.rd_wr_same[OF m2(1)] by (simp add: cstring_def sample_layout_def ascii_def)
  moreover have "gm_read m2 (disk_at sample_layout) 2560 = gm_read m1 (disk_at sample_layout) 2560"
    by (rule gm.rd_wr_other[OF m2(1)]) (simp add: sample_layout_def)
  ultimately show ?thesis using init[of m2] m1 m2 by (auto simp: sample_fs_def)
qed

text \<open>
  The image is too small for two files of more than one sector. \<^verbatim>\<open>fs_flush\<close> then writes past the end
  of \<^verbatim>\<open>disk\<close>: the bytes after its 2560 are the end of the second file.
\<close>

theorem flush_overruns_disk:
  assumes L: "fs_layout_ok L m 3072"
    and F: "file_is m (file_addr L 0) n0 d0" "file_is m (file_addr L 1) n1 d1"
    and long: "512 < length d0" "512 < length d1"
  shows "\<exists>m' out. fs_flush L m = Some (m', out) \<and>
    gm_read m' (disk_at L + DISK_MAX_SIZE) (length d1 - 512) = Some (drop 512 d1)"
proof -
  have len: "length d0 \<le> 1024" "length d1 \<le> 1024" using F by (simp_all add: file_is_def)
  have s: "sectors (length d0) = 1024"
  proof -
    have "(length d0 + 511) div 512 = 2" using len(1) long(1) by (intro div_nat_eqI) simp_all
    then show ?thesis by (simp add: sectors_def)
  qed
  have "fs_layout_ok L m (max 2560 (512 + sectors (length d0) + 512 + length d1))"
    using L len s by (auto simp: fs_layout_ok_def max_def)
  then obtain m' where m': "fs_flush L m = Some (m', ascii ''wrote 2560 bytes to disk'' @ [10])"
    "header_at m' (disk_at L + 512 + sectors (length d0)) n1 d1"
    by (rule fs_flush_ok[OF _ F]) blast
  have "gm_read m' (disk_at L + 512 + 1024 + 512) (length d1) = Some d1"
    using m'(2) s by (simp add: header_at_def)
  from gm_read_slice[OF this, of 512 "length d1 - 512"] long
  have "gm_read m' (disk_at L + 2560) (length d1 - 512) = Some (drop 512 d1)" by (simp add: add.commute)
  then show ?thesis using m'(1) by (simp add: DISK_MAX_SIZE_def)
qed

theorem flush_overruns_disk_witness:
  "\<exists>m' out. fs_flush sample_layout (sample_fs 2) = Some (m', out) \<and>
     gm_read m' (0x1000 + DISK_MAX_SIZE) 1 = Some [0]"
proof -
  have F: "file_is (sample_fs 2) (file_addr sample_layout 0) [97] (replicate 513 0)"
    "file_is (sample_fs 2) (file_addr sample_layout 1) [98] (replicate 513 0)"
    using sample_files[of 513 2] by simp_all
  have "fs_layout_ok sample_layout (sample_fs 2) 3072" by (rule sample_layout) simp
  from flush_overruns_disk[OF this F] show ?thesis by (simp add: sample_layout_def)
qed

text \<open>
  \<^verbatim>\<open>fs_lookup\<close> finds the first slot whose name is the one asked for, used or not: the empty name
  finds the first unused slot.
\<close>

theorem lookup_by_name:
  assumes "cstring m (file_addr L 0 + 4) n0" and "cstring m (file_addr L 1 + 4) n1"
    and "cstring m filename name"
  shows "fs_lookup L m filename =
    Some (if n0 = name then Some 0 else if n1 = name then Some 1 else None)"
proof -
  obtain r0 where r0: "strcmp m (file_addr L 0 + 4) filename = Some r0" "r0 = 0 \<longleftrightarrow> n0 = name"
    using strcmp_eq[OF assms(1,3)] by blast
  obtain r1 where r1: "strcmp m (file_addr L 1 + 4) filename = Some r1" "r1 = 0 \<longleftrightarrow> n1 = name"
    using strcmp_eq[OF assms(2,3)] by blast
  have "[0..<FILES_MAX] = [0, 1]" by (simp add: FILES_MAX_def upt_conv_Cons)
  then show ?thesis using r0 r1 by (simp add: fs_lookup_def)
qed

theorem lookup_by_name_witness:
  "fs_lookup \<lparr>files_at = 0, disk_at = 4096, ustar_at = 0\<rparr> \<lparr>gm_size = 8192, gm_data = \<lambda>_. 0\<rparr> 0x100 = Some (Some 0)"
proof -
  let ?L = "\<lparr>files_at = 0, disk_at = 4096, ustar_at = 0\<rparr>" and ?m = "\<lparr>gm_size = 8192, gm_data = \<lambda>_. 0 :: u8\<rparr>"
  have "cstring ?m (file_addr ?L 0 + 4) []" "cstring ?m (file_addr ?L 1 + 4) []" "cstring ?m 0x100 []"
    by (simp_all add: cstring_Nil load8_def gm_read_def file_addr_def)
  from lookup_by_name[OF this] show ?thesis by simp
qed

end
