(* ===== verification/Os_Boot.thy ===== *)
theory Os_Boot
  imports Os_Process Os_Fs
begin

text \<open>
  The start of the 1K OS kernel, \<^verbatim>\<open>kernel_main\<close> (\<^verbatim>\<open>os-1k/kernel.c\<close>), which puts the parts together: it
  clears \<^verbatim>\<open>.bss\<close>, writes the timer gate, reads the image of the filesystem, creates the idle and the
  shell process and jumps to the shell. Also the kernel's \<^verbatim>\<open>getchar\<close>. Addresses the linker decides are
  parameters.
\<close>

section \<open>kernel_main\<close>

record boot_layout =
  fs :: fs_layout
  bss_at :: nat
  bss_end :: nat
  timer_handler :: u32
  procs_at :: u32
  user_entry_at :: u32
  shell_start :: u32
  shell_size :: u32
  free_ram :: u32

definition unused_process :: process where
  "unused_process = \<lparr>pid = 0, pstate = PROC_UNUSED, psp = 0, page_table = 0\<rparr>"

text \<open>The kernel before its first process; the pointers to processes are not yet set.\<close>

definition fresh_kernel :: "boot_layout \<Rightarrow> gmem \<Rightarrow> kernel" where
  "fresh_kernel B m =
     \<lparr>kmem = \<lparr>kram = m, next_paddr = free_ram B\<rparr>, procs = replicate PROCS_MAX unused_process,
      current_proc = 0, idle_proc = 0\<rparr>"

text \<open>\<^verbatim>\<open>user_entry\<close> jumps to \<open>user_base\<close>.\<close>

definition enter_user :: "process \<Rightarrow> cpu \<Rightarrow> cpu" where
  "enter_user p c = c\<lparr>cr3 := page_table p, esp := psp p, eip := user_base\<rparr>"

definition kernel_main ::
  "boot_layout \<Rightarrow> cpu \<Rightarrow> u32 \<Rightarrow> gmem \<Rightarrow> kfault + (cpu \<times> u32 \<times> kernel \<times> u8 list)" where
  "kernel_main B c eflags m =
     and_then (or_fault (memset m (bss_at B) 0 (bss_end B - bss_at B))) (\<lambda>m.
     and_then (or_fault (prints [(nl @ nl, []), (ascii ''=== 1K OS x86 ==='' @ nl, []),
       (ascii ''Booting in Protected Mode with Paging...'' @ nl @ nl, [])])) (\<lambda>out1.
     and_then (setup_idt_entry 0x20 (timer_handler B) 0 m) (\<lambda>m.
     and_then (or_fault (prints [(ascii ''Interrupt handlers registered'' @ nl, []),
       (ascii ''  Timer (IRQ 0, vector 0x20)'' @ nl, []),
       (ascii ''  Syscalls via hypercall (port 0x500, IOPL=3 allows user I/O)'' @ nl, [])])) (\<lambda>out2.
     and_then (fs_init (fs B) m) (\<lambda>(m, out3).
     and_then (or_fault (printf (ascii ''Filesystem initialized'' @ nl) [])) (\<lambda>out4.
     and_then (create_process (procs_at B) (user_entry_at B) 0 0 (fresh_kernel B m)) (\<lambda>(i, k).
     let k = k\<lparr>idle_proc := i, procs := (procs k)[i := (procs k ! i)\<lparr>pid := 0\<rparr>]\<rparr> in
     and_then (or_fault (printf (ascii ''Created idle process (pid=0)'' @ nl) [])) (\<lambda>out5.
     and_then (create_process (procs_at B) (user_entry_at B) (shell_start B) (shell_size B) k) (\<lambda>(j, k).
     let p = procs k ! j in
     and_then (or_fault (prints
       [(ascii ''Created shell process (pid=%d)'' @ nl, [Word (word_of_nat (pid p))]),
        (nl @ ascii ''=== Kernel Initialization Complete ==='' @ nl, []),
        (ascii ''Starting shell process (PID %d)...'' @ nl @ nl, [Word (word_of_nat (pid p))])])) (\<lambda>out6.
     Inr (enter_user p c, eflags OR 0x3000, k\<lparr>current_proc := j\<rparr>,
          out1 @ out2 @ out3 @ out4 @ out5 @ out6)))))))))))"

section \<open>getchar\<close>

text \<open>
  The kernel asks for a character with an \<^verbatim>\<open>outb\<close> and takes the answer from EAX. The VMM answers an
  \<^verbatim>\<open>outb\<close> without touching the registers, so EAX keeps the request number in its low byte; \<open>None\<close> is
  another turn of the loop.
\<close>

definition kernel_getchar :: "u32 \<Rightarrow> u32 option" where
  "kernel_getchar eax =
     (let eax = (eax AND 0xFFFFFF00) OR 2 in if eax \<noteq> - 1 then Some (eax AND 0xFF) else None)"

lemma kernel_getchar_two: "kernel_getchar eax = Some 2"
proof -
  have low: "((eax AND 0xFFFFFF00) OR 2) AND 0xFF = 2"
  proof -
    have "(eax AND 0xFFFFFF00) AND 0xFF = eax AND (0xFFFFFF00 AND 0xFF)" by (simp only: and.assoc)
    also have "\<dots> = 0" by simp
    finally show ?thesis by (simp add: bit.conj_disj_distrib2)
  qed
  then have "(eax AND 0xFFFFFF00) OR 2 \<noteq> - 1" by auto
  then show ?thesis using low by (simp add: kernel_getchar_def)
qed

section \<open>How the kernel starts\<close>

text \<open>
  The order of the linker script: the kernel with the shell image above the first page, then
  \<^verbatim>\<open>.bss\<close> with the image of the filesystem and the process table, then free memory.
\<close>

definition boot_ok :: "boot_layout \<Rightarrow> gmem \<Rightarrow> nat \<Rightarrow> nat \<Rightarrow> u8 list \<Rightarrow> nat \<Rightarrow> bool" where
  "boot_ok B m src pb shell hi \<longleftrightarrow>
     gm_size m = 0x400000 \<and> 0x1000 \<le> src \<and>
     shell_start B = word_of_nat src + 0x80000000 \<and> shell_size B = word_of_nat (length shell) \<and>
     gm_read m src (length shell) = Some shell \<and> src + length shell \<le> bss_at B \<and>
     bss_at B \<le> disk_at (fs B) \<and> disk_at (fs B) < bss_end B \<and>
     bss_at B \<le> pb \<and> procs_at B = word_of_nat pb + 0x80000000 \<and> pb + 8208 * 8 \<le> bss_end B \<and>
     bss_end B \<le> hi \<and> 4096 dvd hi \<and> free_ram B = word_of_nat hi + 0x80000000 \<and>
     hi + 4096 * (8 + (max 4 (page_count (length shell)) + 4)) \<le> 0x3FF000"

lemma setup_idt_entry_ok:
  assumes "0x528 + 8 * vector + 8 \<le> gm_size m"
  obtains m' where "setup_idt_entry vector handler dpl m = Inr m'" and "gm_size m' = gm_size m"
    and "\<And>b n. b + n \<le> 0x528 + 8 * vector \<or> 0x528 + 8 * vector + 8 \<le> b \<Longrightarrow> gm_read m' b n = gm_read m b n"
proof -
  let ?a = "0x528 + 8 * vector"
  have at: "kaddr 0x528 + 4 * (vector * 2 + 0) = ?a" "kaddr 0x528 + 4 * (vector * 2 + 1) = ?a + 4"
    by (simp_all add: kaddr_def)
  let ?w0 = "push_bit 16 (handler AND 0xFFFF) OR 8"
  let ?w1 = "(handler AND 0xFFFF0000) OR (0x8E00 OR push_bit 13 (dpl AND 0x3))"
  obtain m1 where m1: "store32 m ?a ?w0 = Some m1" "gm_size m1 = gm_size m"
    using store_defined(1)[of ?a m ?w0] assms by auto
  obtain m2 where m2: "store32 m1 (?a + 4) ?w1 = Some m2" "gm_size m2 = gm_size m1"
    using store_defined(1)[of "?a + 4" m1 ?w1] assms m1(2) by auto
  have "gm_read m2 b n = gm_read m b n" if "b + n \<le> ?a \<or> ?a + 8 \<le> b" for b n
    using store_frame(2)[OF m2(1), of b n] store_frame(2)[OF m1(1), of b n] that by auto
  then show ?thesis
    using that[of m2] m1 m2 unfolding setup_idt_entry_def Let_def at by simp
qed

lemma no_image: "build_address_space img 0 k = build_address_space img' 0 k"
  by (simp add: build_address_space_def)

lemma create_without_image: "create_process b e img 0 k = create_process b e img' 0 k"
  unfolding create_process_def no_image[of img _ img'] ..

lemma fs_init_empty: "load8 m (disk_at L) = Some 0 \<Longrightarrow> fs_init L m = Inr (m, [])"
  by (simp add: fs_init_def FILES_MAX_def upt_conv_Cons init_file_def)

lemma printf_pid: "prints
    [(ascii ''Created shell process (pid=%d)'' @ nl, [Word w]),
     (nl @ ascii ''=== Kernel Initialization Complete ==='' @ nl, []),
     (ascii ''Starting shell process (PID %d)...'' @ nl @ nl, [Word w])] \<noteq> None"
  by (simp add: ascii_def)

lemma boot_messages:
  "prints [(nl @ nl, []), (ascii ''=== 1K OS x86 ==='' @ nl, []),
     (ascii ''Booting in Protected Mode with Paging...'' @ nl @ nl, [])] \<noteq> None"
  "prints [(ascii ''Interrupt handlers registered'' @ nl, []),
     (ascii ''  Timer (IRQ 0, vector 0x20)'' @ nl, []),
     (ascii ''  Syscalls via hypercall (port 0x500, IOPL=3 allows user I/O)'' @ nl, [])] \<noteq> None"
  "printf (ascii ''Filesystem initialized'' @ nl) [] \<noteq> None"
  "printf (ascii ''Created idle process (pid=0)'' @ nl) [] \<noteq> None"
  by code_simp+

lemma and_then_printed: "x \<noteq> None \<Longrightarrow> and_then (or_fault x) f = f (the x)"
  by auto

lemma kernel_current:
  "idle_proc (k\<lparr>current_proc := j\<rparr>) = idle_proc k" "current_proc (k\<lparr>current_proc := j\<rparr>) = j"
  "procs (k\<lparr>current_proc := j\<rparr>) = procs k" "kmem (k\<lparr>current_proc := j\<rparr>) = kmem k"
  by simp_all

text \<open>Memory when the processes are created: \<^verbatim>\<open>.bss\<close> is clear, the shell image is intact.\<close>

lemma boot_memory:
  assumes B: "boot_ok B m src pb shell hi"
  obtains m1 m2 where "memset m (bss_at B) 0 (bss_end B - bss_at B) = Some m1"
    and "setup_idt_entry 0x20 (timer_handler B) 0 m1 = Inr m2" and "fs_init (fs B) m2 = Inr (m2, [])"
    and "gm_size m2 = 0x400000" and "gm_read m2 src (length shell) = Some shell"
proof -
  let ?n = "bss_end B - bss_at B"
  have n: "0 < ?n" "bss_at B + ?n = bss_end B" "bss_end B \<le> gm_size m" using B by (auto simp: boot_ok_def)
  obtain m1 where m1: "gm_fill m (bss_at B) 0 ?n = Some m1" "gm_size m1 = gm_size m"
    using store_defined(3)[of "bss_at B" ?n m 0] n by auto
  obtain m2 where m2: "setup_idt_entry 0x20 (timer_handler B) 0 m1 = Inr m2" "gm_size m2 = gm_size m1"
    "\<And>b k. b + k \<le> 0x528 + 8 * 0x20 \<or> 0x528 + 8 * 0x20 + 8 \<le> b \<Longrightarrow> gm_read m2 b k = gm_read m1 b k"
    using B m1(2) by (elim setup_idt_entry_ok[of "0x20" m1, rotated]) (simp_all add: boot_ok_def)
  have "gm_read m2 (disk_at (fs B)) 1 = gm_read m1 (disk_at (fs B)) 1"
    by (rule m2(3)) (use B in \<open>simp add: boot_ok_def\<close>)
  also have "\<dots> = Some [0]" by (subst gm_read_fill[OF m1(1)]) (use B in \<open>simp_all add: boot_ok_def\<close>)
  finally have "fs_init (fs B) m2 = Inr (m2, [])" by (intro fs_init_empty) (simp add: load8_def)
  moreover have "gm_read m2 src (length shell) = gm_read m src (length shell)"
    using m2(3)[of src "length shell"] gm_fill_frame[OF m1(1), of src "length shell"] B
    by (simp add: boot_ok_def)
  ultimately show ?thesis
    using that[of m1 m2] memset_fill[OF n(1)] m1 m2(1,2) B by (simp add: boot_ok_def)
qed

lemma fresh_kernel_ready:
  assumes "boot_ok B m0 src pb shell hi" and "gm_size m = 0x400000"
  shows "find_slot (procs (fresh_kernel B m)) = Some 0" and "free_from (kmem (fresh_kernel B m)) hi"
  using assms by (simp_all add: fresh_kernel_def unused_process_def find_slot_def PROCS_MAX_def
      upt_conv_Cons free_from_def boot_ok_def)

text \<open>The start from the parts: both calls of \<^verbatim>\<open>create_process\<close> succeed.\<close>

lemma kernel_main_result:
  assumes B: "boot_ok B m src pb shell hi"
  shows "\<exists>c' k' out pages. kernel_main B c eflags m = Inr (c', eflags OR 0x3000, k', out) \<and>
    eip c' = user_base \<and> idle_proc k' = 0 \<and> current_proc k' = 1 \<and>
    map pid (take 2 (procs k')) = [0, 2] \<and>
    (\<forall>va. walk_page_tables_32bit (kram (kmem k')) (cr3 c') va = Some (process_view pages va)) \<and>
    (\<forall>d b. (d, b) \<in> set pages \<longrightarrow> gm_read (kram (kmem k')) d 4096 = Some b) \<and>
    map snd pages = map (image_page shell) [0..<page_count (length shell)] @
      replicate (4 - page_count (length shell)) zero_page"
proof -
  obtain m1 m2 where m: "memset m (bss_at B) 0 (bss_end B - bss_at B) = Some m1"
    "setup_idt_entry 0x20 (timer_handler B) 0 m1 = Inr m2" "fs_init (fs B) m2 = Inr (m2, [])"
    "gm_size m2 = 0x400000" "gm_read m2 src (length shell) = Some shell"
    by (rule boot_memory[OF B])
  have L: "procs_at B = word_of_nat pb + 0x80000000" "pb + 8208 * 8 \<le> hi" "src + length shell \<le> pb"
    "shell_start B = word_of_nat src + 0x80000000" "shell_size B = word_of_nat (length shell)"
    "pb + 8208 * 8 \<le> hi + 4096 * 8"
    "hi + 4096 * 8 + 4096 * (max 4 (page_count (length shell)) + 4) \<le> 0x3FF000"
    using B by (simp_all add: boot_ok_def)
  let ?k = "fresh_kernel B m2"
  have none: "max 4 (page_count (length ([] :: u8 list))) + 4 = 8" by (simp add: page_count_def)
  have room: "hi + 4096 * (max 4 (page_count (length ([] :: u8 list))) + 4) \<le> 0x3FF000"
    using L(7) unfolding none by linarith
  have img: "gm_read (kram (kmem ?k)) 0 (length ([] :: u8 list)) = Some []" "0 + length ([] :: u8 list) \<le> pb"
    by (simp_all add: gm_read_def)
  obtain k1 p1 pages1 where c1: "create_process (procs_at B) (user_entry_at B) (word_of_nat 0 + 0x80000000)
      (word_of_nat (length ([] :: u8 list))) ?k = Inr (0, k1)"
    "procs k1 = (procs ?k)[0 := p1]" "pstate p1 = PROC_RUNNABLE"
    "free_from (kmem k1) (hi + 4096 * (max 4 (page_count (length ([] :: u8 list))) + 4))"
    "\<forall>b n. b + n \<le> pb \<longrightarrow> gm_read (kram (kmem k1)) b n = gm_read (kram (kmem ?k)) b n"
    using create_process_result[OF fresh_kernel_ready(1)[OF B m(4)] L(1,2) fresh_kernel_ready(2)[OF B m(4)] room img,
        of "user_entry_at B"] by blast
  have k1: "create_process (procs_at B) (user_entry_at B) 0 0 ?k = Inr (0, k1)"
    using c1(1) create_without_image[of "procs_at B" "user_entry_at B" 0 ?k "word_of_nat 0 + 0x80000000"] by simp
  let ?k1 = "k1\<lparr>idle_proc := 0, procs := (procs k1)[0 := (procs k1 ! 0)\<lparr>pid := 0\<rparr>]\<rparr>"
  have ps: "procs ?k1 = p1\<lparr>pid := 0\<rparr> # replicate 7 unused_process"
    by (simp add: c1(2) fresh_kernel_def PROCS_MAX_def eval_nat_numeral)
  have slot: "find_slot (procs ?k1) = Some 1"
    unfolding ps by (simp add: find_slot_def PROCS_MAX_def upt_conv_Cons unused_process_def c1(3))
  have F: "free_from (kmem ?k1) (hi + 4096 * 8)" using c1(4) unfolding none by simp
  have img: "gm_read (kram (kmem ?k1)) src (length shell) = Some shell"
    using c1(5) L(3) m(5) by (simp add: fresh_kernel_def)
  obtain k2 p2 pages where c2: "create_process (procs_at B) (user_entry_at B) (shell_start B) (shell_size B) ?k1 = Inr (1, k2)"
    "procs k2 = (procs ?k1)[1 := p2]" "pid p2 = 1 + 1" "idle_proc k2 = idle_proc ?k1"
    "\<forall>va. walk_page_tables_32bit (kram (kmem k2)) (page_table p2) va = Some (process_view pages va)"
    "\<forall>d b. (d, b) \<in> set pages \<longrightarrow> gm_read (kram (kmem k2)) d 4096 = Some b"
    "map snd pages = map (image_page shell) [0..<page_count (length shell)] @
      replicate (4 - page_count (length shell)) zero_page"
    using create_process_result[OF slot L(1,6) F L(7) img L(3), of "user_entry_at B", folded L(4,5)]
    by (elim exE conjE)
  have ps2: "procs k2 = p1\<lparr>pid := 0\<rparr> # p2 # replicate 6 unused_process"
    unfolding c2(2) ps by (simp add: eval_nat_numeral)
  have "\<exists>out. kernel_main B c eflags m =
      Inr (enter_user (procs k2 ! 1) c, eflags OR 0x3000, k2\<lparr>current_proc := 1\<rparr>, out)"
    unfolding kernel_main_def Let_def boot_messages[THEN and_then_printed] m(1,2,3) or_fault_simps
      and_then_simps prod.case k1 c2(1) printf_pid[THEN and_then_printed] by blast
  moreover have "procs k2 ! 1 = p2" "map pid (take 2 (procs k2)) = [0, 2]" unfolding ps2 using c2(3) by simp_all
  moreover have "cr3 (enter_user p2 c) = page_table p2" "eip (enter_user p2 c) = user_base"
    by (simp_all add: enter_user_def)
  moreover have "idle_proc k2 = 0" using c2(4) by simp
  ultimately show ?thesis using c2(5-7) by (metis kernel_current)
qed

section \<open>Properties\<close>

text \<open>
  C4: the kernel boots. With the layout of the linker script and memory for two address spaces,
  \<^verbatim>\<open>kernel_main\<close> ends in the jump to \<open>user_base\<close> with I/O allowed to user code (IOPL 3), the idle process
  in slot 0 with pid 0 and the shell as current process in slot 1 with pid 2; the loaded CR3 gives the
  address space of the shell, whose pages hold the shell image.
\<close>

theorem kernel_boots:
  assumes B: "boot_ok B m src pb shell hi"
  shows "\<exists>c' k' out pages. kernel_main B c eflags m = Inr (c', eflags OR 0x3000, k', out) \<and>
    eip c' = user_base \<and> idle_proc k' = 0 \<and> current_proc k' = 1 \<and>
    map pid (take 2 (procs k')) = [0, 2] \<and>
    (\<forall>va. walk_page_tables_32bit (kram (kmem k')) (cr3 c') va = Some (process_view pages va)) \<and>
    (\<forall>d b. (d, b) \<in> set pages \<longrightarrow> gm_read (kram (kmem k')) d 4096 = Some b) \<and>
    map snd pages = map (image_page shell) [0..<page_count (length shell)] @
      replicate (4 - page_count (length shell)) zero_page"
  by (rule kernel_main_result[OF B])

text \<open>A layout with a shell of one byte.\<close>

definition sample_boot :: boot_layout where
  "sample_boot = \<lparr>fs = \<lparr>files_at = 0x5000, disk_at = 0x6000, ustar_at = 0x1800\<rparr>, bss_at = 0x3000, bss_end = 0x30000,
     timer_handler = 0x80001100, procs_at = 0x80010000, user_entry_at = 0x80001500,
     shell_start = 0x80002000, shell_size = 1, free_ram = 0x80030000\<rparr>"

definition sample_ram :: gmem where
  "sample_ram = \<lparr>gm_size = 0x400000, gm_data = (\<lambda>a. if a = 0x2000 then 0xF4 else 0)\<rparr>"

definition sample_cpu :: cpu where
  "sample_cpu = \<lparr>eip = 0x80001000, esp = 0x80004000, ebp = 0, edi = 0, esi = 0, ebx = 0, cr3 = 0x1000\<rparr>"

lemma sample_boot_ok: "boot_ok sample_boot sample_ram 0x2000 0x10000 [0xF4] 0x30000"
  by (simp add: boot_ok_def sample_boot_def sample_ram_def gm_read_def page_count_def)

theorem kernel_boots_witness:
  "\<exists>c' k' out. kernel_main sample_boot sample_cpu 2 sample_ram = Inr (c', 0x3002, k', out) \<and>
     eip c' = 0x1000000 \<and> map pid (take 2 (procs k')) = [0, 2]"
  using kernel_boots[OF sample_boot_ok, of sample_cpu 2] by (auto simp: user_base_def)

end
