(* ===== verification/Os_Traps.thy ===== *)
theory Os_Traps
  imports Os_Boot
begin

text \<open>
  The trap handlers of the 1K OS (\<^verbatim>\<open>os-1k/kernel.c\<close>): \<^verbatim>\<open>handle_syscall\<close>, behind \<^verbatim>\<open>handle_trap\<close>, and
  \<^verbatim>\<open>timer_interrupt_handler\<close>. The kernel runs them in the address space of the current process, so the
  pointers of the caller and its own go through the page tables of that process, byte by byte. Pointers
  are numbers; an access beyond 32 bits, like one that is not mapped, is a page fault. The repository
  has no entry code that would call \<^verbatim>\<open>handle_trap\<close>.
\<close>

section \<open>Accesses through the page tables\<close>

definition vaddr :: "gmem \<Rightarrow> u32 \<Rightarrow> nat \<Rightarrow> nat option" where
  "vaddr m c va = (if va < 2 ^ 32 then translate m c (word_of_nat va) else None)"

definition vload8 :: "u32 \<Rightarrow> gmem \<Rightarrow> nat \<Rightarrow> u8 option" where
  "vload8 c m va = Option.bind (vaddr m c va) (load8 m)"

definition vstore8 :: "u32 \<Rightarrow> gmem \<Rightarrow> nat \<Rightarrow> u8 \<Rightarrow> gmem option" where
  "vstore8 c m va b = Option.bind (vaddr m c va) (\<lambda>pa. store8 m pa b)"

fun vmemcpy :: "u32 \<Rightarrow> gmem \<Rightarrow> nat \<Rightarrow> nat \<Rightarrow> nat \<Rightarrow> gmem option" where
  "vmemcpy c m d s 0 = Some m"
| "vmemcpy c m d s (Suc n) =
     do {
       b \<leftarrow> vload8 c m s;
       m \<leftarrow> vstore8 c m d b;
       vmemcpy c m (d + 1) (s + 1) n
     }"

lemma vload8_bound: "vload8 c m va = Some b \<Longrightarrow> va < 2 ^ 32"
  by (auto simp: vload8_def vaddr_def split: if_splits)

function vstrcmp :: "u32 \<Rightarrow> gmem \<Rightarrow> nat \<Rightarrow> nat \<Rightarrow> int option" where
  "vstrcmp c m s1 s2 =
     (case vload8 c m s1 of
        None \<Rightarrow> None
      | Some x \<Rightarrow>
          (case vload8 c m s2 of
             None \<Rightarrow> None
           | Some y \<Rightarrow> if x \<noteq> 0 \<and> y \<noteq> 0 \<and> x = y then vstrcmp c m (s1 + 1) (s2 + 1)
                       else Some (uint x - uint y)))"
  by pat_completeness auto
termination
  by (relation "measure (\<lambda>(c, m, s1, s2). 2 ^ 32 - s1)") (auto dest: vload8_bound)

text \<open>The characters that \<^verbatim>\<open>printf("%s")\<close> reads.\<close>

function vread_string :: "u32 \<Rightarrow> gmem \<Rightarrow> nat \<Rightarrow> u8 list option" where
  "vread_string c m s =
     (case vload8 c m s of
        None \<Rightarrow> None
      | Some b \<Rightarrow> if b = 0 then Some [] else map_option (Cons b) (vread_string c m (s + 1)))"
  by pat_completeness auto
termination
  by (relation "measure (\<lambda>(c, m, s). 2 ^ 32 - s)") (auto dest: vload8_bound)

declare vstrcmp.simps [simp del] vread_string.simps [simp del]

section \<open>handle_syscall\<close>

text \<open>Kernel pointers to the file table: RAM appears at 0x80000000.\<close>

definition kernel_ptr :: "nat \<Rightarrow> nat" where
  "kernel_ptr a = 0x80000000 + a"

fun vlookup_from :: "fs_layout \<Rightarrow> u32 \<Rightarrow> gmem \<Rightarrow> nat \<Rightarrow> nat list \<Rightarrow> nat option option" where
  "vlookup_from L c m filename [] = Some None"
| "vlookup_from L c m filename (i # is) =
     Option.bind (vstrcmp c m (kernel_ptr (file_addr L i + 4)) filename)
       (\<lambda>r. if r = 0 then Some (Some i) else vlookup_from L c m filename is)"

record trap_frame =
  tf_eax :: u32
  tf_ebx :: u32
  tf_ecx :: u32
  tf_edx :: u32

text \<open>
  The cases SYS_READFILE and SYS_WRITEFILE. \<^verbatim>\<open>len\<close> is an \<^verbatim>\<open>int\<close>; it is compared as such and converted
  to \<^verbatim>\<open>size_t\<close> for \<^verbatim>\<open>memcpy\<close>.
\<close>

definition syscall_file ::
  "fs_layout \<Rightarrow> u32 \<Rightarrow> trap_frame \<Rightarrow> gmem \<Rightarrow> (trap_frame \<times> gmem \<times> u8 list) option" where
  "syscall_file L c f m =
     do {
       let filename = unat (tf_ebx f);
       let buf = unat (tf_ecx f);
       file \<leftarrow> vlookup_from L c m filename [0..<FILES_MAX];
       (case file of
          None \<Rightarrow> do {
            name \<leftarrow> vread_string c m filename;
            out \<leftarrow> printf (ascii ''file not found: %s'' @ nl) [Str name];
            Some (f\<lparr>tf_eax := - 1\<rparr>, m, out)
          }
        | Some i \<Rightarrow> do {
            len \<leftarrow> (if sint (tf_edx f) > 1024 then load32 m (file_addr L i + 1128) else Some (tf_edx f));
            (m, out) \<leftarrow> (if tf_eax f = 4 then do {
                m \<leftarrow> vmemcpy c m (kernel_ptr (file_addr L i + 104)) buf (unat len);
                m \<leftarrow> store32 m (file_addr L i + 1128) len;
                fs_flush L m
              } else do {
                m \<leftarrow> vmemcpy c m buf (kernel_ptr (file_addr L i + 104)) (unat len);
                Some (m, [])
              });
            Some (f\<lparr>tf_eax := len\<rparr>, m, out)
          })
     }"

text \<open>
  The handler runs on the registers of the frame, the processor and the kernel; the last component is
  what it prints. SYS_GETCHAR: \<open>eax0\<close> is what EAX holds at the \<^verbatim>\<open>outb\<close> of \<^verbatim>\<open>getchar\<close>, which returns at
  once (\<open>kernel_getchar_two\<close>) and never a negative number, so that the loops around it have no second
  turn; \<open>None\<close> is never taken. SYS_EXIT does not return: when \<^verbatim>\<open>yield\<close> finds no other process it panics.
\<close>

definition handle_syscall ::
  "fs_layout \<Rightarrow> u32 \<Rightarrow> trap_frame \<Rightarrow> cpu \<times> kernel \<Rightarrow> kfault + (trap_frame \<times> cpu \<times> kernel \<times> u8 list)" where
  "handle_syscall L eax0 f = (\<lambda>(c, k).
     if tf_eax f = 1 then Inr (f, c, k, [ucast (tf_ebx f)])
     else if tf_eax f = 2 then
       (case kernel_getchar eax0 of
          Some ch \<Rightarrow> Inr (f\<lparr>tf_eax := ch\<rparr>, c, k, [])
        | None \<Rightarrow> Inl Panic)
     else if tf_eax f = 0 then
       and_then (or_fault (printf (ascii ''process %d exited'' @ nl)
                             [Word (word_of_nat (pid (procs k ! current_proc k)))])) (\<lambda>out.
       let i = current_proc k; k = k\<lparr>procs := (procs k)[i := (procs k ! i)\<lparr>pstate := PROC_EXITED\<rparr>]\<rparr> in
       and_then (yield (c, k)) (\<lambda>(c, k).
       if current_proc k = i then Inl Panic else Inr (f, c, k, out)))
     else if tf_eax f = 3 \<or> tf_eax f = 4 then
       and_then (or_fault (syscall_file L (cr3 c) f (kram (kmem k)))) (\<lambda>(f, m, out).
       Inr (f, c, k\<lparr>kmem := (kmem k)\<lparr>kram := m\<rparr>\<rparr>, out))
     else Inl Panic)"

definition handle_trap ::
  "fs_layout \<Rightarrow> u32 \<Rightarrow> trap_frame \<Rightarrow> cpu \<times> kernel \<Rightarrow> kfault + (trap_frame \<times> cpu \<times> kernel \<times> u8 list)" where
  "handle_trap L eax0 f s = handle_syscall L eax0 f s"

section \<open>The timer interrupt\<close>

text \<open>
  The assembly of the handler on EAX and EDX, the only registers it changes, and RAM; the last component
  is the end-of-interrupt it sends, a port and a byte.
\<close>

definition timer_interrupt_handler ::
  "u32 \<Rightarrow> (u32 \<times> u32) \<times> gmem \<Rightarrow> ((u32 \<times> u32) \<times> gmem \<times> u16 \<times> u8) option" where
  "timer_interrupt_handler ticks_addr = (\<lambda>((eax, edx), m). do {
     let eax = ticks_addr;
     v \<leftarrow> load32 m (kaddr eax);
     m \<leftarrow> store32 m (kaddr eax) (v + 1);
     let eax = (eax AND 0xFFFFFF00) OR 0x20;
     let edx = (edx AND 0xFFFF0000) OR 0x20;
     Some ((eax, edx), m, ucast edx, ucast eax)
   })"

section \<open>Copies and comparisons in a fixed view\<close>

text \<open>
  \<open>fixed_view m c tb tn T\<close>: the tables below CR3 \<open>c\<close> lie in the \<open>tn\<close> bytes at \<open>tb\<close>; memory that keeps
  these has the address translation \<open>T\<close>.
\<close>

definition fixed_view :: "gmem \<Rightarrow> u32 \<Rightarrow> nat \<Rightarrow> nat \<Rightarrow> (nat \<Rightarrow> nat option) \<Rightarrow> bool" where
  "fixed_view m c tb tn T \<longleftrightarrow>
     (\<forall>m'. gm_size m' = gm_size m \<and> gm_read m' tb tn = gm_read m tb tn \<longrightarrow> vaddr m' c = T)"

definition maps_to :: "(nat \<Rightarrow> nat option) \<Rightarrow> nat \<Rightarrow> nat \<Rightarrow> nat \<Rightarrow> bool" where
  "maps_to T va n pa \<longleftrightarrow> (\<forall>i<n. T (va + i) = Some (pa + i))"

lemma fixed_viewD: "fixed_view m c tb tn T \<Longrightarrow> vaddr m c = T"
  by (simp add: fixed_view_def)

lemma fixed_view_same:
  "fixed_view m c tb tn T \<Longrightarrow> gm_size m' = gm_size m \<Longrightarrow> gm_read m' tb tn = gm_read m tb tn \<Longrightarrow>
     fixed_view m' c tb tn T"
  by (simp add: fixed_view_def)

lemma maps_to_Suc: "maps_to T va (Suc n) pa \<Longrightarrow> T va = Some pa \<and> maps_to T (va + 1) n (pa + 1)"
  by (auto simp: maps_to_def)

lemma vmemcpy_memcpy:
  assumes "fixed_view m c tb tn T" and "maps_to T d n pd" and "maps_to T s n ps"
    and "pd + n \<le> tb \<or> tb + tn \<le> pd"
  shows "vmemcpy c m d s n = memcpy m pd ps n"
  using assms
proof (induction n arbitrary: m d s pd ps)
  case (Suc n)
  have T: "T d = Some pd" "maps_to T (d + 1) n (pd + 1)" "T s = Some ps" "maps_to T (s + 1) n (ps + 1)"
    using Suc.prems maps_to_Suc by blast+
  note v = fixed_viewD[OF Suc.prems(1)]
  have ld: "vload8 c m s = load8 m ps" by (simp add: vload8_def v T)
  have st: "vstore8 c m d b = store8 m pd b" for b by (simp add: vstore8_def v T)
  have step: "vmemcpy c m' (d + 1) (s + 1) n = memcpy m' (pd + 1) (ps + 1) n" if "store8 m pd b = Some m'" for b m'
  proof (rule Suc.IH[OF _ T(2,4)])
    have "gm_read m' tb tn = gm_read m tb tn"
      by (rule store_frame(1)[OF that]) (use Suc.prems(4) in auto)
    then show "fixed_view m' c tb tn T" by (rule fixed_view_same[OF Suc.prems(1) store8_size[OF that]])
    show "pd + 1 + n \<le> tb \<or> tb + tn \<le> pd + 1" using Suc.prems(4) by auto
  qed
  show ?case
    by (cases "load8 m ps"; cases "store8 m pd (the (load8 m ps))") (use step in \<open>auto simp: ld st\<close>)
qed simp

lemma vstrcmp_strcmp:
  assumes "vaddr m c = T" and "maps_to T a (Suc (length s)) pa" and "maps_to T b (Suc (length t)) pb"
    and "cstring m pa s" and "cstring m pb t"
  shows "vstrcmp c m a b = strcmp m pa pb"
  using assms
proof (induction s arbitrary: a b pa pb t)
  case Nil
  then show ?case
    using maps_to_Suc[OF Nil.prems(2)] maps_to_Suc[OF Nil.prems(3)]
    by (simp add: vstrcmp.simps[of c m a b] strcmp.simps[of m pa pb] vload8_def cstring_Nil split: option.split)
next
  case (Cons x s)
  have T: "T a = Some pa" "maps_to T (a + 1) (Suc (length s)) (pa + 1)" "T b = Some pb"
    "maps_to T (b + 1) (length t) (pb + 1)"
    using maps_to_Suc[of T a] maps_to_Suc[of T b] Cons.prems(2,3) by auto
  have x: "load8 m pa = Some x" "cstring m (pa + 1) s" using Cons.prems(4) by (simp_all add: cstring_Cons)
  show ?case
  proof (cases t)
    case Nil
    then show ?thesis using Cons.prems(1,5) T x
      by (simp add: vstrcmp.simps[of c m a b] strcmp.simps[of m pa pb] vload8_def cstring_Nil)
  next
    case (Cons y u)
    then have y: "load8 m pb = Some y" "cstring m (pb + 1) u" "maps_to T (b + 1) (Suc (length u)) (pb + 1)"
      using Cons.prems(5) T(4) by (simp_all add: cstring_Cons)
    show ?thesis using Cons.IH[OF Cons.prems(1) T(2) y(3) x(2) y(2)] Cons.prems(1) T x y
      by (simp add: vstrcmp.simps[of c m a b] strcmp.simps[of m pa pb] vload8_def)
  qed
qed

section \<open>The file system calls\<close>

text \<open>A region apart from the file table and the image, whose writes reach up to \<open>D\<close> bytes.\<close>

definition outside :: "fs_layout \<Rightarrow> nat \<Rightarrow> nat \<Rightarrow> nat \<Rightarrow> bool" where
  "outside L D a n \<longleftrightarrow>
     (a + n \<le> files_at L \<or> files_at L + 2264 \<le> a) \<and> (a + n \<le> disk_at L \<or> disk_at L + D \<le> a)"

definition syscall_ready ::
  "fs_layout \<Rightarrow> nat \<Rightarrow> gmem \<Rightarrow> u32 \<Rightarrow> nat \<Rightarrow> nat \<Rightarrow> (nat \<Rightarrow> nat option) \<Rightarrow> bool" where
  "syscall_ready L D m c tb tn T \<longleftrightarrow>
     fixed_view m c tb tn T \<and> (\<forall>a<0x400000. T (kernel_ptr a) = Some a) \<and> gm_size m \<le> 0x400000 \<and>
     fs_layout_ok L m D \<and> outside L D tb tn"

text \<open>The caller's pointer \<open>va\<close> leads to the string \<open>name\<close>.\<close>

definition names_file :: "fs_layout \<Rightarrow> nat \<Rightarrow> gmem \<Rightarrow> (nat \<Rightarrow> nat option) \<Rightarrow> nat \<Rightarrow> u8 list \<Rightarrow> bool" where
  "names_file L D m T va name \<longleftrightarrow>
     (\<exists>pn. maps_to T va (Suc (length name)) pn \<and> cstring m pn name \<and> outside L D pn (Suc (length name)))"

lemma kernel_maps:
  assumes "syscall_ready L D m c tb tn T" and "a + n \<le> gm_size m"
  shows "maps_to T (kernel_ptr a) n a"
  using assms by (auto simp: syscall_ready_def maps_to_def kernel_ptr_def add.assoc)

text \<open>
  The lookup finds the first of the two slots whose name the caller's pointer leads to: every comparison
  before it fails.
\<close>

lemma vlookup_slot:
  assumes R: "syscall_ready L D m c tb tn T" and i: "i < 2"
    and F: "\<And>j. j \<le> i \<Longrightarrow> file_is m (file_addr L j) (nm j) (dt j)"
    and N: "names_file L D m T va (nm i)" and new: "\<And>j. j < i \<Longrightarrow> nm j \<noteq> nm i"
  shows "vlookup_from L c m va [0..<FILES_MAX] = Some (Some i)"
proof -
  obtain pn where pn: "maps_to T va (Suc (length (nm i))) pn" "cstring m pn (nm i)"
    using N by (auto simp: names_file_def)
  have T: "vaddr m c = T" using R fixed_viewD by (auto simp: syscall_ready_def)
  have cmp: "\<exists>r. vstrcmp c m (kernel_ptr (file_addr L j + 4)) va = Some r \<and> (r = 0 \<longleftrightarrow> nm j = nm i)" if "j \<le> i" for j
  proof -
    have name: "cstring m (file_addr L j + 4) (nm j)" "length (nm j) \<le> 99"
      using F[OF that] by (simp_all add: file_is_def)
    have "file_addr L j \<le> files_at L + 1132" using that i by (simp add: file_addr_def)
    then have "file_addr L j + 4 + Suc (length (nm j)) \<le> gm_size m"
      using R name(2) by (simp add: syscall_ready_def fs_layout_ok_def)
    note k = kernel_maps[OF R this]
    have "vstrcmp c m (kernel_ptr (file_addr L j + 4)) va = strcmp m (file_addr L j + 4) pn"
      by (rule vstrcmp_strcmp[OF T k pn(1) name(1) pn(2)])
    then show ?thesis using strcmp_eq[OF name(1) pn(2)] by auto
  qed
  show ?thesis
  proof (cases "i = 0")
    case True
    then show ?thesis using cmp[of 0] by (auto simp: FILES_MAX_def upt_conv_Cons)
  next
    case False
    then have "i = 1" using i by simp
    then show ?thesis using cmp[of 0] cmp[of 1] new[of 0] by (auto simp: FILES_MAX_def upt_conv_Cons)
  qed
qed

lemma small_length:
  assumes "n \<le> 1024"
  shows "sint (word_of_nat n :: u32) = int n" and "unat (word_of_nat n :: u32) = n"
proof -
  show "unat (word_of_nat n :: u32) = n" using assms by (simp add: unat_of_nat)
  show "sint (word_of_nat n :: u32) = int n"
    using assms by (simp add: signed_of_nat signed_take_bit_int_eq_self)
qed

lemma file_slots:
  assumes "i < 2"
  shows "files_at L \<le> file_addr L i" and "file_addr L i + 1132 \<le> files_at L + 2264"
    and "j < 2 \<Longrightarrow> j \<noteq> i \<Longrightarrow> file_addr L j + 1132 \<le> file_addr L i \<or> file_addr L i + 1132 \<le> file_addr L j"
  using assms by (auto simp: file_addr_def less_2_cases_iff)

lemma syscall_write_ok:
  assumes R: "syscall_ready L D m c tb tn T" and i: "i < 2"
    and D: "D = max 2560 (512 + sectors (length ((dt(i := new)) 0)) + 512 + length ((dt(i := new)) 1))"
    and F: "\<And>j. j < 2 \<Longrightarrow> file_is m (file_addr L j) (nm j) (dt j)" and other: "\<And>j. j < i \<Longrightarrow> nm j \<noteq> nm i"
    and N: "names_file L D m T (unat (tf_ebx f)) (nm i)"
    and B: "maps_to T (unat (tf_ecx f)) (length new) pb" "gm_read m pb (length new) = Some new"
      "outside L D pb (length new)"
    and f: "tf_eax f = 4" "tf_edx f = word_of_nat (length new)" "length new \<le> 1024"
  obtains m' where
    "syscall_file L c f m = Some (f\<lparr>tf_eax := word_of_nat (length new)\<rparr>, m', ascii ''wrote 2560 bytes to disk'' @ [10])"
    and "\<And>j. j < 2 \<Longrightarrow> file_is m' (file_addr L j) (nm j) ((dt(i := new)) j)"
    and "gm_size m' = gm_size m" and "\<And>b n. outside L D b n \<Longrightarrow> gm_read m' b n = gm_read m b n"
proof -
  let ?n = "length new" and ?f = "file_addr L i" and ?w = "word_of_nat (length new) :: u32"
  note fa = file_slots[OF i, where L = L]
  have lay: "files_at L + 2264 \<le> gm_size m" "disk_at L + D \<le> gm_size m"
    "files_at L + 2264 \<le> disk_at L \<or> disk_at L + D \<le> files_at L"
    using R by (simp_all add: syscall_ready_def fs_layout_ok_def)
  have view: "fixed_view m c tb tn T" using R by (simp add: syscall_ready_def)
  have tables: "?f + 104 + ?n \<le> tb \<or> tb + tn \<le> ?f + 104"
    using R f(3) fa(1,2) by (auto simp: syscall_ready_def outside_def)
  have k: "maps_to T (kernel_ptr (?f + 104)) ?n (?f + 104)" by (rule kernel_maps[OF R]) (use lay f(3) fa(2) in simp)
  have copy: "vmemcpy c m (kernel_ptr (?f + 104)) (unat (tf_ecx f)) ?n = memcpy m (?f + 104) pb ?n"
    by (rule vmemcpy_memcpy[OF view k B(1) tables])
  have "memcpy m (?f + 104) pb ?n = gm_write m (?f + 104) new"
    by (rule memcpy_wr[OF B(2)]) (use B(3) f(3) lay fa(1,2) in \<open>auto simp: outside_def\<close>)
  then obtain m1 where m1: "memcpy m (?f + 104) pb ?n = Some m1" "gm_write m (?f + 104) new = Some m1"
    using lay f(3) fa(2) by auto
  have s1: "gm_size m1 = gm_size m" by (rule gm_write_size[OF m1(2)])
  obtain m2 where m2: "store32 m1 (?f + 1128) ?w = Some m2" "gm_size m2 = gm_size m"
    using store_defined(1)[of "?f + 1128" m1 ?w] lay s1 fa(2) by auto
  have fr: "gm_read m2 b j = gm_read m b j" if "b + j \<le> ?f + 104 \<or> ?f + 1132 \<le> b" for b j
    using gm.rd_wr_other[OF m1(2), of b j] store_frame(2)[OF m2(1), of b j] that f(3) by auto
  have data: "gm_read m2 (?f + 104) ?n = Some new"
    using gm.rd_wr_same[OF m1(2)] store_frame(2)[OF m2(1), of "?f + 104" ?n] f(3) by auto
  have F2: "file_is m2 (file_addr L j) (nm j) ((dt(i := new)) j)" if j: "j < 2" for j
  proof (cases "j = i")
    case True
    then show ?thesis
      using F[OF i] fr[of ?f 4] fr[of "?f + 4" "length (nm i) + 1"] data load32_store32[OF m2(1)] f(3)
      by (auto simp: file_is_def cstring_def load32_def)
  next
    case False
    have "file_is m2 (file_addr L j) (nm j) (dt j)"
      by (rule file_is_frame[OF F[OF j]], rule fr) (use fa(3)[OF j False] in auto)
    then show ?thesis using False by simp
  qed
  have "fs_layout_ok L m2 D" using R m2(2) by (simp add: syscall_ready_def fs_layout_ok_def)
  then obtain m3 where m3: "fs_flush L m2 = Some (m3, ascii ''wrote 2560 bytes to disk'' @ [10])"
    "\<And>b j. b + j \<le> disk_at L \<or> disk_at L + D \<le> b \<Longrightarrow> gm_read m3 b j = gm_read m2 b j" "gm_size m3 = gm_size m2"
    using fs_flush_ok[OF _ F2[of 0] F2[of 1]] unfolding D by (metis one_less_numeral_iff semiring_norm(76) zero_less_numeral)
  have F3: "file_is m3 (file_addr L j) (nm j) ((dt(i := new)) j)" if j: "j < 2" for j
    by (rule file_is_frame[OF F2[OF j]], rule m3(2)) (use lay file_slots(1,2)[OF j, where L = L] in auto)
  have "vlookup_from L c m (unat (tf_ebx f)) [0..<FILES_MAX] = Some (Some i)"
    by (rule vlookup_slot[OF R i F N other]) (use i in simp)
  then have "syscall_file L c f m =
      Some (f\<lparr>tf_eax := ?w\<rparr>, m3, ascii ''wrote 2560 bytes to disk'' @ [10])"
    using small_length[OF f(3)] f(1-3) copy m1(1) m2(1) m3(1) by (simp add: syscall_file_def)
  moreover have "gm_read m3 b j = gm_read m b j" if "outside L D b j" for b j
    using m3(2)[of b j] fr[of b j] that lay fa(1,2) by (auto simp: outside_def)
  ultimately show ?thesis using that F3 m3(3) m2(2) by metis
qed

lemma syscall_read_ok:
  assumes R: "syscall_ready L D m c tb tn T" and i: "i < 2"
    and F: "\<And>j. j \<le> i \<Longrightarrow> file_is m (file_addr L j) (nm j) (dt j)" and other: "\<And>j. j < i \<Longrightarrow> nm j \<noteq> nm i"
    and N: "names_file L D m T (unat (tf_ebx f)) (nm i)"
    and B: "maps_to T (unat (tf_ecx f)) n pb" "outside L D pb n" "pb + n \<le> gm_size m"
      "pb + n \<le> tb \<or> tb + tn \<le> pb"
    and f: "tf_eax f = 3" "tf_edx f = word_of_nat n" "n \<le> 1024"
  obtains m' where "syscall_file L c f m = Some (f\<lparr>tf_eax := word_of_nat n\<rparr>, m', [])"
    and "gm_read m' pb n = gm_read m (file_addr L i + 104) n"
    and "\<And>b j. b + j \<le> pb \<or> pb + n \<le> b \<Longrightarrow> gm_read m' b j = gm_read m b j"
proof -
  let ?f = "file_addr L i"
  note fa = file_slots(1,2)[OF i, where L = L]
  have lay: "files_at L + 2264 \<le> gm_size m" using R by (simp add: syscall_ready_def fs_layout_ok_def)
  have view: "fixed_view m c tb tn T" using R by (simp add: syscall_ready_def)
  have k: "maps_to T (kernel_ptr (?f + 104)) n (?f + 104)" by (rule kernel_maps[OF R]) (use lay f(3) fa in simp)
  have copy: "vmemcpy c m (unat (tf_ecx f)) (kernel_ptr (?f + 104)) n = memcpy m pb (?f + 104) n"
    by (rule vmemcpy_memcpy[OF view B(1) k B(4)])
  obtain bs where bs: "gm_read m (?f + 104) n = Some bs" using lay f(3) fa by (auto simp: gm_read_def)
  have len: "length bs = n" by (rule gm_read_length[OF bs])
  have "memcpy m pb (?f + 104) n = gm_write m pb bs"
    by (rule memcpy_wr[OF bs]) (use B f(3) fa in \<open>auto simp: outside_def\<close>)
  then obtain m' where m': "memcpy m pb (?f + 104) n = Some m'" "gm_write m pb bs = Some m'"
    using B(3) len by auto
  have "syscall_file L c f m = Some (f\<lparr>tf_eax := word_of_nat n\<rparr>, m', [])"
    using vlookup_slot[OF R i F N other] small_length[OF f(3)] f copy m'(1) by (simp add: syscall_file_def)
  moreover have "gm_read m' pb n = gm_read m (?f + 104) n" using gm.rd_wr_same[OF m'(2)] len bs by simp
  moreover have "gm_read m' b j = gm_read m b j" if "b + j \<le> pb \<or> pb + n \<le> b" for b j
    by (rule gm.rd_wr_other[OF m'(2)]) (use that len in auto)
  ultimately show ?thesis using that by blast
qed

text \<open>A copy that would reach the end of the address space never completes.\<close>

lemma vmemcpy_bounds: "vmemcpy c m d s n = Some m' \<Longrightarrow> 0 < n \<Longrightarrow> d + n \<le> 2 ^ 32 \<and> s + n \<le> 2 ^ 32"
proof (induction n arbitrary: m d s)
  case (Suc n)
  then have b: "d < 2 ^ 32" "s < 2 ^ 32"
    by (auto simp: bind_eq_Some_conv vload8_def vstore8_def vaddr_def split: if_splits)
  show ?case
  proof (cases n)
    case 0
    then show ?thesis using b by simp
  next
    case (Suc k)
    then show ?thesis using Suc.IH[of _ "d + 1" "s + 1"] Suc.prems by (fastforce simp: bind_eq_Some_conv)
  qed
qed simp

lemma vmemcpy_too_long:
  assumes "0 < n" and "2 ^ 32 < d + n \<or> 2 ^ 32 < s + n"
  shows "vmemcpy c m d s n = None"
  using vmemcpy_bounds[of c m d s n] assms by (cases "vmemcpy c m d s n") auto

lemma low_half: "ucast ((w AND 0xFFFF0000) OR 0x20 :: u32) = (0x20 :: u16)"
proof -
  have m: "(0xFFFF0000 :: u32) = NOT (mask 16)" by (simp add: mask_eq_exp_minus_1)
  have "ucast ((w AND 0xFFFF0000) OR 0x20 :: u32) = (ucast (0x20 :: u32) :: u16)"
    unfolding m by (intro bit_word_eqI) (simp add: bit_simps)
  then show ?thesis by simp
qed

lemma low_quarter: "ucast ((w AND 0xFFFFFF00) OR 0x20 :: u32) = (0x20 :: u8)"
proof -
  have m: "(0xFFFFFF00 :: u32) = NOT (mask 8)" by (simp add: mask_eq_exp_minus_1)
  have "ucast ((w AND 0xFFFFFF00) OR 0x20 :: u32) = (ucast (0x20 :: u32) :: u8)"
    unfolding m by (intro bit_word_eqI) (simp add: bit_simps)
  then show ?thesis by simp
qed

lemma negative_unat:
  assumes "sint (w :: u32) < 0"
  shows "2 ^ 31 \<le> unat w"
proof (rule ccontr)
  assume "\<not> 2 ^ 31 \<le> unat w"
  then have "int (unat w) < int (2 ^ 31)" unfolding of_nat_less_iff by simp
  then have "uint w < 2 ^ 31" by simp
  moreover have "- (2 ^ 31) \<le> uint w" by (rule order_trans[of _ 0]) simp_all
  ultimately have "sint w = uint w" by (simp add: sint_uint signed_take_bit_int_eq_self)
  then show False using assms by simp
qed

section \<open>A worked instance\<close>

text \<open>
  The page tables of the VMM, on a memory with two files, a file name at 0x8000 and three bytes at 0x9000.
\<close>

definition boot_view :: "nat \<Rightarrow> nat option" where
  "boot_view va =
     (if va < 0x400000 then Some va
      else if 0x80000000 \<le> va \<and> va < 0x80400000 then Some (va - 0x80000000) else None)"

lemma fixed_boot_view:
  assumes tables: "setup_page_tables ctx = Some (r, ctx')" "0 \<le> r" and sz: "0x103000 \<le> gm_size (guest_mem ctx')"
  shows "fixed_view (guest_mem ctx') (word_of_int r) 0x100000 0x3000 boot_view"
    (is "fixed_view ?m ?c _ _ _")
proof -
  have r: "\<not> mem_size ctx \<le> 0x103000" "?c = 0x100000"
    using tables by (auto simp: setup_page_tables_def page_offsets bind_eq_Some_conv split: if_splits)
  note pde = setup_page_tables_contents(1)[OF tables(1) r(1) pd_index_less]
  have walk: "walk_page_tables_32bit m' ?c w = walk_page_tables_32bit ?m ?c w"
    if m': "gm_read m' 0x100000 0x3000 = gm_read ?m 0x100000 0x3000" for m' w
  proof -
    have same: "load32 m' a = load32 ?m a" if "0x100000 \<le> a" "a + 4 \<le> 0x103000" for a
      unfolding load32_def using gm_read_within[OF m', of a 4] that sz by simp
    have base: "unat (?c AND NOT 0xFFF) = 0x100000" by (simp add: r(2))
    show ?thesis
    proof (rule walk_cong, goal_cases)
      case 1
      show ?case unfolding base using pd_index_less[of w] by (intro same) auto
    next
      case (2 e)
      then have "e = 0x101003 \<or> e = 0x102003" unfolding base using pde[of w] by (auto split: if_splits)
      then have "unat (e AND NOT 0xFFF) = 0x101000 \<or> unat (e AND NOT 0xFFF) = 0x102000" by auto
      then show ?case using pt_index_less[of w] by (intro same) auto
    qed
  qed
  have T: "vaddr ?m ?c = boot_view"
  proof
    fix va
    show "vaddr ?m ?c va = boot_view va"
    proof (cases "va < 2 ^ 32")
      case True
      then have u: "unat (word_of_nat va :: u32) = va" by (simp add: unat_of_nat)
      have lt: "(word_of_nat va :: u32) < 0x400000 \<longleftrightarrow> va < 0x400000"
        "(0x80000000 :: u32) \<le> word_of_nat va \<longleftrightarrow> 0x80000000 \<le> va"
        "(word_of_nat va :: u32) < 0x80400000 \<longleftrightarrow> va < 0x80400000"
        by (simp_all add: word_less_nat_alt word_le_nat_alt u)
      have "unat (word_of_nat va - 0x80000000 :: u32) = va - 0x80000000" if "0x80000000 \<le> va"
        using that lt(2) by (simp add: unat_sub u)
      then show ?thesis
        using True by (simp add: vaddr_def translate_def boot_tables_walk[OF tables] lt u boot_view_def)
    qed (simp add: vaddr_def boot_view_def)
  qed
  have "vaddr m' ?c = vaddr ?m ?c" if "gm_read m' 0x100000 0x3000 = gm_read ?m 0x100000 0x3000" for m'
    by (rule ext) (simp add: vaddr_def translate_def walk[OF that])
  then show ?thesis unfolding fixed_view_def T by blast
qed

definition trap_memory :: gmem where
  "trap_memory = \<lparr>gm_size = 0x400000, gm_data = (\<lambda>x. if x = 0x8000 then 98 else if x = 0x9000 then 1
     else if x = 0x9001 then 2 else if x = 0x9002 then 3 else if x < 0x8000 then gm_data (sample_fs 0) x else 0)\<rparr>"

definition trap_ctx :: vcpu_context where
  "trap_ctx = zero_context\<lparr>mem_size := 0x400000, guest_mem := trap_memory\<rparr>"

text \<open>\<open>trap_ready c m\<close>: memory \<open>m\<close> with the page tables at \<open>c\<close> holds what \<open>trap_memory\<close> holds.\<close>

definition trap_ready :: "u32 \<Rightarrow> gmem \<Rightarrow> bool" where
  "trap_ready c m \<longleftrightarrow> gm_size m = 0x400000 \<and> fixed_view m c 0x100000 0x3000 boot_view \<and>
     (\<forall>b n. b + n \<le> 0x100000 \<longrightarrow> gm_read m b n = gm_read trap_memory b n)"

lemma trap_ready_exists: "\<exists>c m. trap_ready c m"
proof -
  obtain r ctx' where run: "setup_page_tables trap_ctx = Some (r, ctx')"
    using setup_page_tables_defined[of trap_ctx] by (auto simp: trap_ctx_def trap_memory_def)
  have r: "0 \<le> r" "gm_size (guest_mem ctx') = 0x400000"
    using run by (auto simp: setup_page_tables_def page_offsets trap_ctx_def trap_memory_def bind_eq_Some_conv
        gm_fill_size store32_size store32_table_size)
  have "gm_read (guest_mem ctx') b n = gm_read trap_memory b n" if "b + n \<le> 0x100000" for b n
    using setup_page_tables_frame[OF run, of b n] that by (simp add: trap_ctx_def)
  then have "trap_ready (word_of_int r) (guest_mem ctx')"
    using r fixed_boot_view[OF run r(1)] by (simp add: trap_ready_def)
  then show ?thesis by blast
qed

lemma trap_files:
  assumes "trap_ready c m"
  shows "file_is m (file_addr sample_layout 0) [97] [0]" and "file_is m (file_addr sample_layout 1) [98] [0]"
    and "names_file sample_layout 2560 m boot_view 0x8000 [98]" and "gm_read m 0x9000 3 = Some [1, 2, 3]"
    and "syscall_ready sample_layout 2560 m c 0x100000 0x3000 boot_view"
proof -
  have rd: "gm_read m b n = gm_read (sample_fs 0) b n" if "b + n \<le> 0x8000" for b n
    using assms that by (simp add: trap_ready_def) (auto simp: gm_read_def trap_memory_def sample_fs_def)
  have F: "file_is (sample_fs 0) (file_addr sample_layout 0) [97] [0]"
    "file_is (sample_fs 0) (file_addr sample_layout 1) [98] [0]"
    using sample_files[of 1 0] by simp_all
  show "file_is m (file_addr sample_layout 0) [97] [0]"
    by (rule file_is_frame[OF F(1)], rule rd) (simp add: file_addr_def sample_layout_def)
  show "file_is m (file_addr sample_layout 1) [98] [0]"
    by (rule file_is_frame[OF F(2)], rule rd) (simp add: file_addr_def sample_layout_def)
  have t: "gm_read m 0x8000 2 = Some [98, 0]" "gm_read m 0x9000 3 = Some [1, 2, 3]"
  proof -
    have "gm_read m b n = gm_read trap_memory b n" if "b + n \<le> 0x100000" for b n
      using assms that by (simp add: trap_ready_def)
    moreover have "gm_read trap_memory 0x8000 2 = Some [98, 0]" "gm_read trap_memory 0x9000 3 = Some [1, 2, 3]"
      by (simp_all add: gm_read_def trap_memory_def upt_rec)
    ultimately show "gm_read m 0x8000 2 = Some [98, 0]" "gm_read m 0x9000 3 = Some [1, 2, 3]" by simp_all
  qed
  then show "gm_read m 0x9000 3 = Some [1, 2, 3]" by blast
  have "length [98 :: u8] + 1 = 2" by simp
  then have "cstring m 0x8000 [98]" using t(1) unfolding cstring_def by (simp only:) simp
  then show "names_file sample_layout 2560 m boot_view 0x8000 [98]"
    by (auto simp: names_file_def maps_to_def boot_view_def outside_def sample_layout_def intro!: exI[of _ "0x8000"])
  show "syscall_ready sample_layout 2560 m c 0x100000 0x3000 boot_view"
    using assms by (auto simp: syscall_ready_def trap_ready_def boot_view_def kernel_ptr_def fs_layout_ok_def
        sample_layout_def outside_def)
qed

section \<open>Properties\<close>

text \<open>Writing and reading back, on memory.\<close>

lemma file_roundtrip:
  assumes R: "syscall_ready L D m c tb tn T" and i: "i < 2"
    and D: "D = max 2560 (512 + sectors (length ((dt(i := new)) 0)) + 512 + length ((dt(i := new)) 1))"
    and F: "\<And>j. j < 2 \<Longrightarrow> file_is m (file_addr L j) (nm j) (dt j)" and other: "\<And>j. j < i \<Longrightarrow> nm j \<noteq> nm i"
    and N: "names_file L D m T (unat (tf_ebx f)) (nm i)" "names_file L D m T (unat (tf_ebx g)) (nm i)"
    and B: "maps_to T (unat (tf_ecx f)) (length new) pb" "gm_read m pb (length new) = Some new"
      "outside L D pb (length new)"
    and B': "maps_to T (unat (tf_ecx g)) (length new) qb" "outside L D qb (length new)"
      "qb + length new \<le> gm_size m" "qb + length new \<le> tb \<or> tb + tn \<le> qb"
    and f: "tf_eax f = 4" "tf_edx f = word_of_nat (length new)"
    and g: "tf_eax g = 3" "tf_edx g = word_of_nat (length new)" and len: "length new \<le> 1024"
  shows "\<exists>m1 m2. syscall_file L c f m =
      Some (f\<lparr>tf_eax := word_of_nat (length new)\<rparr>, m1, ascii ''wrote 2560 bytes to disk'' @ [10]) \<and>
    (\<forall>j<2. file_is m1 (file_addr L j) (nm j) ((dt(i := new)) j)) \<and>
    syscall_file L c g m1 = Some (g\<lparr>tf_eax := word_of_nat (length new)\<rparr>, m2, []) \<and>
    gm_read m2 qb (length new) = Some new"
proof -
  obtain m1 where m1: "syscall_file L c f m =
      Some (f\<lparr>tf_eax := word_of_nat (length new)\<rparr>, m1, ascii ''wrote 2560 bytes to disk'' @ [10])"
    "\<And>j. j < 2 \<Longrightarrow> file_is m1 (file_addr L j) (nm j) ((dt(i := new)) j)" "gm_size m1 = gm_size m"
    "\<And>b n. outside L D b n \<Longrightarrow> gm_read m1 b n = gm_read m b n"
    by (rule syscall_write_ok[OF R i D F other N(1) B f len]) blast+
  have R1: "syscall_ready L D m1 c tb tn T"
    using R m1(3,4) fixed_view_same[of m c tb tn T m1] by (simp add: syscall_ready_def fs_layout_ok_def)
  have N1: "names_file L D m1 T (unat (tf_ebx g)) (nm i)"
    using N(2) m1(4) by (auto simp: names_file_def cstring_def)
  have F1: "file_is m1 (file_addr L j) (nm j) ((dt(i := new)) j)" if "j \<le> i" for j using m1(2)[of j] that i by simp
  have q: "qb + length new \<le> gm_size m1" using B'(3) m1(3) by simp
  obtain m2 where "syscall_file L c g m1 = Some (g\<lparr>tf_eax := word_of_nat (length new)\<rparr>, m2, [])"
    "gm_read m2 qb (length new) = gm_read m1 (file_addr L i + 104) (length new)"
    by (rule syscall_read_ok[OF R1 i F1 other N1 B'(1,2) q B'(4) g len]) blast
  moreover have "gm_read m1 (file_addr L i + 104) (length new) = Some new" using m1(2)[OF i] by (simp add: file_is_def)
  ultimately show ?thesis using m1(1,2) by metis
qed

lemma trap_file:
  assumes "tf_eax f = 3 \<or> tf_eax f = 4" and "syscall_file L (cr3 c) f (kram (kmem k)) = Some (f', m, out)"
  shows "handle_trap L e f (c, k) = Inr (f', c, k\<lparr>kmem := (kmem k)\<lparr>kram := m\<rparr>\<rparr>, out)"
  using assms by (auto simp: handle_trap_def handle_syscall_def)

text \<open>
  C22: a file written by a system call is read back. A process that writes at most 1024 bytes of its memory to
  the file it names, in either slot, gets the number back in EAX; that file then has the new contents and the
  other one what it had, in the file table, and a later read of as many bytes under the same name, into a buffer
  of the process apart from the file table, the image and the page tables, returns the bytes written. The two
  files have different names (or the one named is the first), and with the new contents they fit the image.
\<close>

theorem syscall_roundtrip:
  assumes m: "m = kram (kmem k)" and R: "syscall_ready L D m (cr3 c) tb tn T" and i: "i < 2"
    and D: "D = max 2560 (512 + sectors (length ((dt(i := new)) 0)) + 512 + length ((dt(i := new)) 1))"
    and F: "\<forall>j<2. file_is m (file_addr L j) (nm j) (dt j)" and other: "\<forall>j<i. nm j \<noteq> nm i"
    and N: "names_file L D m T (unat (tf_ebx f)) (nm i)" "names_file L D m T (unat (tf_ebx g)) (nm i)"
    and B: "maps_to T (unat (tf_ecx f)) (length new) pb" "gm_read m pb (length new) = Some new"
      "outside L D pb (length new)"
    and B': "maps_to T (unat (tf_ecx g)) (length new) qb" "outside L D qb (length new)"
      "qb + length new \<le> gm_size m" "qb + length new \<le> tb \<or> tb + tn \<le> qb"
    and f: "tf_eax f = 4" "tf_edx f = word_of_nat (length new)"
    and g: "tf_eax g = 3" "tf_edx g = word_of_nat (length new)" and len: "length new \<le> 1024"
  shows "\<exists>k1 k2. handle_trap L e f (c, k) =
      Inr (f\<lparr>tf_eax := word_of_nat (length new)\<rparr>, c, k1, ascii ''wrote 2560 bytes to disk'' @ [10]) \<and>
    (\<forall>j<2. file_is (kram (kmem k1)) (file_addr L j) (nm j) ((dt(i := new)) j)) \<and>
    handle_trap L e' g (c, k1) = Inr (g\<lparr>tf_eax := word_of_nat (length new)\<rparr>, c, k2, []) \<and>
    gm_read (kram (kmem k2)) qb (length new) = Some new \<and> procs k2 = procs k"
proof -
  let ?w = "word_of_nat (length new) :: u32"
  obtain m1 m2 where 1: "syscall_file L (cr3 c) f m = Some (f\<lparr>tf_eax := ?w\<rparr>, m1, ascii ''wrote 2560 bytes to disk'' @ [10])"
    "\<forall>j<2. file_is m1 (file_addr L j) (nm j) ((dt(i := new)) j)"
    and 2: "syscall_file L (cr3 c) g m1 = Some (g\<lparr>tf_eax := ?w\<rparr>, m2, [])" "gm_read m2 qb (length new) = Some new"
    using file_roundtrip[OF R i D F[rule_format] other[rule_format] N B B' f g len] by blast
  let ?k1 = "k\<lparr>kmem := (kmem k)\<lparr>kram := m1\<rparr>\<rparr>"
  have t1: "handle_trap L e f (c, k) = Inr (f\<lparr>tf_eax := ?w\<rparr>, c, ?k1, ascii ''wrote 2560 bytes to disk'' @ [10])"
    by (rule trap_file) (use f(1) 1(1) m in simp_all)
  have t2: "handle_trap L e' g (c, ?k1) = Inr (g\<lparr>tf_eax := ?w\<rparr>, c, ?k1\<lparr>kmem := (kmem ?k1)\<lparr>kram := m2\<rparr>\<rparr>, [])"
    by (rule trap_file) (use g(1) 2(1) in simp_all)
  show ?thesis
    using t1 t2 1(2) 2(2)
    by (intro exI[of _ ?k1] exI[of _ "?k1\<lparr>kmem := (kmem ?k1)\<lparr>kram := m2\<rparr>\<rparr>"] conjI) simp_all
qed

definition trap_kernel :: "gmem \<Rightarrow> kernel" where
  "trap_kernel m = \<lparr>kmem = \<lparr>kram = m, next_paddr = 0x80200000\<rparr>, procs = [], current_proc = 0, idle_proc = 0\<rparr>"

definition trap_cpu :: "u32 \<Rightarrow> cpu" where
  "trap_cpu c = \<lparr>eip = 0, esp = 0, ebp = 0, edi = 0, esi = 0, ebx = 0, cr3 = c\<rparr>"

theorem syscall_roundtrip_witness:
  "\<exists>c k k1 k2 out. handle_trap sample_layout 0 \<lparr>tf_eax = 4, tf_ebx = 0x8000, tf_ecx = 0x9000, tf_edx = 3\<rparr> (c, k) =
      Inr (\<lparr>tf_eax = 3, tf_ebx = 0x8000, tf_ecx = 0x9000, tf_edx = 3\<rparr>, c, k1, out) \<and>
    handle_trap sample_layout 0 \<lparr>tf_eax = 3, tf_ebx = 0x8000, tf_ecx = 0xA000, tf_edx = 3\<rparr> (c, k1) =
      Inr (\<lparr>tf_eax = 3, tf_ebx = 0x8000, tf_ecx = 0xA000, tf_edx = 3\<rparr>, c, k2, []) \<and>
    file_is (kram (kmem k1)) (file_addr sample_layout 1) [98] [1, 2, 3] \<and>
    gm_read (kram (kmem k2)) 0xA000 3 = Some [1, 2, 3]"
proof -
  obtain c m where cm: "trap_ready c m" using trap_ready_exists by blast
  note F = trap_files[OF cm]
  let ?f = "\<lparr>tf_eax = 4, tf_ebx = 0x8000, tf_ecx = 0x9000, tf_edx = 3\<rparr>"
  let ?g = "\<lparr>tf_eax = 3, tf_ebx = 0x8000, tf_ecx = 0xA000, tf_edx = 3\<rparr>"
  let ?nm = "\<lambda>j :: nat. if j = 0 then [97] else [98 :: u8]" and ?dt = "\<lambda>j :: nat. [0 :: u8]"
  have D: "(2560 :: nat) = max 2560 (512 + sectors (length ((?dt(1 := [1, 2, 3])) 0)) + 512 +
      length ((?dt(1 := [1 :: u8, 2, 3])) 1))"
    by (simp add: sectors_def)
  have files: "\<forall>j<2. file_is m (file_addr sample_layout j) (?nm j) (?dt j)" "\<forall>j<1. ?nm j \<noteq> ?nm 1"
    using F(1,2) by (auto simp: less_2_cases_iff)
  have N: "names_file sample_layout 2560 m boot_view (unat (tf_ebx ?f)) (?nm 1)"
    "names_file sample_layout 2560 m boot_view (unat (tf_ebx ?g)) (?nm 1)"
    using F(3) by simp_all
  have three: "length [1 :: u8, 2, 3] = 3" by simp
  have B: "maps_to boot_view (unat (tf_ecx ?f)) (length [1 :: u8, 2, 3]) 0x9000"
    "gm_read m 0x9000 (length [1 :: u8, 2, 3]) = Some [1, 2, 3]"
    "outside sample_layout 2560 0x9000 (length [1 :: u8, 2, 3])"
    "maps_to boot_view (unat (tf_ecx ?g)) (length [1 :: u8, 2, 3]) 0xA000"
    "outside sample_layout 2560 0xA000 (length [1 :: u8, 2, 3])"
    "0xA000 + length [1 :: u8, 2, 3] \<le> gm_size m"
    "0xA000 + length [1 :: u8, 2, 3] \<le> 0x100000 \<or> 0x100000 + 0x3000 \<le> (0xA000 :: nat)"
    unfolding three using F(4) cm by (simp_all add: maps_to_def boot_view_def outside_def sample_layout_def trap_ready_def)
  have f: "tf_eax ?f = 4" "tf_edx ?f = word_of_nat (length [1 :: u8, 2, 3])" "tf_eax ?g = 3"
    "tf_edx ?g = word_of_nat (length [1 :: u8, 2, 3])" "length [1 :: u8, 2, 3] \<le> 1024"
    by simp_all
  have k: "m = kram (kmem (trap_kernel m))" by (simp add: trap_kernel_def)
  have R: "syscall_ready sample_layout 2560 m (cr3 (trap_cpu c)) 0x100000 0x3000 boot_view"
    using F(5) by (simp add: trap_cpu_def)
  have one: "(1 :: nat) < 2" by simp
  note rt = syscall_roundtrip[OF k R one D files N B f, of 0 0, unfolded three]
  have upd: "?f\<lparr>tf_eax := word_of_nat 3\<rparr> = \<lparr>tf_eax = 3, tf_ebx = 0x8000, tf_ecx = 0x9000, tf_edx = 3\<rparr>"
    "?g\<lparr>tf_eax := word_of_nat 3\<rparr> = \<lparr>tf_eax = 3, tf_ebx = 0x8000, tf_ecx = 0xA000, tf_edx = 3\<rparr>"
    by simp_all
  obtain k1 k2 where r: "handle_trap sample_layout 0 ?f (trap_cpu c, trap_kernel m) =
      Inr (?f\<lparr>tf_eax := word_of_nat 3\<rparr>, trap_cpu c, k1, ascii ''wrote 2560 bytes to disk'' @ [10])"
    "\<forall>j<2. file_is (kram (kmem k1)) (file_addr sample_layout j) (?nm j) ((?dt(1 := [1, 2, 3])) j)"
    "handle_trap sample_layout 0 ?g (trap_cpu c, k1) = Inr (?g\<lparr>tf_eax := word_of_nat 3\<rparr>, trap_cpu c, k2, [])"
    "gm_read (kram (kmem k2)) 0xA000 3 = Some [1, 2, 3]"
    using rt by blast
  have "file_is (kram (kmem k1)) (file_addr sample_layout 1) [98] [1, 2, 3]" using spec[OF r(2), of 1] by simp
  then show ?thesis using r(1,3,4) unfolding upd by blast
qed

text \<open>
  A read may ask for more than the file has: up to 1024 bytes are copied, whatever the size, so the caller
  sees what an earlier, longer file left behind, and is told the number it asked for.
\<close>

theorem syscall_read_beyond_end:
  assumes "syscall_ready L D m c tb tn T" and "file_is m (file_addr L 0) name d"
    and "names_file L D m T (unat (tf_ebx f)) name"
    and "maps_to T (unat (tf_ecx f)) 1024 pb" "outside L D pb 1024" "pb + 1024 \<le> gm_size m"
      "pb + 1024 \<le> tb \<or> tb + tn \<le> pb"
    and "tf_eax f = 3" "tf_edx f = 1024"
  shows "\<exists>m'. syscall_file L c f m = Some (f\<lparr>tf_eax := 1024\<rparr>, m', []) \<and>
    gm_read m' pb 1024 = gm_read m (file_addr L 0 + 104) 1024"
proof -
  have e: "tf_edx f = word_of_nat 1024" using assms(9) by simp
  show ?thesis
    by (rule syscall_read_ok[where i = 0 and nm = "\<lambda>_. name" and dt = "\<lambda>_. d", OF assms(1) _ _ _ assms(3-8) e])
      (use assms(2) in auto)
qed

text \<open>
  A negative length is not an error either: it is smaller than 1024 as an \<^verbatim>\<open>int\<close>, but \<^verbatim>\<open>memcpy\<close> takes it as an
  unsigned number of at least 2 GB, runs through the file table and what lies behind it, and faults.
\<close>

theorem syscall_negative_length:
  assumes "vlookup_from L c m (unat (tf_ebx f)) [0..<FILES_MAX] = Some (Some i)"
    and "tf_eax f = 3 \<or> tf_eax f = 4" and "sint (tf_edx f) < 0"
  shows "syscall_file L c f m = None"
proof -
  have n: "2 ^ 31 \<le> unat (tf_edx f)" by (rule negative_unat[OF assms(3)])
  have "vmemcpy c m (kernel_ptr (file_addr L i + 104)) s (unat (tf_edx f)) = None"
    "vmemcpy c m s (kernel_ptr (file_addr L i + 104)) (unat (tf_edx f)) = None" for s
    using n by (intro vmemcpy_too_long; simp add: kernel_ptr_def)+
  then show ?thesis using assms by (auto simp: syscall_file_def)
qed

text \<open>
  The timer interrupt counts its tick and acknowledges the interrupt, but does not restore what it overwrites:
  the interrupted code continues with the last byte of the handler's EAX, and half of its EDX, changed.
\<close>

theorem timer_interrupt_effect:
  assumes "load32 m (kaddr ticks) = Some v"
  shows "\<exists>m'. timer_interrupt_handler ticks ((eax, edx), m) =
      Some (((ticks AND 0xFFFFFF00) OR 0x20, (edx AND 0xFFFF0000) OR 0x20), m', 0x20, 0x20) \<and>
    load32 m' (kaddr ticks) = Some (v + 1)"
proof -
  have "kaddr ticks + 4 \<le> gm_size m" using load_defined(2)[of m "kaddr ticks"] assms by simp
  then obtain m' where m': "store32 m (kaddr ticks) (v + 1) = Some m'"
    using store_defined(1)[of "kaddr ticks" m "v + 1"] by auto
  have "ucast ((edx AND 0xFFFF0000) OR 0x20) = (0x20 :: u16)" by (rule low_half)
  moreover have "ucast ((ticks AND 0xFFFFFF00) OR 0x20) = (0x20 :: u8)" by (rule low_quarter)
  ultimately show ?thesis using assms m' load32_store32[OF m'] by (simp add: timer_interrupt_handler_def)
qed

text \<open>What a switch leaves of the process table: states and numbers.\<close>

lemma switch_context_kernel:
  assumes "switch_context prev nxt (c, k) = Inr (c', k')"
  shows "\<exists>m sp. k' = k\<lparr>kmem := (kmem k)\<lparr>kram := m\<rparr>, procs := (procs k)[prev := (procs k ! prev)\<lparr>psp := sp\<rparr>]\<rparr>"
  using assms by (auto simp: switch_context_def and_then_Inr Let_def split: prod.splits)

lemma switch_context_pstate:
  assumes "switch_context prev nxt (c, k) = Inr (c', k')"
  shows "map pstate (procs k') = map pstate (procs k)" and "current_proc k' = current_proc k"
proof -
  obtain m sp where k': "k' = k\<lparr>kmem := (kmem k)\<lparr>kram := m\<rparr>,
      procs := (procs k)[prev := (procs k ! prev)\<lparr>psp := sp\<rparr>]\<rparr>"
    using switch_context_kernel[OF assms] by blast
  show "map pstate (procs k') = map pstate (procs k)"
    unfolding k' by (cases "prev < length (procs k)") (auto simp: nth_list_update intro!: nth_equalityI)
  show "current_proc k' = current_proc k" unfolding k' by simp
qed

lemma yield_pstate:
  assumes "yield (c, k) = Inr (c', k')"
  shows "map pstate (procs k') = map pstate (procs k)"
    and "current_proc k' = next_process (procs k) (idle_proc k) (current_proc k)"
  using assms switch_context_pstate
  by (auto simp: yield_def Let_def split: if_splits)

text \<open>
  The other calls: SYS_PUTCHAR prints the low byte of EBX, SYS_GETCHAR always answers 2 (the number of the
  hypercall), an unknown number is a panic, and a process that calls SYS_EXIT is marked as exited and does not
  run on.
\<close>

theorem syscall_others:
  shows "tf_eax f = 1 \<Longrightarrow> handle_trap L e f (c, k) = Inr (f, c, k, [ucast (tf_ebx f)])"
    and "tf_eax f = 2 \<Longrightarrow> handle_trap L e f (c, k) = Inr (f\<lparr>tf_eax := 2\<rparr>, c, k, [])"
    and "4 < tf_eax f \<Longrightarrow> handle_trap L e f (c, k) = Inl Panic"
    and "tf_eax f = 0 \<Longrightarrow> handle_trap L e f (c, k) = Inr (f', c', k', out) \<Longrightarrow>
      current_proc k < length (procs k) \<Longrightarrow>
      pstate (procs k' ! current_proc k) = PROC_EXITED \<and> current_proc k' \<noteq> current_proc k"
proof -
  show "tf_eax f = 1 \<Longrightarrow> handle_trap L e f (c, k) = Inr (f, c, k, [ucast (tf_ebx f)])"
    "tf_eax f = 2 \<Longrightarrow> handle_trap L e f (c, k) = Inr (f\<lparr>tf_eax := 2\<rparr>, c, k, [])"
    by (simp_all add: handle_trap_def handle_syscall_def kernel_getchar_two)
  show "handle_trap L e f (c, k) = Inl Panic" if "4 < tf_eax f"
  proof -
    have "tf_eax f \<noteq> 0 \<and> tf_eax f \<noteq> 1 \<and> tf_eax f \<noteq> 2 \<and> tf_eax f \<noteq> 3 \<and> tf_eax f \<noteq> 4" using that by auto
    then show ?thesis by (simp add: handle_trap_def handle_syscall_def)
  qed
  assume f: "tf_eax f = 0" "handle_trap L e f (c, k) = Inr (f', c', k', out)" and i: "current_proc k < length (procs k)"
  let ?k = "k\<lparr>procs := (procs k)[current_proc k := (procs k ! current_proc k)\<lparr>pstate := PROC_EXITED\<rparr>]\<rparr>"
  have y: "yield (c, ?k) = Inr (c', k')" "current_proc k' \<noteq> current_proc k"
    using f by (auto simp: handle_trap_def handle_syscall_def and_then_Inr Let_def split: if_splits prod.splits)
  have "pstate (procs k' ! current_proc k) = map pstate (procs k') ! current_proc k"
    using yield_pstate(1)[OF y(1)] i by (metis length_list_update length_map nth_map kernel.select_convs(2) kernel.surjective kernel.update_convs(2))
  also have "\<dots> = PROC_EXITED" unfolding yield_pstate(1)[OF y(1)] using i by (simp add: nth_list_update)
  finally show "pstate (procs k' ! current_proc k) = PROC_EXITED \<and> current_proc k' \<noteq> current_proc k" using y(2) by blast
qed

end
