(* ===== verification/Os_Kernel.thy ===== *)
theory Os_Kernel
  imports Os_Traps
begin

text \<open>
  The kernel of the 1K OS as a transition system: from the end of \<^verbatim>\<open>kernel_main\<close> on, processes are created,
  yield, trap, are interrupted by the timer, and change registers and memory while they run. The typing of
  the kernel state (\<open>kernel_wf\<close>) holds at the start and after every step. The process table is a component of
  its own, apart from RAM: a write of the kernel into its own table is not seen here.
\<close>

section \<open>Well-formed states\<close>

text \<open>Memory of a kernel whose RAM has \<open>n\<close> bytes: the allocator hands out whole pages.\<close>

definition mem_wf :: "nat \<Rightarrow> kernel_mem \<Rightarrow> bool" where
  "mem_wf n km \<longleftrightarrow> gm_size (kram km) = n \<and> next_paddr km AND 0xFFF = 0"

definition proc_wf :: "nat \<Rightarrow> process list \<Rightarrow> nat \<Rightarrow> bool" where
  "proc_wf idle ps i \<longleftrightarrow>
     (pstate (ps ! i) \<noteq> PROC_UNUSED \<longrightarrow>
        page_table (ps ! i) AND 0xFFF = 0 \<and> pid (ps ! i) = (if i = idle then 0 else i + 1))"

text \<open>
  The pointers to the current and the idle process point to used slots, the current process is runnable or the
  idle one, every used slot has its pid and a page directory at a page boundary, and CR3 is the directory of
  the current process.
\<close>

definition kernel_wf :: "nat \<Rightarrow> cpu \<times> kernel \<Rightarrow> bool" where
  "kernel_wf n = (\<lambda>(c, k).
     mem_wf n (kmem k) \<and> length (procs k) = PROCS_MAX \<and>
     idle_proc k < PROCS_MAX \<and> pstate (procs k ! idle_proc k) \<noteq> PROC_UNUSED \<and>
     current_proc k < PROCS_MAX \<and>
     (pstate (procs k ! current_proc k) = PROC_RUNNABLE \<or> current_proc k = idle_proc k) \<and>
     list_all (proc_wf (idle_proc k) (procs k)) [0..<PROCS_MAX] \<and>
     cr3 c = page_table (procs k ! current_proc k))"

section \<open>Steps\<close>

text \<open>
  \<open>Run\<close> is what a process does between two entries of the kernel: it may change every register but CR3, and
  memory, of which only the size matters here.
\<close>

inductive kernel_step :: "cpu \<times> kernel \<Rightarrow> cpu \<times> kernel \<Rightarrow> bool" where
  Create: "create_process procs_base user_entry img image_size k = Inr (i, k') \<Longrightarrow> kernel_step (c, k) (c, k')"
| Yield: "yield s = Inr s' \<Longrightarrow> kernel_step s s'"
| Trap: "handle_trap L eax0 f s = Inr (f', c', k', out) \<Longrightarrow> kernel_step s (c', k')"
| Timer: "timer_interrupt_handler ticks_addr (r, kram (kmem k)) = Some (r', m, eoi) \<Longrightarrow>
    kernel_step (c, k) (c, k\<lparr>kmem := (kmem k)\<lparr>kram := m\<rparr>\<rparr>)"
| Run: "cr3 c' = cr3 c \<Longrightarrow> gm_size m = gm_size (kram (kmem k)) \<Longrightarrow>
    kernel_step (c, k) (c', k\<lparr>kmem := (kmem k)\<lparr>kram := m\<rparr>\<rparr>)"

section \<open>Memory\<close>

lemma kfor_inv:
  assumes "kfor is body s = Inr t" and "P s" and "\<And>i s t. body i s = Inr t \<Longrightarrow> P s \<Longrightarrow> P t"
  shows "P t"
  using assms(1,2)
proof (induction "is" arbitrary: s)
  case (Cons i "is")
  then show ?case using assms(3) by (auto simp: and_then_Inr)
qed simp

lemma or_fault_Inr: "or_fault r = Inr x \<longleftrightarrow> r = Some x"
  by (cases r) simp_all

lemma memset_size: "memset m p c n = Some m' \<Longrightarrow> gm_size m' = gm_size m"
  by (induction n arbitrary: m p) (auto simp: bind_eq_Some_conv dest!: store8_size)

lemma memcpy_size: "memcpy m d s n = Some m' \<Longrightarrow> gm_size m' = gm_size m"
  by (induction n arbitrary: m d s) (auto simp: bind_eq_Some_conv dest!: store8_size)

lemma vmemcpy_size: "vmemcpy c m d s n = Some m' \<Longrightarrow> gm_size m' = gm_size m"
  by (induction n arbitrary: m d s) (auto simp: vstore8_def bind_eq_Some_conv dest!: store8_size)

lemma strcpy_size: "strcpy m d s = Some m' \<Longrightarrow> gm_size m' = gm_size m"
proof (induction m d s rule: strcpy.induct)
  case (1 m d s)
  then show ?case
    by (subst (asm) (2) strcpy.simps) (auto split: option.splits if_splits dest!: store8_size)
qed

lemmas size_rules = memset_size memcpy_size vmemcpy_size strcpy_size store8_size store32_size gm_write_size

lemma flush_file_size: "flush_file L i (m, off) = Some (m', off') \<Longrightarrow> gm_size m' = gm_size m"
  by (auto simp: flush_file_def Let_def bind_eq_Some_conv split: if_splits dest!: size_rules)

lemma fs_flush_size:
  assumes "fs_flush L m = Some (m', out)"
  shows "gm_size m' = gm_size m"
proof -
  obtain m1 off where "memset m (disk_at L) 0 DISK_MAX_SIZE = Some m1"
    and f: "for_each [0..<FILES_MAX] (flush_file L) (m1, 0) = Some (m', off)"
    using assms by (auto simp: fs_flush_def bind_eq_Some_conv)
  then have "gm_size m1 = gm_size m" using memset_size by blast
  moreover have "gm_size (fst (m', off)) = gm_size m1"
    by (rule for_each_inv[OF f, of "\<lambda>s. gm_size (fst s) = gm_size m1"]) (auto dest!: flush_file_size)
  ultimately show ?thesis by simp
qed

lemma init_file_size: "init_file L i (m, off) = Inr (go, m', off', out) \<Longrightarrow> gm_size m' = gm_size m"
  by (auto simp: init_file_def Let_def and_then_Inr or_fault_Inr bind_eq_Some_conv split: if_splits dest!: size_rules)

lemma init_loop_size: "init_loop L is (m, off) = Inr (m', out) \<Longrightarrow> gm_size m' = gm_size m"
proof (induction "is" arbitrary: m off out)
  case (Cons i "is")
  show ?case
  proof (cases "init_file L i (m, off)")
    case (Inr r)
    obtain go m1 off1 out1 where r: "r = (go, m1, off1, out1)" by (cases r)
    have "gm_size m' = gm_size m1"
    proof (cases go)
      case True
      then obtain out' where "init_loop L is (m1, off1) = Inr (m', out')"
        using Cons.prems Inr r by (auto simp: and_then_Inr)
      then show ?thesis by (rule Cons.IH)
    next
      case False
      then show ?thesis using Cons.prems Inr r by simp
    qed
    then show ?thesis using init_file_size[OF Inr[unfolded r]] by simp
  qed (use Cons.prems in simp)
qed simp

lemma fs_init_size: "fs_init L m = Inr (m', out) \<Longrightarrow> gm_size m' = gm_size m"
  unfolding fs_init_def by (rule init_loop_size)

text \<open>Addresses of pages.\<close>

lemma aligned_add: "a AND 0xFFF = 0 \<Longrightarrow> b AND 0xFFF = 0 \<Longrightarrow> (a + b) AND 0xFFF = 0" for a b :: u32
  unfolding aligned_dvd by (simp add: unat_word_ariths dvd_mod)

lemma aligned_pages: "(n * 4096) AND 0xFFF = 0" for n :: u32
  unfolding aligned_dvd by (simp add: unat_word_ariths dvd_mod)

lemma aligned_physical: "a AND 0xFFF = 0 \<Longrightarrow> (a - 0x80000000) AND 0xFFF = 0" for a :: u32
proof -
  have m: "a - 0x80000000 = a + 0x80000000" by simp
  show "a AND 0xFFF = 0 \<Longrightarrow> (a - 0x80000000) AND 0xFFF = 0" unfolding m by (rule aligned_add) simp_all
qed

lemma alloc_pages_wf:
  assumes "alloc_pages n km = Inr (p, km')" and "mem_wf sz km"
  shows "mem_wf sz km'" and "p AND 0xFFF = 0"
proof -
  obtain m where m: "memset (kram km) (kaddr (next_paddr km)) 0 (unat (n * 4096)) = Some m"
    "p = next_paddr km" "km' = \<lparr>kram = m, next_paddr = next_paddr km + n * 4096\<rparr>"
    using assms(1) by (auto simp: alloc_pages_def Let_def and_then_Inr or_fault_Inr split: if_splits)
  then show "p AND 0xFFF = 0" using assms(2) by (simp add: mem_wf_def)
  show "mem_wf sz km'"
    using assms(2) memset_size[OF m(1)] aligned_add[OF _ aligned_pages] m(3) by (simp add: mem_wf_def)
qed

lemma mem_wf_ram: "mem_wf sz km \<Longrightarrow> gm_size m = gm_size (kram km) \<Longrightarrow> mem_wf sz (km\<lparr>kram := m\<rparr>)"
  by (simp add: mem_wf_def)

lemma ensure_table_wf:
  assumes "ensure_table pt va km = Inr km'" and "mem_wf sz km"
  shows "mem_wf sz km'"
proof -
  consider "km' = km" | p k m where "alloc_pages 1 km = Inr (p, k)" "km' = k\<lparr>kram := m\<rparr>" "gm_size m = gm_size (kram k)"
    using assms(1) by (auto simp: ensure_table_def Let_def and_then_Inr or_fault_Inr split: if_splits dest: store32_size)
  then show ?thesis by cases (use assms(2) alloc_pages_wf(1) mem_wf_ram in \<open>auto\<close>)
qed

lemma map_page_wf:
  assumes "map_page pt va pa fl km = Inr km'" and "mem_wf sz km"
  shows "mem_wf sz km'"
proof -
  obtain k m where "ensure_table pt va km = Inr k" "km' = k\<lparr>kram := m\<rparr>" "gm_size m = gm_size (kram k)"
    using assms(1)
    by (auto simp: map_page_ensure Let_def and_then_Inr or_fault_Inr split: if_splits dest: store32_size)
  then show ?thesis using ensure_table_wf[OF _ assms(2)] mem_wf_ram by auto
qed

lemma map_kernel_wf: "map_kernel pt base km = Inr km' \<Longrightarrow> mem_wf sz km \<Longrightarrow> mem_wf sz km'"
  unfolding map_kernel_def by (erule kfor_inv) (auto intro: map_page_wf)

lemma map_image_page_wf: "map_image_page pt img n off km = Inr km' \<Longrightarrow> mem_wf sz km \<Longrightarrow> mem_wf sz km'"
  by (auto simp: map_image_page_def Let_def and_then_Inr or_fault_Inr split: if_splits
      dest!: alloc_pages_wf(1) memcpy_size intro: map_page_wf mem_wf_ram)

lemma map_stack_page_wf: "map_stack_page pt va km = Inr km' \<Longrightarrow> mem_wf sz km \<Longrightarrow> mem_wf sz km'"
  by (auto simp: map_stack_page_def and_then_Inr dest!: alloc_pages_wf(1) intro: map_page_wf)

lemma build_address_space_wf:
  assumes "build_address_space img n km = Inr (pt, km')" and "mem_wf sz km"
  shows "mem_wf sz km'" and "pt AND 0xFFF = 0"
proof -
  obtain k0 k1 k2 k3 xs ys where s: "alloc_pages 1 km = Inr (pt, k0)"
    "map_kernel pt 0x80000000 k0 = Inr k1" "map_kernel pt 0 k1 = Inr k2"
    "kfor xs (map_image_page pt img n) k2 = Inr k3" "kfor ys (map_stack_page pt) k3 = Inr km'"
    using assms(1) by (auto simp: build_address_space_def Let_def and_then_Inr)
  show "pt AND 0xFFF = 0" by (rule alloc_pages_wf(2)[OF s(1) assms(2)])
  have "mem_wf sz k2" using alloc_pages_wf(1)[OF s(1) assms(2)] s(2,3) map_kernel_wf by blast
  then have "mem_wf sz k3" by (rule kfor_inv[OF s(4)]) (rule map_image_page_wf)
  then show "mem_wf sz km'" by (rule kfor_inv[OF s(5)]) (rule map_stack_page_wf)
qed

lemma push_size: "push v (sp, m) = Inr (sp', m') \<Longrightarrow> gm_size m' = gm_size m"
  by (auto simp: push_def and_then_Inr or_fault_Inr dest: store32_size)

lemma pushes_size:
  assumes "kfor vs push (sp, m) = Inr (sp', m')"
  shows "gm_size m' = gm_size m"
proof -
  have "gm_size (snd (sp', m')) = gm_size m"
    by (rule kfor_inv[OF assms, of "\<lambda>s. gm_size (snd s) = gm_size m"]) (auto dest!: push_size)
  then show ?thesis by simp
qed

section \<open>Every operation keeps the typing\<close>

lemma create_process_wf:
  assumes "create_process pb ue img n k = Inr (i, k')" and "mem_wf sz (kmem k)" and "length (procs k) = PROCS_MAX"
  obtains p where "i < PROCS_MAX" "pstate (procs k ! i) = PROC_UNUSED" "mem_wf sz (kmem k')"
    "k' = k\<lparr>kmem := kmem k', procs := (procs k)[i := p]\<rparr>"
    "pstate p = PROC_RUNNABLE" "pid p = i + 1" "page_table p AND 0xFFF = 0"
proof -
  obtain sp m pt km where i: "find_slot (procs k) = Some i"
    and s: "kfor [0, 0, 0, 0, ue] push (stack_end pb i, kram (kmem k)) = Inr (sp, m)"
    "build_address_space img n ((kmem k)\<lparr>kram := m\<rparr>) = Inr (pt, km)"
    and k': "k' = k\<lparr>kmem := km, procs := (procs k)[i := \<lparr>pid = i + 1, pstate = PROC_RUNNABLE, psp = sp,
                                                      page_table = pt - 0x80000000\<rparr>]\<rparr>"
    using assms(1) by (auto simp: create_process_def and_then_Inr simp del: kfor.simps split: option.splits)
  have "mem_wf sz ((kmem k)\<lparr>kram := m\<rparr>)" by (rule mem_wf_ram[OF assms(2) pushes_size[OF s(1)]])
  note b = build_address_space_wf[OF s(2) this]
  have "i < PROCS_MAX" "pstate (procs k ! i) = PROC_UNUSED" using i by (simp_all add: find_slot_def find_upt_Some)
  then show ?thesis using that b k' aligned_physical by simp
qed

lemma list_all_upt: "list_all P [0..<n] \<longleftrightarrow> (\<forall>i<n. P i)"
  by (auto simp: list_all_iff)

lemma Create_wf:
  assumes "create_process pb ue img n k = Inr (i, k')" and W: "kernel_wf sz (c, k)"
  shows "kernel_wf sz (c, k')"
proof -
  have "mem_wf sz (kmem k)" "length (procs k) = PROCS_MAX" using W by (simp_all add: kernel_wf_def)
  then obtain p where p: "i < PROCS_MAX" "pstate (procs k ! i) = PROC_UNUSED" "mem_wf sz (kmem k')"
    "k' = k\<lparr>kmem := kmem k', procs := (procs k)[i := p]\<rparr>"
    "pstate p = PROC_RUNNABLE" "pid p = i + 1" "page_table p AND 0xFFF = 0"
    using create_process_wf[OF assms(1)] by metis
  have k': "procs k' = (procs k)[i := p]" "idle_proc k' = idle_proc k" "current_proc k' = current_proc k"
    by (subst p(4), simp)+
  have "i \<noteq> idle_proc k" "i \<noteq> current_proc k" using W p(2) by (auto simp: kernel_wf_def)
  then show ?thesis
    using W p(1,3,5-7) by (auto simp: kernel_wf_def k' proc_wf_def list_all_upt nth_list_update)
qed

lemma switch_context_wf:
  assumes "switch_context prev nxt (c, k) = Inr (c', k')"
  obtains m sp where "k' = k\<lparr>kmem := (kmem k)\<lparr>kram := m\<rparr>, procs := (procs k)[prev := (procs k ! prev)\<lparr>psp := sp\<rparr>]\<rparr>"
    and "gm_size m = gm_size (kram (kmem k))" and "cr3 c' = cr3 c"
proof -
  obtain sp m where "kfor [ebx c, esi c, edi c, ebp c] push (esp c, kram (kmem k)) = Inr (sp, m)"
    "k' = k\<lparr>kmem := (kmem k)\<lparr>kram := m\<rparr>, procs := (procs k)[prev := (procs k ! prev)\<lparr>psp := sp\<rparr>]\<rparr>" "cr3 c' = cr3 c"
    using assms by (auto simp: switch_context_def and_then_Inr Let_def simp del: kfor.simps)
  then show ?thesis using that pushes_size by blast
qed

text \<open>
  What \<^verbatim>\<open>yield\<close> needs: the typing but for the state of the current process, which SYS_EXIT has just changed.
\<close>

definition yield_wf :: "nat \<Rightarrow> cpu \<times> kernel \<Rightarrow> bool" where
  "yield_wf n = (\<lambda>(c, k).
     mem_wf n (kmem k) \<and> length (procs k) = PROCS_MAX \<and>
     idle_proc k < PROCS_MAX \<and> pstate (procs k ! idle_proc k) \<noteq> PROC_UNUSED \<and>
     current_proc k < PROCS_MAX \<and>
     list_all (proc_wf (idle_proc k) (procs k)) [0..<PROCS_MAX] \<and>
     cr3 c = page_table (procs k ! current_proc k))"

lemma next_process_ready:
  "idle < PROCS_MAX \<Longrightarrow> next_process ps idle cur < PROCS_MAX \<and>
     (pstate (ps ! next_process ps idle cur) = PROC_RUNNABLE \<or> next_process ps idle cur = idle)"
  by (cases rule: next_process_cases[of ps idle cur]) (auto simp: schedulable_def PROCS_MAX_def)

lemma yield_keeps:
  assumes y: "yield (c, k) = Inr (c', k')" and W: "yield_wf sz (c, k)"
  shows "yield_wf sz (c', k')" and "current_proc k' \<noteq> current_proc k \<Longrightarrow> kernel_wf sz (c', k')"
    and "current_proc k' = current_proc k \<Longrightarrow> c' = c \<and> k' = k"
proof -
  let ?cur = "current_proc k" and ?nxt = "next_process (procs k) (idle_proc k) (current_proc k)"
  have n: "?nxt < PROCS_MAX" "pstate (procs k ! ?nxt) = PROC_RUNNABLE \<or> ?nxt = idle_proc k"
    using next_process_ready[of "idle_proc k" "procs k" ?cur] W by (auto simp: yield_wf_def)
  have "yield_wf sz (c', k') \<and> (current_proc k' \<noteq> current_proc k \<longrightarrow> kernel_wf sz (c', k')) \<and>
      (current_proc k' = current_proc k \<longrightarrow> c' = c \<and> k' = k)"
  proof (cases "?nxt = ?cur")
    case True
    then have "c' = c" "k' = k" using y by (simp_all add: yield_def)
    then show ?thesis using W by simp
  next
    case False
    then have "switch_context ?cur ?nxt (c\<lparr>cr3 := page_table (procs k ! ?nxt)\<rparr>, k\<lparr>current_proc := ?nxt\<rparr>) = Inr (c', k')"
      using y by (simp add: yield_def Let_def)
    then obtain m sp where s:
      "k' = k\<lparr>current_proc := ?nxt, kmem := (kmem k)\<lparr>kram := m\<rparr>,
              procs := (procs k)[?cur := (procs k ! ?cur)\<lparr>psp := sp\<rparr>]\<rparr>"
      "gm_size m = gm_size (kram (kmem k))" "cr3 c' = page_table (procs k ! ?nxt)"
      by (rule switch_context_wf) simp
    have same: "pstate (procs k' ! i) = pstate (procs k ! i)" "pid (procs k' ! i) = pid (procs k ! i)"
      "page_table (procs k' ! i) = page_table (procs k ! i)" for i
      using W by (cases "i = ?cur"; simp add: s(1) yield_wf_def)+
    have k': "length (procs k') = length (procs k)" "idle_proc k' = idle_proc k" "current_proc k' = ?nxt"
      "kmem k' = (kmem k)\<lparr>kram := m\<rparr>"
      by (simp_all add: s(1))
    have "mem_wf sz (kmem k')" using W s(2) by (simp add: k'(4) yield_wf_def mem_wf_ram)
    then show ?thesis
      using W n s(3) False k'(1-3) by (auto simp: yield_wf_def kernel_wf_def proc_wf_def list_all_upt same)
  qed
  then show "yield_wf sz (c', k')" "current_proc k' \<noteq> current_proc k \<Longrightarrow> kernel_wf sz (c', k')"
    "current_proc k' = current_proc k \<Longrightarrow> c' = c \<and> k' = k" by auto
qed

lemma kernel_yield_wf: "kernel_wf sz s \<Longrightarrow> yield_wf sz s"
  by (auto simp: kernel_wf_def yield_wf_def)

lemma Yield_wf: "yield (c, k) = Inr (c', k') \<Longrightarrow> kernel_wf sz (c, k) \<Longrightarrow> kernel_wf sz (c', k')"
  using yield_keeps[OF _ kernel_yield_wf] by metis

lemma kernel_wf_ram:
  "kernel_wf sz (c, k) \<Longrightarrow> gm_size m = gm_size (kram (kmem k)) \<Longrightarrow> cr3 c' = cr3 c \<Longrightarrow>
     kernel_wf sz (c', k\<lparr>kmem := (kmem k)\<lparr>kram := m\<rparr>\<rparr>)"
  by (simp add: kernel_wf_def mem_wf_ram)

lemma syscall_file_size: "syscall_file L c f m = Some (f', m', out) \<Longrightarrow> gm_size m' = gm_size m"
  by (auto simp: syscall_file_def Let_def bind_eq_Some_conv split: option.splits if_splits
      dest!: size_rules fs_flush_size)

lemma exit_wf:
  assumes "kernel_wf sz (c, k)"
  shows "yield_wf sz (c, k\<lparr>procs := (procs k)[current_proc k := (procs k ! current_proc k)\<lparr>pstate := PROC_EXITED\<rparr>]\<rparr>)"
  using assms by (auto simp: kernel_wf_def yield_wf_def proc_wf_def list_all_upt nth_list_update)

lemma Trap_wf:
  assumes t: "handle_trap L eax0 f (c, k) = Inr (f', c', k', out)" and W: "kernel_wf sz (c, k)"
  shows "kernel_wf sz (c', k')"
proof -
  let ?k = "k\<lparr>procs := (procs k)[current_proc k := (procs k ! current_proc k)\<lparr>pstate := PROC_EXITED\<rparr>]\<rparr>"
  consider "tf_eax f = 1 \<or> tf_eax f = 2" | "tf_eax f = 0" | "tf_eax f = 3 \<or> tf_eax f = 4"
    | "tf_eax f \<noteq> 0" "tf_eax f \<noteq> 1" "tf_eax f \<noteq> 2" "tf_eax f \<noteq> 3" "tf_eax f \<noteq> 4" by blast
  then show ?thesis
  proof cases
    case 1
    then have "c' = c \<and> k' = k"
      using t by (auto simp: handle_trap_def handle_syscall_def split: option.splits)
    then show ?thesis using W by simp
  next
    case 2
    have "yield (c, ?k) = Inr (c', k') \<and> current_proc k' \<noteq> current_proc k"
      using t by (auto simp: handle_trap_def handle_syscall_def 2 and_then_Inr Let_def
          simp del: printf.simps split: if_splits)
    then show ?thesis using yield_keeps(2)[OF _ exit_wf[OF W]] by simp
  next
    case 3
    then obtain m where "syscall_file L (cr3 c) f (kram (kmem k)) = Some (f', m, out)" "c' = c"
      "k' = k\<lparr>kmem := (kmem k)\<lparr>kram := m\<rparr>\<rparr>"
      using t by (auto simp: handle_trap_def handle_syscall_def and_then_Inr or_fault_Inr)
    then show ?thesis using kernel_wf_ram[OF W] syscall_file_size by simp
  next
    case 4
    then show ?thesis using t by (simp add: handle_trap_def handle_syscall_def)
  qed
qed

lemma kernel_step_wf: "kernel_step s s' \<Longrightarrow> kernel_wf sz s \<Longrightarrow> kernel_wf sz s'"
proof (induction rule: kernel_step.induct)
  case (Create pb ue img n k i k' c)
  then show ?case using Create_wf by blast
next
  case (Yield s s')
  then show ?case by (cases s; cases s') (auto intro: Yield_wf)
next
  case (Trap L eax0 f s f' c' k' out)
  then show ?case by (cases s) (auto intro: Trap_wf)
next
  case (Timer ta r k r' m eoi c)
  have "gm_size m = gm_size (kram (kmem k))"
    using Timer(1) by (cases r) (auto simp: timer_interrupt_handler_def Let_def bind_eq_Some_conv dest: store32_size)
  then show ?case using kernel_wf_ram[OF Timer(2)] by simp
next
  case (Run c' c m k)
  then show ?case using kernel_wf_ram by blast
qed

interpretation typed: step_invariant kernel_step "kernel_wf sz" for sz
  by unfold_locales (rule kernel_step_wf)

section \<open>The start\<close>

lemma fresh_kernel_typing:
  "procs (fresh_kernel B m) = replicate PROCS_MAX unused_process" "kram (kmem (fresh_kernel B m)) = m"
  "next_paddr (kmem (fresh_kernel B m)) = free_ram B"
  by (simp_all add: fresh_kernel_def)

lemma setup_idt_entry_size: "setup_idt_entry v h d m = Inr m' \<Longrightarrow> gm_size m' = gm_size m"
  by (auto simp: setup_idt_entry_def Let_def and_then_Inr or_fault_Inr dest!: store32_size)

lemma kernel_main_wf:
  assumes "kernel_main B c eflags m = Inr (c', eflags', k', out)" and "free_ram B AND 0xFFF = 0"
  shows "kernel_wf (gm_size m) (c', k')"
proof -
  obtain m1 m2 m3 o3 i k1 j k2 where s: "memset m (bss_at B) 0 (bss_end B - bss_at B) = Some m1"
    "setup_idt_entry 0x20 (timer_handler B) 0 m1 = Inr m2" "fs_init (fs B) m2 = Inr (m3, o3)"
    "create_process (procs_at B) (user_entry_at B) 0 0 (fresh_kernel B m3) = Inr (i, k1)"
    "create_process (procs_at B) (user_entry_at B) (shell_start B) (shell_size B)
       (k1\<lparr>idle_proc := i, procs := (procs k1)[i := (procs k1 ! i)\<lparr>pid := 0\<rparr>]\<rparr>) = Inr (j, k2)"
    "c' = enter_user (procs k2 ! j) c" "k' = k2\<lparr>current_proc := j\<rparr>"
    using assms(1) unfolding kernel_main_def Let_def
    by (auto simp: and_then_Inr or_fault_Inr simp del: printf.simps prints.simps)
  have sz: "gm_size m3 = gm_size m"
    using memset_size[OF s(1)] setup_idt_entry_size[OF s(2)] fs_init_size[OF s(3)] by simp
  have "mem_wf (gm_size m) (kmem (fresh_kernel B m3))" "length (procs (fresh_kernel B m3)) = PROCS_MAX"
    using assms(2) sz by (simp_all add: mem_wf_def fresh_kernel_typing)
  then obtain p where p: "i < PROCS_MAX" "mem_wf (gm_size m) (kmem k1)"
    "k1 = (fresh_kernel B m3)\<lparr>kmem := kmem k1, procs := (replicate PROCS_MAX unused_process)[i := p]\<rparr>"
    "pstate p = PROC_RUNNABLE" "page_table p AND 0xFFF = 0"
    using create_process_wf[OF s(4)] unfolding fresh_kernel_typing by metis
  let ?k1 = "k1\<lparr>idle_proc := i, procs := (procs k1)[i := (procs k1 ! i)\<lparr>pid := 0\<rparr>]\<rparr>"
  have ps: "procs ?k1 = (replicate PROCS_MAX unused_process)[i := p\<lparr>pid := 0\<rparr>]"
    using p(1) by (subst (1 2) p(3)) simp
  have "mem_wf (gm_size m) (kmem ?k1)" "length (procs ?k1) = PROCS_MAX"
    using p(2) unfolding ps by simp_all
  then obtain q where q: "j < PROCS_MAX" "pstate (procs ?k1 ! j) = PROC_UNUSED" "mem_wf (gm_size m) (kmem k2)"
    "k2 = ?k1\<lparr>kmem := kmem k2, procs := (procs ?k1)[j := q]\<rparr>"
    "pstate q = PROC_RUNNABLE" "pid q = j + 1" "page_table q AND 0xFFF = 0"
    using create_process_wf[OF s(5)] by metis
  have ij: "i \<noteq> j" using q(2) p(1,4) unfolding ps by auto
  have k2: "procs k2 = (replicate PROCS_MAX unused_process)[i := p\<lparr>pid := 0\<rparr>, j := q]" "idle_proc k2 = i"
    by (subst q(4), simp add: ps)+
  show ?thesis
    using p(1,4,5) q(1,3,5-7) ij
    by (auto simp: kernel_wf_def s(6,7) k2 enter_user_def proc_wf_def list_all_upt nth_list_update unused_process_def)
qed

section \<open>Property\<close>

text \<open>
  C5: The kernel state stays well-typed. In every state that the system reaches after \<^verbatim>\<open>kernel_main\<close>, by creating
  processes, yielding, system calls (SYS_EXIT included), timer interrupts and running processes, the current
  process is runnable or the idle one, slots and pids agree, page directories lie at page boundaries, CR3 is the
  directory of the current process, and memory keeps its size.
\<close>

theorem kernel_stays_typed:
  assumes "kernel_main B c eflags m = Inr (c', eflags', k', out)" and "free_ram B AND 0xFFF = 0"
    and "kernel_step\<^sup>*\<^sup>* (c', k') s"
  shows "kernel_wf (gm_size m) s"
  by (rule typed.run_inv[OF assms(3) kernel_main_wf[OF assms(1,2)]])

text \<open>The sample system after the shell has changed a register.\<close>

theorem kernel_stays_typed_witness:
  "\<exists>c k e out. kernel_main sample_boot sample_cpu 2 sample_ram = Inr (c, e, k, out) \<and>
     kernel_wf 0x400000 (c\<lparr>ebx := 7\<rparr>, k)"
proof -
  have "\<exists>c k e out. kernel_main sample_boot sample_cpu 2 sample_ram = Inr (c, e, k, out)"
    using kernel_main_result[OF sample_boot_ok, of sample_cpu 2] by blast
  then obtain c k e out where k: "kernel_main sample_boot sample_cpu 2 sample_ram = Inr (c, e, k, out)" by blast
  have "kernel_step (c, k) (c\<lparr>ebx := 7\<rparr>, k)"
    using Run[of "c\<lparr>ebx := 7\<rparr>" c "kram (kmem k)" k] by simp
  then have "kernel_wf (gm_size sample_ram) (c\<lparr>ebx := 7\<rparr>, k)"
    by (intro kernel_stays_typed[OF k]) (simp_all add: sample_boot_def r_into_rtranclp)
  then show ?thesis using k by (auto simp: sample_ram_def)
qed

end
