(* ===== verification/Vmm_Debug.thy ===== *)
theory Vmm_Debug
  imports Vm_Exit Paging32 Cpuid_Msr
begin

text \<open>
  The debug output of the VMM (\<^verbatim>\<open>debug.c\<close>, \<^verbatim>\<open>dump_msrs\<close> of \<^verbatim>\<open>msr.c\<close>, \<^verbatim>\<open>print_cpuid_entry\<close> of
  \<^verbatim>\<open>cpuid.c\<close>): every routine as the text it writes to \<^verbatim>\<open>stderr\<close>. A routine that reads guest memory
  has no bounds check; a read outside the mapping is \<open>None\<close>.
\<close>

section \<open>Text\<close>

text \<open>
  The pieces of a call of \<^verbatim>\<open>fprintf\<close>: literal text, a conversion \<^verbatim>\<open>%0kx\<close> (of any integer type, read
  as 64 bits), \<^verbatim>\<open>%d\<close> or \<^verbatim>\<open>%u\<close>, \<^verbatim>\<open>%c\<close>, and a newline.
\<close>

datatype piece = S string | X nat u64 | D int | C u8 | NL

fun render :: "piece \<Rightarrow> u8 list" where
  "render (S s) = ascii s"
| "render (X k w) = hex_pad k (unat w)"
| "render (D i) = dec_int i"
| "render (C c) = [c]"
| "render NL = [10]"

definition show_text :: "piece list \<Rightarrow> u8 list" where
  "show_text ps = concat (map render ps)"

text \<open>\<^verbatim>\<open>perror\<close>; \<open>err\<close> is the message of the host for \<^verbatim>\<open>errno\<close>.\<close>

definition perror :: "string \<Rightarrow> string \<Rightarrow> u8 list" where
  "perror s err = show_text [S s, S '': '', S err, NL]"

section \<open>Exit reasons\<close>

definition exit_reason_names :: "string list" where
  "exit_reason_names =
     [''UNKNOWN'', ''EXCEPTION'', ''IO_INSTRUCTION'', ''HYPERCALL'', ''DEBUG'', ''HLT'', ''MMIO'',
      ''IRQ_WINDOW_OPEN'', ''SHUTDOWN'', ''FAIL_ENTRY'', ''INTR'', ''SET_TPR'', ''TPR_ACCESS'',
      ''S390_SIEIC'', ''S390_RESET'', ''DCR'', ''NMI'', ''INTERNAL_ERROR'', ''OSI'', ''PAPR_HCALL'']"

text \<open>The constants \<^verbatim>\<open>KVM_EXIT_UNKNOWN\<close> to \<^verbatim>\<open>KVM_EXIT_PAPR_HCALL\<close> are 0 to 19.\<close>

definition get_exit_reason_string :: "u32 \<Rightarrow> string" where
  "get_exit_reason_string r =
     (if unat r < length exit_reason_names then exit_reason_names ! unat r
      else ''UNKNOWN_EXIT_TYPE'')"

fun exit_number :: "kvm_exit \<Rightarrow> u32" where
  "exit_number (KVM_EXIT_IO io) = 2"
| "exit_number KVM_EXIT_DEBUG = 4"
| "exit_number KVM_EXIT_HLT = 5"
| "exit_number (KVM_EXIT_MMIO mmio) = 6"
| "exit_number KVM_EXIT_IRQ_WINDOW_OPEN = 7"
| "exit_number KVM_EXIT_SHUTDOWN = 8"
| "exit_number (KVM_EXIT_FAIL_ENTRY reason) = 9"
| "exit_number KVM_EXIT_INTR = 10"
| "exit_number (KVM_EXIT_INTERNAL_ERROR suberror data) = 17"
| "exit_number (KVM_EXIT_OTHER reason) = reason"

section \<open>Registers\<close>

text \<open>The fields of \<^verbatim>\<open>struct kvm_regs\<close> and \<^verbatim>\<open>struct kvm_sregs\<close> that only the dumps read.\<close>

record kvm_all_regs = kvm_regs +
  r8 :: u64
  r9 :: u64
  r10 :: u64
  r11 :: u64
  r12 :: u64
  r13 :: u64
  r14 :: u64
  r15 :: u64

record kvm_all_sregs = kvm_sregs +
  cr2 :: u64
  cr8 :: u64
  s_ldt :: kvm_segment
  s_tr :: kvm_segment

definition two_regs :: "string \<Rightarrow> u64 \<Rightarrow> string \<Rightarrow> u64 \<Rightarrow> piece list" where
  "two_regs a v b w = [S ''  '', S a, S ''0x'', X 16 v, S ''  '', S b, S ''0x'', X 16 w, NL]"

definition dump_general_registers :: "string \<Rightarrow> kvm_all_regs option \<Rightarrow> int \<Rightarrow> u8 list" where
  "dump_general_registers err answer vcpu =
     (case answer of
        None \<Rightarrow> perror ''KVM_GET_REGS failed'' err
      | Some regs \<Rightarrow>
          show_text ([NL, S ''[vCPU '', D vcpu, S ''] General Purpose Registers:'', NL] @
            two_regs ''RAX: '' (rax regs) ''RBX: '' (rbx regs) @
            two_regs ''RCX: '' (rcx regs) ''RDX: '' (rdx regs) @
            two_regs ''RSI: '' (rsi regs) ''RDI: '' (rdi regs) @
            two_regs ''RSP: '' (rsp regs) ''RBP: '' (rbp regs) @
            two_regs ''R8:  '' (r8 regs) ''R9:  '' (r9 regs) @
            two_regs ''R10: '' (r10 regs) ''R11: '' (r11 regs) @
            two_regs ''R12: '' (r12 regs) ''R13: '' (r13 regs) @
            two_regs ''R14: '' (r14 regs) ''R15: '' (r15 regs) @
            two_regs ''RIP: '' (rip regs) ''RFLAGS: '' (rflags regs)))"

definition segment_line :: "string \<Rightarrow> kvm_segment \<Rightarrow> piece list" where
  "segment_line name s =
     [S ''  '', S name, S '': base=0x'', X 16 (seg_base s), S '' limit=0x'', X 8 (ucast (seg_limit s)),
      S '' sel=0x'', X 4 (ucast (seg_selector s)), S '' type=0x'', X 2 (ucast (seg_type s)), NL]"

definition dump_segment_registers :: "kvm_all_sregs \<Rightarrow> int \<Rightarrow> u8 list" where
  "dump_segment_registers sregs vcpu =
     show_text ([NL, S ''[vCPU '', D vcpu, S ''] Segment Registers:'', NL] @
       segment_line ''CS'' (s_cs sregs) @ segment_line ''DS'' (s_ds sregs) @
       segment_line ''ES'' (s_es sregs) @ segment_line ''FS'' (s_fs sregs) @
       segment_line ''GS'' (s_gs sregs) @ segment_line ''SS'' (s_ss sregs))"

text \<open>The names of the bits that are set, in the order of the \<^verbatim>\<open>if\<close> statements.\<close>

definition cr0_bits :: "(nat \<times> string) list" where
  "cr0_bits = [(0, ''PE''), (1, ''MP''), (2, ''EM''), (3, ''TS''), (4, ''ET''), (5, ''NE''),
     (16, ''WP''), (18, ''AM''), (29, ''NW''), (30, ''CD''), (31, ''PG'')]"

definition cr4_bits :: "(nat \<times> string) list" where
  "cr4_bits = [(0, ''VME''), (1, ''PVI''), (2, ''TSD''), (3, ''DE''), (4, ''PSE''), (5, ''PAE''),
     (6, ''MCE''), (7, ''PGE''), (8, ''PCE''), (9, ''OSFXSR''), (10, ''OSXMMEXCPT'')]"

definition efer_bits :: "(nat \<times> string) list" where
  "efer_bits = [(0, ''SCE''), (8, ''LME''), (10, ''LMA''), (11, ''NXE'')]"

definition flag_names :: "(nat \<times> string) list \<Rightarrow> u64 \<Rightarrow> piece list" where
  "flag_names table w =
     S ''['' # concat (map (\<lambda>(b, name). if w AND push_bit b 1 \<noteq> 0 then [S name, S '' ''] else []) table)
       @ [S '']'', NL]"

definition dump_control_registers :: "kvm_all_sregs \<Rightarrow> int \<Rightarrow> u8 list" where
  "dump_control_registers sregs vcpu =
     show_text ([NL, S ''[vCPU '', D vcpu, S ''] Control Registers:'', NL,
       S ''  CR0: 0x'', X 16 (cr0 sregs), S '' ''] @ flag_names cr0_bits (cr0 sregs) @
       [S ''  CR2: 0x'', X 16 (cr2 sregs), S '' (Page Fault Linear Address)'', NL,
        S ''  CR3: 0x'', X 16 (cr3 sregs), S '' (Page Directory Base)'', NL,
        S ''  CR4: 0x'', X 16 (cr4 sregs), S '' ''] @ flag_names cr4_bits (cr4 sregs) @
       [S ''  CR8: 0x'', X 16 (cr8 sregs), S '' (Task Priority)'', NL,
        S ''  EFER: 0x'', X 16 (efer sregs), S '' ''] @ flag_names efer_bits (efer sregs))"

definition table_line :: "string \<Rightarrow> kvm_dtable \<Rightarrow> piece list" where
  "table_line name t =
     [S ''  '', S name, S '': base=0x'', X 16 (dt_base t), S '' limit=0x'', X 4 (ucast (dt_limit t)), NL]"

definition system_segment_line :: "string \<Rightarrow> kvm_segment \<Rightarrow> piece list" where
  "system_segment_line name s =
     [S ''  '', S name, S ''base=0x'', X 16 (seg_base s), S '' limit=0x'', X 8 (ucast (seg_limit s)),
      S '' sel=0x'', X 4 (ucast (seg_selector s)), NL]"

definition dump_special_registers :: "string \<Rightarrow> kvm_all_sregs option \<Rightarrow> int \<Rightarrow> u8 list" where
  "dump_special_registers err answer vcpu =
     (case answer of
        None \<Rightarrow> perror ''KVM_GET_SREGS failed'' err
      | Some sregs \<Rightarrow>
          dump_segment_registers sregs vcpu @ dump_control_registers sregs vcpu @
          show_text ([NL, S ''[vCPU '', D vcpu, S ''] Descriptor Tables:'', NL] @
            table_line ''GDT'' (s_gdt sregs) @ table_line ''IDT'' (s_idt sregs) @
            system_segment_line ''LDT: '' (s_ldt sregs) @ system_segment_line ''TR:  '' (s_tr sregs)))"

definition dump_all_registers ::
  "string \<Rightarrow> kvm_all_regs option \<Rightarrow> kvm_all_sregs option \<Rightarrow> int \<Rightarrow> u8 list" where
  "dump_all_registers err regs sregs vcpu =
     show_text [NL, S ''========== vCPU '', D vcpu, S '' Register Dump =========='', NL] @
     dump_general_registers err regs vcpu @ dump_special_registers err sregs vcpu @
     show_text [S ''=========================================='', NL, NL]"

section \<open>MSRs and CPUID entries\<close>

text \<open>
  One \<^verbatim>\<open>if (read_msr(...) == 0)\<close> of \<^verbatim>\<open>dump_msrs\<close>; \<^verbatim>\<open>value\<close> is not initialised before the first call,
  so a failed call leaves it alone.
\<close>

definition dump_msr ::
  "(kvm_msr_entry list \<Rightarrow> int \<times> kvm_msr_entry list) \<Rightarrow> string \<Rightarrow> u32 \<Rightarrow> (u64 \<Rightarrow> piece list) \<Rightarrow>
     u64 \<times> u8 list \<Rightarrow> u64 \<times> u8 list" where
  "dump_msr get_msrs name index suffix = (\<lambda>(v, out).
     let (r, v) = read_msr get_msrs index v in
     if r = 0
     then (v, out @ show_text ([S name, S '' (0x'', X 0 (ucast index), S ''): 0x'', X 16 v] @ suffix v))
     else (v, out))"

definition dump_msrs ::
  "(kvm_msr_entry list \<Rightarrow> int \<times> kvm_msr_entry list) \<Rightarrow> u64 \<Rightarrow> u8 list" where
  "dump_msrs get_msrs v0 =
     (let s = (v0, show_text [NL, S ''========== MSR Dump =========='', NL]);
          s = dump_msr get_msrs ''EFER'' MSR_EFER (\<lambda>v. S '' '' # flag_names efer_bits v) s;
          s = dump_msr get_msrs ''STAR'' MSR_STAR (\<lambda>v. [NL]) s;
          s = dump_msr get_msrs ''LSTAR'' MSR_LSTAR (\<lambda>v. [NL]) s;
          s = dump_msr get_msrs ''FS_BASE'' MSR_FS_BASE (\<lambda>v. [NL]) s;
          s = dump_msr get_msrs ''GS_BASE'' MSR_GS_BASE (\<lambda>v. [NL]) s
      in snd s @ show_text [S ''=============================='', NL, NL])"

definition print_cpuid_entry :: "cpuid_entry \<Rightarrow> u8 list" where
  "print_cpuid_entry e =
     show_text ([S ''CPUID[0x'', X 8 (ucast (cpuid_function e))] @
       (if cpuid_index e \<noteq> 0 then [S ''.'', D (sint (cpuid_index e))] else []) @
       [S '']: EAX=0x'', X 8 (ucast (cpuid_eax e)), S '' EBX=0x'', X 8 (ucast (cpuid_ebx e)),
        S '' ECX=0x'', X 8 (ucast (cpuid_ecx e)), S '' EDX=0x'', X 8 (ucast (cpuid_edx e)), NL])"

section \<open>Guest memory\<close>

text \<open>The two loops over the bytes of a row, and the padding loop between them.\<close>

definition hex_column :: "u8 list \<Rightarrow> u8 list" where
  "hex_column bs =
     concat (map (\<lambda>j. hex_pad 2 (unat (bs ! j)) @ [32] @ (if j = 7 then [32] else [])) [0..<length bs])"

fun padding_from :: "nat \<Rightarrow> u8 list" where
  "padding_from j = (if j < 16 \<and> j > 0 then [32, 32, 32] @ padding_from (j - 1) else [])"

declare padding_from.simps [simp del]

definition ascii_column :: "u8 list \<Rightarrow> u8 list" where
  "ascii_column bs = map (\<lambda>c. if 32 \<le> c \<and> c \<le> 126 then c else 46) bs"

definition dump_row :: "u64 \<Rightarrow> nat \<Rightarrow> u8 list \<Rightarrow> u8 list" where
  "dump_row addr left bs =
     hex_pad 8 (unat addr) @ ascii '': '' @ hex_column bs @ padding_from left @ ascii '' |'' @
     ascii_column bs @ ascii ''|'' @ [10]"

function dump_rows :: "gmem \<Rightarrow> u64 \<Rightarrow> nat \<Rightarrow> nat \<Rightarrow> u8 list option" where
  "dump_rows m guest_addr sz i =
     (if i < sz then
        do {
          bs \<leftarrow> gm_read m (unat guest_addr + i) (min 16 (sz - i));
          rest \<leftarrow> dump_rows m guest_addr sz (i + 16);
          Some (dump_row (guest_addr + word_of_nat i) (sz - i) bs @ rest)
        }
      else Some [])"
  by pat_completeness auto
termination
  by (relation "measure (\<lambda>(m, a, sz, i). sz - i)") auto

declare dump_rows.simps [simp del]

definition dump_header :: "u64 \<Rightarrow> nat \<Rightarrow> string \<Rightarrow> u8 list" where
  "dump_header guest_addr sz label =
     show_text [NL, S ''[Memory Dump: '', S label, S ''] GPA 0x'', X 0 guest_addr, S '', size '',
       D (int sz), S '' bytes:'', NL]"

definition dump_memory_region :: "gmem \<Rightarrow> u64 \<Rightarrow> nat \<Rightarrow> string \<Rightarrow> u8 list option" where
  "dump_memory_region m guest_addr sz label =
     map_option (append (dump_header guest_addr sz label)) (dump_rows m guest_addr sz 0)"

text \<open>
  The dump to a file: \<open>opened\<close> says whether \<^verbatim>\<open>fopen\<close> succeeds, \<open>accepted\<close> how many bytes \<^verbatim>\<open>fwrite\<close>
  takes. The result is the content of the file, if there is one, and the message.
\<close>

definition dump_memory_to_file ::
  "string \<Rightarrow> bool \<Rightarrow> nat \<Rightarrow> gmem \<Rightarrow> nat \<Rightarrow> string \<Rightarrow> (u8 list option \<times> u8 list) option" where
  "dump_memory_to_file err opened accepted m sz filename =
     (if \<not> opened then Some (None, perror ''Failed to open memory dump file'' err)
      else do {
        bs \<leftarrow> gm_read m 0 sz;
        let written = take accepted bs;
        Some (Some written, show_text [S ''[Memory Dump] Wrote '', D (int (length written)),
                              S '' bytes to '', S filename, NL])
      })"

definition dump_guest_memory_map :: "u64 \<Rightarrow> u8 list" where
  "dump_guest_memory_map sz =
     show_text [NL, S ''[Guest Memory Map] Total size: '', D (uint sz div (1024 * 1024)), S '' MB'', NL,
       S ''  0x'', X 8 0, S '' - 0x'', X 8 (sz - 1), S '': Guest physical memory'', NL]"

text \<open>The 32-bit stack address wraps where it is printed; the pointer to the stack does not.\<close>

definition dump_guest_stack :: "gmem \<Rightarrow> u32 \<Rightarrow> u32 \<Rightarrow> int \<Rightarrow> u8 list option" where
  "dump_guest_stack m esp ss_base count =
     (let stack_addr = ss_base + esp in
      for_each [0..<nat count] (\<lambda>i out. do {
          w \<leftarrow> load32 m (unat stack_addr + 4 * i);
          Some (out @ show_text [S ''  [ESP+0x'', X 2 (word_of_nat (4 * i)), S ''] 0x'',
                  X 8 (ucast (stack_addr + 4 * word_of_nat i)), S '': 0x'', X 8 (ucast w), NL])
        })
        (show_text [NL, S ''[Stack Dump] ESP=0x'', X 8 (ucast esp), S '', SS.base=0x'', X 8 (ucast ss_base),
           S '', showing '', D count, S '' entries:'', NL]))"

definition dump_instruction_context :: "gmem \<Rightarrow> u64 \<Rightarrow> int \<Rightarrow> int \<Rightarrow> u8 list option" where
  "dump_instruction_context m rip_v before after =
     (let start = rip_v - word_of_int before; total = word_of_int (before + after) :: u64 in
      map_option (\<lambda>out. out @ [10])
        (for_each [0..<unat total] (\<lambda>i out. do {
            b \<leftarrow> load8 m (unat start + i);
            Some (out @ show_text ((if word_of_nat i = (word_of_int before :: u64) then [S '' -> ''] else [S ''    ''])
                    @ [X 2 (ucast b), S '' ''] @ (if (i + 1) mod 16 = 0 then [NL] else [])))
          })
          (show_text [NL, S ''[Instruction Context] RIP=0x'', X 0 rip_v, S '':'', NL])))"

section \<open>The page walk\<close>

text \<open>The arrow of the report is the UTF-8 sequence E2 86 92.\<close>

definition flag_digit :: "u32 \<Rightarrow> u32 \<Rightarrow> piece" where
  "flag_digit e b = D (if e AND b \<noteq> 0 then 1 else 0)"

definition report_walk_32bit :: "gmem \<Rightarrow> u32 \<Rightarrow> u32 \<Rightarrow> u8 list option" where
  "report_walk_32bit m cr3_v virt_addr =
     (let pd_base = cr3_v AND NOT 0xFFF; offset = virt_addr AND 0xFFF;
          out = show_text [NL, S ''[Page Table Walk] 32-bit paging, CR3=0x'', X 8 (ucast cr3_v), S '', VA=0x'',
                  X 8 (ucast virt_addr), NL, S ''  PD index: 0x'', X 3 (word_of_nat (pd_index virt_addr)),
                  S '', PT index: 0x'', X 3 (word_of_nat (pt_index virt_addr)), S '', Offset: 0x'',
                  X 3 (ucast offset), NL]
      in do {
       pde \<leftarrow> load32 m (unat pd_base + 4 * pd_index virt_addr);
       let out = out @ show_text [S ''  PDE[0x'', X 3 (word_of_nat (pd_index virt_addr)), S ''] = 0x'',
                  X 8 (ucast pde), S '' ''];
       if pde AND 1 = 0 then Some (out @ show_text [S ''[NOT PRESENT]'', NL])
       else do {
         let out = out @ show_text [S ''[P='', flag_digit pde 1, S '' W='', flag_digit pde 2, S '' U='',
                    flag_digit pde 4, S '' PS='', flag_digit pde 0x80, S '']'', NL];
         if pde AND 0x80 \<noteq> 0
         then Some (out @ show_text [S ''  '', C 0xE2, C 0x86, C 0x92, S '' 4MB page, Physical Address: 0x'',
                X 8 (ucast ((pde AND 0xFFC00000) OR (virt_addr AND 0x3FFFFF))), NL])
         else do {
           let pt_base = pde AND NOT 0xFFF;
           pte \<leftarrow> load32 m (unat pt_base + 4 * pt_index virt_addr);
           let out = out @ show_text [S ''  PTE[0x'', X 3 (word_of_nat (pt_index virt_addr)), S ''] = 0x'',
                      X 8 (ucast pte), S '' ''];
           if pte AND 1 = 0 then Some (out @ show_text [S ''[NOT PRESENT]'', NL])
           else Some (out @ show_text [S ''[P='', flag_digit pte 1, S '' W='', flag_digit pte 2, S '' U='',
                  flag_digit pte 4, S '']'', NL, S ''  '', C 0xE2, C 0x86, C 0x92, S '' Physical Address: 0x'',
                  X 8 (ucast ((pte AND NOT 0xFFF) OR offset)), NL])
         }
       }
     })"

definition walk_page_tables_pae :: "u8 list" where
  "walk_page_tables_pae = show_text [S ''[Page Table Walk] PAE paging not yet implemented'', NL]"

definition walk_page_tables_64bit :: "u8 list" where
  "walk_page_tables_64bit = show_text [S ''[Page Table Walk] 64-bit paging not yet implemented'', NL]"

section \<open>VM exits\<close>

text \<open>\<open>count\<close> is the field \<^verbatim>\<open>io.count\<close>, which \<^verbatim>\<open>handle_io\<close> never reads.\<close>

definition print_vm_exit_details :: "u32 \<Rightarrow> kvm_exit \<Rightarrow> int \<Rightarrow> u8 list" where
  "print_vm_exit_details count ex vcpu =
     show_text ([NL, S ''[vCPU '', D vcpu, S ''] ===== VM EXIT DETAILS ====='', NL,
       S ''  Exit Reason: '', S (get_exit_reason_string (exit_number ex)), S '' ('',
       D (uint (exit_number ex)), S '')'', NL] @
     (case ex of
        KVM_EXIT_IO io \<Rightarrow>
          [S ''  I/O Details:'', NL,
           S ''    Direction: '', S (if io_direction io = KVM_EXIT_IO_IN then ''IN'' else ''OUT''), NL,
           S ''    Size: '', D (int (io_size io)), S '' bytes'', NL,
           S ''    Port: 0x'', X 0 (ucast (io_port io)), NL, S ''    Count: '', D (uint count), NL]
      | KVM_EXIT_MMIO mmio \<Rightarrow>
          [S ''  MMIO Details:'', NL,
           S ''    Physical Address: 0x'', X 0 (mmio_phys_addr mmio), NL,
           S ''    Is Write: '', S (if mmio_is_write mmio then ''yes'' else ''no''), NL,
           S ''    Length: '', D (int (mmio_len mmio)), S '' bytes'', NL]
      | KVM_EXIT_FAIL_ENTRY reason \<Rightarrow>
          [S ''  Fail Entry Details:'', NL, S ''    Hardware Entry Failure Reason: 0x'', X 0 reason, NL]
      | KVM_EXIT_INTERNAL_ERROR suberror data \<Rightarrow>
          [S ''  Internal Error Details:'', NL, S ''    Suberror: 0x'', X 0 (ucast suberror), NL,
           S ''    Ndata: '', D (int (length data)), NL] @
          concat (map (\<lambda>i. [S ''    Data['', D (int i), S '']: 0x'', X 0 (data ! i), NL])
                    [0..<min 16 (length data)])
      | KVM_EXIT_SHUTDOWN \<Rightarrow> [S ''  Guest requested shutdown (triple fault or similar)'', NL]
      | _ \<Rightarrow> []) @
     [S ''============================='', NL, NL])"

section \<open>Reading a dump back\<close>

text \<open>
  A reader of the dump: in every line it skips the address, takes the digits before the bar and drops
  the blanks; two digits are a byte.
\<close>

fun hex_pairs :: "u8 list \<Rightarrow> u8 list" where
  "hex_pairs (a # b # cs) = word_of_nat (hex_value a * 16 + hex_value b) # hex_pairs cs"
| "hex_pairs _ = []"

definition line_bytes :: "u8 list \<Rightarrow> u8 list" where
  "line_bytes l =
     hex_pairs (filter (\<lambda>c. c \<noteq> 32) (takeWhile (\<lambda>c. c \<noteq> 124) (tl (dropWhile (\<lambda>c. c \<noteq> 58) l))))"

function undump :: "u8 list \<Rightarrow> u8 list" where
  "undump cs =
     (if cs = [] then []
      else line_bytes (takeWhile (\<lambda>c. c \<noteq> 10) cs) @ undump (tl (dropWhile (\<lambda>c. c \<noteq> 10) cs)))"
  by pat_completeness auto
termination
proof (relation "measure length")
  fix cs :: "u8 list" assume "cs \<noteq> []"
  moreover have "length (dropWhile (\<lambda>c. c \<noteq> 10) cs) \<le> length cs" by (rule length_dropWhile_le)
  ultimately show "(tl (dropWhile (\<lambda>c. c \<noteq> 10) cs), cs) \<in> measure length" by (cases cs) auto
qed simp

declare undump.simps [simp del]

lemma undump_line:
  assumes "10 \<notin> set l"
  shows "undump (l @ [10] @ cs) = line_bytes l @ undump cs"
proof -
  have "takeWhile (\<lambda>c. c \<noteq> 10) (l @ [10] @ cs) = l" "dropWhile (\<lambda>c. c \<noteq> 10) (l @ [10] @ cs) = 10 # cs"
    using assms by (auto simp: takeWhile_append dropWhile_append)
  then show ?thesis by (subst undump.simps) simp
qed

text \<open>What a row is made of.\<close>

definition row_body :: "nat \<Rightarrow> u8 list \<Rightarrow> u8 list" where
  "row_body left bs = 32 # hex_column bs @ padding_from left @ [32]"

lemma dump_row_parts:
  "dump_row a left bs = (hex_pad 8 (unat a) @ [58] @ row_body left bs @ [124] @ ascii_column bs @ [124]) @ [10]"
  by (simp add: dump_row_def row_body_def ascii_def)

lemma padding_blank: "set (padding_from j) \<subseteq> {32}"
  by (induction j rule: padding_from.induct) (subst padding_from.simps, auto)

lemma hex_column_digits: "set (hex_column bs) \<subseteq> insert 32 (hex_digit ` {..<16})"
  using set_hex_pad by (fastforce simp: hex_column_def split: if_splits)

lemma row_body_digits: "set (row_body left bs) \<subseteq> insert 32 (hex_digit ` {..<16})"
  using hex_column_digits[of bs] padding_blank[of left] by (auto simp: row_body_def)

lemma separators:
  assumes "c \<in> insert 32 (hex_digit ` {..<16})"
  shows "c \<noteq> 10" "c \<noteq> 58" "c \<noteq> 124"
  using assms hex_digit_not[of c 10] hex_digit_not[of c 58] hex_digit_not[of c 124] by auto

lemma filter_hex_column:
  "filter (\<lambda>c. c \<noteq> 32) (hex_column bs) = concat (map (\<lambda>b. hex_pad 2 (unat b)) bs)"
proof -
  have keep: "filter (\<lambda>c. c \<noteq> 32) (hex_pad 2 n) = hex_pad 2 n" for n
    using set_hex_pad[of 2 n] hex_digit_not[of _ 32] by (intro filter_True) auto
  have "filter (\<lambda>c. c \<noteq> 32) (hex_column bs) = concat (map (\<lambda>j. hex_pad 2 (unat (bs ! j))) [0..<length bs])"
    unfolding hex_column_def filter_concat map_map by (intro arg_cong[where f = concat] map_cong) (auto simp: keep)
  also have "map (\<lambda>j. hex_pad 2 (unat (bs ! j))) [0..<length bs] = map (\<lambda>b. hex_pad 2 (unat b)) bs"
    by (intro nth_equalityI) simp_all
  finally show ?thesis .
qed

lemma hex_pairs_bytes: "hex_pairs (concat (map (\<lambda>b. hex_pad 2 (unat b)) bs)) = bs"
proof (induction bs)
  case (Cons b bs)
  have b: "unat b < 256" using unsigned_less[of b] by simp
  then have "unat b div 16 < 16" by simp
  then show ?case using Cons b by (simp add: hex_pad_2 mult.commute[of _ 16])
qed simp

lemma line_bytes_row:
  "line_bytes (hex_pad 8 a @ [58] @ row_body left bs @ [124] @ rest) = bs"
proof -
  have "\<forall>c \<in> set (hex_pad 8 a). c \<noteq> 58" using set_hex_pad[of 8 a] separators(2) by blast
  then have "tl (dropWhile (\<lambda>c. c \<noteq> 58) (hex_pad 8 a @ [58] @ row_body left bs @ [124] @ rest)) =
      row_body left bs @ [124] @ rest"
    by (simp add: dropWhile_append)
  moreover have "takeWhile (\<lambda>c. c \<noteq> 124) (row_body left bs @ [124] @ rest) = row_body left bs"
    using row_body_digits[of left bs] separators(3) by (subst takeWhile_append2) auto
  moreover have "filter (\<lambda>c. c \<noteq> 32) (row_body left bs) = concat (map (\<lambda>b. hex_pad 2 (unat b)) bs)"
    using padding_blank[of left] by (auto simp: row_body_def filter_hex_column filter_empty_conv)
  ultimately show ?thesis by (simp add: line_bytes_def hex_pairs_bytes)
qed

lemma undump_row: "undump (dump_row a left bs @ cs) = bs @ undump cs"
proof -
  let ?l = "hex_pad 8 (unat a) @ [58] @ row_body left bs @ [124] @ ascii_column bs @ [124]"
  have "10 \<notin> set (hex_pad 8 (unat a))" using set_hex_pad[of 8 "unat a"] separators(1)[of 10] by blast
  moreover have "10 \<notin> set (row_body left bs)" using row_body_digits[of left bs] separators(1)[of 10] by blast
  moreover have "10 \<notin> set (ascii_column bs)" by (auto simp: ascii_column_def split: if_splits)
  ultimately have "10 \<notin> set ?l" by simp
  from undump_line[OF this, of cs] line_bytes_row show ?thesis
    unfolding dump_row_parts by (simp only: append_assoc)
qed

lemma dump_rows_undump:
  assumes "gm_read m (unat a + i) (sz - i) = Some bs"
  shows "\<exists>rows. dump_rows m a sz i = Some rows \<and> undump rows = bs"
  using assms
proof (induction m a sz i arbitrary: bs rule: dump_rows.induct)
  case (1 m a sz i)
  show ?case
  proof (cases "i < sz")
    case False
    then show ?thesis
      using "1.prems" by (simp add: dump_rows.simps[of m a sz i] undump.simps[of "[]"] gm_read_def split: if_splits)
  next
    case True
    let ?k = "min 16 (sz - i)"
    have len: "length bs = sz - i" using "1.prems" by (auto simp: gm_read_def split: if_splits)
    have row: "gm_read m (unat a + i) ?k = Some (take ?k bs)"
      using gm_read_slice[OF "1.prems", of 0 ?k] by simp
    have "\<exists>rest. dump_rows m a sz (i + 16) = Some rest \<and> undump rest = drop ?k bs"
    proof (cases "i + 16 < sz")
      case True
      then have "gm_read m (unat a + (i + 16)) (sz - (i + 16)) = Some (drop ?k bs)"
        using gm_read_slice[OF "1.prems", of 16 "sz - i - 16"] len
        by (simp add: min_absorb1 add.assoc diff_diff_eq)
      then show ?thesis using "1.IH"[OF \<open>i < sz\<close> row] by blast
    next
      case False
      then show ?thesis
        using len by (simp add: dump_rows.simps[of m a sz "i + 16"] undump.simps[of "[]"])
    qed
    then obtain rest where "dump_rows m a sz (i + 16) = Some rest" "undump rest = drop ?k bs" by blast
    then show ?thesis
      using True row by (simp add: dump_rows.simps[of m a sz i] undump_row)
  qed
qed

section \<open>Bounds of the dumps\<close>

lemma dump_rows_None: "dump_rows m a sz i = None \<longleftrightarrow> i < sz \<and> gm_size m < unat a + sz"
proof (induction m a sz i rule: dump_rows.induct)
  case (1 m a sz i)
  show ?case
  proof (cases "i < sz")
    case False
    then show ?thesis by (simp add: dump_rows.simps[of m a sz i])
  next
    case True
    show ?thesis
    proof (cases "gm_read m (unat a + i) (min 16 (sz - i))")
      case None
      then have "gm_size m < unat a + i + min 16 (sz - i)" by (simp add: gm_read_def split: if_splits)
      moreover have "min 16 (sz - i) \<le> sz - i" by simp
      ultimately have "gm_size m < unat a + sz" using True by linarith
      then show ?thesis using None True by (simp add: dump_rows.simps[of m a sz i])
    next
      case (Some bs)
      have "unat a + i + min 16 (sz - i) \<le> gm_size m" using Some by (simp add: gm_read_def split: if_splits)
      moreover have "dump_rows m a sz i = None \<longleftrightarrow> dump_rows m a sz (i + 16) = None"
        using Some True by (cases "dump_rows m a sz (i + 16)") (simp_all add: dump_rows.simps[of m a sz i])
      moreover have "i + 16 < sz \<or> unat a + sz \<le> unat a + i + min 16 (sz - i)" by auto
      ultimately show ?thesis using "1.IH"[OF True Some] True by linarith
    qed
  qed
qed

lemma for_each_defined:
  "(\<And>i s. i \<in> set is \<Longrightarrow> (\<exists>t. body i s = Some t) \<longleftrightarrow> P i) \<Longrightarrow>
     (\<exists>t. for_each is body s = Some t) \<longleftrightarrow> (\<forall>i \<in> set is. P i)"
proof (induction "is" arbitrary: s)
  case (Cons i "is")
  have head: "(\<exists>t. body i s = Some t) \<longleftrightarrow> P i" by (rule Cons.prems) simp
  have tail: "(\<exists>t. for_each is body u = Some t) \<longleftrightarrow> (\<forall>i \<in> set is. P i)" for u
    by (rule Cons.IH) (simp add: Cons.prems)
  show ?case using head tail by (cases "body i s") auto
qed simp

text \<open>
  The stack dump stays in memory exactly when all its entries do. The instruction dump does so exactly
  when the range it shows lies in memory and starts at or above address 0.
\<close>

lemma dump_guest_stack_defined:
  "(\<exists>out. dump_guest_stack m esp ss_base count = Some out) \<longleftrightarrow>
     count \<le> 0 \<or> unat (ss_base + esp) + 4 * nat count \<le> gm_size m"
proof -
  let ?a = "unat (ss_base + esp)"
  have "(\<exists>out. dump_guest_stack m esp ss_base count = Some out) \<longleftrightarrow>
      (\<forall>i \<in> set [0..<nat count]. ?a + 4 * i + 4 \<le> gm_size m)"
    unfolding dump_guest_stack_def Let_def
    by (rule for_each_defined) (auto simp: load32_def gm_read_def bind_eq_Some_conv)
  also have "\<dots> \<longleftrightarrow> count \<le> 0 \<or> ?a + 4 * nat count \<le> gm_size m"
  proof (cases "nat count")
    case (Suc n)
    have "(\<forall>i \<in> set [0..<nat count]. ?a + 4 * i + 4 \<le> gm_size m) \<longleftrightarrow> ?a + 4 * n + 4 \<le> gm_size m"
    proof
      assume "?a + 4 * n + 4 \<le> gm_size m"
      then show "\<forall>i \<in> set [0..<nat count]. ?a + 4 * i + 4 \<le> gm_size m" using Suc by auto
    qed (use Suc in auto)
    then show ?thesis using Suc by auto
  qed auto
  finally show ?thesis .
qed

lemma map_option_defined: "(\<exists>y. map_option f x = Some y) \<longleftrightarrow> (\<exists>z. x = Some z)"
  by auto

lemma mod_plus_one: "x < 0 \<Longrightarrow> - m \<le> x \<Longrightarrow> x mod m = x + m" for x m :: int
  using mod_add_self2[of x m] mod_pos_pos_trivial[of "x + m" m] by simp

lemma unat_nat_word_of_int: "0 \<le> k \<Longrightarrow> k < 2 ^ 64 \<Longrightarrow> unat (word_of_int k :: u64) = nat k"
  by (simp add: unat_eq_nat_uint uint_word_of_int_eq take_bit_int_eq_self)

lemma dump_instruction_context_defined:
  assumes "0 \<le> before" "before < 2 ^ 31" "0 \<le> after" "after < 2 ^ 31" and "0 < before + after"
    and "gm_size m \<le> 2 ^ 62"
  shows "(\<exists>out. dump_instruction_context m rip_v before after = Some out) \<longleftrightarrow>
    before \<le> uint rip_v \<and> unat rip_v + nat after \<le> gm_size m"
proof -
  let ?start = "rip_v - word_of_int before" and ?n = "unat (word_of_int (before + after) :: u64)"
  have n: "?n = nat (before + after)" using assms by (intro unat_nat_word_of_int) simp_all
  have "(\<exists>out. dump_instruction_context m rip_v before after = Some out) \<longleftrightarrow>
      (\<forall>i \<in> set [0..<?n]. unat ?start + i < gm_size m)"
    unfolding dump_instruction_context_def Let_def
    by (simp only: map_option_defined, rule for_each_defined)
      (auto simp: load8_def gm_read_def bind_eq_Some_conv)
  also have "\<dots> \<longleftrightarrow> unat ?start + nat (before + after) \<le> gm_size m"
  proof -
    obtain k where k: "nat (before + after) = Suc k" using assms(5) by (cases "nat (before + after)") auto
    have "(\<forall>i \<in> set [0..<Suc k]. unat ?start + i < gm_size m) \<longleftrightarrow> unat ?start + k < gm_size m"
      by (auto simp: less_Suc_eq intro: le_less_trans)
    then show ?thesis unfolding n k by auto
  qed
  also have "\<dots> \<longleftrightarrow> before \<le> uint rip_v \<and> unat rip_v + nat after \<le> gm_size m"
  proof -
    have u: "uint ?start = (uint rip_v - before) mod 2 ^ 64"
      using assms(1,2) by (simp add: uint_word_ariths uint_word_of_int_eq take_bit_int_eq_self take_bit_eq_mod mod_diff_right_eq)
    have rip: "0 \<le> uint rip_v" "uint rip_v < 2 ^ 64" using uint_bounded[of rip_v] by simp_all
    show ?thesis
    proof (cases "before \<le> uint rip_v")
      case True
      then have s: "uint ?start = uint rip_v - before" using u rip assms(1) by simp
      have "nat (uint rip_v - before) + nat (before + after) = nat (uint rip_v) + nat after"
        using True assms(1,3) by linarith
      then have "unat ?start + nat (before + after) = unat rip_v + nat after"
        unfolding unat_eq_nat_uint s .
      then show ?thesis using True by (simp only: simp_thms)
    next
      case False
      then have "uint rip_v - before < 0" "- (2 ^ 64) \<le> uint rip_v - before"
        using rip(1) assms(2) power_increasing[of 31 64 "2 :: int"] by linarith+
      then have "uint ?start = uint rip_v - before + 2 ^ 64" unfolding u by (rule mod_plus_one)
      moreover have "(2 :: int) ^ 31 \<le> 2 ^ 63" "(2 :: int) ^ 64 = 2 ^ 63 + 2 ^ 63" by simp_all
      ultimately have "2 ^ 63 \<le> uint ?start" using rip(1) assms(2) by linarith
      then have "int (2 ^ 63) \<le> int (unat ?start)" unfolding uint_nat by simp
      then have "2 ^ 63 \<le> unat ?start" by (simp only: of_nat_le_iff)
      then show ?thesis using False assms(6) by simp
    qed
  qed
  finally show ?thesis .
qed

section \<open>The reported page walk\<close>

definition walk_line :: "walk_result \<Rightarrow> u8 list" where
  "walk_line r = (case r of
     Not_Present \<Rightarrow> ascii ''[NOT PRESENT]'' @ [10]
   | Physical pa \<Rightarrow> ascii ''Physical Address: 0x'' @ hex_pad 8 (unat pa) @ [10])"

lemma not_present_line: "show_text [S ''[NOT PRESENT]'', NL] = walk_line Not_Present"
  by (simp add: show_text_def walk_line_def)

lemma show_text_append: "show_text (ps @ qs) = show_text ps @ show_text qs"
  by (simp add: show_text_def)

lemma unat_wider: "unat (ucast (w :: u32) :: u64) = unat w"
  by (simp add: unsigned_ucast_eq take_bit_nat_eq_self less_le_trans[OF unsigned_less])

lemma address_line:
  "show_text [S '' Physical Address: 0x'', X 8 (ucast pa), NL] = [32] @ walk_line (Physical pa)"
  "show_text [S '' 4MB page, Physical Address: 0x'', X 8 (ucast pa), NL] =
     ascii '' 4MB page, '' @ walk_line (Physical pa)"
  by (simp_all add: show_text_def walk_line_def unat_wider ascii_def)

text \<open>The report ends with the result of the walk.\<close>

lemma report_walk_result:
  assumes "walk_page_tables_32bit m c va = Some r"
  shows "\<exists>front. report_walk_32bit m c va = Some (front @ walk_line r)"
proof -
  obtain pde where pde: "load32 m (unat (c AND NOT 0xFFF) + 4 * pd_index va) = Some pde"
    using assms by (auto simp: walk_page_tables_32bit_def Let_def bind_eq_Some_conv)
  have flags: "show_text (S a # ps @ qs) = show_text (S a # ps) @ show_text qs" for a ps qs
    by (simp add: show_text_def)
  consider (absent) "pde AND 1 = 0" | (large) "pde AND 1 \<noteq> 0" "pde AND 0x80 \<noteq> 0"
    | (small) "pde AND 1 \<noteq> 0" "pde AND 0x80 = 0" by blast
  then show ?thesis
  proof cases
    case absent
    then have "r = Not_Present" using assms pde by (simp add: walk_page_tables_32bit_def)
    then show ?thesis using absent pde
      by (simp add: report_walk_32bit_def Let_def not_present_line flip: append_assoc)
  next
    case large
    then have r: "r = Physical ((pde AND 0xFFC00000) OR (va AND 0x3FFFFF))"
      using assms pde by (simp add: walk_page_tables_32bit_def)
    have line: "show_text [S ''  '', C 0xE2, C 0x86, C 0x92, S '' 4MB page, Physical Address: 0x'',
        X 8 (ucast ((pde AND 0xFFC00000) OR (va AND 0x3FFFFF))), NL] =
      (show_text [S ''  '', C 0xE2, C 0x86, C 0x92] @ ascii '' 4MB page, '') @ walk_line r"
      using show_text_append[of "[S ''  '', C 0xE2, C 0x86, C 0x92]"
          "[S '' 4MB page, Physical Address: 0x'', X 8 (ucast ((pde AND 0xFFC00000) OR (va AND 0x3FFFFF))), NL]"]
      by (simp add: address_line(2) r)
    show ?thesis unfolding report_walk_32bit_def Let_def pde bind.bind_lunit if_not_P[OF large(1)] if_P[OF large(2)] line
      by (simp flip: append_assoc)
  next
    case small
    then obtain pte where pte: "load32 m (unat (pde AND NOT 0xFFF) + 4 * pt_index va) = Some pte"
      using assms pde by (auto simp: walk_page_tables_32bit_def Let_def bind_eq_Some_conv)
    show ?thesis
    proof (cases "pte AND 1 = 0")
      case True
      then have "r = Not_Present" using assms pde pte small by (simp add: walk_page_tables_32bit_def)
      then show ?thesis using True small pde pte
        by (simp add: report_walk_32bit_def Let_def not_present_line flip: append_assoc)
    next
      case False
      let ?pa = "(pte AND NOT 0xFFF) OR (va AND 0xFFF)"
      have r: "r = Physical ?pa"
        using assms pde pte small False by (simp add: walk_page_tables_32bit_def)
      let ?front = "[S ''[P='', flag_digit pte 1, S '' W='', flag_digit pte 2, S '' U='',
          flag_digit pte 4, S '']'', NL, S ''  '', C 0xE2, C 0x86, C 0x92]"
      have line: "show_text [S ''[P='', flag_digit pte 1, S '' W='', flag_digit pte 2, S '' U='',
          flag_digit pte 4, S '']'', NL, S ''  '', C 0xE2, C 0x86, C 0x92, S '' Physical Address: 0x'',
          X 8 (ucast ?pa), NL] = (show_text ?front @ [32]) @ walk_line r"
        using show_text_append[of ?front "[S '' Physical Address: 0x'', X 8 (ucast ?pa), NL]"]
        by (simp add: address_line(1) r)
      show ?thesis unfolding report_walk_32bit_def Let_def pde pte bind.bind_lunit if_not_P[OF small(1)]
          small(2) if_not_P[OF False] line
        by (simp flip: append_assoc)
    qed
  qed
qed

section \<open>Names\<close>

lemma exit_reason_names_distinct: "distinct exit_reason_names" "length exit_reason_names = 20"
  "''UNKNOWN_EXIT_TYPE'' \<notin> set exit_reason_names"
  by (simp_all add: exit_reason_names_def)

text \<open>The reasons KVM documents have different names, all others share one.\<close>

lemma get_exit_reason_string_eq:
  "get_exit_reason_string r = get_exit_reason_string q \<longleftrightarrow> r = q \<or> 20 \<le> unat r \<and> 20 \<le> unat q"
proof -
  note D = exit_reason_names_distinct
  have "get_exit_reason_string x = ''UNKNOWN_EXIT_TYPE'' \<longleftrightarrow> 20 \<le> unat x" for x
    using nth_mem[of "unat x" exit_reason_names] D(2,3)
    unfolding get_exit_reason_string_def by (metis linorder_not_less)
  moreover have "r = q" if "unat r < 20" "unat q < 20" "get_exit_reason_string r = get_exit_reason_string q"
    using that D(2) nth_eq_iff_index_eq[OF D(1), of "unat r" "unat q"]
    by (simp add: get_exit_reason_string_def word_unat_eq_iff)
  ultimately show ?thesis by (metis linorder_not_less)
qed

section \<open>Properties\<close>

text \<open>
  C35: nothing is lost in a memory dump. The dump of a region inside the mapping is its heading and rows from
  which a reader gets exactly the bytes of the region back.
\<close>

theorem dump_roundtrip:
  assumes "gm_read m (unat a) sz = Some bs"
  shows "\<exists>rows. dump_memory_region m a sz label = Some (dump_header a sz label @ rows) \<and> undump rows = bs"
  using dump_rows_undump[of m a 0 sz bs] assms by (auto simp: dump_memory_region_def)

theorem dump_roundtrip_witness:
  "\<exists>rows. dump_memory_region \<lparr>gm_size = 64, gm_data = word_of_nat\<rparr> 30 3 ''x'' =
     Some (dump_header 30 3 ''x'' @ rows) \<and> undump rows = [30, 31, 32]"
proof -
  have "gm_read \<lparr>gm_size = 64, gm_data = word_of_nat\<rparr> (unat (30 :: u64)) 3 = Some [30, 31, 32]"
    by (simp add: gm_read_def upt_rec)
  from dump_roundtrip[OF this] show ?thesis by blast
qed

text \<open>
  The rows of a dump are not aligned: the column of characters starts at position 60 in a full row, and
  in a row of \<open>r\<close> bytes it does so only for 8 bytes. The padding is one blank cell for every byte
  that is there instead of every byte that is missing.
\<close>

lemma length_padding: "j < 16 \<Longrightarrow> length (padding_from j) = 3 * j"
  by (induction j) (simp_all add: padding_from.simps)

lemma length_hex_column: "length (hex_column bs) = 3 * length bs + (if 7 < length bs then 1 else 0)"
proof -
  have two: "length (hex_pad 2 (unat b)) = 2" for b :: u8
  proof -
    have "unat b < 256" using unsigned_less[of b] by simp
    then show ?thesis by (simp add: hex_pad_2)
  qed
  have "length (hex_column bs) = sum_list (map (\<lambda>j. 3 + (if j = 7 then 1 else 0)) [0..<length bs])"
    unfolding hex_column_def length_concat map_map
    by (intro arg_cong[where f = sum_list] map_cong) (auto simp: two)
  also have "\<dots> = 3 * n + (if 7 < n then 1 else 0)" if "n = length bs" for n
    unfolding that[symmetric] by (induction n) auto
  finally show ?thesis by simp
qed

lemma length_hex_nat: "n < 16 ^ Suc k \<Longrightarrow> length (hex_nat n) \<le> Suc k"
proof (induction k arbitrary: n)
  case (Suc k)
  then have "n div 16 < 16 ^ Suc k" by (simp add: less_mult_imp_div_less)
  from Suc.IH[OF this] show ?case by (simp add: hex_nat.simps[of n])
qed (simp add: hex_nat.simps)

lemma row_before_bar:
  assumes "a < 0x100000000"
  shows "takeWhile (\<lambda>c. c \<noteq> 124) (dump_row a left bs) = hex_pad 8 (unat a) @ [58] @ row_body left bs"
    and "length (hex_pad 8 (unat a) @ [58] @ row_body left bs) =
      11 + 3 * length bs + (if 7 < length bs then 1 else 0) + length (padding_from left)"
proof -
  have "124 \<notin> set (hex_pad 8 (unat a))" using set_hex_pad[of 8 "unat a"] separators(3)[of 124] by blast
  moreover have "124 \<notin> set (row_body left bs)" using row_body_digits[of left bs] separators(3)[of 124] by blast
  ultimately show "takeWhile (\<lambda>c. c \<noteq> 124) (dump_row a left bs) = hex_pad 8 (unat a) @ [58] @ row_body left bs"
    by (simp add: dump_row_parts takeWhile_append)
  have "unat a < 16 ^ Suc 7" using assms by (simp add: word_less_nat_alt)
  then have "length (hex_pad 8 (unat a)) = 8" using length_hex_nat[of "unat a" 7] by (simp add: hex_pad_def)
  then show "length (hex_pad 8 (unat a) @ [58] @ row_body left bs) =
      11 + 3 * length bs + (if 7 < length bs then 1 else 0) + length (padding_from left)"
    by (simp add: row_body_def length_hex_column)
qed

theorem dump_misaligned:
  assumes "a < 0x100000000"
  shows "length full = 16 \<Longrightarrow> 16 \<le> left \<Longrightarrow>
      length (takeWhile (\<lambda>c. c \<noteq> 124) (dump_row a left full)) = 60"
    and "length bs < 16 \<Longrightarrow>
      length (takeWhile (\<lambda>c. c \<noteq> 124) (dump_row a (length bs) bs)) = 60 \<longleftrightarrow> length bs = 8"
  unfolding row_before_bar[OF assms] by (simp_all add: padding_from.simps[of left] length_padding)

end
