(* ===== verification/Vmm_Report.thy ===== *)
theory Vmm_Report
  imports Vmm_Debug Vmm_Cli
begin

text \<open>
  What the VMM tells its user (\<^verbatim>\<open>main.c\<close>): \<^verbatim>\<open>vcpu_printf\<close>, the reports of VM exits that are printed without
  \<^verbatim>\<open>--verbose\<close>, the report of a verbose paging guest before its first run, the messages about the command line,
  and the banner. Also the timer thread, which the repository contains but does not start.
\<close>

section \<open>Lines with the name of the vCPU\<close>

definition vcpu_prefix :: "vmm_dev \<Rightarrow> vcpu_context \<Rightarrow> u8 list" where
  "vcpu_prefix d ctx =
     (if num_vcpus d > 1
      then [27] @ show_text [S ''[38;5;'', D (vcpu_colors d ! vcpu_id ctx), S ''m[vCPU '', D (int (vcpu_id ctx)),
             S '':'', S (vm_name ctx), S '']''] @ [27] @ show_text [S ''[0m '']
      else show_text [S ''['', S (vm_name ctx), S ''] ''])"

definition vcpu_printf :: "vmm_dev \<Rightarrow> vcpu_context \<Rightarrow> piece list \<Rightarrow> u8 list" where
  "vcpu_printf d ctx ps = vcpu_prefix d ctx @ show_text ps"

section \<open>Reports of VM exits\<close>

text \<open>A report is a list of calls of \<^verbatim>\<open>vcpu_printf\<close>; \<open>None\<close> is a read outside guest memory.\<close>

definition byte_list :: "u8 list \<Rightarrow> piece list" where
  "byte_list bs = concat (map (\<lambda>i. (if i = 0 then [] else [S '' '']) @ [X 2 (ucast (bs ! i))]) [0..<length bs])"

definition step_report :: "kvm_regs \<Rightarrow> kvm_sregs \<Rightarrow> u8 list \<Rightarrow> piece list" where
  "step_report regs sregs bs =
     [S ''STEP: RIP=0x'', X 0 (rip regs), S '' CS=0x'', X 0 (ucast (seg_selector (s_cs sregs))),
      S '' linear=0x'', X 0 (seg_base (s_cs sregs) + rip regs), S '' CR0=0x'', X 0 (cr0 sregs),
      S '' RSI=0x'', X 0 (rsi regs), S '' RBX=0x'', X 0 (rbx regs), S '' RDI=0x'', X 0 (rdi regs),
      S '' bytes=''] @ byte_list bs @ [NL]"

text \<open>The debug case; \<open>ctx\<close> is the context with the step already counted.\<close>

definition spend_report :: "vcpu_context \<Rightarrow> piece list list" where
  "spend_report ctx = (if singlestep_remaining ctx - 1 = 0 then [[S ''STEP: disabled single-step'', NL]] else [])"

definition debug_report :: "kvm_env \<Rightarrow> vcpu_context \<Rightarrow> piece list list option" where
  "debug_report env ctx =
     (case (env_regs env, env_sregs env) of
        (Some regs, Some sregs) \<Rightarrow>
          map_option (\<lambda>bs.
              (if singlestep_exits ctx \<le> 50 \<or> singlestep_exits ctx smod 50 = 0 then [step_report regs sregs bs] else []) @
              (if \<not> singlestep_paused ctx \<and> (bs ! 0 = 0xF3 \<or> bs ! 0 = 0xF2)
               then [[S ''STEP: pausing single-step for REP instruction'', NL]] else spend_report ctx))
            (step_bytes ctx (seg_base (s_cs sregs) + rip regs))
      | _ \<Rightarrow> Some (spend_report ctx))"

definition last_step_report :: "last_step \<Rightarrow> piece list" where
  "last_step_report l =
     [S ''  Last step: RIP=0x'', X 0 (last_rip l), S '' CS=0x'', X 0 (ucast (last_cs l)), S '' ES=0x'', X 0 (ucast (last_es l)),
      S '' ES.base=0x'', X 0 (last_es_base l), S '' ES.limit=0x'', X 0 (ucast (last_es_limit l)),
      S '' IDT.base=0x'', X 0 (last_idt_base l), S '' IDT.limit=0x'', X 0 (ucast (last_idt_limit l)),
      S '' CR0=0x'', X 0 (last_cr0 l), S '' RFLAGS=0x'', X 0 (last_rflags l), S '' RSI=0x'', X 0 (last_rsi l),
      S '' RBX=0x'', X 0 (last_rbx l), S '' RCX=0x'', X 0 (last_rcx l), S '' RDI=0x'', X 0 (last_rdi l),
      S '' RSP=0x'', X 0 (last_rsp l), S '' bytes=''] @ byte_list (last_bytes l) @ [NL]"

definition idt_vector_report :: "vcpu_context \<Rightarrow> u64 \<Rightarrow> piece list list \<Rightarrow> piece list list option" where
  "idt_vector_report ctx vec ls =
     (let entry_addr = last_idt_base (last_step ctx) + vec * 8 in
      if entry_addr + 8 \<le> word_of_nat (mem_size ctx)
      then map_option (\<lambda>e. ls @
             [[S ''  IDT['', D (uint vec), S '']: sel=0x'', X 0 (from_le [e ! 2, e ! 3]),
               S '' off=0x'', X 0 (from_le [e ! 0, e ! 1, e ! 6, e ! 7]), S '' flags=0x'', X 0 (ucast (e ! 5)), NL]])
           (gm_read (guest_mem ctx) (unat entry_addr) 8)
      else Some ls)"

record vcpu_events =
  exception_injected :: u8
  exception_nr :: u8
  exception_has_error :: u8
  exception_error :: u32
  interrupt_injected :: u8
  interrupt_nr :: u8
  interrupt_soft :: u8
  nmi_injected :: u8
  nmi_pending :: u8
  nmi_masked :: u8

definition register_report :: "kvm_env \<Rightarrow> vcpu_events option \<Rightarrow> piece list list" where
  "register_report env events =
     (case env_regs env of None \<Rightarrow> [] | Some r \<Rightarrow>
        [[S ''SHUTDOWN at RIP=0x'', X 0 (rip r), S '', RSP=0x'', X 0 (rsp r), NL],
         [S ''  RAX=0x'', X 0 (rax r), S '' RBX=0x'', X 0 (rbx r), S '' RCX=0x'', X 0 (rcx r),
          S '' RDX=0x'', X 0 (rdx r), NL]]) @
     (case env_sregs env of None \<Rightarrow> [] | Some s \<Rightarrow>
        [[S ''  CR0=0x'', X 0 (cr0 s), S '' CR3=0x'', X 0 (cr3 s), S '' CR4=0x'', X 0 (cr4 s), NL],
         [S ''  CS=0x'', X 0 (ucast (seg_selector (s_cs s))), S '' DS=0x'', X 0 (ucast (seg_selector (s_ds s))),
          S '' SS=0x'', X 0 (ucast (seg_selector (s_ss s))), NL]]) @
     (case events of None \<Rightarrow> [] | Some e \<Rightarrow>
        [[S ''  Exception: injected='', D (uint (exception_injected e)), S '' nr='', D (uint (exception_nr e)),
          S '' has_error='', D (uint (exception_has_error e)), S '' error=0x'', X 0 (ucast (exception_error e)), NL],
         [S ''  Interrupt: injected='', D (uint (interrupt_injected e)), S '' nr='', D (uint (interrupt_nr e)),
          S '' soft='', D (uint (interrupt_soft e)), NL],
         [S ''  NMI: injected='', D (uint (nmi_injected e)), S '' pending='', D (uint (nmi_pending e)),
          S '' masked='', D (uint (nmi_masked e)), NL]])"

definition shutdown_report :: "kvm_env \<Rightarrow> vcpu_events option \<Rightarrow> vcpu_context \<Rightarrow> piece list list option" where
  "shutdown_report env events ctx =
     map_option (\<lambda>steps. [S ''SHUTDOWN - Attempting to get exception info...'', NL] # steps @ register_report env events)
       (if singlestep_exits ctx > 0
        then for_each [0, 6, 8, 13, 14] (idt_vector_report ctx) [last_step_report (last_step ctx)]
        else Some [])"

definition error_report :: "u32 \<Rightarrow> u64 list \<Rightarrow> piece list list" where
  "error_report suberror data =
     [S ''INTERNAL_ERROR: suberror 0x'', X 0 (ucast suberror), S '' ndata='', D (int (length data)), NL] #
     map (\<lambda>i. [S ''  data['', D (int i), S '']=0x'', X 0 (data ! i), NL]) [0..<min 8 (length data)]"

text \<open>The exit switch of \<^verbatim>\<open>handle_vm_exit\<close>, when \<^verbatim>\<open>verbose\<close> is off.\<close>

definition exit_report ::
  "kvm_env \<Rightarrow> vcpu_events option \<Rightarrow> kvm_exit \<Rightarrow> vcpu_context \<Rightarrow> piece list list option" where
  "exit_report env events ex ctx0 =
     (let ctx = resume_singlestep env ex (ctx0\<lparr>exit_count := exit_count ctx0 + 1\<rparr>) in
      case ex of
        KVM_EXIT_DEBUG \<Rightarrow>
          (if singlestep_remaining ctx > 0
           then debug_report env (ctx\<lparr>singlestep_exits := singlestep_exits ctx + 1\<rparr>) else Some [])
      | KVM_EXIT_FAIL_ENTRY reason \<Rightarrow> Some [[S ''FAIL_ENTRY: reason 0x'', X 0 reason, NL]]
      | KVM_EXIT_INTERNAL_ERROR suberror data \<Rightarrow> Some (error_report suberror data)
      | KVM_EXIT_SHUTDOWN \<Rightarrow> shutdown_report env events ctx
      | KVM_EXIT_OTHER reason \<Rightarrow> Some [[S ''Unknown exit reason: '', D (sint reason), NL]]
      | _ \<Rightarrow> Some [])"

section \<open>Before the first run\<close>

definition prerun_report :: "bool \<Rightarrow> kvm_env \<Rightarrow> vcpu_context \<Rightarrow> piece list list option" where
  "prerun_report verbose_on env ctx =
     (if \<not> verbose_on then Some []
      else
        map_option (\<lambda>ls. [S ''Thread started'', NL] # ls)
          (case (use_paging ctx, env_sregs env, env_regs env) of
             (True, Some sregs, Some regs) \<Rightarrow> do {
               pde0 \<leftarrow> load32 (guest_mem ctx) 0x100000;
               pde512 \<leftarrow> load32 (guest_mem ctx) (0x100000 + 4 * 512);
               entry \<leftarrow> gm_read (guest_mem ctx) 0x1000 8;
               gdt \<leftarrow> gm_read (guest_mem ctx) 0x500 8;
               Some [[S ''Pre-run state: RIP=0x'', X 0 (rip regs), S '' CR0=0x'', X 0 (cr0 sregs),
                      S '' CR3=0x'', X 0 (cr3 sregs), S '' CS=0x'', X 0 (ucast (seg_selector (s_cs sregs))), NL],
                     [S ''Page Dir @ 0x100000: PDE[0]=0x'', X 8 (ucast pde0), S '' PDE[512]=0x'', X 8 (ucast pde512), NL],
                     [S ''Entry @ 0x1000: ''] @ byte_list entry @ [NL],
                     [S ''GDT @ 0x500: ''] @ byte_list gdt @ [NL]]
             }
           | _ \<Rightarrow> Some []))"

section \<open>The command line\<close>

definition usage :: "string \<Rightarrow> piece list" where
  "usage argv0 =
     [S ''Usage: '', S argv0, S '' [OPTIONS] <guest_binary> | --linux <bzImage> [--linux-entry setup|code32|boot64] [--linux-rsi base|hdr] [--cmdline \"...\"] [--initrd <file>]'', NL,
      S ''  Run 1-4 guests simultaneously in separate vCPUs or boot Linux kernel'', NL,
      NL, S ''Options:'', NL,
      S ''  --paging            Enable Protected Mode with paging'', NL,
      S ''  --long-mode         Enable 64-bit Long Mode'', NL,
      S ''  --linux <bzImage>   Boot Linux kernel (bzImage format)'', NL,
      S ''  --linux-entry MODE  Linux entry (setup|code32|boot64, default: code32)'', NL,
      S ''  --linux-rsi MODE    Linux RSI base (base|hdr, default: base)'', NL,
      S ''  --cmdline \"...\"     Kernel command line (for --linux)'', NL,
      S ''  --initrd <file>     Initrd image to load (for --linux)'', NL,
      S ''  --entry ADDR        Set entry point (default: 0x80001000)'', NL,
      S ''  --load OFFSET       Set load offset (default: 0x1000)'', NL,
      S ''  --verbose, -v       Enable basic debug logging (VM exits, hypercalls)'', NL,
      S ''  --debug LEVEL       Set debug verbosity (0=none, 1=basic, 2=detailed, 3=all)'', NL,
      S ''  --dump-regs         Dump all registers on each VM exit'', NL,
      S ''  --dump-mem FILE     Dump guest memory to file on exit'', NL,
      NL, S ''Examples:'', NL,
      S ''  '', S argv0, S '' guest/multiplication.bin guest/counter.bin'', NL,
      S ''  '', S argv0, S '' --paging --verbose os-1k/kernel.bin'', NL,
      S ''  '', S argv0, S '' --linux bzImage --cmdline \"console=ttyS0\"'', NL]"

text \<open>The message for a flag that is not accepted, with the argument that follows it, if any.\<close>

definition missing_argument :: "string \<Rightarrow> string option" where
  "missing_argument a =
     map_of [(''--linux'', ''a bzImage path''), (''--linux-entry'', ''an argument (setup|code32|boot64)''),
       (''--linux-rsi'', ''an argument (base|hdr)''), (''--cmdline'', ''an argument''), (''--initrd'', ''an argument''),
       (''--entry'', ''an argument''), (''--load'', ''an argument''), (''--debug'', ''a level (0-3)''),
       (''--dump-mem'', ''a filename'')] a"

definition flag_error :: "string \<Rightarrow> string option \<Rightarrow> piece list" where
  "flag_error a arg =
     (case (missing_argument a, arg) of
        (None, _) \<Rightarrow> [S ''Error: Unknown option '', S a, NL]
      | (Some what, None) \<Rightarrow> [S ''Error: '', S a, S '' requires '', S what, NL]
      | (Some what, Some v) \<Rightarrow>
          (if a = ''--debug'' then [S ''Error: debug level must be 0-3'', NL]
           else [S ''Error: invalid '', S a, S [CHR '' '', CHR 0x27], S v, S [CHR 0x27], S '' (expected '',
                 S (if a = ''--linux-entry'' then ''setup|code32|boot64'' else ''base|hdr''), S '')'', NL]))"

text \<open>What the flag loop prints before it gives up.\<close>

fun flags_error :: "string list \<Rightarrow> cli \<Rightarrow> piece list option" where
  "flags_error [] c = None"
| "flags_error (a # rest) c =
     (if a = [] \<or> hd a \<noteq> CHR ''-'' then None
      else case plain_flag a c of
             Some c' \<Rightarrow> flags_error rest c'
           | None \<Rightarrow>
               (case rest of
                  [] \<Rightarrow> Some (flag_error a None)
                | v # rest' \<Rightarrow>
                    (case value_flag a v c of
                       None \<Rightarrow> Some (flag_error a (Some v))
                     | Some c' \<Rightarrow> flags_error rest' c')))"

definition args_error :: "string \<Rightarrow> string list \<Rightarrow> piece list option" where
  "args_error argv0 args =
     (if args = [] then Some (usage argv0)
      else case parse_flags args cli_init of
             None \<Rightarrow> flags_error args cli_init
           | Some (c, guests) \<Rightarrow>
               (if linux_boot c then
                  (if bzimage_path c = None then Some [S ''Error: --linux requires a bzImage path'', NL] else None)
                else if guests = [] then Some [S ''Error: No guest binaries specified'', NL]
                else if length guests > MAX_VCPUS
                then Some [S ''Error: Too many guests (max '', D (int MAX_VCPUS), S '')'', NL]
                else None))"

definition start_banner :: "cli \<Rightarrow> nat \<Rightarrow> piece list" where
  "start_banner c n =
     [S ''=== Multi-vCPU KVM VMM (x86) ==='', NL] @
     (if linux_boot c then
        [S ''Mode: Linux Boot Protocol'', NL, S ''bzImage: '', S (the (bzimage_path c)), NL] @
        (case linux_cmdline c of None \<Rightarrow> [] | Some l \<Rightarrow> [S ''Command line: '', S l, NL]) @
        (case initrd_path c of None \<Rightarrow> [] | Some p \<Rightarrow> [S ''Initrd: '', S p, NL])
      else if enable_paging c then
        [S ''Mode: Protected Mode with Paging'', NL, S ''Entry point: 0x'', X 0 (ucast (cli_entry_point c)), NL,
         S ''Load offset: 0x'', X 0 (ucast (cli_load_offset c)), NL]
      else [S ''Mode: Real Mode'', NL]) @
     (if linux_boot c then [] else [S ''Starting '', D (int n), S '' vCPU(s)'', NL, NL])"

section \<open>The timer thread\<close>

text \<open>
  One turn of \<^verbatim>\<open>timer_thread_func\<close>: the vCPUs that run at that moment get vector 0x20, in order; a failing
  \<^verbatim>\<open>KVM_INTERRUPT\<close> is ignored. The thread runs one turn for every entry of the list, each with the vCPUs it
  finds running. The counter is an \<^verbatim>\<open>int\<close> that overflows after 2^31 turns, or seven years.
\<close>

definition timer_turn :: "bool list \<Rightarrow> (nat \<times> u32) list" where
  "timer_turn alive = map (\<lambda>i. (i, 0x20)) (filter (\<lambda>i. alive ! i) [0..<length alive])"

fun timer_thread :: "bool list list \<Rightarrow> int \<Rightarrow> int \<times> (nat \<times> u32) list" where
  "timer_thread [] ticks = (ticks, [])"
| "timer_thread (alive # turns) ticks =
     (let (ticks, irqs) = timer_thread turns (ticks + 1) in (ticks, timer_turn alive @ irqs))"

section \<open>Lemmas\<close>

text \<open>Every rejected command line gets a message, and an accepted one gets none.\<close>

lemma flags_error_iff: "flags_error args c = None \<longleftrightarrow> parse_flags args c \<noteq> None"
  by (induction args c rule: parse_flags.induct) (auto split: option.split list.split)

theorem args_error_iff: "args_error argv0 args = None \<longleftrightarrow> parse_args args \<noteq> None"
  by (auto simp: args_error_def parse_args_def flags_error_iff split: option.split)

text \<open>The reports read guest memory exactly where the handler does.\<close>

lemma idt_vector_report_defined: "idt_vector_report ctx vec ls = None \<longleftrightarrow> dump_idt_vector ctx vec = None"
  by (simp add: idt_vector_report_def dump_idt_vector_def Let_def)

lemma idt_report_defined:
  "for_each vs (idt_vector_report ctx) ls = None \<longleftrightarrow> for_each vs (\<lambda>vec _. dump_idt_vector ctx vec) () = None"
proof (induction vs arbitrary: ls)
  case (Cons v vs)
  then show ?case
    using idt_vector_report_defined[of ctx v ls]
    by (cases "idt_vector_report ctx v ls"; cases "dump_idt_vector ctx v") simp_all
qed simp

lemma debug_report_defined:
  "singlestep_remaining ctx > 0 \<Longrightarrow>
     debug_report env (ctx\<lparr>singlestep_exits := singlestep_exits ctx + 1\<rparr>) = None \<longleftrightarrow> handle_debug_exit env ctx = None"
  by (simp add: debug_report_def handle_debug_exit_def Let_def split: option.split)

lemma shutdown_report_defined: "shutdown_report env events ctx = None \<longleftrightarrow> dump_idt_vectors ctx = None"
  unfolding shutdown_report_def dump_idt_vectors_def by (simp only: option.map_disc_iff idt_report_defined split: if_split) simp

theorem exit_report_defined: "exit_report env events ex ctx = None \<longleftrightarrow> handle_vm_exit env ex ctx d = None"
  by (cases ex)
    (simp_all add: exit_report_def handle_vm_exit_def Let_def shutdown_report_defined
      debug_report_defined handle_debug_exit_def split: prod.split)

text \<open>
  A vCPU thread does not die silently, except on a port access: every exit that makes \<^verbatim>\<open>handle_vm_exit\<close> return
  -1 prints a report also without \<^verbatim>\<open>--verbose\<close>, unless it is the failure of a hypercall.
\<close>

theorem failed_exit_reported:
  assumes "handle_vm_exit env ex ctx d = Some (ret, ex', ctx', d')" and "ret < 0"
  shows "(\<exists>io. ex = KVM_EXIT_IO io) \<or> (\<exists>l ls. exit_report env events ex ctx = Some (l # ls))"
  using assms
  by (cases ex) (auto simp: exit_report_def handle_vm_exit_def Let_def error_report_def handle_debug_exit_def
      split: option.splits if_splits)

text \<open>The report of a paging guest finds its page directory, entry and GDT in its 4 MB.\<close>

lemma prerun_report_defined: "0x100804 \<le> gm_size (guest_mem ctx) \<Longrightarrow> prerun_report v env ctx \<noteq> None"
  using load_defined(2)[of "guest_mem ctx" "0x100000"] load_defined(2)[of "guest_mem ctx" "0x100000 + 4 * 512"]
  by (auto simp: prerun_report_def gm_read_def split: option.split bool.split)

text \<open>The timer thread counts its turns and interrupts a vCPU once in every turn in which it runs.\<close>

lemma timer_turn_once: "length (filter (\<lambda>a. fst a = n) (timer_turn alive)) = (if n < length alive \<and> alive ! n then 1 else 0)"
proof -
  have "filter (\<lambda>a. fst a = n) (timer_turn alive) =
      map (\<lambda>i. (i, 0x20)) (filter (\<lambda>i. i = n) (filter (\<lambda>i. alive ! i) [0..<length alive]))"
    unfolding timer_turn_def filter_map by (simp add: comp_def)
  moreover have "filter (\<lambda>i. i = n) (filter (\<lambda>i. alive ! i) [0..<length alive]) =
      (if n < length alive \<and> alive ! n then [n] else [])"
  proof -
    have "filter (\<lambda>i. i = n) [0..<k] = (if n < k then [n] else [])" for k by (induction k) auto
    moreover have "filter (\<lambda>i. i = n) (filter (\<lambda>i. alive ! i) xs) = (if alive ! n then filter (\<lambda>i. i = n) xs else [])" for xs
      by (induction xs) auto
    ultimately show ?thesis by simp
  qed
  ultimately show ?thesis by simp
qed

theorem timer_thread_fair:
  "fst (timer_thread turns ticks) = ticks + int (length turns) \<and>
   length (filter (\<lambda>a. fst a = n) (snd (timer_thread turns ticks))) =
     length (filter (\<lambda>alive. n < length alive \<and> alive ! n) turns)"
proof (induction turns arbitrary: ticks)
  case (Cons alive turns)
  then show ?case using timer_turn_once[of n alive] by (simp add: Let_def split_beta)
qed simp

end
