(* ===== verification/Initramfs.thy ===== *)
theory Initramfs
  imports Kvm_Prelude "HOL-Library.Stream" "HOL-Library.Sublist"
begin

text \<open>
  The tools of the Linux guest's initramfs: \<^verbatim>\<open>init\<close> (\<^verbatim>\<open>initramfs/init.c\<close>), which sets up the console and
  keeps a shell running, and the applets of \<^verbatim>\<open>initramfs/miniutils.c\<close>. The kernel of the guest is a
  parameter: the results of its system calls. Files, directories and messages of the guest are records
  of functions; what a program writes is the list of its bytes.
\<close>

section \<open>write_all\<close>

text \<open>
  \<open>wr k n\<close> is the result of the \<open>k\<close>-th \<^verbatim>\<open>write\<close>, of \<open>n\<close> bytes. The first result that is not
  positive ends the loop. The value is what was written.
\<close>

function write_all :: "(nat \<Rightarrow> nat \<Rightarrow> int) \<Rightarrow> nat \<Rightarrow> u8 list \<Rightarrow> u8 list" where
  "write_all wr k s =
     (if s = [] then []
      else let n = wr k (length s) in
           if n \<le> 0 then [] else take (nat n) s @ write_all wr (k + 1) (drop (nat n) s))"
  by pat_completeness auto
termination
  by (relation "measure (\<lambda>(wr, k, s). length s)") auto

declare write_all.simps [simp del]

text \<open>A \<^verbatim>\<open>write\<close> of the guest kernel accepts at least one byte and at most those it is given.\<close>

definition writes_progress :: "(nat \<Rightarrow> nat \<Rightarrow> int) \<Rightarrow> bool" where
  "writes_progress wr \<longleftrightarrow> (\<forall>k n. 0 < n \<longrightarrow> 0 < wr k n \<and> wr k n \<le> int n)"

lemma write_all_prefix: "prefix (write_all wr k s) s"
proof (induction wr k s rule: write_all.induct)
  case (1 wr k s)
  show ?case
  proof (cases "s = [] \<or> wr k (length s) \<le> 0")
    case True
    then show ?thesis by (auto simp: write_all.simps[of wr k s])
  next
    case False
    let ?n = "nat (wr k (length s))"
    have "prefix (write_all wr (k + 1) (drop ?n s)) (drop ?n s)" using "1.IH" False by simp
    then have "prefix (take ?n s @ write_all wr (k + 1) (drop ?n s)) (take ?n s @ drop ?n s)"
      by (simp only: same_prefix_prefix)
    then show ?thesis using False by (simp add: write_all.simps[of wr k s] Let_def)
  qed
qed

lemma write_all_complete: "writes_progress wr \<Longrightarrow> write_all wr k s = s"
proof (induction wr k s rule: write_all.induct)
  case (1 wr k s)
  then show ?case
    by (cases "s = []") (simp_all add: write_all.simps[of wr k] Let_def writes_progress_def not_le)
qed

section \<open>The console of init\<close>

text \<open>The descriptors of a process, each with the file it is open on.\<close>

type_synonym fds = "string option list"

definition fd_get :: "fds \<Rightarrow> nat \<Rightarrow> string option" where
  "fd_get t n = (if n < length t then t ! n else None)"

definition fd_set :: "fds \<Rightarrow> nat \<Rightarrow> string option \<Rightarrow> fds" where
  "fd_set t n f = (t @ replicate (Suc n - length t) None)[n := f]"

lemma fd_get_set [simp]: "fd_get (fd_set t n f) k = (if k = n then f else fd_get t k)"
  by (auto simp: fd_get_def fd_set_def nth_list_update nth_append)

text \<open>\<^verbatim>\<open>open\<close> returns the lowest free descriptor; \<open>ok\<close> says whether it succeeds.\<close>

definition lowest_free :: "fds \<Rightarrow> nat" where
  "lowest_free t = length (takeWhile (\<lambda>f. f \<noteq> None) t)"

definition fd_open :: "bool \<Rightarrow> string \<Rightarrow> fds \<Rightarrow> int \<times> fds" where
  "fd_open ok path t =
     (if ok then (int (lowest_free t), fd_set t (lowest_free t) (Some path)) else (- 1, t))"

definition fd_dup2 :: "int \<Rightarrow> nat \<Rightarrow> fds \<Rightarrow> fds" where
  "fd_dup2 old new t = (if fd_get t (nat old) \<noteq> None then fd_set t new (fd_get t (nat old)) else t)"

definition fd_close :: "int \<Rightarrow> fds \<Rightarrow> fds" where
  "fd_close fd t = fd_set t (nat fd) None"

definition setup_console_stdio :: "bool \<Rightarrow> fds \<Rightarrow> fds" where
  "setup_console_stdio ok t =
     (let (fd, t) = fd_open ok ''/dev/console'' t in
      if fd < 0 then t
      else let t = fd_dup2 fd 0 t; t = fd_dup2 fd 1 t; t = fd_dup2 fd 2 t
           in if fd > 2 then fd_close fd t else t)"

lemma lowest_free_None: "fd_get t (lowest_free t) = None"
  using nth_length_takeWhile[of "\<lambda>f. f \<noteq> None" t] by (auto simp: fd_get_def lowest_free_def)

text \<open>The standard streams are the console and nothing else has changed.\<close>

lemma setup_console_stdio_fds:
  "fd_get (setup_console_stdio True t) n = (if n < 3 then Some ''/dev/console'' else fd_get t n)"
  using lowest_free_None[of t]
  by (auto simp: setup_console_stdio_def fd_open_def fd_dup2_def fd_close_def Let_def less_Suc_eq numeral_eq_Suc)

section \<open>The respawn loop\<close>

datatype sys_event =
    Mkdir string | Mount string string string | Open_console | Setenv string string | Write "u8 list"
  | Sleep nat | Spawn nat | Reap nat

text \<open>
  \<open>Spawn p\<close> is a \<^verbatim>\<open>fork\<close> whose child \<open>p\<close> becomes \<^verbatim>\<open>/bin/sh -i\<close> (or ends with 127 when \<^verbatim>\<open>execv\<close> fails);
  \<open>Open_console\<close> is \<^verbatim>\<open>setup_console_stdio\<close>, whose effect on the descriptors is \<open>setup_console_stdio\<close>;
  \<open>Reap p\<close> the return of \<^verbatim>\<open>waitpid\<close> after its end. The result of every \<^verbatim>\<open>fork\<close> is a parameter.
\<close>

datatype fork_result = Fork_failed | Forked nat

definition mount_early_fs :: "sys_event list" where
  "mount_early_fs =
     [Mkdir ''/dev'', Mkdir ''/proc'', Mkdir ''/sys'', Mount ''devtmpfs'' ''/dev'' ''devtmpfs'',
      Mount ''proc'' ''/proc'' ''proc'', Mount ''sysfs'' ''/sys'' ''sysfs'']"

abbreviation eol :: "u8 list" where "eol \<equiv> [10]"

fun init_turn :: "fork_result \<Rightarrow> sys_event list" where
  "init_turn Fork_failed = [Write (ascii ''[mini-kvm] fork failed, retrying...'' @ eol), Sleep 1]"
| "init_turn (Forked p) =
     [Spawn p, Reap p, Write (eol @ ascii ''[mini-kvm] shell exited, respawning...'' @ eol)]"

definition respawn_loop :: "fork_result stream \<Rightarrow> sys_event stream" where
  "respawn_loop fs = flat (smap init_turn fs)"

definition init_prologue :: "sys_event list" where
  "init_prologue =
     mount_early_fs @
     [Open_console, Setenv ''PATH'' ''/bin:/usr/bin:/usr/local/bin'',
      Write (eol @ ascii ''[mini-kvm] userspace init started'' @ eol),
      Write (ascii ''[mini-kvm] starting /bin/sh -i (type '' @ [39] @ ascii ''exit'' @ [39] @ ascii '' to respawn)'' @ eol @ eol)]"

definition init_main :: "fork_result stream \<Rightarrow> sys_event stream" where
  "init_main fs = init_prologue @- respawn_loop fs"

text \<open>The shells that run after a sequence of events.\<close>

fun shell_event :: "sys_event \<Rightarrow> nat list \<Rightarrow> nat list" where
  "shell_event (Spawn p) ps = p # ps"
| "shell_event (Reap p) ps = removeAll p ps"
| "shell_event _ ps = ps"

definition shells_after :: "sys_event list \<Rightarrow> nat list" where
  "shells_after es = fold shell_event es []"

text \<open>The shells started by a sequence of events, and the children of the forks that succeeded.\<close>

fun spawn_of :: "sys_event \<Rightarrow> nat list" where
  "spawn_of (Spawn p) = [p]"
| "spawn_of _ = []"

fun child_of :: "fork_result \<Rightarrow> nat list" where
  "child_of Fork_failed = []"
| "child_of (Forked p) = [p]"

lemma turn_spawns: "concat (map spawn_of (init_turn f)) = child_of f"
  by (cases f) simp_all

lemma turns_spawn: "concat (map spawn_of (concat (map init_turn xs))) = concat (map child_of xs)"
  by (induction xs) (simp_all add: turn_spawns)

lemma prologue_spawns: "concat (map spawn_of init_prologue) = []"
  by (simp add: init_prologue_def mount_early_fs_def)

lemma init_turn_not_Nil: "init_turn f \<noteq> []"
  by (cases f) simp_all

lemma respawn_loop_unfold: "respawn_loop fs = init_turn (shd fs) @- respawn_loop (stl fs)"
  unfolding respawn_loop_def by (subst flat_unfold) (simp_all add: init_turn_not_Nil)

lemma respawn_loop_turns: "respawn_loop fs = concat (map init_turn (stake k fs)) @- respawn_loop (sdrop k fs)"
proof (induction k arbitrary: fs)
  case (Suc k)
  show ?case by (subst respawn_loop_unfold, subst Suc) simp
qed simp

lemma quiet_events: "set es \<inter> (range Spawn \<union> range Reap) = {} \<Longrightarrow> fold shell_event es [] = []"
proof (induction es)
  case (Cons e es)
  then show ?case by (cases e) auto
qed simp

lemma one_shell_prefix: "length (shells_after es) \<le> 1" if "prefix es (init_turn f)"
proof -
  have "es \<in> set (prefixes (init_turn f))" using that by simp
  then show ?thesis by (cases f) (auto simp: shells_after_def)
qed

lemma turn_reaps: "fold shell_event (init_turn f) [] = []"
  by (cases f) simp_all

lemma one_shell_loop: "length (shells_after (stake n (respawn_loop fs))) \<le> 1"
proof (induction n arbitrary: fs rule: less_induct)
  case (less n)
  let ?t = "init_turn (shd fs)"
  have split: "stake n (respawn_loop fs) = take n ?t @ stake (n - length ?t) (respawn_loop (stl fs))"
    by (subst respawn_loop_unfold) (rule stake_shift)
  show ?case
  proof (cases "n \<le> length ?t")
    case True
    then show ?thesis using one_shell_prefix[of "take n ?t" "shd fs"] split by (simp add: take_is_prefix)
  next
    case False
    then have "n - length ?t < n" using init_turn_not_Nil[of "shd fs"] by (cases ?t) auto
    from less[OF this, of "stl fs"] False show ?thesis unfolding split
      by (simp add: shells_after_def turn_reaps)
  qed
qed

section \<open>miniutils\<close>

text \<open>
  The system a tool runs on: file contents, directory entries in the order of \<^verbatim>\<open>readdir\<close>, the fields of
  \<^verbatim>\<open>struct utsname\<close> if \<^verbatim>\<open>uname\<close> succeeds, whether the machine can be switched off, and the message of
  \<^verbatim>\<open>errno\<close>.
\<close>

record guest_os =
  file_data :: "string \<Rightarrow> u8 list option"
  dir_entries :: "string \<Rightarrow> string list option"
  uts :: "string list option"
  reboot_ok :: bool
  errno_text :: string

text \<open>What a tool writes to its output and to its error output, and its exit status.\<close>

record tool_result =
  out :: "u8 list"
  err :: "u8 list"
  status :: nat

datatype tool_end = Exited tool_result | Powered_off

definition cmd_uname :: "guest_os \<Rightarrow> string list \<Rightarrow> tool_result" where
  "cmd_uname os argv =
     (case uts os of
        None \<Rightarrow> \<lparr>out = [], err = ascii ''uname: '' @ ascii (errno_text os) @ eol, status = 1\<rparr>
      | Some u \<Rightarrow>
          (let all_fields = length argv \<ge> 2 \<and> argv ! 1 = ''-a'' in
           if all_fields
           then \<lparr>out = ascii (u ! 0) @ ascii '' '' @ ascii (u ! 1) @ ascii '' '' @ ascii (u ! 2) @ ascii '' '' @
                   ascii (u ! 3) @ ascii '' '' @ ascii (u ! 4) @ eol, err = [], status = 0\<rparr>
           else \<lparr>out = ascii (u ! 0) @ eol, err = [], status = 0\<rparr>))"

text \<open>The copy loop of \<^verbatim>\<open>cat\<close>, which reads 4096 bytes at a time.\<close>

function copy_chunks :: "u8 list \<Rightarrow> u8 list" where
  "copy_chunks data = (let buf = take 4096 data in if length buf > 0 then buf @ copy_chunks (drop 4096 data) else [])"
  by pat_completeness auto
termination
  by (relation "measure length") auto

declare copy_chunks.simps [simp del]

fun cat_files :: "guest_os \<Rightarrow> string list \<Rightarrow> u8 list \<times> u8 list" where
  "cat_files os [] = ([], [])"
| "cat_files os (path # paths) =
     (let (o_rest, e_rest) = cat_files os paths in
      case file_data os path of
        None \<Rightarrow> (o_rest, ascii ''cat: '' @ ascii path @ ascii '': '' @ ascii (errno_text os) @ eol @ e_rest)
      | Some data \<Rightarrow> (copy_chunks data @ o_rest, e_rest))"

definition cmd_cat :: "guest_os \<Rightarrow> string list \<Rightarrow> tool_result" where
  "cmd_cat os argv =
     (if length argv < 2 then \<lparr>out = [], err = ascii ''usage: cat <file>...'' @ eol, status = 1\<rparr>
      else let (o_text, e_text) = cat_files os (tl argv) in \<lparr>out = o_text, err = e_text, status = 0\<rparr>)"

definition list_dir :: "guest_os \<Rightarrow> string \<Rightarrow> tool_result" where
  "list_dir os path =
     (case dir_entries os path of
        None \<Rightarrow> \<lparr>out = [], err = ascii ''ls: '' @ ascii path @ ascii '': '' @ ascii (errno_text os) @ eol, status = 1\<rparr>
      | Some names \<Rightarrow>
          \<lparr>out = concat (map (\<lambda>n. if n = ''.'' \<or> n = ''..'' then [] else ascii n @ eol) names), err = [], status = 0\<rparr>)"

fun ls_paths :: "guest_os \<Rightarrow> bool \<Rightarrow> string list \<Rightarrow> tool_result" where
  "ls_paths os several [] = \<lparr>out = [], err = [], status = 0\<rparr>"
| "ls_paths os several (path # paths) =
     (let r = list_dir os path; rest = ls_paths os several paths in
      \<lparr>out = (if several then ascii path @ ascii '':'' @ eol else []) @ out r @
              (if several \<and> paths \<noteq> [] then eol else []) @ out rest,
       err = err r @ err rest,
       status = (if status r \<noteq> 0 then 1 else status rest)\<rparr>)"

definition cmd_ls :: "guest_os \<Rightarrow> string list \<Rightarrow> tool_result" where
  "cmd_ls os argv =
     (if length argv < 2 then list_dir os ''.'' else ls_paths os (length argv > 2) (tl argv))"

definition cmd_halt :: "guest_os \<Rightarrow> tool_end" where
  "cmd_halt os =
     (if reboot_ok os then Powered_off
      else Exited \<lparr>out = [], err = ascii ''reboot(RB_POWER_OFF): '' @ ascii (errno_text os) @ eol, status = 1\<rparr>)"

text \<open>What follows the last slash.\<close>

definition base_name :: "string \<Rightarrow> string" where
  "base_name path = rev (takeWhile (\<lambda>c. c \<noteq> CHR ''/'') (rev path))"

definition miniutils_main :: "guest_os \<Rightarrow> string list \<Rightarrow> tool_end" where
  "miniutils_main os argv =
     (let name = base_name (argv ! 0) in
      if name = ''uname'' then Exited (cmd_uname os argv)
      else if name = ''ls'' then Exited (cmd_ls os argv)
      else if name = ''cat'' then Exited (cmd_cat os argv)
      else if name = ''halt'' \<or> name = ''poweroff'' then cmd_halt os
      else Exited \<lparr>out = [], err = ascii ''miniutils: unknown applet '' @ [39] @ ascii name @ [39] @ eol, status = 127\<rparr>)"

lemma copy_chunks: "copy_chunks data = data"
proof (induction data rule: copy_chunks.induct)
  case (1 data)
  then show ?case by (subst copy_chunks.simps) (simp add: Let_def)
qed

lemma cat_files_text:
  "fst (cat_files os paths) = concat (List.map_filter (file_data os) paths)"
  by (induction paths) (auto simp: copy_chunks split: option.split prod.split)

lemma base_name_path: "CHR ''/'' \<notin> set name \<Longrightarrow> base_name (dir @ ''/'' @ name) = name"
  unfolding base_name_def by (simp add: takeWhile_append)

lemma base_name_plain: "CHR ''/'' \<notin> set name \<Longrightarrow> base_name name = name"
proof -
  assume "CHR ''/'' \<notin> set name"
  then have "takeWhile (\<lambda>c. c \<noteq> CHR ''/'') (rev name) = rev name"
    by (intro takeWhile_eq_all_conv[THEN iffD2]) auto
  then show ?thesis unfolding base_name_def by (simp only: rev_rev_ident)
qed

lemma ls_paths_status: "status (ls_paths os several paths) = (if \<exists>p \<in> set paths. dir_entries os p = None then 1 else 0)"
  by (induction paths) (auto simp: list_dir_def Let_def split: option.split)

section \<open>Properties\<close>



text \<open>
  Every message of init reaches the console in full when each \<^verbatim>\<open>write\<close> accepts at least a byte, however it
  splits the message; otherwise a beginning of the message does.
\<close>

theorem write_all_writes:
  shows "prefix (write_all wr k s) s" and "writes_progress wr \<Longrightarrow> write_all wr k s = s"
  by (rule write_all_prefix, rule write_all_complete)

text \<open>
  \<^verbatim>\<open>cat\<close> prints the files it can open, in order and in full, reports the others, and ends with status 0
  even then.
\<close>

theorem cat_prints:
  "\<exists>e. miniutils_main os ((dir @ ''/cat'') # paths) =
    Exited \<lparr>out = concat (List.map_filter (file_data os) paths), err = e,
      status = (if paths = [] then 1 else 0)\<rparr>"
  using base_name_path[of "''cat''" dir] cat_files_text[of os paths]
  by (cases "cat_files os paths") (auto simp: miniutils_main_def cmd_cat_def)

end
