(* ===== verification/Test_Kernel.thy ===== *)
theory Test_Kernel
  imports Vm_Exit Paging32
begin

text \<open>
  The test kernels of the 1K OS port (\<^verbatim>\<open>os-1k/test_kernel.c\<close>, \<^verbatim>\<open>os-1k/test_simple.c\<close>): what they print
  and store, and the exits they cause, run on the page tables and the exit handler of the VMM.
  Addresses the linker decides are parameters.
\<close>

section \<open>Hypercalls\<close>

text \<open>The registers at the \<^verbatim>\<open>outb\<close>: the assembly sets BL, AL and DX and leaves the other bits alone.\<close>

definition putchar_regs :: "kvm_regs \<Rightarrow> u8 \<Rightarrow> kvm_regs" where
  "putchar_regs r c =
     r\<lparr>rbx := (rbx r AND NOT 0xFF) OR ucast c, rax := (rax r AND NOT 0xFF) OR 1,
       rdx := (rdx r AND NOT 0xFFFF) OR 0x500\<rparr>"

definition hypercall_putchar :: "kvm_regs \<Rightarrow> u8 \<Rightarrow> kvm_env \<times> kvm_exit" where
  "hypercall_putchar r c =
     (\<lparr>env_regs = Some (putchar_regs r c), env_sregs = None, env_debug_ok = True\<rparr>,
      KVM_EXIT_IO \<lparr>io_direction = KVM_EXIT_IO_OUT, io_size = 1, io_port = 0x500, io_data = [1]\<rparr>)"

text \<open>What a kernel that prints a text and halts makes \<^verbatim>\<open>KVM_RUN\<close> return.\<close>

definition kernel_exits :: "kvm_regs \<Rightarrow> u8 list \<Rightarrow> (kvm_env \<times> kvm_exit) option list" where
  "kernel_exits r out =
     map (Some \<circ> hypercall_putchar r) out @
     [Some (\<lparr>env_regs = Some r, env_sregs = None, env_debug_ok = True\<rparr>, KVM_EXIT_HLT)]"

section \<open>Printing\<close>

text \<open>\<^verbatim>\<open>puts\<close> on an array of characters that contains a terminator.\<close>

fun puts :: "u8 list \<Rightarrow> u8 list option" where
  "puts [] = None"
| "puts (c # cs) = (if c = 0 then Some [] else map_option (Cons c) (puts cs))"

definition test_print_hex :: "u32 \<Rightarrow> u8 list option" where
  "test_print_hex v =
     puts (snd (fold (\<lambda>i (v, buf). (drop_bit 4 v, buf[i := ascii ''0123456789ABCDEF'' ! unat (v AND 0xF)]))
       [9, 8, 7, 6, 5, 4, 3, 2] (v, ascii ''0x00000000'' @ [0])))"

definition hex_upper :: "nat \<Rightarrow> u8" where
  "hex_upper n = word_of_nat (if n < 10 then 48 + n else 55 + n)"

definition hex_word :: "u32 \<Rightarrow> u8 list" where
  "hex_word v = ascii ''0x'' @ map (\<lambda>i. hex_upper (unat v div 16 ^ i mod 16)) [7, 6, 5, 4, 3, 2, 1, 0]"

section \<open>The page allocator\<close>

text \<open>The allocator of the test kernel is set up to the first page boundary and never used.\<close>

record page_allocator =
  free_ram_start :: u32
  free_ram_end :: u32
  next_page :: u32
  pages_allocated :: u32

definition init_page_allocator :: "u32 \<Rightarrow> u32 \<Rightarrow> page_allocator" where
  "init_page_allocator free_ram free_ram_e =
     \<lparr>free_ram_start = free_ram, free_ram_end = free_ram_e,
      next_page = (free_ram + 4096 - 1) AND NOT (4096 - 1), pages_allocated = 0\<rparr>"

section \<open>The kernels\<close>

text \<open>Accesses through the page tables; \<open>None\<close> is a page fault, which no handler serves.\<close>

definition vm_store32 :: "u32 \<Rightarrow> gmem \<Rightarrow> u32 \<Rightarrow> u32 \<Rightarrow> gmem option" where
  "vm_store32 cr3_v m va w = Option.bind (translate m cr3_v va) (\<lambda>pa. store32 m pa w)"

definition vm_load32 :: "u32 \<Rightarrow> gmem \<Rightarrow> u32 \<Rightarrow> u32 option" where
  "vm_load32 cr3_v m va = Option.bind (translate m cr3_v va) (load32 m)"

abbreviation newline :: "u8 list" where "newline \<equiv> [10]"

definition lit :: "u8 list \<Rightarrow> u8 list option" where
  "lit s = puts (s @ [0])"

definition test_memory :: "u32 \<Rightarrow> gmem \<Rightarrow> (gmem \<times> u8 list) option" where
  "test_memory cr3_v m =
     do {
       t1 \<leftarrow> lit (ascii ''Testing memory access...'' @ newline);
       m \<leftarrow> vm_store32 cr3_v m 0x80010000 0xDEADBEEF;
       w \<leftarrow> vm_load32 cr3_v m 0x80010000;
       t2 \<leftarrow> (if w = 0xDEADBEEF
              then lit (ascii ''Memory test passed: 0x80010000 is writable'' @ newline)
              else lit (ascii ''Memory test FAILED'' @ newline));
       Some (m, t1 @ t2)
     }"

record kernel_symbols =
  sym_bss :: u32
  sym_bss_end :: u32
  sym_free_ram :: u32
  sym_free_ram_end :: u32

definition kernel_banner :: "kernel_symbols \<Rightarrow> u8 list option" where
  "kernel_banner K =
     do {
       t1 \<leftarrow> lit newline;
       t2 \<leftarrow> lit (ascii ''=== 1K OS x86 Test Kernel ==='' @ newline);
       t3 \<leftarrow> lit (ascii ''Protected Mode with Paging Enabled'' @ newline @ newline);
       t4 \<leftarrow> lit (ascii ''Kernel base:   '');
       h1 \<leftarrow> test_print_hex 0x80001000;
       t5 \<leftarrow> lit newline;
       t6 \<leftarrow> lit (ascii ''BSS start:     '');
       h2 \<leftarrow> test_print_hex (sym_bss K);
       t7 \<leftarrow> lit newline;
       t8 \<leftarrow> lit (ascii ''BSS end:       '');
       h3 \<leftarrow> test_print_hex (sym_bss_end K);
       t9 \<leftarrow> lit newline;
       t10 \<leftarrow> lit (ascii ''Free RAM:      '');
       h4 \<leftarrow> test_print_hex (sym_free_ram K);
       t11 \<leftarrow> lit (ascii '' - '');
       h5 \<leftarrow> test_print_hex (sym_free_ram_end K);
       t12 \<leftarrow> lit (newline @ newline);
       Some (t1 @ t2 @ t3 @ t4 @ h1 @ t5 @ t6 @ h2 @ t7 @ t8 @ h3 @ t9 @ t10 @ h4 @ t11 @ h5 @ t12)
     }"

text \<open>\<^verbatim>\<open>kernel_main\<close> up to the \<^verbatim>\<open>hlt\<close>: the memory it leaves and what it prints.\<close>

definition test_kernel_main :: "kernel_symbols \<Rightarrow> u32 \<Rightarrow> gmem \<Rightarrow> (gmem \<times> u8 list) option" where
  "test_kernel_main K cr3_v m =
     do {
       t1 \<leftarrow> kernel_banner K;
       (m, t2) \<leftarrow> test_memory cr3_v m;
       t3 \<leftarrow> lit (newline @ ascii ''Test kernel completed successfully!'' @ newline);
       t4 \<leftarrow> lit (ascii ''Halting CPU...'' @ newline);
       Some (m, t1 @ t2 @ t3 @ t4)
     }"

definition test_simple_main :: "u8 list" where
  "test_simple_main = [72, 105, 10]"

section \<open>Lemmas\<close>

lemma puts_terminated: "0 \<notin> set s \<Longrightarrow> puts (s @ 0 # r) = Some s"
  by (induction s) auto

lemma lit_text: "0 \<notin> set s \<Longrightarrow> lit s = Some s"
  by (simp add: lit_def puts_terminated)

lemma hex_upper_table: "n < 16 \<Longrightarrow> ascii ''0123456789ABCDEF'' ! n = hex_upper n"
  by (auto simp: less_Suc_eq numeral_eq_Suc ascii_def hex_upper_def)

lemma hex_upper_not_0: "n < 16 \<Longrightarrow> hex_upper n \<noteq> 0"
  by (rule notI, drule arg_cong[of _ _ unat]) (simp add: hex_upper_def unat_of_nat split: if_splits)

lemma nibble: "unat (drop_bit (4 * i) v AND 0xF :: u32) = unat v div 16 ^ i mod 16"
proof -
  have "drop_bit (4 * i) v AND 0xF = take_bit 4 (drop_bit (4 * i) v)"
    by (simp add: take_bit_eq_mask mask_eq_exp_minus_1)
  then have "unat (drop_bit (4 * i) v AND 0xF) = unat v div 2 ^ (4 * i) mod 16"
    by (simp only: unsigned_take_bit_eq unat_drop_div) (simp add: take_bit_eq_mod)
  also have "(2 :: nat) ^ (4 * i) = (2 ^ 4) ^ i" by (rule power_mult)
  finally show ?thesis by simp
qed

lemma print_hex_word: "test_print_hex v = Some (hex_word v)"
proof -
  let ?d = "\<lambda>i. ascii ''0123456789ABCDEF'' ! unat (drop_bit (4 * i) v AND 0xF)"
  have d: "?d i = hex_upper (unat v div 16 ^ i mod 16)" for i
    unfolding nibble by (rule hex_upper_table) simp
  have "snd (fold (\<lambda>i (v, buf). (drop_bit 4 v, buf[i := ascii ''0123456789ABCDEF'' ! unat (v AND 0xF)]))
      [9, 8, 7, 6, 5, 4, 3, 2] (v, ascii ''0x00000000'' @ [0])) =
    ascii ''0x'' @ map ?d [7, 6, 5, 4, 3, 2, 1, 0] @ [0]"
    by (simp add: ascii_def del: unsigned_and_eq)
  also have "\<dots> = hex_word v @ [0]" unfolding hex_word_def d by simp
  finally have "test_print_hex v = puts (hex_word v @ 0 # [])" by (simp add: test_print_hex_def)
  also have "\<dots> = Some (hex_word v)"
  proof (rule puts_terminated)
    have "0 \<notin> set (ascii ''0x'')" by (simp add: ascii_def)
    then show "0 \<notin> set (hex_word v)"
      unfolding hex_word_def by (auto dest!: sym[of 0] simp: hex_upper_not_0)
  qed
  finally show ?thesis .
qed

lemma init_page_allocator_aligned:
  fixes f e :: u32
  assumes "unat f + 4095 < 2 ^ 32"
  defines "p \<equiv> next_page (init_page_allocator f e)"
  shows "4096 dvd unat p" and "unat f \<le> unat p" and "unat p < unat f + 4096"
proof -
  have m: "(4096 - 1 :: u32) = mask 12" "f + 4096 - 1 = f + 4095" by (simp_all add: mask_eq_exp_minus_1)
  have "p = (f + 4096 - 1) AND NOT (4096 - 1)" unfolding p_def init_page_allocator_def by simp
  also have "\<dots> = (f + 4095) AND NOT (mask 12)" unfolding m ..
  also have "\<dots> = push_bit 12 (drop_bit 12 (f + 4095))"
    by (rule bit_word_eqI) (auto simp: bit_simps)
  also have "\<dots> = drop_bit 12 (f + 4095) * 4096" by (simp add: push_bit_eq_mult)
  finally have "unat p = unat (f + 4095) div 4096 * 4096 mod 2 ^ 32"
    by (simp add: unat_word_ariths unat_drop_div)
  moreover have "unat (f + 4095) div 4096 * 4096 < 2 ^ 32"
    using unat_less_2p32[of "f + 4095"] by (intro le_less_trans[OF div_times_less_eq_dividend]) simp
  ultimately have "unat p = unat (f + 4095) div 4096 * 4096" by simp
  moreover have "unat (f + 4095) = unat f + 4095" using assms(1) by (simp add: unat_word_ariths)
  ultimately have "unat p = (unat f + 4095) div 4096 * 4096" by simp
  then show "4096 dvd unat p" "unat f \<le> unat p" "unat p < unat f + 4096"
    using div_mult_mod_eq[of "unat f + 4095" 4096] mod_less_divisor[of 4096 "unat f + 4095"] by simp_all
qed

section \<open>Running on the VMM\<close>

text \<open>What the test kernel prints.\<close>

definition banner_text :: "kernel_symbols \<Rightarrow> u8 list" where
  "banner_text K =
     newline @ ascii ''=== 1K OS x86 Test Kernel ==='' @ newline @
     ascii ''Protected Mode with Paging Enabled'' @ newline @ newline @
     ascii ''Kernel base:   '' @ hex_word 0x80001000 @ newline @
     ascii ''BSS start:     '' @ hex_word (sym_bss K) @ newline @
     ascii ''BSS end:       '' @ hex_word (sym_bss_end K) @ newline @
     ascii ''Free RAM:      '' @ hex_word (sym_free_ram K) @ ascii '' - '' @ hex_word (sym_free_ram_end K) @
     newline @ newline"

definition passed_text :: "u8 list" where
  "passed_text =
     ascii ''Testing memory access...'' @ newline @
     ascii ''Memory test passed: 0x80010000 is writable'' @ newline @
     newline @ ascii ''Test kernel completed successfully!'' @ newline @
     ascii ''Halting CPU...'' @ newline"

lemma literals:
  "lit newline = Some newline"
  "lit (newline @ newline) = Some (newline @ newline)"
  "lit (ascii ''=== 1K OS x86 Test Kernel ==='' @ newline) = Some (ascii ''=== 1K OS x86 Test Kernel ==='' @ newline)"
  "lit (ascii ''Protected Mode with Paging Enabled'' @ newline @ newline) =
     Some (ascii ''Protected Mode with Paging Enabled'' @ newline @ newline)"
  "lit (ascii ''Kernel base:   '') = Some (ascii ''Kernel base:   '')"
  "lit (ascii ''BSS start:     '') = Some (ascii ''BSS start:     '')"
  "lit (ascii ''BSS end:       '') = Some (ascii ''BSS end:       '')"
  "lit (ascii ''Free RAM:      '') = Some (ascii ''Free RAM:      '')"
  "lit (ascii '' - '') = Some (ascii '' - '')"
  "lit (ascii ''Testing memory access...'' @ newline) = Some (ascii ''Testing memory access...'' @ newline)"
  "lit (ascii ''Memory test passed: 0x80010000 is writable'' @ newline) =
     Some (ascii ''Memory test passed: 0x80010000 is writable'' @ newline)"
  "lit (newline @ ascii ''Test kernel completed successfully!'' @ newline) =
     Some (newline @ ascii ''Test kernel completed successfully!'' @ newline)"
  "lit (ascii ''Halting CPU...'' @ newline) = Some (ascii ''Halting CPU...'' @ newline)"
  by (rule lit_text, code_simp)+

lemma kernel_banner_text: "kernel_banner K = Some (banner_text K)"
  by (simp only: kernel_banner_def literals print_hex_word bind.bind_lunit banner_text_def append_assoc)

lemma boot_store:
  assumes tables: "setup_page_tables ctx = Some (r, ctx')" "0 \<le> r"
    and sz: "gm_size (guest_mem ctx') = mem_size ctx"
  shows "\<exists>m'. test_memory (word_of_int r) (guest_mem ctx') = Some (m', ascii ''Testing memory access...'' @ newline @
      ascii ''Memory test passed: 0x80010000 is writable'' @ newline) \<and>
    store32 (guest_mem ctx') 0x10000 0xDEADBEEF = Some m'"
proof -
  let ?m = "guest_mem ctx'" and ?va = "0x80010000 :: u32"
  have r: "\<not> mem_size ctx \<le> 0x103000" "word_of_int r = (0x100000 :: u32)"
    using tables by (auto simp: setup_page_tables_def page_offsets bind_eq_Some_conv split: if_splits)
  have w: "walk_page_tables_32bit ?m (word_of_int r) ?va = Some (Physical 0x10000)"
    using boot_tables_kernel(2)[OF tables, of "0x10000"] by simp
  obtain m' where m': "store32 ?m 0x10000 0xDEADBEEF = Some m'"
    using store_defined(1)[of "0x10000" ?m "0xDEADBEEF"] sz r(1) by auto
  have ix: "pd_index ?va = 512" "pt_index ?va = 16" by (simp_all add: pd_index_def pt_index_def)
  have pde: "load32 ?m (0x100000 + 4 * 512) = Some 0x102003"
    using setup_page_tables_contents(1)[OF tables(1) r(1), of 512] by simp
  have "walk_page_tables_32bit m' (word_of_int r) ?va = walk_page_tables_32bit ?m (word_of_int r) ?va"
    by (rule walk_cong; unfold ix r(2)) (use pde load32_store32_other[OF m'] in simp_all)
  then have "vm_load32 (word_of_int r) m' ?va = Some 0xDEADBEEF"
    using w load32_store32[OF m'] by (simp add: vm_load32_def translate_def)
  moreover have "vm_store32 (word_of_int r) ?m ?va 0xDEADBEEF = Some m'" using w m' by (simp add: vm_store32_def translate_def)
  ultimately show ?thesis
    unfolding test_memory_def literals using m' by simp
qed

text \<open>The exits of one character.\<close>

lemma low_byte:
  "(ucast ((x AND - 256 OR ucast (c :: u8)) AND 255 :: u64) :: u8) = c"
proof -
  have m: "(255 :: u64) = mask 8" "(- 256 :: u64) = NOT (mask 8)" by (simp_all add: mask_eq_exp_minus_1)
  show ?thesis unfolding m by (intro bit_word_eqI) (auto simp: bit_simps)
qed

lemma putchar_exit_served:
  assumes "\<not> linux_guest ctx" "num_vcpus d \<le> 1" "\<not> singlestep_paused ctx"
    and "hypercall_putchar r c = (env, ex)"
  shows "handle_vm_exit env ex ctx d =
    Some (0, ex, ctx\<lparr>exit_count := exit_count ctx + 1\<rparr>, d\<lparr>console := console d @ [c]\<rparr>)"
proof -
  have one: "(ucast ((rax r AND - 256 OR 1) AND 255 :: u64) :: u8) = 1"
    using low_byte[of "rax r" 1] by simp
  show ?thesis
    using assms by (auto simp: hypercall_putchar_def handle_vm_exit_def resume_singlestep_def handle_io_def
        putchar_regs_def hc_defs handle_hypercall_out_def one low_byte vcpu_putchar_def Let_def)
qed

lemma kernel_exits_run:
  assumes "running ctx" "\<not> linux_guest ctx" "num_vcpus d \<le> 1" "\<not> singlestep_paused ctx"
  shows "vcpu_thread (kernel_exits r out) ctx d =
    Some (Thread_done, ctx\<lparr>exit_count := exit_count ctx + int (length out) + 1, running := False\<rparr>,
      d\<lparr>console := console d @ out\<rparr>)"
  using assms
proof (induction out arbitrary: ctx d)
  case Nil
  then show ?case by (simp add: kernel_exits_def handle_vm_exit_def resume_singlestep_def)
next
  case (Cons c out)
  obtain env ex where e: "hypercall_putchar r c = (env, ex)" by (cases "hypercall_putchar r c")
  have "vcpu_thread (kernel_exits r (c # out)) ctx d =
      vcpu_thread (kernel_exits r out) (ctx\<lparr>exit_count := exit_count ctx + 1\<rparr>) (d\<lparr>console := console d @ [c]\<rparr>)"
    using Cons.prems(1) putchar_exit_served[OF Cons.prems(2-4) e] by (simp add: kernel_exits_def e)
  also have "\<dots> = Some (Thread_done,
      ctx\<lparr>exit_count := exit_count ctx + int (length (c # out)) + 1, running := False\<rparr>,
      d\<lparr>console := console d @ c # out\<rparr>)"
    using Cons.prems by (subst Cons.IH) simp_all
  finally show ?case .
qed

section \<open>Properties\<close>

text \<open>
  C40: the test kernel passes on the VMM. With the page tables of the VMM its store to 0x80010000 changes
  the word at 0x10000 of guest memory and nothing else, it reads the value back, and the thread of its vCPU
  ends normally with the report on the console.
\<close>

theorem test_kernel_passes:
  assumes "setup_page_tables ctx = Some (r, ctx')" and "0 \<le> r" and "gm_size (guest_mem ctx') = mem_size ctx"
    and "running ctx'" and "\<not> linux_guest ctx'" and "num_vcpus d \<le> 1" and "\<not> singlestep_paused ctx'"
  shows "\<exists>m'. test_kernel_main K (word_of_int r) (guest_mem ctx') = Some (m', banner_text K @ passed_text) \<and>
    gm_write (guest_mem ctx') 0x10000 [0xEF, 0xBE, 0xAD, 0xDE] = Some m' \<and>
    (\<exists>ctx2 d'. vcpu_thread (kernel_exits regs (banner_text K @ passed_text)) ctx' d = Some (Thread_done, ctx2, d') \<and>
       console d' = console d @ banner_text K @ passed_text \<and> \<not> running ctx2)"
proof -
  obtain m' where m': "test_memory (word_of_int r) (guest_mem ctx') =
      Some (m', ascii ''Testing memory access...'' @ newline @
        ascii ''Memory test passed: 0x80010000 is writable'' @ newline)"
    "store32 (guest_mem ctx') 0x10000 0xDEADBEEF = Some m'"
    using boot_store[OF assms(1-3)] by blast
  have "test_kernel_main K (word_of_int r) (guest_mem ctx') = Some (m', banner_text K @ passed_text)"
    unfolding test_kernel_main_def kernel_banner_text m'(1) literals bind.bind_lunit prod.case passed_text_def
    by (simp only: append_assoc)
  moreover have "le_bytes 4 (0xDEADBEEF :: u32) = [0xEF, 0xBE, 0xAD, 0xDE]"
    by code_simp
  ultimately show ?thesis
    using m'(2) kernel_exits_run[OF assms(4-7)] by (simp add: store32_def)
qed

definition test_symbols :: kernel_symbols where
  "test_symbols = \<lparr>sym_bss = 0x80003000, sym_bss_end = 0x80004000, sym_free_ram = 0x80005000,
     sym_free_ram_end = 0x80305000\<rparr>"

theorem test_kernel_passes_witness:
  "\<exists>r ctx' m'. setup_page_tables (boot_ctx\<lparr>running := True\<rparr>) = Some (r, ctx') \<and>
     test_kernel_main test_symbols (word_of_int r) (guest_mem ctx') =
       Some (m', banner_text test_symbols @ passed_text)"
proof -
  let ?c = "boot_ctx\<lparr>running := True\<rparr>"
  obtain r ctx' where run: "setup_page_tables ?c = Some (r, ctx')"
    using setup_page_tables_defined[of ?c] by (auto simp: boot_ctx_def)
  obtain m where m: "ctx' = ?c\<lparr>guest_mem := m\<rparr>" "0 \<le> r" "gm_size m = gm_size (guest_mem ?c)"
    using run by (auto simp: setup_page_tables_def page_offsets boot_ctx_def bind_eq_Some_conv
        gm_fill_size store32_size store32_table_size)
  have "gm_size (guest_mem ctx') = mem_size ?c" "running ctx'" "\<not> linux_guest ctx'" "\<not> singlestep_paused ctx'"
    "num_vcpus vmm_dev_init \<le> 1"
    using m by (simp_all add: boot_ctx_def zero_context_def vmm_dev_init_def)
  from test_kernel_passes[OF run m(2) this(1-3,5,4), of test_symbols] run show ?thesis by blast
qed

text \<open>The smallest kernel prints its greeting and halts.\<close>

theorem test_simple_greets:
  assumes "running ctx" "\<not> linux_guest ctx" "num_vcpus d \<le> 1" "\<not> singlestep_paused ctx"
  shows "\<exists>ctx' d'. vcpu_thread (kernel_exits regs test_simple_main) ctx d = Some (Thread_done, ctx', d') \<and>
    console d' = console d @ ascii ''Hi'' @ newline \<and> \<not> running ctx'"
  using kernel_exits_run[OF assms, of regs test_simple_main] by (simp add: test_simple_main_def ascii_def)

theorem test_simple_greets_witness:
  "\<exists>ctx' d'. vcpu_thread (kernel_exits zero_regs test_simple_main) sample_ctx vmm_dev_init = Some (Thread_done, ctx', d') \<and>
    console d' = ascii ''Hi'' @ newline"
proof -
  have "running sample_ctx" "\<not> linux_guest sample_ctx" "num_vcpus vmm_dev_init \<le> 1" "\<not> singlestep_paused sample_ctx"
    "console vmm_dev_init = []"
    by (simp_all add: sample_ctx_def zero_context_def vmm_dev_init_def)
  then show ?thesis using test_simple_greets[of sample_ctx vmm_dev_init zero_regs] by auto
qed

end
