(* ===== verification/Test_Long_Mode.thy ===== *)
theory Test_Long_Mode
  imports Paging64 Descriptors
begin

text \<open>
  The stand-alone test of long mode (\<^verbatim>\<open>test_long_mode.c\<close>): the page tables and descriptors it writes, the four
  register states it offers KVM, and how it ends. KVM is a parameter: which of the first calls succeed, and what
  \<^verbatim>\<open>KVM_SET_SREGS\<close> makes of the current and the requested state, \<open>None\<close> when it refuses. Messages are not
  modelled.
\<close>

section \<open>The program\<close>

record test_host =
  th_open_ok :: bool
  th_vm_ok :: bool
  th_mmap_ok :: bool
  th_region_ok :: bool
  th_vcpu_ok :: bool
  th_sregs :: "kvm_sregs option"
  th_set :: "kvm_sregs \<Rightarrow> kvm_sregs \<Rightarrow> kvm_sregs option"

definition test_page_tables :: "gmem \<Rightarrow> gmem option" where
  "test_page_tables m =
     do {
       m \<leftarrow> gm_fill m 0x2000 0 0x3000;
       m \<leftarrow> store64 m 0x2000 0x3003;
       m \<leftarrow> store64 m 0x3000 0x4003;
       m \<leftarrow> store64 m 0x4000 0x83;
       store64 m (0x4000 + 8) 0x200083
     }"

definition test_gdt :: "gmem \<Rightarrow> gmem option" where
  "test_gdt m =
     do {
       m \<leftarrow> store64 m 0x1000 0;
       m \<leftarrow> store64 m (0x1000 + 8) 0x00af9a000000ffff;
       store64 m (0x1000 + 16) 0x00cf92000000ffff
     }"

text \<open>The states of the four tests, each made from the current one.\<close>

definition lme_only :: "kvm_sregs \<Rightarrow> kvm_sregs" where
  "lme_only s = s\<lparr>efer := push_bit 8 1, cr4 := 0x20\<rparr>"

definition with_paging :: "kvm_sregs \<Rightarrow> kvm_sregs" where
  "with_paging s = s\<lparr>cr3 := 0x2000, cr4 := 0x20, efer := push_bit 8 1, cr0 := 0x80000011\<rparr>"

definition code64 :: "kvm_segment \<Rightarrow> kvm_segment" where
  "code64 s = s\<lparr>seg_selector := 0x08, seg_base := 0, seg_limit := 0xFFFFFFFF, seg_type := 0x0b, seg_present := 1,
     seg_dpl := 0, seg_db := 0, seg_s := 1, seg_l := 1, seg_g := 1\<rparr>"

definition data64 :: "kvm_segment \<Rightarrow> kvm_segment" where
  "data64 s = s\<lparr>seg_selector := 0x10, seg_base := 0, seg_limit := 0xFFFFFFFF, seg_type := 0x03, seg_present := 1,
     seg_dpl := 0, seg_db := 1, seg_s := 1, seg_l := 0, seg_g := 1\<rparr>"

definition with_code64 :: "kvm_sregs \<Rightarrow> kvm_sregs" where
  "with_code64 s = (with_paging s)\<lparr>s_cs := code64 (s_cs s)\<rparr>"

definition full_long_mode :: "kvm_sregs \<Rightarrow> kvm_sregs" where
  "full_long_mode s =
     (let s = (with_code64 s)\<lparr>s_gdt := \<lparr>dt_base = 0x1000, dt_limit = 0x17\<rparr>\<rparr>; ds = data64 (s_ds s)
      in s\<lparr>s_ds := ds, s_es := ds, s_ss := ds, s_fs := ds, s_gs := ds\<rparr>)"

text \<open>One test: whether it is reported as OK, and the registers of the vCPU after it.\<close>

definition try_sregs ::
  "(kvm_sregs \<Rightarrow> kvm_sregs \<Rightarrow> kvm_sregs option) \<Rightarrow> (kvm_sregs \<Rightarrow> kvm_sregs) \<Rightarrow> kvm_sregs \<Rightarrow> bool \<times> kvm_sregs" where
  "try_sregs set_sregs f cur =
     (case set_sregs cur (f cur) of None \<Rightarrow> (False, cur) | Some cur' \<Rightarrow> (True, cur'))"

text \<open>The exit status, the guest memory, and the results of the tests with the registers at the end.\<close>

definition test_long_mode_main :: "test_host \<Rightarrow> (nat \<times> gmem \<times> (bool list \<times> kvm_sregs) option) option" where
  "test_long_mode_main h =
     (let mem = \<lparr>gm_size = 4 * 1024 * 1024, gm_data = (\<lambda>_. 0)\<rparr> in
      if \<not> th_open_ok h \<or> \<not> th_vm_ok h \<or> \<not> th_mmap_ok h \<or> \<not> th_region_ok h \<or> \<not> th_vcpu_ok h
      then Some (1, mem, None)
      else do {
        mem \<leftarrow> test_page_tables mem;
        (case th_sregs h of
           None \<Rightarrow> Some (1, mem, None)
         | Some cur \<Rightarrow> do {
             let (ok1, cur) = try_sregs (th_set h) lme_only cur;
             let (ok2, cur) = try_sregs (th_set h) with_paging cur;
             let (ok3, cur) = try_sregs (th_set h) with_code64 cur;
             mem \<leftarrow> test_gdt mem;
             let (ok4, cur) = try_sregs (th_set h) full_long_mode cur;
             Some (0, mem, Some ([ok1, ok2, ok3, ok4], cur))
           })
      })"

section \<open>The tables\<close>

lemma test_page_tables_contents:
  assumes "test_page_tables m = Some m'" and "i < 512"
  shows "load64 m' (0x2000 + 8 * i) = Some (if i = 0 then 0x3003 else 0)"
    and "load64 m' (0x3000 + 8 * i) = Some (if i = 0 then 0x4003 else 0)"
    and "load64 m' (0x4000 + 8 * i) = Some (if i = 0 then 0x83 else if i = 1 then 0x200083 else 0)"
proof -
  obtain m1 m2 m3 m4 where s: "gm_fill m 0x2000 0 0x3000 = Some m1" "store64 m1 0x2000 0x3003 = Some m2"
    "store64 m2 0x3000 0x4003 = Some m3" "store64 m3 0x4000 0x83 = Some m4" "store64 m4 0x4008 0x200083 = Some m'"
    using assms(1) by (auto simp: test_page_tables_def bind_eq_Some_conv)
  have zero: "load64 m1 (0x2000 + 8 * k) = Some 0" if "k < 0x600" for k
    by (rule load64_fill0[OF s(1)]) (use that in simp_all)
  have "load64 m' (0x2000 + 8 * k) =
      Some (if k = 0 then 0x3003 else if k = 512 then 0x4003 else if k = 1024 then 0x83
            else if k = 1025 then 0x200083 else 0)" if k: "k < 0x600" for k
  proof -
    have other: "k = j \<or> (0x2000 + 8 * j) + 8 \<le> 0x2000 + 8 * k \<or> 0x2000 + 8 * k + 8 \<le> 0x2000 + 8 * j" for j :: nat
      by linarith
    show ?thesis
      using zero[OF k] load64_store64[OF s(2)] load64_store64[OF s(3)] load64_store64[OF s(4)] load64_store64[OF s(5)]
        load64_store64_other[OF s(2), of "0x2000 + 8 * k"] load64_store64_other[OF s(3), of "0x2000 + 8 * k"]
        load64_store64_other[OF s(4), of "0x2000 + 8 * k"] load64_store64_other[OF s(5), of "0x2000 + 8 * k"]
        other[of 0] other[of 512] other[of 1024] other[of 1025]
      by (cases "k = 0"; cases "k = 512"; cases "k = 1024"; cases "k = 1025") auto
  qed
  note L = this
  show "load64 m' (0x2000 + 8 * i) = Some (if i = 0 then 0x3003 else 0)" using L[of i] assms(2) by simp
  show "load64 m' (0x3000 + 8 * i) = Some (if i = 0 then 0x4003 else 0)"
    using L[of "512 + i"] assms(2) by (simp add: add.assoc[symmetric])
  show "load64 m' (0x4000 + 8 * i) = Some (if i = 0 then 0x83 else if i = 1 then 0x200083 else 0)"
    using L[of "1024 + i"] assms(2) by (simp add: add.assoc[symmetric])
qed

text \<open>The two pages, put together from the entry and the offset as the walk does.\<close>

lemma page_of_entry:
  assumes "drop_bit 21 va = w" and "e AND NOT 0x1FFFFF = push_bit 21 w"
  shows "(e AND NOT 0x1FFFFF) OR (va AND 0x1FFFFF) = (va :: u64)"
proof -
  have m: "(0x1FFFFF :: u64) = mask 21" by (simp add: mask_eq_exp_minus_1)
  have "push_bit 21 (drop_bit 21 va) OR take_bit 21 va = va"
    by (rule bit_word_eqI) (auto simp: bit_simps)
  then show ?thesis using assms by (simp add: m take_bit_eq_mask)
qed

lemma test_walk:
  assumes "test_page_tables m = Some m'"
  shows "verify_page_tables_64bit m' va =
    Some (if unat (VA_PML4_INDEX va) \<noteq> 0 then PML4_Not_Present
          else if unat (VA_PDPT_INDEX va) \<noteq> 0 then PDPT_Not_Present
          else if unat (VA_PD_INDEX va) < 2
          then Page_2M (((if unat (VA_PD_INDEX va) = 0 then 0x83 else 0x200083) AND NOT 0x1FFFFF) OR (va AND 0x1FFFFF))
          else PD_Not_Present)"
proof -
  note c = test_page_tables_contents[OF assms]
  let ?i = "unat (VA_PML4_INDEX va)" and ?j = "unat (VA_PDPT_INDEX va)" and ?k = "unat (VA_PD_INDEX va)"
  have l: "load64 m' (unat GUEST_64_PML4_ADDR + 8 * ?i) = Some (if ?i = 0 then 0x3003 else 0)"
    "load64 m' (0x3000 + 8 * ?j) = Some (if ?j = 0 then 0x4003 else 0)"
    "load64 m' (0x4000 + 8 * ?k) = Some (if ?k = 0 then 0x83 else if ?k = 1 then 0x200083 else 0)"
    using c[OF va_index_less(1)] c[OF va_index_less(2)] c[OF va_index_less(3)]
    by (simp_all add: GUEST_64_PML4_ADDR_def)
  have p: "(0x3003 :: u64) AND PTE_PRESENT \<noteq> 0" "unat ((0x3003 :: u64) AND PTE_ADDR_MASK) = 0x3000"
    "(0x4003 :: u64) AND PTE_PRESENT \<noteq> 0" "unat ((0x4003 :: u64) AND PTE_ADDR_MASK) = 0x4000"
    "(0x83 :: u64) AND PTE_PRESENT \<noteq> 0" "(0x83 :: u64) AND PTE_PSE \<noteq> 0"
    "(0x200083 :: u64) AND PTE_PRESENT \<noteq> 0" "(0x200083 :: u64) AND PTE_PSE \<noteq> 0"
    by (simp_all add: pte_defs)
  have two: "n < 2 \<longleftrightarrow> n = 0 \<or> n = 1" for n :: nat by auto
  show ?thesis
    unfolding verify_page_tables_64bit_def Let_def l two using p l(2,3)
    by (cases "?i = 0"; cases "?j = 0"; cases "?k = 0"; cases "?k = 1") simp_all
qed

text \<open>
  The tables of the long-mode test map the 4 MB of its guest memory to themselves and no other address of
  the 48-bit space.
\<close>

theorem test_tables_identity:
  assumes "test_page_tables m = Some m'" and "unat va < 2 ^ 48"
  shows "(verify_page_tables_64bit m' va = Some (Page_2M va) \<longleftrightarrow> unat va < 4 * 1024 * 1024) \<and>
         (4 * 1024 * 1024 \<le> unat va \<longrightarrow>
            verify_page_tables_64bit m' va \<in> {Some PML4_Not_Present, Some PDPT_Not_Present, Some PD_Not_Present})"
proof (cases "unat va < 4 * 1024 * 1024")
  case True
  then have "unat va < 2 ^ 30" by simp
  note i = low_1g[OF this]
  have d: "unat va div 2 ^ 21 < 2" using True by simp
  have w: "drop_bit 21 va = word_of_nat (unat va div 2 ^ 21)"
    by (simp only: word_unat_eq_iff unat_drop_div64) (use d in \<open>simp add: unat_of_nat\<close>)
  have two: "n = 0 \<or> n = 1" if "n < 2" for n :: nat using that by auto
  have "verify_page_tables_64bit m' va = Some (Page_2M va)"
    using two[OF d]
  proof
    assume z: "unat va div 2 ^ 21 = 0"
    then have "drop_bit 21 va = 0" using w unfolding z by simp
    from page_of_entry[where e = "0x83", OF this] show ?thesis
      unfolding test_walk[OF assms(1)] i(1-3) z by simp
  next
    assume z: "unat va div 2 ^ 21 = 1"
    then have "drop_bit 21 va = 1" using w unfolding z by simp
    from page_of_entry[where e = "0x200083", OF this] show ?thesis
      unfolding test_walk[OF assms(1)] i(1-3) z by simp
  qed
  then show ?thesis using True by simp
next
  case False
  have "\<not> (unat (VA_PML4_INDEX va) = 0 \<and> unat (VA_PDPT_INDEX va) = 0 \<and> unat (VA_PD_INDEX va) < 2)"
  proof
    assume a: "unat (VA_PML4_INDEX va) = 0 \<and> unat (VA_PDPT_INDEX va) = 0 \<and> unat (VA_PD_INDEX va) < 2"
    then have "unat va div 2 ^ 21 < 2"
      using low_1g(3)[OF upper_indices[OF assms(2)]] by simp
    then show False using False by simp
  qed
  then show ?thesis using False unfolding test_walk[OF assms(1)] by auto
qed

text \<open>The tables can be written: at address 0x234567 of the test's guest memory.\<close>

lemma test_memory_written:
  "\<exists>m. test_page_tables \<lparr>gm_size = 4 * 1024 * 1024, gm_data = (\<lambda>_. 0)\<rparr> = Some m"
  by (simp add: test_page_tables_def gm_fill_def store64_def)

theorem test_tables_identity_witness:
  "\<exists>m. test_page_tables \<lparr>gm_size = 4 * 1024 * 1024, gm_data = (\<lambda>_. 0)\<rparr> = Some m \<and>
     verify_page_tables_64bit m 0x234567 = Some (Page_2M 0x234567)"
  using test_memory_written test_tables_identity[of _ _ "0x234567"] by auto

section \<open>The descriptors\<close>

lemma gm_read_store64: "store64 m a w = Some m' \<Longrightarrow> gm_read m' a 8 = Some (le_bytes 8 w)"
  using gm.rd_wr_same[of m a "le_bytes 8 w" m'] by (simp add: store64_def)

text \<open>
  The two descriptors are those of the segment registers the test sets, but for the accessed bit of the type,
  which the processor sets when it loads a segment.
\<close>

theorem test_gdt_segments:
  assumes "test_gdt m = Some m'"
  shows "map_option (segment_of_descriptor 0x08) (descriptor_at m' (s_gdt (full_long_mode s)) 0x08) =
           Some ((s_cs (full_long_mode s))\<lparr>seg_type := 0x0a, seg_avl := 0\<rparr>)"
    and "map_option (segment_of_descriptor 0x10) (descriptor_at m' (s_gdt (full_long_mode s)) 0x10) =
           Some ((s_ds (full_long_mode s))\<lparr>seg_type := 0x02, seg_avl := 0\<rparr>)"
proof -
  obtain m1 m2 where w: "store64 m 0x1000 0 = Some m1" "store64 m1 0x1008 0x00af9a000000ffff = Some m2"
    "store64 m2 0x1010 0x00cf92000000ffff = Some m'"
    using assms by (auto simp: test_gdt_def bind_eq_Some_conv)
  have r: "gm_read m' 0x1010 8 = Some (le_bytes 8 (0x00cf92000000ffff :: u64))"
    "gm_read m' 0x1008 8 = Some (le_bytes 8 (0x00af9a000000ffff :: u64))"
    using gm_read_store64[OF w(2)] gm_read_store64[OF w(3)] store_frame(3)[OF w(3), of "0x1008" 8] by simp_all
  have b: "le_bytes 8 (0x00af9a000000ffff :: u64) = [0xff, 0xff, 0, 0, 0, 0x9a, 0xaf, 0]"
    "le_bytes 8 (0x00cf92000000ffff :: u64) = [0xff, 0xff, 0, 0, 0, 0x92, 0xcf, 0]"
    by code_simp+
  have d: "descriptor_at m' (s_gdt (full_long_mode s)) 0x08 = Some [0xff, 0xff, 0, 0, 0, 0x9a, 0xaf, 0]"
    "descriptor_at m' (s_gdt (full_long_mode s)) 0x10 = Some [0xff, 0xff, 0, 0, 0, 0x92, 0xcf, 0]"
    using r by (simp_all add: descriptor_at_def full_long_mode_def Let_def b)
  have c: "s_cs (full_long_mode s) = code64 (s_cs s)" "s_ds (full_long_mode s) = data64 (s_ds s)"
    by (simp_all add: full_long_mode_def with_code64_def with_paging_def Let_def)
  show "map_option (segment_of_descriptor 0x08) (descriptor_at m' (s_gdt (full_long_mode s)) 0x08) =
      Some ((s_cs (full_long_mode s))\<lparr>seg_type := 0x0a, seg_avl := 0\<rparr>)"
    unfolding d c by (simp add: segment_of_descriptor_def code64_def)
  show "map_option (segment_of_descriptor 0x10) (descriptor_at m' (s_gdt (full_long_mode s)) 0x10) =
      Some ((s_ds (full_long_mode s))\<lparr>seg_type := 0x02, seg_avl := 0\<rparr>)"
    unfolding d c by (simp add: segment_of_descriptor_def data64_def)
qed

section \<open>The end\<close>

text \<open>
  The test exits with 0 as soon as it has a vCPU with readable registers, whatever \<^verbatim>\<open>KVM_SET_SREGS\<close> answers: all
  four states may be refused.
\<close>

theorem test_long_mode_status:
  "map_option fst (test_long_mode_main h) =
     Some (if th_open_ok h \<and> th_vm_ok h \<and> th_mmap_ok h \<and> th_region_ok h \<and> th_vcpu_ok h \<and> th_sregs h \<noteq> None
           then 0 else 1)"
proof -
  let ?m = "\<lparr>gm_size = 4 * 1024 * 1024, gm_data = (\<lambda>_. 0)\<rparr> :: gmem"
  have tables: "\<exists>m'. test_page_tables m = Some m' \<and> gm_size m' = gm_size m" if "0x5000 \<le> gm_size m" for m
    using that by (simp add: test_page_tables_def gm_fill_def store64_def)
  have gdt: "\<exists>m'. test_gdt m = Some m'" if "0x2000 \<le> gm_size m" for m
    using that by (simp add: test_gdt_def store64_def)
  obtain m1 where m1: "test_page_tables ?m = Some m1" "gm_size m1 = 4 * 1024 * 1024"
    using tables[of ?m] by auto
  obtain m2 where m2: "test_gdt m1 = Some m2" using gdt[of m1] m1(2) by auto
  show ?thesis
    by (simp add: test_long_mode_main_def m1(1)[simplified] m2 Let_def split: option.split prod.split)
qed

end
