(* ===== verification/Spec2Isabelle.thy ===== *)
theory Spec2Isabelle
  imports Vmm_Cli Vmm_Lifecycle Os_Console Os_Kernel Vmm_Report Initramfs Test_Kernel Test_Long_Mode
begin

text \<open>
  Mini-KVM: a small KVM-based virtual machine monitor (\<^verbatim>\<open>src/kvm-vmm-x86/src\<close>) and the guests it
  runs. This library models the VMM and its largest guest, the 1K OS
  (\<^verbatim>\<open>src/kvm-vmm-x86/os-1k\<close>), and states what makes them correct.

  How the program is put together. \<^verbatim>\<open>main\<close> (\<^verbatim>\<open>main.c\<close>) reads the command line, gives every guest a
  memory region, loads its image (raw, or a Linux bzImage with \<^verbatim>\<open>linux_boot.c\<close>), writes descriptor
  and page tables into guest memory (\<^verbatim>\<open>main.c\<close>, \<^verbatim>\<open>paging_64.c\<close>), configures the vCPU through KVM
  (\<^verbatim>\<open>cpuid.c\<close>, \<^verbatim>\<open>msr.c\<close>), and starts one thread per vCPU and one that reads the terminal. A vCPU
  thread runs the guest until KVM reports an exit, which \<^verbatim>\<open>handle_vm_exit\<close> serves: port I/O to the
  emulated UART, to legacy ports and to the hypercall port, and debug exits. The threads share the
  devices; console input goes through a ring buffer under a lock. The 1K OS is a paging guest: the VMM
  starts its kernel at 0x1000 of a 4 MB region with the page tables of \<open>Paging32\<close>; the kernel builds its
  own address spaces, starts one shell, and all its console I/O are hypercalls that \<open>Vm_Exit\<close> serves.

  Theories and what they model.
   \<^item> \<open>Kvm_Prelude\<close>: word types, little-endian bytes, hexadecimal text, loops that may fail. The locales
     \<open>step_preorder\<close> and \<open>step_invariant\<close> lift what one step of a transition system preserves to its runs; the
     threads of the VMM and the kernel of the 1K OS are their instances.
   \<^item> \<open>Guest_Memory\<close>: the mapping of guest memory as bytes with bounds. An access outside it is
     \<open>None\<close>. The locale \<open>byte_memory\<close> has the laws of reads and writes; its lemmas on tables of
     equal entries carry the proofs about page tables, gates and vectors.
   \<^item> \<open>Keyboard\<close>: the input ring; the locale \<open>input_queue\<close> (a bounded first-in first-out queue) is
     what its clients use, and the ring is shown to provide it.
   \<^item> \<open>Devices\<close>: the UART, the legacy ports, the interrupt line, the console and the vCPU colours,
     with the device invariant \<open>dev_inv\<close>.
   \<^item> \<open>Vcpu\<close>: registers as KVM exchanges them, and the per-vCPU context.
   \<^item> \<open>Vm_Exit\<close>: hypercalls, port I/O, single-stepping, the exit switch and the thread loop; results,
     memory safety, the GETCHAR protocol, and the single-step invariant \<open>step_inv\<close>.
   \<^item> \<open>Vmm_System\<close>: the threads as a step relation on a shared state; invariants of all reachable
     states by rule induction, order of console input, isolation; the terminal mode.
   \<^item> \<open>Paging32\<close>, \<open>Paging64\<close>: the builders of the page tables against the walks of the source.
   \<^item> \<open>Cpuid_Msr\<close>: the CPUID table and the model-specific registers.
   \<^item> \<open>Descriptors\<close>: GDT, IDT, IVT and cached segment registers, with decoders for what the
     processor reads back: every field of a segment (\<open>long_view\<close> keeps those 64-bit mode uses) and of a gate.
   \<^item> \<open>Vcpu_Setup\<close>: memory regions, the entry states of all modes, \<^verbatim>\<open>setup_vcpu_context\<close>, and the
     agreement of the six segment registers with the GDT in memory (\<open>reloads\<close>). KVM is a
     parameter: a predicate says which system calls fail; a call that succeeds has its documented
     effect.
   \<^item> \<open>Linux_Boot\<close>: the zero page, the bzImage and the initrd in guest memory.
   \<^item> \<open>Vmm_Cli\<close>: the command line, guest names, image loading, and the start of a guest from its
     image to a runnable vCPU.
   \<^item> \<open>Vmm_Lifecycle\<close>: what \<^verbatim>\<open>main\<close> holds of the host: descriptors, mappings, threads, terminal mode, on
     every path from \<^verbatim>\<open>init_kvm\<close> to the clean-up labels. The books (\<open>acct\<close>) say that what is open and mapped
     is exactly what the initialised contexts own.
   \<^item> \<open>Vmm_Debug\<close> (\<^verbatim>\<open>debug.c\<close>, \<^verbatim>\<open>dump_msrs\<close>, \<^verbatim>\<open>print_cpuid_entry\<close>), \<open>Vmm_Report\<close> (\<^verbatim>\<open>main.c\<close>): what the VMM
     prints, as text: dumps, reports of exits, messages about the command line. Also the timer thread.
   \<^item> \<open>Test_Long_Mode\<close> (\<^verbatim>\<open>test_long_mode.c\<close>): the tables and register states of the stand-alone test.
   \<^item> \<open>Os_Lib\<close> (\<^verbatim>\<open>common.c\<close>): memory and string functions on guest memory, \<^verbatim>\<open>printf\<close> as the text it prints.
   \<^item> \<open>Os_Memory\<close> (\<^verbatim>\<open>kernel.c\<close>): page allocator, \<^verbatim>\<open>map_page\<close> and the address space of a process. The
     abstraction of a page directory with its tables is a map from page numbers to entries
     (\<open>address_space\<close>), of which \<^verbatim>\<open>map_page\<close> is an update.
   \<^item> \<open>Os_Process\<close> (\<^verbatim>\<open>kernel.c\<close>): process table, creation, context switch, scheduler, interrupt gates. The
     locale \<open>fair_choice\<close> is the contract under which a scheduler is fair; \<^verbatim>\<open>yield\<close> is shown to meet it.
   \<^item> \<open>Os_Fs\<close> (\<^verbatim>\<open>kernel.c\<close>): file table and tar image in RAM.
   \<^item> \<open>Os_Boot\<close> (\<^verbatim>\<open>kernel.c\<close>): \<^verbatim>\<open>kernel_main\<close> as the composition of the parts.
   \<^item> \<open>Os_Traps\<close> (\<^verbatim>\<open>kernel.c\<close>): \<^verbatim>\<open>handle_syscall\<close> behind \<^verbatim>\<open>handle_trap\<close>, with the caller's pointers translated by its
     page tables, and the timer interrupt.
   \<^item> \<open>Os_Kernel\<close>: the kernel as a transition system of creations, yields, traps and interrupts, and the typing
     \<open>kernel_wf\<close> of all its states.
   \<^item> \<open>Test_Kernel\<close> (\<^verbatim>\<open>test_kernel.c\<close>, \<^verbatim>\<open>test_simple.c\<close>): the test kernels on the page tables and the exit handler of
     the VMM.
   \<^item> \<open>Initramfs\<close> (\<^verbatim>\<open>initramfs/init.c\<close>, \<^verbatim>\<open>miniutils.c\<close>): init as a stream of system calls that the answers of
     \<^verbatim>\<open>fork\<close> determine, and the applets.
   \<^item> \<open>User_Lib\<close> (\<^verbatim>\<open>user.c\<close>), \<open>Os_Shell\<close> (\<^verbatim>\<open>shell.c\<close>): user programs as functions from the answers of the
     VMM to what they write and how they end (\<open>outcome\<close>); a program that blocks is \<open>Waits\<close>. The
     specification of \<^verbatim>\<open>readline\<close> is the line editor \<open>edit_line\<close>, that of the calculator's undefined
     behaviour a reading of its lines (\<open>overflows\<close>) as numbers and results outside the \<^verbatim>\<open>int\<close> range.
   \<^item> \<open>Os_Console\<close>: a session with the shell through the VMM: keys by the monitor and the GETCHAR
     hypercall to \<^verbatim>\<open>readline\<close>, characters by the PUTCHAR hypercall to the console. Which keys the shell has
     been given is a function of the requests (\<open>typed_by\<close>).

  What the lemmas show. Refinement of the ring by a list queue; functional correctness of the table
  builders against the walks and decoders; frame lemmas (what a builder leaves alone); success and
  failure of the set-up chains; invariants over every interleaving of the threads. Several
  properties state behaviour of the code that its authors did not intend: an exit limit that is
  never applied, bounds checks that wrap, page tables that overwrite the image, a clean-up that closes
  the standard input. For the 1K OS: refinement of page-map updates and of a line editor, the view of
  memory a process gets, fairness of the scheduler, round trips of context switches and of the file
  image, of system calls and of dumps, a boot that ends in the shell, a typing of every reachable kernel
  state; and a swapped gate, a wrong first stack frame, an image too small
  for its files.

  Bounds and fuel. \<open>uart_drain\<close> polls with fuel, for which the length of the queue is enough.
  Everything else is structural recursion, a loop over a fixed range, or a \<^verbatim>\<open>while\<close> loop with a
  measure: the bytes of guest memory left for C strings, the input left for user programs.

  Not modelled: the log lines that \<^verbatim>\<open>--verbose\<close> adds while a guest runs, progress messages of the set-up,
  allocation failures of the host, races inside one exit. Of the 1K OS: \<^verbatim>\<open>start\<close> and \<^verbatim>\<open>exit\<close>, which are assembly
  around one call or hypercall; its process table is kept apart from RAM, so a stray write of the kernel into it is
  not seen. The assembly guests, the boot code, the parts of \<^verbatim>\<open>main.c\<close> disabled by \<^verbatim>\<open>#if 0\<close>, and the separate
  experiments under \<^verbatim>\<open>src/experimental\<close> are not modelled.
\<close>

end
